(* ===== verification/Prelude.thy ===== *)
theory Prelude
  imports Main "HOL-Library.Word" "HOL-Library.AList" "HOL-Library.List_Lexorder"
begin

text \<open>
  What every component of the development shares: JavaScript strings as sequences of
  UTF-16 code units, the \<open>number\<close> type as far as the code observes it, positional
  notation (\<open>toString(radix)\<close>, \<open>parseInt\<close>, \<open>padStart\<close>), records with string keys as
  association lists in insertion order, and the rule that lifts an invariant of one
  step to every reachable state.
\<close>

section \<open>Rule collections\<close>

named_theorems str_simps \<open>evaluation of literals, code units and character classes\<close>
named_theorems obj_simps \<open>look-ups in and keys of insertion-ordered objects\<close>

section \<open>Strings\<close>

text \<open>A JavaScript string is a list of 16-bit code units; comparison by \<open><\<close> is lexicographic.\<close>

type_synonym cu = "16 word"
type_synonym str = "cu list"

definition cu_of :: "char \<Rightarrow> cu" where
  "cu_of c = of_nat (of_char c)"

definition lit :: "string \<Rightarrow> str" where
  "lit s = map cu_of s"

lemma unat_cu_of [simp]: "unat (cu_of c) = of_char c"
proof -
  have "of_char c < (256::nat)" by simp
  then have "of_char c < (2::nat) ^ 16"
    by (rule order_less_le_trans) simp
  then show ?thesis
    by (simp add: cu_of_def unat_of_nat take_bit_nat_eq_self)
qed

lemma cu_of_inject [simp]: "cu_of c = cu_of d \<longleftrightarrow> c = d"
  by (metis unat_cu_of of_char_eq_iff)

lemma lit_inject [simp]: "lit s = lit t \<longleftrightarrow> s = t"
  by (simp add: lit_def inj_map_eq_map inj_def)

lemma lit_Nil [simp]: "lit [] = []" "lit s = [] \<longleftrightarrow> s = []" "[] = lit s \<longleftrightarrow> s = []"
  by (auto simp: lit_def)

lemma length_lit [simp]: "length (lit s) = length s"
  by (simp add: lit_def)

lemma lit_append [simp]: "lit s @ lit t = lit (s @ t)"
  by (simp add: lit_def)

lemma lit_append_right [simp]: "lit s @ (lit t @ u) = lit (s @ t) @ u"
  by (simp add: lit_def)

lemma in_set_lit: "x \<in> set (lit s) \<longleftrightarrow> (\<exists>c \<in> set s. x = cu_of c)"
  by (auto simp: lit_def)

lemmas lit_eval [str_simps] = lit_def cu_of_def

text \<open>Character classes of the regular expressions.\<close>

definition is_digit :: "cu \<Rightarrow> bool" where
  "is_digit c \<longleftrightarrow> 48 \<le> c \<and> c \<le> 57"

definition is_lower :: "cu \<Rightarrow> bool" where
  "is_lower c \<longleftrightarrow> 97 \<le> c \<and> c \<le> 122"

definition is_upper :: "cu \<Rightarrow> bool" where
  "is_upper c \<longleftrightarrow> 65 \<le> c \<and> c \<le> 90"

definition is_alnum :: "cu \<Rightarrow> bool" where
  "is_alnum c \<longleftrightarrow> is_digit c \<or> is_lower c \<or> is_upper c"

definition is_lhex :: "cu \<Rightarrow> bool" where
  "is_lhex c \<longleftrightarrow> is_digit c \<or> 97 \<le> c \<and> c \<le> 102"

definition is_hex :: "cu \<Rightarrow> bool" where
  "is_hex c \<longleftrightarrow> is_lhex c \<or> 65 \<le> c \<and> c \<le> 70"

lemmas char_classes [str_simps] =
  is_digit_def is_lower_def is_upper_def is_alnum_def is_lhex_def is_hex_def

text \<open>A string all of whose units are in a class, with bounds on the length: \<open>^[class]{lo,hi}$\<close>.\<close>

definition matches :: "(cu \<Rightarrow> bool) \<Rightarrow> nat \<Rightarrow> nat \<Rightarrow> str \<Rightarrow> bool" where
  "matches P lo hi s \<longleftrightarrow> lo \<le> length s \<and> length s \<le> hi \<and> list_all P s"

section \<open>Numbers\<close>

text \<open>
  A JavaScript number as the code observes it. A finite non-integral double is
  \<open>Frac n\<close>, strictly between \<open>n\<close> and \<open>n + 1\<close>: the code only asks such a value whether it
  is integral or finite and compares it with integers, which the floor decides.
\<close>

datatype number = Whole int | Frac int | PosInf | NegInf | NaN

definition max_safe :: int where
  "max_safe = 9007199254740991"

fun is_integer :: "number \<Rightarrow> bool" where
  "is_integer (Whole i) = True"
| "is_integer _ = False"

fun is_safe_integer :: "number \<Rightarrow> bool" where
  "is_safe_integer (Whole i) = (\<bar>i\<bar> \<le> max_safe)"
| "is_safe_integer _ = False"

fun is_finite :: "number \<Rightarrow> bool" where
  "is_finite (Whole i) = True"
| "is_finite (Frac i) = True"
| "is_finite _ = False"

text \<open>\<open>x < n\<close> and \<open>x > n\<close> for an integer \<open>n\<close>; both are false on \<open>NaN\<close>.\<close>

fun num_lt :: "number \<Rightarrow> int \<Rightarrow> bool" where
  "num_lt (Whole i) n = (i < n)"
| "num_lt (Frac i) n = (i < n)"
| "num_lt NegInf n = True"
| "num_lt _ n = False"

fun num_gt :: "number \<Rightarrow> int \<Rightarrow> bool" where
  "num_gt (Whole i) n = (i > n)"
| "num_gt (Frac i) n = (i \<ge> n)"
| "num_gt PosInf n = True"
| "num_gt _ n = False"

text \<open>\<open>===\<close> between numbers: \<open>NaN\<close> differs from itself.\<close>

fun num_eq :: "number \<Rightarrow> int \<Rightarrow> bool" where
  "num_eq (Whole i) n = (i = n)"
| "num_eq _ n = False"

lemma is_safe_integerE [elim?]:
  assumes "is_safe_integer x" obtains i where "x = Whole i" "\<bar>i\<bar> \<le> max_safe"
  using assms by (cases x) auto

lemma is_integerE [elim?]:
  assumes "is_integer x" obtains i where "x = Whole i"
  using assms by (cases x) auto

text \<open>The checked range \<open>Number.isInteger(x) && x >= lo && x <= hi\<close> of many guards.\<close>

definition int_in :: "int \<Rightarrow> int \<Rightarrow> number \<Rightarrow> bool" where
  "int_in lo hi x \<longleftrightarrow> is_integer x \<and> \<not> num_lt x lo \<and> \<not> num_gt x hi"

lemma int_in_Whole [simp]: "int_in lo hi (Whole i) \<longleftrightarrow> lo \<le> i \<and> i \<le> hi"
  by (auto simp: int_in_def)

lemma int_in_iff: "int_in lo hi x \<longleftrightarrow> (\<exists>i. x = Whole i \<and> lo \<le> i \<and> i \<le> hi)"
  by (cases x) (auto simp: int_in_def)

section \<open>Positional notation\<close>

definition digit_char :: "nat \<Rightarrow> cu" where
  "digit_char d = (if d < 10 then of_nat (48 + d) else of_nat (87 + d))"

definition digit_val :: "cu \<Rightarrow> nat" where
  "digit_val c = (if is_digit c then unat c - 48 else if 97 \<le> c then unat c - 87 else unat c - 55)"

text \<open>\<open>n.toString(b)\<close> for a natural \<open>n\<close>.\<close>

function show_base :: "nat \<Rightarrow> nat \<Rightarrow> str" where
  "show_base b n =
     (if n < b \<or> b < 2 then [digit_char n] else show_base b (n div b) @ [digit_char (n mod b)])"
  by pat_completeness auto
termination
  by (relation "measure (\<lambda>(b, n). n)") auto

declare show_base.simps [simp del]

definition val_base :: "nat \<Rightarrow> str \<Rightarrow> nat" where
  "val_base b s = foldl (\<lambda>a c. a * b + digit_val c) 0 s"

definition pad_start :: "nat \<Rightarrow> str \<Rightarrow> str" where
  "pad_start w s = replicate (w - length s) 48 @ s"

text \<open>\<open>String(i)\<close> for an integral number below \<open>10\<^sup>21\<close>, and the value of a decimal integer text.\<close>

definition show_int :: "int \<Rightarrow> str" where
  "show_int i = (if i < 0 then 45 # show_base 10 (nat (- i)) else show_base 10 (nat i))"

definition val_int :: "str \<Rightarrow> int" where
  "val_int s = (case s of [] \<Rightarrow> 0
     | c # cs \<Rightarrow> if c = 45 then - int (val_base 10 cs) else int (val_base 10 s))"

lemma unat_cu_small: "n < 65536 \<Longrightarrow> unat (of_nat n :: cu) = n"
  by (simp add: unat_of_nat take_bit_nat_eq_self)

text \<open>The sixteen digits, checked one by one.\<close>

definition digit_ok :: "nat \<Rightarrow> bool" where
  "digit_ok d \<longleftrightarrow> is_lhex (digit_char d) \<and> digit_val (digit_char d) = d
     \<and> (d < 10 \<longrightarrow> is_digit (digit_char d)) \<and> digit_char d \<noteq> 45
     \<and> (digit_char d = 48 \<longleftrightarrow> d = 0)
     \<and> (\<forall>e \<in> set [0..<16]. digit_char d < digit_char e \<longleftrightarrow> d < e)"

lemma digits_ok: "\<forall>d \<in> set [0..<16]. digit_ok d"
  by code_simp

lemma digit_char_ok:
  assumes "d < 16"
  shows "is_lhex (digit_char d)" "digit_val (digit_char d) = d"
    "d < 10 \<Longrightarrow> is_digit (digit_char d)" "digit_char d \<noteq> 45"
    "digit_char d = 48 \<longleftrightarrow> d = 0"
    "e < 16 \<Longrightarrow> digit_char d < digit_char e \<longleftrightarrow> d < e"
  using digits_ok assms by (auto simp: digit_ok_def simp del: upt_Suc)

lemma digit_char_inj: "d < 16 \<Longrightarrow> e < 16 \<Longrightarrow> digit_char d = digit_char e \<longleftrightarrow> d = e"
  by (metis digit_char_ok(2))

lemma val_base_snoc [simp]: "val_base b (s @ [c]) = val_base b s * b + digit_val c"
  by (simp add: val_base_def)

lemma val_base_Nil [simp]: "val_base b [] = 0"
  by (simp add: val_base_def)

lemma val_base_single [simp]: "val_base b [c] = digit_val c"
  by (simp add: val_base_def)

lemma show_int_nat [simp]: "show_int (int n) = show_base 10 n"
  by (simp add: show_int_def)

lemma val_show_base:
  assumes "2 \<le> b" "b \<le> 16" shows "val_base b (show_base b n) = n"
  using assms
proof (induction b n rule: show_base.induct)
  case (1 b n)
  show ?case
  proof (cases "n < b")
    case True
    with 1 show ?thesis
      by (simp add: show_base.simps[of b n] val_base_def digit_char_ok)
  next
    case False
    moreover have "n mod b < 16" using 1 mod_less_divisor[of b n] by linarith
    ultimately show ?thesis
      using 1 by (simp add: show_base.simps[of b n] digit_char_ok)
  qed
qed

lemma show_base_nonempty [simp]: "show_base b n \<noteq> []"
  by (subst show_base.simps) simp

lemma show_base_10_digits: "list_all is_digit (show_base 10 n)"
proof (induction "10::nat" n rule: show_base.induct)
  case (1 n)
  then show ?case
    by (cases "n < 10") (simp_all add: show_base.simps[of 10 n] digit_char_ok)
qed

lemma show_base_16_lhex: "list_all is_lhex (show_base 16 n)"
proof (induction "16::nat" n rule: show_base.induct)
  case (1 n)
  then show ?case
    by (cases "n < 16") (simp_all add: show_base.simps[of 16 n] digit_char_ok)
qed

text \<open>No leading zero: the printed text starts with 0 only when it is 0.\<close>

lemma show_base_10_hd: "hd (show_base 10 n) = 48 \<longleftrightarrow> n = 0"
proof (induction "10::nat" n rule: show_base.induct)
  case (1 n)
  then show ?case
    by (cases "n < 10") (auto simp: show_base.simps[of 10 n] digit_char_ok hd_append)
qed

lemma hd_show_base_10: "is_digit (hd (show_base 10 n))"
  using show_base_10_digits[of n] by (cases "show_base 10 n") auto

lemma not_digit_minus [simp]: "\<not> is_digit 45"
  by (simp add: is_digit_def)

lemma val_show_int: "val_int (show_int i) = i"
proof (cases "i < 0")
  case True
  then show ?thesis by (simp add: show_int_def val_int_def val_show_base)
next
  case False
  obtain c cs where s: "show_base 10 (nat i) = c # cs"
    using show_base_nonempty by (meson neq_Nil_conv)
  then have "c \<noteq> 45" using hd_show_base_10[of "nat i"] by auto
  with False s show ?thesis
    using val_show_base[of 10 "nat i"] by (simp add: show_int_def val_int_def)
qed

text \<open>The regular expressions \<open>^(0|[1-9][0-9]*)$\<close> and \<open>^-?(0|[1-9][0-9]*)$\<close>.\<close>

definition is_decimal :: "str \<Rightarrow> bool" where
  "is_decimal s \<longleftrightarrow> s = [48] \<or> (s \<noteq> [] \<and> hd s \<noteq> 48 \<and> list_all is_digit s)"

definition is_signed_decimal :: "str \<Rightarrow> bool" where
  "is_signed_decimal s \<longleftrightarrow> is_decimal s \<or> (\<exists>t. s = 45 # t \<and> is_decimal t)"

lemma is_signed_decimal_code [code]:
  "is_signed_decimal s = (is_decimal s \<or> (case s of [] \<Rightarrow> False | c # t \<Rightarrow> c = 45 \<and> is_decimal t))"
  by (auto simp: is_signed_decimal_def split: list.splits)

lemma digit_char_val: "is_digit c \<Longrightarrow> digit_val c < 10 \<and> digit_char (digit_val c) = c"
  by (auto simp: digit_char_def digit_val_def is_digit_def word_le_nat_alt)

lemma val_base_pos: "s \<noteq> [] \<Longrightarrow> hd s \<noteq> 48 \<Longrightarrow> list_all is_digit s \<Longrightarrow> 0 < val_base 10 s"
proof (induction s rule: rev_induct)
  case (snoc c s)
  show ?case
  proof (cases "s = []")
    case True
    then have "digit_char (digit_val c) = c" "c \<noteq> 48" using snoc.prems by (auto simp: digit_char_val)
    moreover have "digit_char 0 = 48" by (simp add: digit_char_def)
    ultimately have "digit_val c \<noteq> 0" by metis
    with True show ?thesis by simp
  next
    case False
    with snoc show ?thesis by simp
  qed
qed simp

text \<open>Decimal text without a leading zero is the text its value prints.\<close>

lemma show_val_decimal:
  assumes "is_decimal s" shows "show_base 10 (val_base 10 s) = s"
proof (cases "s = [48]")
  case True
  then show ?thesis by (simp add: val_base_def digit_val_def is_digit_def show_base.simps[of 10 0] digit_char_def)
next
  case False
  then have "s \<noteq> []" "hd s \<noteq> 48" "list_all is_digit s"
    using assms by (auto simp: is_decimal_def)
  then show ?thesis
  proof (induction s rule: rev_induct)
    case (snoc c s)
    have c: "digit_val c < 10" "digit_char (digit_val c) = c" using snoc.prems digit_char_val by auto
    show ?case
    proof (cases "s = []")
      case True
      with c show ?thesis by (simp add: show_base.simps[of 10 "digit_val c"])
    next
      case s: False
      then have "0 < val_base 10 s" using snoc.prems val_base_pos by simp
      then have "show_base 10 (val_base 10 s * 10 + digit_val c)
          = show_base 10 (val_base 10 s) @ [c]"
        using c by (subst show_base.simps) simp
      then show ?thesis using s snoc by simp
    qed
  qed simp
qed

lemma is_decimal_show: "is_decimal (show_base 10 n)"
proof (cases "n = 0")
  case True
  then show ?thesis by (simp add: is_decimal_def show_base.simps[of 10 0] digit_char_def)
next
  case False
  then show ?thesis using show_base_10_hd[of n] show_base_10_digits[of n] by (simp add: is_decimal_def)
qed

lemma is_decimal_iff: "is_decimal s \<longleftrightarrow> (\<exists>n. s = show_base 10 n)"
  using show_val_decimal is_decimal_show by metis

lemma is_decimal_hd: "is_decimal s \<Longrightarrow> hd s \<noteq> 45"
  by (auto simp: is_decimal_def list_all_iff neq_Nil_conv)

lemma val_int_decimal: "is_decimal s \<Longrightarrow> val_int s = int (val_base 10 s)"
  by (cases s) (auto simp: val_int_def is_decimal_def)

text \<open>A signed decimal text is what its value prints, but for the spelling \<open>-0\<close>.\<close>

lemma signed_decimal_iff:
  "is_signed_decimal s \<and> val_int s = i \<longleftrightarrow> s = show_int i \<or> s = [45, 48] \<and> i = 0"
proof
  assume h: "is_signed_decimal s \<and> val_int s = i"
  show "s = show_int i \<or> s = [45, 48] \<and> i = 0"
  proof (cases "is_decimal s")
    case True
    then show ?thesis using h show_val_decimal[OF True] val_int_decimal[OF True]
      by (metis show_int_nat)
  next
    case False
    then obtain t where t: "s = 45 # t" "is_decimal t" using h by (auto simp: is_signed_decimal_def)
    then have v: "i = - int (val_base 10 t)" using h by (simp add: val_int_def)
    show ?thesis
    proof (cases "val_base 10 t = 0")
      case True
      then have "t = [48]" using show_val_decimal[OF t(2)]
        by (simp add: show_base.simps[of 10 0] digit_char_def)
      with t v show ?thesis by (simp add: val_base_def digit_val_def is_digit_def)
    next
      case False
      then show ?thesis using t v show_val_decimal[OF t(2)] by (simp add: show_int_def)
    qed
  qed
next
  assume "s = show_int i \<or> s = [45, 48] \<and> i = 0"
  then show "is_signed_decimal s \<and> val_int s = i"
  proof
    assume s: "s = show_int i"
    then have "val_int s = i" by (simp add: val_show_int)
    moreover have "is_signed_decimal s" using s is_decimal_show
      by (auto simp: show_int_def is_signed_decimal_def)
    ultimately show ?thesis by simp
  next
    assume "s = [45, 48] \<and> i = 0"
    then show ?thesis
      by (simp add: is_signed_decimal_def is_decimal_def val_int_def val_base_def digit_val_def is_digit_def)
  qed
qed

lemma length_show_base_10: "n < 10 ^ Suc w \<Longrightarrow> length (show_base 10 n) \<le> Suc w"
proof (induction w arbitrary: n)
  case 0
  then show ?case by (simp add: show_base.simps[of 10 n])
next
  case (Suc w)
  show ?case
  proof (cases "n < 10")
    case False
    then have "length (show_base 10 (n div 10)) \<le> Suc w"
      using Suc by (simp add: less_mult_imp_div_less)
    with False show ?thesis by (simp add: show_base.simps[of 10 n])
  qed (simp add: show_base.simps[of 10 n])
qed

subsection \<open>Fixed-width hexadecimal\<close>

text \<open>\<open>n.toString(16).padStart(w, '0')\<close>, and the same digits from the most significant one.\<close>

definition hex_pad :: "nat \<Rightarrow> nat \<Rightarrow> str" where
  "hex_pad w n = pad_start w (show_base 16 n)"

fun hex_fix :: "nat \<Rightarrow> nat \<Rightarrow> str" where
  "hex_fix 0 n = []"
| "hex_fix (Suc w) n = hex_fix w (n div 16) @ [digit_char (n mod 16)]"

lemma hex_fix_zero: "hex_fix w 0 = replicate w 48"
  by (induction w) (simp_all add: digit_char_def replicate_append_same)

lemma pad_start_snoc: "pad_start (Suc w) (s @ [c]) = pad_start w s @ [c]"
  by (simp add: pad_start_def)

lemma hex_pad_fix: "n < 16 ^ w \<Longrightarrow> 0 < w \<Longrightarrow> hex_pad w n = hex_fix w n"
proof (induction w arbitrary: n)
  case 0
  then show ?case by simp
next
  case (Suc w)
  show ?case
  proof (cases "n < 16")
    case True
    then show ?thesis
      by (simp add: hex_pad_def show_base.simps[of 16 n] pad_start_def hex_fix_zero)
  next
    case False
    have w: "0 < w" using Suc.prems False by (cases w) auto
    have "n div 16 < 16 ^ w" using Suc.prems by (simp add: less_mult_imp_div_less mult.commute)
    then have "hex_pad w (n div 16) = hex_fix w (n div 16)" using Suc.IH w by blast
    with False show ?thesis
      by (simp add: hex_pad_def show_base.simps[of 16 n] pad_start_snoc)
  qed
qed

lemma length_hex_fix [simp]: "length (hex_fix w n) = w"
  by (induction w arbitrary: n) auto

lemma hex_fix_lhex: "list_all is_lhex (hex_fix w n)"
  by (induction w arbitrary: n) (auto simp: digit_char_ok)

lemma val_hex_fix: "n < 16 ^ w \<Longrightarrow> val_base 16 (hex_fix w n) = n"
proof (induction w arbitrary: n)
  case (Suc w)
  then have "n div 16 < 16 ^ w" by (simp add: less_mult_imp_div_less mult.commute)
  with Suc.IH show ?case by (simp add: digit_char_ok)
qed simp

lemma append_less_iff:
  fixes xs ys :: "'a::linorder list"
  assumes "length xs = length ys"
  shows "xs @ us < ys @ vs \<longleftrightarrow> xs < ys \<or> xs = ys \<and> us < vs"
  using assms by (induction xs ys rule: list_induct2) auto

lemma hex_fix_inj: "n < 16 ^ w \<Longrightarrow> m < 16 ^ w \<Longrightarrow> hex_fix w n = hex_fix w m \<longleftrightarrow> n = m"
  by (metis val_hex_fix)

lemma less_by_div_mod:
  fixes q r q' r' b :: nat
  assumes "r < b" "r' < b"
  shows "q * b + r < q' * b + r' \<longleftrightarrow> q < q' \<or> q = q' \<and> r < r'"
proof (cases q q' rule: linorder_cases)
  case less
  then have "q * b + b \<le> q' * b" by (metis Suc_leI add.commute mult_Suc mult_le_mono1)
  with assms less show ?thesis by linarith
next
  case greater
  then have "q' * b + b \<le> q * b" by (metis Suc_leI add.commute mult_Suc mult_le_mono1)
  with assms greater show ?thesis by linarith
qed auto

text \<open>Numeric order and the lexicographic order of the digits agree at a fixed width.\<close>

lemma hex_fix_less:
  assumes "n < 16 ^ w" "m < 16 ^ w"
  shows "hex_fix w n < hex_fix w m \<longleftrightarrow> n < m"
  using assms
proof (induction w arbitrary: n m)
  case 0
  then show ?case by simp
next
  case (Suc w)
  have b: "n div 16 < 16 ^ w" "m div 16 < 16 ^ w"
    using Suc.prems by (simp_all add: less_mult_imp_div_less mult.commute)
  have "hex_fix (Suc w) n < hex_fix (Suc w) m \<longleftrightarrow>
      n div 16 < m div 16 \<or> n div 16 = m div 16 \<and> n mod 16 < m mod 16"
    by (simp add: append_less_iff Suc.IH b hex_fix_inj digit_char_ok(6))
  also have "\<dots> \<longleftrightarrow> n < m"
    using less_by_div_mod[of "n mod 16" 16 "m mod 16" "n div 16" "m div 16"] by simp
  finally show ?case .
qed

section \<open>Objects with string keys\<close>

text \<open>
  An object used as a record of values, and a \<open>Map\<close>: entries in insertion order.
  Assigning a present key keeps its place, a new key goes to the end (\<open>AList.update\<close>).
\<close>

type_synonym 'v obj = "(str \<times> 'v) list"

text \<open>\<open>{ ...a, ...b }\<close>\<close>

definition spread :: "'v obj \<Rightarrow> 'v obj \<Rightarrow> 'v obj" where
  "spread a b = fold (\<lambda>(k, v). AList.update k v) b a"

definition keys_of :: "('k \<times> 'v) list \<Rightarrow> 'k list" where
  "keys_of o1 = map fst o1"

definition obj_has :: "('k \<times> 'v) list \<Rightarrow> 'k \<Rightarrow> bool" where
  "obj_has o1 k \<longleftrightarrow> k \<in> set (keys_of o1)"

definition wf_obj :: "('k \<times> 'v) list \<Rightarrow> bool" where
  "wf_obj o1 \<longleftrightarrow> distinct (keys_of o1)"

lemma wf_obj_Nil [simp]: "wf_obj []"
  by (simp add: wf_obj_def keys_of_def)

lemma wf_obj_update [intro, simp]: "wf_obj al \<Longrightarrow> wf_obj (AList.update k v al)"
  by (simp add: wf_obj_def keys_of_def distinct_update)

lemma wf_obj_spread [intro]: "wf_obj a \<Longrightarrow> wf_obj (spread a b)"
  unfolding spread_def by (induction b arbitrary: a) auto

lemma spread_eq_Nil [simp]: "spread a b = [] \<longleftrightarrow> a = [] \<and> b = []"
proof (induction b arbitrary: a)
  case (Cons x b)
  obtain k v where x: "x = (k, v)" by (cases x)
  have "AList.update k v a \<noteq> []" by (cases a) auto
  with Cons show ?case by (simp add: spread_def x)
qed (simp add: spread_def)

lemma map_of_spread [obj_simps]:
  "map_of (spread a b) k = (case map_of (rev b) k of Some v \<Rightarrow> Some v | None \<Rightarrow> map_of a k)"
  unfolding spread_def
proof (induction b arbitrary: a)
  case (Cons x b)
  then show ?case
    by (cases x) (auto simp: update_conv map_add_def split: option.split)
qed simp

lemma map_of_rev_wf: "wf_obj b \<Longrightarrow> map_of (rev b) k = map_of b k"
  unfolding wf_obj_def keys_of_def
proof (induction b)
  case (Cons x b)
  then have "map_of (rev b) k = map_of b k" by simp
  moreover have "map_of b (fst x) = None" using Cons.prems by (simp add: map_of_eq_None_iff)
  ultimately show ?case by (cases x) (auto simp: map_add_def split: option.split)
qed simp

lemma obj_has_map_of [obj_simps]: "obj_has o1 k \<longleftrightarrow> map_of o1 k \<noteq> None"
  by (simp add: obj_has_def keys_of_def map_of_eq_None_iff)

section \<open>Reachable states\<close>

text \<open>An invariant that one step keeps holds after any number of steps.\<close>

locale step_invariant =
  fixes step :: "'s \<Rightarrow> 's \<Rightarrow> bool" and inv :: "'s \<Rightarrow> bool"
  assumes step_inv: "step s t \<Longrightarrow> inv s \<Longrightarrow> inv t"
begin

lemma steps_inv: "step\<^sup>*\<^sup>* s t \<Longrightarrow> inv s \<Longrightarrow> inv t"
  by (induction rule: rtranclp_induct) (auto intro: step_inv)

end

end
