(* ===== verification/Errors.thy ===== *)
theory Errors
  imports Prelude
begin

text \<open>
  \<open>src/shared/errors\<close>: the closed vocabulary of failure kinds (\<open>kind.ts\<close>), results
  (\<open>result.ts\<close>) and failure values with their private diagnostics (\<open>failure.ts\<close>).
  A constructed \<open>Failure\<close> and an \<open>AppError\<close> are recognised in the code by membership in two
  private weak maps; here they are the two constructors \<open>FailureV\<close> and \<open>AppErrorV\<close>
  of the type of JavaScript values, and every other object is \<open>Foreign\<close>, whatever its
  properties look like.
\<close>

section \<open>Kinds\<close>

datatype kind = Internal | Invalid | Not_found | Conflict | Unauthenticated | Forbidden
  | Rate_limited | Unavailable | Timeout | Canceled

definition KINDS :: "kind list" where
  "KINDS = [Internal, Invalid, Not_found, Conflict, Unauthenticated, Forbidden,
    Rate_limited, Unavailable, Timeout, Canceled]"

fun kind_name :: "kind \<Rightarrow> str" where
  "kind_name Internal = lit ''internal''"
| "kind_name Invalid = lit ''invalid''"
| "kind_name Not_found = lit ''not_found''"
| "kind_name Conflict = lit ''conflict''"
| "kind_name Unauthenticated = lit ''unauthenticated''"
| "kind_name Forbidden = lit ''forbidden''"
| "kind_name Rate_limited = lit ''rate_limited''"
| "kind_name Unavailable = lit ''unavailable''"
| "kind_name Timeout = lit ''timeout''"
| "kind_name Canceled = lit ''canceled''"

lemma kind_name_inject [simp]: "kind_name k = kind_name l \<longleftrightarrow> k = l"
  by (cases k; cases l) simp_all

lemma set_KINDS [simp]: "k \<in> set KINDS"
  by (cases k) (simp_all add: KINDS_def)

section \<open>Values, failures and results\<close>

datatype jsval = Undefined | Null | Bool bool | Num number | Str str | Foreign nat
  | FailureV failure | AppErrorV failure
and failure = Failure (f_kind: kind) (f_message: str) (f_type: "str option")
    (f_fields: "(str \<times> str) list option") (f_cause: jsval) (f_details: "(str \<times> str) list")

text \<open>What an operation may throw instead of returning.\<close>

datatype exn = TypeError str | RangeError str | Thrown jsval

type_synonym 'a result = "failure + 'a"

definition mapError :: "'e + 'a \<Rightarrow> ('e \<Rightarrow> 'f) \<Rightarrow> 'f + 'a" where
  "mapError r fn = (case r of Inr x \<Rightarrow> Inr x | Inl e \<Rightarrow> Inl (fn e))"

fun is_ok :: "'e + 'a \<Rightarrow> bool" where
  "is_ok (Inr _) = True"
| "is_ok (Inl _) = False"

lemma is_okE [elim]: "is_ok r \<Longrightarrow> (\<And>x. r = Inr x \<Longrightarrow> P) \<Longrightarrow> P"
  by (cases r) auto

definition parseKind :: "jsval \<Rightarrow> kind option" where
  "parseKind v = (case v of Str s \<Rightarrow> find (\<lambda>k. kind_name k = s) KINDS | _ \<Rightarrow> None)"

lemma parseKind_name [simp]: "parseKind (Str (kind_name k)) = Some k"
  by (cases k) (simp_all add: parseKind_def KINDS_def)

lemma parseKind_Some: "parseKind v = Some k \<longleftrightarrow> v = Str (kind_name k)"
proof
  assume "parseKind v = Some k"
  then show "v = Str (kind_name k)"
    by (auto simp: parseKind_def find_Some_iff split: jsval.splits)
qed simp

section \<open>Construction and enrichment\<close>

record failure_options =
  o_type :: "str option"
  o_fields :: "str obj option"
  o_details :: "str obj"
  o_cause :: jsval

definition no_options :: failure_options where
  "no_options = \<lparr>o_type = None, o_fields = None, o_details = [], o_cause = Undefined\<rparr>"

text \<open>An empty type is dropped, as the truthiness test of the code does.\<close>

definition nonempty :: "str option \<Rightarrow> str option" where
  "nonempty t = (if t = Some [] then None else t)"

definition failure :: "kind \<Rightarrow> str \<Rightarrow> failure_options \<Rightarrow> failure" where
  "failure k m opts = Failure k m (nonempty (o_type opts))
     (map_option (spread []) (o_fields opts)) (o_cause opts) (spread [] (o_details opts))"

text \<open>The constructor with its run-time check of the kind.\<close>

definition failure_checked :: "jsval \<Rightarrow> str \<Rightarrow> failure_options \<Rightarrow> exn + failure" where
  "failure_checked kv m opts =
     (case parseKind kv of None \<Rightarrow> Inl (TypeError (lit ''unknown failure kind''))
      | Some k \<Rightarrow> Inr (failure k m opts))"

text \<open>The common call: a kind, a message and a type, nothing else.\<close>

definition fail :: "kind \<Rightarrow> string \<Rightarrow> string \<Rightarrow> failure" where
  "fail k m t = failure k (lit m) (no_options\<lparr>o_type := Some (lit t)\<rparr>)"

fun trusted :: "jsval \<Rightarrow> failure option" where
  "trusted (FailureV f) = Some f"
| "trusted (AppErrorV f) = Some f"
| "trusted _ = None"

definition requireFailure :: "jsval \<Rightarrow> exn + failure" where
  "requireFailure v = (case v of FailureV f \<Rightarrow> Inr f
     | _ \<Rightarrow> Inl (TypeError (lit ''expected a Failure constructed by this module'')))"

definition withFields :: "jsval \<Rightarrow> str obj \<Rightarrow> exn + failure" where
  "withFields v fs = (case requireFailure v of Inl e \<Rightarrow> Inl e
     | Inr f \<Rightarrow> Inr (Failure (f_kind f) (f_message f) (f_type f)
         (Some (spread (case f_fields f of None \<Rightarrow> [] | Some o1 \<Rightarrow> o1) fs))
         (f_cause f) (f_details f)))"

definition withDetails :: "jsval \<Rightarrow> str obj \<Rightarrow> exn + failure" where
  "withDetails v ds = (case requireFailure v of Inl e \<Rightarrow> Inl e
     | Inr f \<Rightarrow> Inr (Failure (f_kind f) (f_message f) (f_type f) (f_fields f)
         (f_cause f) (spread (f_details f) ds)))"

definition withCause :: "jsval \<Rightarrow> jsval \<Rightarrow> exn + failure" where
  "withCause v c = (case requireFailure v of Inl e \<Rightarrow> Inl e
     | Inr f \<Rightarrow> Inr (Failure (f_kind f) (f_message f) (f_type f) (f_fields f) c (f_details f)))"

section \<open>Projections\<close>

record public_info =
  pi_kind :: kind
  pi_message :: str
  pi_type :: "str option"
  pi_fields :: "str obj option"

definition kindOf :: "jsval \<Rightarrow> kind option" where
  "kindOf v = map_option f_kind (trusted v)"

definition publicInfo :: "jsval \<Rightarrow> public_info" where
  "publicInfo v = (case trusted v of
     None \<Rightarrow> \<lparr>pi_kind = Internal, pi_message = lit ''internal error'', pi_type = None, pi_fields = None\<rparr>
   | Some f \<Rightarrow>
       if f_kind f = Internal
       then \<lparr>pi_kind = Internal, pi_message = lit ''internal error'', pi_type = None, pi_fields = None\<rparr>
       else \<lparr>pi_kind = f_kind f,
             pi_message = (if f_message f = [] then lit ''request failed'' else f_message f),
             pi_type = nonempty (f_type f),
             pi_fields = f_fields f\<rparr>)"

definition detailsOf :: "jsval \<Rightarrow> str obj" where
  "detailsOf v = (case trusted v of None \<Rightarrow> [] | Some f \<Rightarrow> f_details f)"

definition causeOf :: "jsval \<Rightarrow> jsval" where
  "causeOf v = (case trusted v of None \<Rightarrow> Undefined | Some f \<Rightarrow> f_cause f)"

definition fromCaught :: "jsval \<Rightarrow> failure" where
  "fromCaught v = (case trusted v of Some f \<Rightarrow> f
     | None \<Rightarrow> failure Internal (lit ''unexpected failure'') (no_options\<lparr>o_cause := v\<rparr>))"

text \<open>The exception carrier: an \<open>Error\<close> whose message and cause come from its failure.\<close>

record app_error =
  ae_failure :: failure
  ae_message :: str
  ae_cause :: jsval
  ae_name :: str

definition appError :: "jsval \<Rightarrow> exn + app_error" where
  "appError v = (case requireFailure v of Inl e \<Rightarrow> Inl e
     | Inr f \<Rightarrow> Inr \<lparr>ae_failure = f, ae_message = f_message f, ae_cause = causeOf (FailureV f),
         ae_name = lit ''AppError''\<rparr>)"

definition carrier :: "app_error \<Rightarrow> jsval" where
  "carrier e = AppErrorV (ae_failure e)"

text \<open>The unwrapping helper of the composition roots and of the event codecs: \<open>value(r)\<close>.\<close>

definition unwrap :: "'a result \<Rightarrow> exn + 'a" where
  "unwrap r = (case r of Inr x \<Rightarrow> Inr x | Inl f \<Rightarrow> Inl (Thrown (AppErrorV f)))"

section \<open>Lemmas\<close>

lemma spread_Nil: "wf_obj o1 \<Longrightarrow> map_of (spread [] o1) = map_of o1"
  by (rule ext) (simp add: map_of_spread map_of_rev_wf split: option.split)

lemma fail_simps [simp]:
  "f_kind (fail k m t) = k" "f_message (fail k m t) = lit m" "f_fields (fail k m t) = None"
  "f_cause (fail k m t) = Undefined" "f_details (fail k m t) = []"
  "f_type (fail k m t) = (if t = [] then None else Some (lit t))"
  by (simp_all add: fail_def failure_def no_options_def spread_def nonempty_def)

lemma failure_kind [simp]: "f_kind (failure k m opts) = k"
  by (simp add: failure_def)

lemma failure_message [simp]: "f_message (failure k m opts) = m"
  by (simp add: failure_def)

lemma failure_type [simp]: "f_type (failure k m opts) = nonempty (o_type opts)"
  by (simp add: failure_def)

lemma trusted_None_iff: "trusted v = None \<longleftrightarrow> (\<forall>f. v \<noteq> FailureV f \<and> v \<noteq> AppErrorV f)"
  by (cases v) auto

lemma requireFailure_Inr [simp]: "requireFailure v = Inr f \<longleftrightarrow> v = FailureV f"
  by (cases v) (auto simp: requireFailure_def)

lemma requireFailure_FailureV [simp]: "requireFailure (FailureV f) = Inr f"
  by (simp add: requireFailure_def)

lemma withCause_Inr: "withCause v c = Inr g \<longleftrightarrow> (\<exists>f. v = FailureV f \<and>
    g = Failure (f_kind f) (f_message f) (f_type f) (f_fields f) c (f_details f))"
  by (auto simp: withCause_def split: sum.split)

lemma withDetails_Inr: "withDetails v ds = Inr g \<longleftrightarrow> (\<exists>f. v = FailureV f \<and>
    g = Failure (f_kind f) (f_message f) (f_type f) (f_fields f) (f_cause f) (spread (f_details f) ds))"
  by (auto simp: withDetails_def split: sum.split)

lemma withFields_Inr: "withFields v fs = Inr g \<longleftrightarrow> (\<exists>f. v = FailureV f \<and>
    g = Failure (f_kind f) (f_message f) (f_type f)
      (Some (spread (case f_fields f of None \<Rightarrow> [] | Some o1 \<Rightarrow> o1) fs)) (f_cause f) (f_details f))"
  by (auto simp: withFields_def split: sum.split)

lemma publicInfo_cong:
  "f_kind f = f_kind g \<Longrightarrow> f_message f = f_message g \<Longrightarrow> f_type f = f_type g \<Longrightarrow>
   f_fields f = f_fields g \<Longrightarrow> publicInfo (FailureV f) = publicInfo (FailureV g)"
  by (simp add: publicInfo_def)

lemma publicInfo_carrier [simp]: "publicInfo (AppErrorV f) = publicInfo (FailureV f)"
  by (simp add: publicInfo_def)

lemma publicInfo_kind: "pi_kind (publicInfo v) = (case kindOf v of None \<Rightarrow> Internal | Some k \<Rightarrow> k)"
  by (simp add: publicInfo_def kindOf_def split: option.split)

lemma unwrap_Inr [simp]: "unwrap r = Inr x \<longleftrightarrow> r = Inr x"
  by (auto simp: unwrap_def split: sum.split)

section \<open>Properties\<close>

text \<open>The private annotations an inner layer may add to a failure on its way out.\<close>

datatype annotation = Because jsval | Detail "str obj"

fun annotate :: "annotation list \<Rightarrow> failure \<Rightarrow> exn + failure" where
  "annotate [] f = Inr f"
| "annotate (Because c # xs) f = (case withCause (FailureV f) c of Inl e \<Rightarrow> Inl e | Inr g \<Rightarrow> annotate xs g)"
| "annotate (Detail ds # xs) f = (case withDetails (FailureV f) ds of Inl e \<Rightarrow> Inl e | Inr g \<Rightarrow> annotate xs g)"

fun last_cause :: "annotation list \<Rightarrow> jsval \<Rightarrow> jsval" where
  "last_cause [] c = c"
| "last_cause (Because d # xs) c = last_cause xs d"
| "last_cause (Detail ds # xs) c = last_cause xs c"

lemma annotate_ok:
  "\<exists>g. annotate xs f = Inr g \<and> f_kind g = f_kind f \<and> f_message g = f_message f \<and> f_type g = f_type f
     \<and> f_fields g = f_fields f \<and> f_cause g = last_cause xs (f_cause f)"
  by (induction xs f rule: annotate.induct) (auto simp: withCause_def withDetails_def)

text \<open>
  Private annotations never refuse a constructed failure and never change what a
  transport may show of it; the cause kept is the last one given.
\<close>

lemma annotations_private:
  "\<exists>g. annotate xs f = Inr g \<and> publicInfo (FailureV g) = publicInfo (FailureV f)
     \<and> causeOf (FailureV g) = last_cause xs (causeOf (FailureV f))"
proof -
  obtain g where g: "annotate xs f = Inr g" "f_kind g = f_kind f" "f_message g = f_message f"
    "f_type g = f_type f" "f_fields g = f_fields f" "f_cause g = last_cause xs (f_cause f)"
    using annotate_ok by blast
  then show ?thesis using publicInfo_cong[OF g(2,3,4,5)] by (simp add: causeOf_def)
qed

text \<open>
  Whatever is caught, normalizing it gives a failure with the public meaning of the
  caught value; a value this module did not construct becomes the fixed internal answer
  and survives only as the private cause.
\<close>

lemma caught_boundary:
  "publicInfo (FailureV (fromCaught v)) = publicInfo v
   \<and> (case trusted v of
        None \<Rightarrow> publicInfo v = publicInfo Undefined \<and> causeOf (FailureV (fromCaught v)) = v
      | Some f \<Rightarrow> fromCaught v = f)"
  by (auto simp: fromCaught_def publicInfo_def causeOf_def failure_def no_options_def split: option.split)

end
