(* ===== verification/Validation.thy ===== *)
theory Validation
  imports Errors
begin

text \<open>
  \<open>src/shared/validation/index.ts\<close>: text and decimal checks, and the bounded report that
  keeps the first issue of each field. Strings are split into characters (code points) the
  way the string iterator does, lone surrogates standing alone.
\<close>

section \<open>Characters\<close>

definition is_high :: "cu \<Rightarrow> bool" where
  "is_high c \<longleftrightarrow> 0xD800 \<le> c \<and> c \<le> 0xDBFF"

definition is_low :: "cu \<Rightarrow> bool" where
  "is_low c \<longleftrightarrow> 0xDC00 \<le> c \<and> c \<le> 0xDFFF"

definition is_surrogate :: "cu \<Rightarrow> bool" where
  "is_surrogate c \<longleftrightarrow> 0xD800 \<le> c \<and> c \<le> 0xDFFF"

lemmas surrogate_defs [str_simps] = is_high_def is_low_def is_surrogate_def

text \<open>\<open>[...s]\<close>\<close>

fun chars :: "str \<Rightarrow> str list" where
  "chars [] = []"
| "chars [c] = [[c]]"
| "chars (c # d # s) = (if is_high c \<and> is_low d then [c, d] # chars s else [c] # chars (d # s))"

text \<open>\<open>/[\uD800-\uDFFF]/u.test(s)\<close>: a surrogate that is not half of a pair.\<close>

definition lone_surrogate :: "str \<Rightarrow> bool" where
  "lone_surrogate s \<longleftrightarrow> list_ex (\<lambda>ch. length ch = 1 \<and> is_surrogate (hd ch)) (chars s)"

text \<open>\<open>/^[ \t\r\n]*$/.test(s)\<close>\<close>

definition is_blank :: "str \<Rightarrow> bool" where
  "is_blank s \<longleftrightarrow> list_all (\<lambda>c. c = 32 \<or> c = 9 \<or> c = 13 \<or> c = 10) s"

text \<open>\<open>[...s].some(c => c.charCodeAt(0) < 32 || c.charCodeAt(0) === 127)\<close>\<close>

definition has_control :: "str \<Rightarrow> bool" where
  "has_control s \<longleftrightarrow> list_ex (\<lambda>ch. hd ch < 32 \<or> hd ch = 127) (chars s)"

section \<open>Checks\<close>

definition v_invalid :: "string \<Rightarrow> failure" where
  "v_invalid code = fail Invalid ''invalid input'' (''validation.'' @ code)"

definition text_check :: "jsval \<Rightarrow> number \<Rightarrow> number \<Rightarrow> bool \<Rightarrow> unit result" where
  "text_check v lo hi required =
     (case (lo, hi) of (Whole mn, Whole mx) \<Rightarrow>
        if \<not> is_safe_integer lo \<or> \<not> is_safe_integer hi \<or> mn < 0 \<or> mx < mn
        then Inl (v_invalid ''policy'')
        else (case v of Str s \<Rightarrow>
            if lone_surrogate s then Inl (v_invalid ''text'')
            else let n = int (length (chars s)) in
              if n < mn \<or> n > mx \<or> required \<and> is_blank s then Inl (v_invalid ''text'') else Inr ()
          | _ \<Rightarrow> Inl (v_invalid ''text''))
      | _ \<Rightarrow> Inl (v_invalid ''policy''))"

definition decimal :: "jsval \<Rightarrow> number \<Rightarrow> number \<Rightarrow> int result" where
  "decimal v lo hi =
     (case (lo, hi) of (Whole mn, Whole mx) \<Rightarrow>
        if \<not> is_safe_integer lo \<or> \<not> is_safe_integer hi \<or> mn < 0 \<or> mx < mn \<or> mx > 2147483647
        then Inl (v_invalid ''policy'')
        else (case v of Str s \<Rightarrow>
            if length s > 10 \<or> \<not> is_decimal s then Inl (v_invalid ''decimal'')
            else let n = int (val_base 10 s) in
              if n < mn \<or> n > mx then Inl (v_invalid ''decimal'') else Inr n
          | _ \<Rightarrow> Inl (v_invalid ''decimal''))
      | _ \<Rightarrow> Inl (v_invalid ''policy''))"

section \<open>The report\<close>

record report =
  rp_issues :: "str obj"
  rp_truncated :: bool

definition report_new :: report where
  "report_new = \<lparr>rp_issues = [], rp_truncated = False\<rparr>"

definition field_unit :: "cu \<Rightarrow> bool" where
  "field_unit c \<longleftrightarrow> is_alnum c \<or> c \<in> set (lit ''_.[]-'')"

definition code_unit :: "cu \<Rightarrow> bool" where
  "code_unit c \<longleftrightarrow> is_lower c \<or> is_digit c \<or> c \<in> set (lit ''_.'')"

definition issue_ok :: "jsval \<Rightarrow> jsval \<Rightarrow> (str \<times> str) option" where
  "issue_ok field code = (case (field, code) of
     (Str f, Str c) \<Rightarrow> if matches field_unit 1 128 f \<and> matches code_unit 1 64 c then Some (f, c) else None
   | _ \<Rightarrow> None)"

definition report_add :: "jsval \<Rightarrow> jsval \<Rightarrow> report \<Rightarrow> unit result \<times> report" where
  "report_add field code r =
     (case issue_ok field code of
        None \<Rightarrow> (Inl (v_invalid ''issue''), r)
      | Some (f, c) \<Rightarrow>
          if obj_has (rp_issues r) f then (Inr (), r)
          else if length (rp_issues r) = 32 then (Inr (), r\<lparr>rp_truncated := True\<rparr>)
          else (Inr (), r\<lparr>rp_issues := AList.update f c (rp_issues r)\<rparr>))"

definition report_issues :: "report \<Rightarrow> (str \<times> str) list" where
  "report_issues r = map (\<lambda>(f, c). (f, c)) (rp_issues r)"

definition report_result :: "report \<Rightarrow> unit result" where
  "report_result r = (if length (rp_issues r) = 0 then Inr ()
     else Inl (failure Invalid (lit ''validation failed'')
       (no_options\<lparr>o_type := Some (lit ''validation.failed''), o_fields := Some (rp_issues r)\<rparr>)))"

definition report_adds :: "(jsval \<times> jsval) list \<Rightarrow> report \<Rightarrow> report" where
  "report_adds xs r = fold (\<lambda>(f, c) r. snd (report_add f c r)) xs r"

text \<open>The promise: the first code of each well-formed field, in order of first mention.\<close>

fun first_wins :: "(str \<times> str) list \<Rightarrow> (str \<times> str) list \<Rightarrow> (str \<times> str) list" where
  "first_wins acc [] = acc"
| "first_wins acc ((f, c) # xs) =
     (if obj_has acc f then first_wins acc xs else first_wins (acc @ [(f, c)]) xs)"

definition issues_of :: "(jsval \<times> jsval) list \<Rightarrow> (str \<times> str) list" where
  "issues_of xs = List.map_filter (\<lambda>(f, c). issue_ok f c) xs"

section \<open>Lemmas\<close>

lemma decimal_iff:
  "decimal v lo hi = Inr n \<longleftrightarrow>
     (\<exists>mn mx. lo = Whole mn \<and> hi = Whole mx \<and> 0 \<le> mn \<and> mx \<le> 2147483647 \<and> mn \<le> n \<and> n \<le> mx
       \<and> v = Str (show_int n))"
proof
  assume h: "decimal v lo hi = Inr n"
  then obtain mn mx s where v: "lo = Whole mn" "hi = Whole mx" "v = Str s" "0 \<le> mn" "mx \<le> 2147483647"
    "is_decimal s" "n = int (val_base 10 s)" "mn \<le> n" "n \<le> mx"
    by (auto simp: decimal_def Let_def split: number.splits jsval.splits if_splits)
  then show "\<exists>mn mx. lo = Whole mn \<and> hi = Whole mx \<and> 0 \<le> mn \<and> mx \<le> 2147483647 \<and> mn \<le> n \<and> n \<le> mx
       \<and> v = Str (show_int n)"
    using show_val_decimal[of s] by simp
next
  assume "\<exists>mn mx. lo = Whole mn \<and> hi = Whole mx \<and> 0 \<le> mn \<and> mx \<le> 2147483647 \<and> mn \<le> n \<and> n \<le> mx
       \<and> v = Str (show_int n)"
  then obtain mn mx where v: "lo = Whole mn" "hi = Whole mx" "0 \<le> mn" "mx \<le> 2147483647" "mn \<le> n" "n \<le> mx"
    "v = Str (show_int n)" by blast
  obtain k where k: "n = int k" using v by (meson nonneg_int_cases order_trans)
  have "k < 10 ^ Suc 9" using v k by simp
  then have "length (show_base 10 k) \<le> 10" using length_show_base_10[of k 9] by simp
  with v k show "decimal v lo hi = Inr n"
    by (simp add: decimal_def is_decimal_show val_show_base max_safe_def)
qed

lemma obj_has_append [simp]: "obj_has (xs @ ys) k \<longleftrightarrow> obj_has xs k \<or> obj_has ys k"
  by (auto simp: obj_has_def keys_of_def)

lemma update_new: "\<not> obj_has al k \<Longrightarrow> AList.update k v al = al @ [(k, v)]"
  unfolding obj_has_def keys_of_def by (induction al) auto

lemma first_wins_prefix: "\<exists>ys. first_wins acc xs = acc @ ys"
proof (induction acc xs rule: first_wins.induct)
  case (2 acc f c xs)
  then show ?case by (cases "obj_has acc f") auto
qed auto

lemma first_wins_distinct: "wf_obj acc \<Longrightarrow> wf_obj (first_wins acc xs)"
  by (induction acc xs rule: first_wins.induct)
    (auto simp: wf_obj_def keys_of_def obj_has_def)

text \<open>
  A report after any additions, from any report that keeps the first thirty-two of a
  list of issues with distinct fields.
\<close>

definition represents :: "report \<Rightarrow> (str \<times> str) list \<Rightarrow> bool" where
  "represents r acc \<longleftrightarrow> rp_issues r = take 32 acc \<and> (rp_truncated r \<longleftrightarrow> length acc > 32)"

lemma represents_new [simp]: "represents report_new []"
  by (simp add: represents_def report_new_def)

lemma represents_has: "represents r acc \<Longrightarrow> obj_has (rp_issues r) f \<Longrightarrow> obj_has acc f"
  by (auto simp: represents_def obj_has_def keys_of_def dest: in_set_takeD)

lemma represents_missing:
  "represents r acc \<Longrightarrow> \<not> obj_has (rp_issues r) f \<Longrightarrow> obj_has acc f \<Longrightarrow> length acc > 32"
  by (rule ccontr) (simp add: represents_def)

lemma report_add_represents:
  assumes "represents r acc" "issue_ok f c = Some (f', c')"
  shows "represents (snd (report_add f c r)) (first_wins acc [(f', c')])"
proof (cases "obj_has acc f'")
  case True
  then show ?thesis
    using assms represents_missing[OF assms(1), of f'] by (auto simp: report_add_def represents_def)
next
  case False
  then have "\<not> obj_has (rp_issues r) f'" using represents_has assms(1) by blast
  with False show ?thesis
    using assms by (auto simp: report_add_def represents_def update_new)
qed

lemma first_wins_Cons: "first_wins acc (x # xs) = first_wins (first_wins acc [x]) xs"
  by (cases x) simp

lemma report_adds_represents:
  "represents r acc \<Longrightarrow> represents (report_adds xs r) (first_wins acc (issues_of xs))"
proof (induction xs arbitrary: r acc)
  case Nil
  then show ?case by (simp add: report_adds_def issues_of_def)
next
  case (Cons x xs)
  obtain f c where x: "x = (f, c)" by (cases x)
  show ?case
  proof (cases "issue_ok f c")
    case None
    then have "snd (report_add f c r) = r" by (simp add: report_add_def)
    with None show ?thesis using Cons.IH[OF Cons.prems] by (simp add: x report_adds_def issues_of_def map_filter_simps)
  next
    case (Some i)
    then have "represents (snd (report_add f c r)) (first_wins acc [i])"
      using report_add_represents Cons.prems by (cases i) blast
    from Cons.IH[OF this] have
      "represents (report_adds xs (snd (report_add f c r))) (first_wins acc (i # issues_of xs))"
      by (subst first_wins_Cons)
    with Some show ?thesis by (simp add: x report_adds_def issues_of_def map_filter_simps)
  qed
qed

lemma text_check_ok:
  "text_check (Str s) (Whole mn) (Whole mx) req = Inr () \<longleftrightarrow>
     \<bar>mn\<bar> \<le> max_safe \<and> \<bar>mx\<bar> \<le> max_safe \<and> 0 \<le> mn \<and> mn \<le> mx \<and> \<not> lone_surrogate s
     \<and> mn \<le> int (length (chars s)) \<and> int (length (chars s)) \<le> mx \<and> \<not> (req \<and> is_blank s)"
  by (auto simp: text_check_def Let_def)

section \<open>Properties\<close>

text \<open>
  The decimal parser accepts exactly the shortest decimal spellings of the integers of
  a legal range, and answers their value.
\<close>

lemma decimal_exact:
  "decimal v lo hi = Inr n \<longleftrightarrow>
     (\<exists>mn mx. lo = Whole mn \<and> hi = Whole mx \<and> 0 \<le> mn \<and> mx \<le> 2147483647 \<and> mn \<le> n \<and> n \<le> mx
       \<and> v = Str (show_int n))"
  by (rule decimal_iff)

text \<open>
  After any sequence of additions, well formed or not, a report holds the first code of
  each field in the order of first mention, cut at thirty-two fields, with no field twice,
  and says whether something was cut.
\<close>

lemma report_first_wins:
  "report_issues (report_adds xs report_new) = take 32 (first_wins [] (issues_of xs))
   \<and> wf_obj (first_wins [] (issues_of xs))
   \<and> rp_truncated (report_adds xs report_new) = (length (first_wins [] (issues_of xs)) > 32)"
  using report_adds_represents[OF represents_new, of xs]
  by (simp add: represents_def report_issues_def first_wins_distinct)

end
