(* ===== verification/Codec.thy ===== *)
theory Codec
  imports Validation
begin

text \<open>
  The byte codecs of the platform that the code relies on: UTF-8 as \<open>Buffer.from\<close> writes it
  and as a fatal \<open>TextDecoder\<close> reads it, and base64url as \<open>Buffer\<close> writes and reads it.
\<close>

type_synonym byte = "8 word"

section \<open>Code points\<close>

definition char_point :: "str \<Rightarrow> nat" where
  "char_point ch = (case ch of
     [c] \<Rightarrow> if is_surrogate c then 0xFFFD else unat c
   | [h, l] \<Rightarrow> 0x10000 + (unat h - 0xD800) * 1024 + (unat l - 0xDC00)
   | _ \<Rightarrow> 0)"

definition points :: "str \<Rightarrow> nat list" where
  "points s = map char_point (chars s)"

definition point_units :: "nat \<Rightarrow> str" where
  "point_units p = (if p < 0x10000 then [of_nat p]
     else [of_nat (0xD800 + (p - 0x10000) div 1024), of_nat (0xDC00 + (p - 0x10000) mod 1024)])"

definition valid_point :: "nat \<Rightarrow> bool" where
  "valid_point p \<longleftrightarrow> p < 0x110000 \<and> (p < 0xD800 \<or> 0xDFFF < p)"

section \<open>UTF-8\<close>

definition utf8_point :: "nat \<Rightarrow> nat list" where
  "utf8_point p =
     (if p < 0x80 then [p]
      else if p < 0x800 then [0xC0 + p div 64, 0x80 + p mod 64]
      else if p < 0x10000 then [0xE0 + p div 4096, 0x80 + p div 64 mod 64, 0x80 + p mod 64]
      else [0xF0 + p div 262144, 0x80 + p div 4096 mod 64, 0x80 + p div 64 mod 64, 0x80 + p mod 64])"

definition utf8_encode :: "str \<Rightarrow> byte list" where
  "utf8_encode s = map of_nat (concat (map utf8_point (points s)))"

text \<open>\<open>Buffer.byteLength\<close>\<close>

definition byteLength :: "str \<Rightarrow> nat" where
  "byteLength s = length (utf8_encode s)"

definition cont :: "nat \<Rightarrow> bool" where
  "cont b \<longleftrightarrow> 0x80 \<le> b \<and> b < 0xC0"

fun utf8_points :: "nat list \<Rightarrow> nat list option" where
  "utf8_points [] = Some []"
| "utf8_points (a # r) =
     (if a < 0x80 then map_option (Cons a) (utf8_points r)
      else if a < 0xC0 then None
      else if a < 0xE0 then
        (case r of b # r' \<Rightarrow>
           let p = (a - 0xC0) * 64 + (b - 0x80) in
           if cont b \<and> 0x80 \<le> p then map_option (Cons p) (utf8_points r') else None
         | _ \<Rightarrow> None)
      else if a < 0xF0 then
        (case r of b # c # r' \<Rightarrow>
           let p = (a - 0xE0) * 4096 + (b - 0x80) * 64 + (c - 0x80) in
           if cont b \<and> cont c \<and> 0x800 \<le> p \<and> valid_point p
           then map_option (Cons p) (utf8_points r') else None
         | _ \<Rightarrow> None)
      else if a < 0xF8 then
        (case r of b # c # d # r' \<Rightarrow>
           let p = (a - 0xF0) * 262144 + (b - 0x80) * 4096 + (c - 0x80) * 64 + (d - 0x80) in
           if cont b \<and> cont c \<and> cont d \<and> 0x10000 \<le> p \<and> valid_point p
           then map_option (Cons p) (utf8_points r') else None
         | _ \<Rightarrow> None)
      else None)"

text \<open>\<open>new TextDecoder('utf-8', { fatal: true }).decode\<close>: a leading byte order mark is dropped.\<close>

definition strip_bom :: "nat list \<Rightarrow> nat list" where
  "strip_bom ps = (case ps of p # r \<Rightarrow> if p = 0xFEFF then r else ps | [] \<Rightarrow> [])"

definition utf8_decode :: "byte list \<Rightarrow> str option" where
  "utf8_decode bs = map_option (\<lambda>ps. concat (map point_units (strip_bom ps))) (utf8_points (map unat bs))"

lemma base_64_split:
  fixes p :: nat
  shows "p div 4096 * 4096 + p div 64 mod 64 * 64 + p mod 64 = p"
    "p div 262144 * 262144 + p div 4096 mod 64 * 4096 + p div 64 mod 64 * 64 + p mod 64 = p"
proof -
  have d: "p div 4096 = p div 64 div 64" "p div 262144 = p div 64 div 64 div 64"
    by (simp_all flip: div_mult2_eq)
  have e: "q div 64 * 64 + q mod 64 = q" for q :: nat by simp
  show "p div 4096 * 4096 + p div 64 mod 64 * 64 + p mod 64 = p"
    using e[of p] e[of "p div 64"] unfolding d by linarith
  show "p div 262144 * 262144 + p div 4096 mod 64 * 4096 + p div 64 mod 64 * 64 + p mod 64 = p"
    using e[of p] e[of "p div 64"] e[of "p div 64 div 64"] unfolding d by linarith
qed

lemma utf8_points_point:
  assumes "valid_point p"
  shows "utf8_points (utf8_point p @ r) = map_option (Cons p) (utf8_points r)"
proof -
  consider "p < 0x80" | "0x80 \<le> p" "p < 0x800" | "0x800 \<le> p" "p < 0x10000" | "0x10000 \<le> p" "p < 0x110000"
    using assms unfolding valid_point_def by linarith
  then show ?thesis
  proof cases
    case 2
    have "p div 64 < 32" using 2 by (simp add: less_mult_imp_div_less)
    then show ?thesis using 2 by (simp add: utf8_point_def cont_def Let_def)
  next
    case 3
    have "p div 4096 < 16" using 3 by (simp add: less_mult_imp_div_less)
    then show ?thesis using 3 assms base_64_split(1)[of p] by (simp add: utf8_point_def cont_def Let_def)
  next
    case 4
    have "p div 262144 < 5" using 4 by (simp add: less_mult_imp_div_less)
    then show ?thesis using 4 assms base_64_split(2)[of p] by (simp add: utf8_point_def cont_def Let_def)
  qed (simp add: utf8_point_def)
qed

lemma utf8_points_encode:
  "list_all valid_point ps \<Longrightarrow> utf8_points (concat (map utf8_point ps)) = Some ps"
  by (induction ps) (simp_all add: utf8_points_point del: utf8_points.simps(2))

lemma mod_64_less: "k + 64 \<le> n \<Longrightarrow> k + (p :: nat) mod 64 < n"
  using mod_less_divisor[of 64 p] by linarith

lemma utf8_point_byte: "valid_point p \<Longrightarrow> list_all (\<lambda>b. b < 256) (utf8_point p)"
  unfolding valid_point_def utf8_point_def
  by (auto simp: mod_64_less less_mult_imp_div_less)

text \<open>A string without lone surrogates is given back by its code points.\<close>

lemma concat_chars: "concat (chars s) = s"
  by (induction s rule: chars.induct) simp_all

lemma chars_shape: "ch \<in> set (chars s) \<Longrightarrow>
    (\<exists>c. ch = [c]) \<or> (\<exists>h l. ch = [h, l] \<and> is_high h \<and> is_low l)"
  by (induction s rule: chars.induct) (auto split: if_splits)

definition plain_char :: "str \<Rightarrow> bool" where
  "plain_char ch \<longleftrightarrow> (\<exists>c. ch = [c] \<and> \<not> is_surrogate c) \<or> (\<exists>h l. ch = [h, l] \<and> is_high h \<and> is_low l)"

lemma plain_chars: "\<not> lone_surrogate s \<Longrightarrow> ch \<in> set (chars s) \<Longrightarrow> plain_char ch"
  using chars_shape[of ch s] unfolding plain_char_def lone_surrogate_def
  by (auto simp: list_ex_iff)

lemma of_nat_unat [simp]: "of_nat (unat (c :: cu)) = c"
  by simp

lemma surrogate_pair_point:
  assumes "is_high h" "is_low l"
  shows "unat h - 0xD800 < 1024" "unat l - 0xDC00 < 1024"
    "0xD800 + (unat h - 0xD800) = unat h" "0xDC00 + (unat l - 0xDC00) = unat l"
  using assms by (auto simp: is_high_def is_low_def word_le_nat_alt)

lemma plain_char_point:
  assumes "plain_char ch"
  shows "point_units (char_point ch) = ch \<and> valid_point (char_point ch)"
  using assms unfolding plain_char_def
proof (elim disjE exE conjE)
  fix c assume c: "ch = [c]" "\<not> is_surrogate c"
  have "unat c < 0x10000" using unsigned_less[of c, where ?'a = nat] by simp
  moreover have "unat c < 0xD800 \<or> 0xDFFF < unat c"
    using c(2) by (auto simp: is_surrogate_def word_le_nat_alt)
  ultimately show ?thesis using c by (auto simp: char_point_def point_units_def valid_point_def)
next
  fix h l assume c: "ch = [h, l]" "is_high h" "is_low l"
  obtain x y where xy: "unat h = 0xD800 + x" "x < 1024" "unat l = 0xDC00 + y" "y < 1024"
    using surrogate_pair_point[OF c(2,3)] by (metis)
  have hl: "h = of_nat (0xD800 + x)" "l = of_nat (0xDC00 + y)"
    by (simp_all only: xy(1,3)[symmetric] of_nat_unat)
  have "char_point ch = 0x10000 + (x * 1024 + y)"
    by (simp add: char_point_def c xy)
  then show ?thesis using xy by (simp add: point_units_def valid_point_def c hl del: of_nat_add)
qed

lemma points_units: "\<not> lone_surrogate s \<Longrightarrow> concat (map point_units (points s)) = s"
proof -
  assume a: "\<not> lone_surrogate s"
  have "map (point_units \<circ> char_point) (chars s) = chars s"
    by (rule map_idI) (simp add: plain_char_point plain_chars[OF a])
  then show ?thesis by (simp add: points_def concat_chars)
qed

lemma points_valid: "\<not> lone_surrogate s \<Longrightarrow> list_all valid_point (points s)"
  by (auto simp: points_def list_all_iff plain_char_point plain_chars)

lemma unat_bytes: "list_all (\<lambda>b. b < 256) bs \<Longrightarrow> map (unat \<circ> (of_nat :: nat \<Rightarrow> byte)) bs = bs"
  by (induction bs) (simp_all add: unat_of_nat take_bit_nat_eq_self)

text \<open>The round trip: only a leading byte order mark is lost.\<close>

lemma utf8_round_trip:
  assumes "\<not> lone_surrogate s" "points s = [] \<or> hd (points s) \<noteq> 0xFEFF"
  shows "utf8_decode (utf8_encode s) = Some s"
proof -
  have "list_all (\<lambda>b. b < 256) (concat (map utf8_point (points s)))"
    using points_valid[OF assms(1)] utf8_point_byte by (fastforce simp: list_all_iff)
  then have "utf8_points (map unat (utf8_encode s)) = Some (points s)"
    using utf8_points_encode[OF points_valid[OF assms(1)]]
    by (simp add: utf8_encode_def unat_bytes)
  moreover have "strip_bom (points s) = points s"
    using assms(2) by (auto simp: strip_bom_def split: list.split)
  ultimately show ?thesis by (simp add: utf8_decode_def points_units[OF assms(1)])
qed

section \<open>base64url\<close>

fun sextets :: "nat list \<Rightarrow> nat list" where
  "sextets (a # b # c # r) =
     [a div 4, a mod 4 * 16 + b div 16, b mod 16 * 4 + c div 64, c mod 64] @ sextets r"
| "sextets [a, b] = [a div 4, a mod 4 * 16 + b div 16, b mod 16 * 4]"
| "sextets [a] = [a div 4, a mod 4 * 16]"
| "sextets [] = []"

text \<open>A last group of one digit carries no byte, and the spare bits of a last group are dropped.\<close>

fun octets :: "nat list \<Rightarrow> nat list" where
  "octets (p # q # r # s # rest) =
     [p * 4 + q div 16, q mod 16 * 16 + r div 4, r mod 4 * 64 + s] @ octets rest"
| "octets [p, q, r] = [p * 4 + q div 16, q mod 16 * 16 + r div 4]"
| "octets [p, q] = [p * 4 + q div 16]"
| "octets _ = []"

definition b64_char :: "nat \<Rightarrow> cu" where
  "b64_char n = of_nat (if n < 26 then 65 + n else if n < 52 then 97 + (n - 26)
     else if n < 62 then 48 + (n - 52) else if n = 62 then 45 else 95)"

definition is_b64 :: "cu \<Rightarrow> bool" where
  "is_b64 c \<longleftrightarrow> is_alnum c \<or> c = 95 \<or> c = 45"

definition b64_val :: "cu \<Rightarrow> nat" where
  "b64_val c = (if is_upper c then unat c - 65 else if is_lower c then unat c - 97 + 26
     else if is_digit c then unat c - 48 + 52 else if c = 45 then 62 else 63)"

definition b64_encode :: "byte list \<Rightarrow> str" where
  "b64_encode bs = map b64_char (sextets (map unat bs))"

text \<open>\<open>Buffer.from(wire, 'base64url')\<close> on a text of the alphabet.\<close>

definition b64_decode :: "str \<Rightarrow> byte list" where
  "b64_decode s = map of_nat (octets (map b64_val s))"

lemma octets_sextets: "list_all (\<lambda>b. b < 256) bs \<Longrightarrow> octets (sextets bs) = bs"
  by (induction bs rule: sextets.induct) (auto simp: less_mult_imp_div_less)

lemma sextets_range: "list_all (\<lambda>b. b < 256) bs \<Longrightarrow> list_all (\<lambda>n. n < 64) (sextets bs)"
proof (induction bs rule: sextets.induct)
  case (1 a b c r)
  have d: "a div 4 < 64" "b div 16 < 16" "c div 64 < 4" "c mod 64 < 64"
    using 1 by (auto simp: less_mult_imp_div_less)
  have "a mod 4 < 4" "b mod 16 < 16" by simp_all
  then have "a mod 4 * 16 + b div 16 < 64" "b mod 16 * 4 + c div 64 < 64" using d by linarith+
  with d 1 show ?case by simp
next
  case (2 a b)
  have d: "a div 4 < 64" "b div 16 < 16" using 2 by (auto simp: less_mult_imp_div_less)
  have "a mod 4 < 4" "b mod 16 < 16" by simp_all
  then have "a mod 4 * 16 + b div 16 < 64" "b mod 16 * 4 < 64" using d by linarith+
  with d show ?case by simp
qed (auto simp: less_mult_imp_div_less)

lemma b64_val_char: "n < 64 \<Longrightarrow> b64_val (b64_char n) = n \<and> is_b64 (b64_char n)"
proof -
  assume n: "n < 64"
  have u: "unat (of_nat m :: cu) = m" if "m < 65536" for m
    using that by (simp add: unat_of_nat take_bit_nat_eq_self)
  consider "n < 26" | "26 \<le> n" "n < 52" | "52 \<le> n" "n < 62" | "n = 62" | "n = 63"
    using n by linarith
  then show ?thesis
  proof cases
    case 3
    define m where "m = n - 52"
    have "n = 52 + m" "m < 10" using 3 by (auto simp: m_def)
    then show ?thesis
      by (simp add: b64_char_def b64_val_def is_b64_def str_simps word_le_nat_alt u del: of_nat_add)
  qed (simp_all add: b64_char_def b64_val_def is_b64_def str_simps word_le_nat_alt u del: of_nat_add)
qed

lemma length_sextets: "length (sextets bs) = (4 * length bs + 2) div 3"
  by (induction bs rule: sextets.induct) simp_all

lemma length_b64_encode: "length (b64_encode bs) = (4 * length bs + 2) div 3"
  by (simp add: b64_encode_def length_sextets)

lemma bytes_range: "list_all (\<lambda>b. b < 256) (map unat (bs :: byte list))"
  using unsigned_less[where ?'a = nat and ?'b = 8] by (auto simp: list_all_iff)

lemma b64_round_trip: "b64_decode (b64_encode bs) = bs"
proof -
  have "map (b64_val \<circ> b64_char) (sextets (map unat bs)) = sextets (map unat bs)"
    using sextets_range[OF bytes_range, of bs]
    by (intro map_idI) (auto simp: list_all_iff b64_val_char)
  then show ?thesis
    by (simp add: b64_decode_def b64_encode_def octets_sextets[OF bytes_range] comp_def)
qed

lemma b64_encode_alphabet: "list_all is_b64 (b64_encode bs)"
  using sextets_range[OF bytes_range, of bs]
  by (auto simp: b64_encode_def list_all_iff b64_val_char)

section \<open>Well-formed text\<close>

text \<open>A string is well formed exactly when it is made of plain characters.\<close>

lemma high_surrogate: "is_high c \<Longrightarrow> is_surrogate c"
  by (auto simp: surrogate_defs word_le_nat_alt)

lemma ascii_not_surrogate: "c < 128 \<Longrightarrow> \<not> is_surrogate c"
  by (auto simp: surrogate_defs word_less_nat_alt word_le_nat_alt)

lemma chars_plain: "list_all plain_char chs \<Longrightarrow> chars (concat chs) = chs"
proof (induction chs)
  case (Cons ch chs)
  from Cons.prems have "plain_char ch" by simp
  then consider c where "ch = [c]" "\<not> is_surrogate c" | h l where "ch = [h, l]" "is_high h" "is_low l"
    by (auto simp: plain_char_def)
  then show ?case
  proof cases
    case 1
    have "\<not> is_high c" using 1(2) high_surrogate by blast
    then show ?thesis using 1 Cons by (cases "concat chs") auto
  qed (use Cons in auto)
qed simp

lemma well_formed_iff: "\<not> lone_surrogate s \<longleftrightarrow> (\<exists>chs. list_all plain_char chs \<and> s = concat chs)"
proof
  assume "\<not> lone_surrogate s"
  then have "list_all plain_char (chars s)" by (simp add: list_all_iff plain_chars)
  then show "\<exists>chs. list_all plain_char chs \<and> s = concat chs" using concat_chars[of s] by metis
next
  assume "\<exists>chs. list_all plain_char chs \<and> s = concat chs"
  then obtain chs where c: "list_all plain_char chs" "s = concat chs" by blast
  then show "\<not> lone_surrogate s"
    by (auto simp: lone_surrogate_def chars_plain list_ex_iff list_all_iff plain_char_def)
qed

lemma well_formed_append: "\<not> lone_surrogate s \<Longrightarrow> \<not> lone_surrogate t \<Longrightarrow> \<not> lone_surrogate (s @ t)"
  unfolding well_formed_iff by (metis concat_append list_all_append)

lemma chars_append: "\<not> lone_surrogate s \<Longrightarrow> \<not> lone_surrogate t \<Longrightarrow> chars (s @ t) = chars s @ chars t"
  unfolding well_formed_iff by (metis chars_plain concat_append list_all_append)

lemma well_formed_unit: "list_all (\<lambda>c. \<not> is_surrogate c) s \<Longrightarrow> \<not> lone_surrogate s"
  unfolding well_formed_iff
  by (rule exI[of _ "map (\<lambda>c. [c]) s"]) (auto simp: list_all_iff plain_char_def)

lemma well_formed_concat: "list_all (\<lambda>s. \<not> lone_surrogate s) ss \<Longrightarrow> \<not> lone_surrogate (concat ss)"
  by (induction ss) (auto simp: well_formed_append lone_surrogate_def[of "[]"])

lemma byteLength_append:
  "\<not> lone_surrogate s \<Longrightarrow> \<not> lone_surrogate t \<Longrightarrow> byteLength (s @ t) = byteLength s + byteLength t"
  by (simp add: byteLength_def utf8_encode_def points_def chars_append)

lemma byteLength_Nil [simp]: "byteLength [] = 0"
  by (simp add: byteLength_def utf8_encode_def points_def)

lemma byteLength_ascii: "list_all (\<lambda>c. c < 128) s \<Longrightarrow> byteLength s = length s"
proof (induction s)
  case (Cons c s)
  have "unat c < 128" "\<not> is_surrogate c" "\<not> is_high c"
    using Cons.prems ascii_not_surrogate[of c] high_surrogate[of c] by (auto simp: word_less_nat_alt)
  then have "byteLength [c] = 1"
    by (simp add: byteLength_def utf8_encode_def points_def char_point_def utf8_point_def)
  moreover have "\<not> lone_surrogate [c]" "\<not> lone_surrogate s"
    using Cons.prems by (auto intro!: well_formed_unit simp: list_all_iff ascii_not_surrogate)
  ultimately show ?case using byteLength_append[of "[c]" s] Cons by simp
qed simp

lemma plain_char_well_formed: "plain_char ch \<Longrightarrow> \<not> lone_surrogate ch"
  unfolding well_formed_iff by (rule exI[of _ "[ch]"]) simp

end
