(* ===== verification/Json.thy ===== *)
theory Json
  imports Codec
begin

text \<open>
  \<open>JSON.stringify\<close> and \<open>JSON.parse\<close> as ECMAScript defines them, used by the cursors and the
  event envelopes. Numbers are doubles: a literal is rounded to the nearest one, ties to even,
  and a double prints as the shortest decimal that reads back to it.
\<close>

section \<open>Doubles\<close>

text \<open>\<open>Fin neg m e\<close> is \<open>m * 2\<^sup>e\<close> with the sign \<open>neg\<close>; \<open>m\<close> is odd, or zero with \<open>e = 0\<close>.\<close>

datatype dbl = Fin bool nat int | Inf bool

fun bits :: "nat \<Rightarrow> nat" where
  "bits n = (if n = 0 then 0 else Suc (bits (n div 2)))"

declare bits.simps [simp del]

fun canon :: "bool \<Rightarrow> nat \<Rightarrow> int \<Rightarrow> dbl" where
  "canon neg m e = (if m = 0 then Fin neg 0 0 else if even m then canon neg (m div 2) (e + 1) else Fin neg m e)"

declare canon.simps [simp del]

text \<open>A ratio scaled by \<open>2\<^sup>-\<^sup>e\<close>.\<close>

definition scaled :: "nat \<Rightarrow> nat \<Rightarrow> int \<Rightarrow> nat \<times> nat" where
  "scaled num den e = (if e \<le> 0 then (num * 2 ^ nat (- e), den) else (num, den * 2 ^ nat e))"

definition floor_log :: "nat \<Rightarrow> nat \<Rightarrow> int" where
  "floor_log num den =
     (let k = int (bits num) - int (bits den); (a, b) = scaled num den k in if b \<le> a then k else k - 1)"

definition half_even :: "nat \<Rightarrow> nat \<Rightarrow> nat" where
  "half_even a b = (let q = a div b; r = a mod b in if b < 2 * r \<or> 2 * r = b \<and> odd q then q + 1 else q)"

definition round_dbl :: "bool \<Rightarrow> nat \<Rightarrow> nat \<Rightarrow> dbl" where
  "round_dbl neg num den =
     (if num = 0 then Fin neg 0 0
      else let e = max (floor_log num den - 52) (- 1074);
               (a, b) = scaled num den e;
               q = half_even a b
           in if 1024 < int (bits q) + e then Inf neg else canon neg q e)"

text \<open>A decimal \<open>s * 10\<^sup>t\<close>.\<close>

definition round_decimal :: "bool \<Rightarrow> nat \<Rightarrow> int \<Rightarrow> dbl" where
  "round_decimal neg s t = (if 0 \<le> t then round_dbl neg (s * 10 ^ nat t) 1 else round_dbl neg s (10 ^ nat (- t)))"

definition dbl_of_nat :: "nat \<Rightarrow> dbl" where
  "dbl_of_nat n = canon False n 0"

definition dbl_of_int :: "int \<Rightarrow> dbl" where
  "dbl_of_int i = canon (i < 0) (nat \<bar>i\<bar>) 0"

fun dbl_number :: "dbl \<Rightarrow> number" where
  "dbl_number (Inf neg) = (if neg then NegInf else PosInf)"
| "dbl_number (Fin neg m e) =
     (if 0 \<le> e then Whole ((if neg then - 1 else 1) * int (m * 2 ^ nat e))
      else Frac ((if neg then - int m else int m) div 2 ^ nat (- e)))"

section \<open>Printing a double\<close>

text \<open>
  \<open>Number::toString\<close>. An integer up to the safe bound prints its decimal digits; otherwise
  the fewest digits \<open>k\<close> are searched for which a decimal with \<open>k\<close> digits rounds to the
  double, the closer of two neighbours first, the even one on a tie.
\<close>

definition magnitude :: "nat \<Rightarrow> int \<Rightarrow> nat \<times> nat" where
  "magnitude m e = (if 0 \<le> e then (m * 2 ^ nat e, 1) else (m, 2 ^ nat (- e)))"

definition scale10 :: "nat \<times> nat \<Rightarrow> int \<Rightarrow> nat \<times> nat" where
  "scale10 v t = (if 0 \<le> t then (fst v * 10 ^ nat t, snd v) else (fst v, snd v * 10 ^ nat (- t)))"

definition point_position :: "nat \<times> nat \<Rightarrow> int" where
  "point_position v = (case find (\<lambda>n. case scale10 v (- n) of (a, b) \<Rightarrow> a < b) [- 330..311] of
     Some n \<Rightarrow> n | None \<Rightarrow> 312)"

definition try_digits :: "nat \<Rightarrow> int \<Rightarrow> int \<Rightarrow> nat \<Rightarrow> (nat \<times> int) option" where
  "try_digits m e n k =
     (case scale10 (magnitude m e) (int k - n) of (a, b) \<Rightarrow>
        let lo = a div b; r = a mod b;
            ok = (\<lambda>s. round_decimal False s (n - int k) = Fin False m e);
            first = (if 2 * r < b \<or> 2 * r = b \<and> even lo then lo else lo + 1);
            second = (if first = lo then lo + 1 else lo);
            norm = (\<lambda>s. if s = 10 ^ k then (10 ^ (k - 1), n + 1) else (s, n))
        in if 10 ^ (k - 1) \<le> first \<and> ok first then Some (norm first)
           else if 10 ^ (k - 1) \<le> second \<and> ok second then Some (norm second) else None)"

definition shortest :: "nat \<Rightarrow> int \<Rightarrow> (nat \<times> int) option" where
  "shortest m e = (let n = point_position (magnitude m e) in
     List.find (\<lambda>_. True) (List.map_filter (try_digits m e n) [1..<18]))"

definition strip_zeros :: "str \<Rightarrow> str" where
  "strip_zeros ds = rev (dropWhile (\<lambda>c. c = 48) (rev ds))"

definition place_point :: "str \<Rightarrow> int \<Rightarrow> str" where
  "place_point ds n =
     (let k = int (length ds) in
      if k \<le> n \<and> n \<le> 21 then ds @ replicate (nat (n - k)) 48
      else if 0 < n \<and> n \<le> 21 then take (nat n) ds @ [46] @ drop (nat n) ds
      else if - 6 < n \<and> n \<le> 0 then [48, 46] @ replicate (nat (- n)) 48 @ ds
      else let x = n - 1;
               ex = [101, if x < 0 then 45 else 43] @ show_base 10 (nat \<bar>x\<bar>)
           in if k = 1 then ds @ ex else take 1 ds @ [46] @ drop 1 ds @ ex)"

fun show_dbl :: "dbl \<Rightarrow> str" where
  "show_dbl (Inf neg) = (if neg then 45 # lit ''Infinity'' else lit ''Infinity'')"
| "show_dbl (Fin neg m e) =
     (let sgn = (if neg \<and> m \<noteq> 0 then [45] else []) in
      if 0 \<le> e \<and> int (m * 2 ^ nat e) \<le> max_safe then sgn @ show_base 10 (m * 2 ^ nat e)
      else (case shortest m e of
          Some (s, n) \<Rightarrow> sgn @ place_point (strip_zeros (show_base 10 s)) n
        | None \<Rightarrow> []))"

section \<open>Values\<close>

datatype json = JNull | JBool bool | JNum dbl | JStr str | JArr "json list" | JObj "(str \<times> json) list"

definition jint :: "int \<Rightarrow> json" where
  "jint i = JNum (dbl_of_int i)"

text \<open>
  The order of an object's own keys: array indices in ascending order, then the other keys
  in the order of their creation. A repeated key keeps its first place and its last value.
\<close>

definition index_key :: "str \<Rightarrow> bool" where
  "index_key s \<longleftrightarrow> is_decimal s \<and> val_base 10 s < 4294967295"

definition own_order :: "(str \<times> 'v) list \<Rightarrow> (str \<times> 'v) list" where
  "own_order ms = sort_key (\<lambda>(k, v). val_base 10 k) (filter (\<lambda>(k, v). index_key k) ms)
     @ filter (\<lambda>(k, v). \<not> index_key k) ms"

definition make_object :: "(str \<times> json) list \<Rightarrow> json" where
  "make_object ms = JObj (own_order (spread [] ms))"

section \<open>Printing\<close>

definition escape_unit :: "cu \<Rightarrow> str" where
  "escape_unit c = [92, 117] @ hex_fix 4 (unat c)"

definition quote_char :: "str \<Rightarrow> str" where
  "quote_char ch = (case ch of
     [c] \<Rightarrow>
       if c = 8 then [92, 98] else if c = 9 then [92, 116] else if c = 10 then [92, 110]
       else if c = 12 then [92, 102] else if c = 13 then [92, 114]
       else if c = 34 then [92, 34] else if c = 92 then [92, 92]
       else if c < 32 \<or> is_surrogate c then escape_unit c else [c]
   | _ \<Rightarrow> ch)"

definition quote :: "str \<Rightarrow> str" where
  "quote s = [34] @ concat (map quote_char (chars s)) @ [34]"

definition comma_sep :: "str list \<Rightarrow> str" where
  "comma_sep xs = (case xs of [] \<Rightarrow> [] | y # ys \<Rightarrow> y @ concat (map (\<lambda>s. 44 # s) ys))"

fun stringify :: "json \<Rightarrow> str" where
  "stringify JNull = lit ''null''"
| "stringify (JBool b) = (if b then lit ''true'' else lit ''false'')"
| "stringify (JNum d) = (case d of Inf _ \<Rightarrow> lit ''null'' | _ \<Rightarrow> show_dbl d)"
| "stringify (JStr s) = quote s"
| "stringify (JArr xs) = [91] @ comma_sep (map stringify xs) @ [93]"
| "stringify (JObj ms) = [123] @ comma_sep (map (\<lambda>(k, v). quote k @ [58] @ stringify v) ms) @ [125]"

section \<open>Tokens\<close>

datatype tok = TValue json | TStr str | LBracket | RBracket | LBrace | RBrace | Comma | Colon

definition is_ws :: "cu \<Rightarrow> bool" where
  "is_ws c \<longleftrightarrow> c = 32 \<or> c = 9 \<or> c = 10 \<or> c = 13"

definition simple_escape :: "cu \<Rightarrow> cu option" where
  "simple_escape c = map_of [(34, 34), (92, 92), (47, 47), (98, 8), (102, 12), (110, 10), (114, 13), (116, 9)] c"

text \<open>The rest of a string literal after its opening quote: its units and what follows it.\<close>

fun scan_string :: "str \<Rightarrow> (str \<times> str) option" where
  "scan_string [] = None"
| "scan_string (c # s) =
     (if c = 34 then Some ([], s)
      else if c < 32 then None
      else if c = 92 then
        (case s of [] \<Rightarrow> None
         | e # s1 \<Rightarrow>
             if e = 117 then
               (case s1 of a # b # d # f # s2 \<Rightarrow>
                  if list_all is_hex [a, b, d, f]
                  then map_option (apfst (Cons (of_nat (val_base 16 [a, b, d, f])))) (scan_string s2)
                  else None
                | _ \<Rightarrow> None)
             else (case simple_escape e of None \<Rightarrow> None
               | Some u \<Rightarrow> map_option (apfst (Cons u)) (scan_string s1)))
      else map_option (apfst (Cons c)) (scan_string s))"

definition is_numeric :: "cu \<Rightarrow> bool" where
  "is_numeric c \<longleftrightarrow> is_digit c \<or> c = 43 \<or> c = 45 \<or> c = 46 \<or> c = 69 \<or> c = 101"

text \<open>\<open>-?(0|[1-9][0-9]*)([.][0-9]+)?([eE][+-]?[0-9]+)?\<close>, and the double it denotes.\<close>

definition scan_exponent :: "str \<Rightarrow> int option" where
  "scan_exponent s = (case s of [] \<Rightarrow> Some 0
     | c # t \<Rightarrow>
         if c \<noteq> 101 \<and> c \<noteq> 69 then None
         else let neg = (t \<noteq> [] \<and> hd t = 45);
                  ds = (if t \<noteq> [] \<and> (hd t = 45 \<or> hd t = 43) then tl t else t)
              in if ds \<noteq> [] \<and> list_all is_digit ds
                 then Some ((if neg then - 1 else 1) * int (val_base 10 ds)) else None)"

definition parse_number :: "str \<Rightarrow> dbl option" where
  "parse_number s =
     (let neg = (s \<noteq> [] \<and> hd s = 45);
          t = (if neg then tl s else s);
          whole = takeWhile is_digit t;
          u = dropWhile is_digit t;
          frac = (if u \<noteq> [] \<and> hd u = 46 then takeWhile is_digit (tl u) else []);
          v = (if u \<noteq> [] \<and> hd u = 46 then dropWhile is_digit (tl u) else u)
      in if \<not> is_decimal whole \<or> (u \<noteq> [] \<and> hd u = 46 \<and> frac = []) then None
         else (case scan_exponent v of None \<Rightarrow> None
           | Some x \<Rightarrow> Some (round_decimal neg (val_base 10 (whole @ frac)) (x - int (length frac)))))"

definition word_token :: "str \<Rightarrow> tok option" where
  "word_token w = (if w = lit ''null'' then Some (TValue JNull)
     else if w = lit ''true'' then Some (TValue (JBool True))
     else if w = lit ''false'' then Some (TValue (JBool False)) else None)"

definition punct :: "cu \<Rightarrow> tok option" where
  "punct c = map_of [(91, LBracket), (93, RBracket), (123, LBrace), (125, RBrace), (44, Comma), (58, Colon)] c"

lemma scan_string_length: "scan_string s = Some (x, r) \<Longrightarrow> length r < length s"
  by (induction s arbitrary: x r rule: scan_string.induct)
    (fastforce split: if_splits list.splits option.splits)+

function tokens :: "str \<Rightarrow> tok list option" where
  "tokens [] = Some []"
| "tokens (c # s) =
     (if is_ws c then tokens s
      else if c = 34 then
        (case scan_string s of None \<Rightarrow> None
         | Some (x, r) \<Rightarrow> map_option (Cons (TStr x)) (tokens r))
      else (case punct c of
          Some t \<Rightarrow> map_option (Cons t) (tokens s)
        | None \<Rightarrow>
            if is_lower c then
              (case word_token (c # takeWhile is_lower s) of None \<Rightarrow> None
               | Some t \<Rightarrow> map_option (Cons t) (tokens (dropWhile is_lower s)))
            else if is_numeric c then
              (case parse_number (c # takeWhile is_numeric s) of None \<Rightarrow> None
               | Some d \<Rightarrow> map_option (Cons (TValue (JNum d))) (tokens (dropWhile is_numeric s)))
            else None))"
  by pat_completeness auto
termination
  by (relation "measure length")
    (auto simp: less_Suc_eq_le length_dropWhile_le dest: scan_string_length intro: less_imp_le)

declare tokens.simps(2) [simp del]

section \<open>The parser\<close>

text \<open>
  The open containers, innermost first: the items of an array in reverse, or the members of
  an object in reverse with the key whose value is awaited.
\<close>

datatype frame = FArr "json list" | FObj "(str \<times> json) list" str

text \<open>What the grammar allows next.\<close>

datatype pstate = WantValue "frame list" | WantItem "frame list" | WantKey bool "(str \<times> json) list" "frame list"
  | WantColon str "(str \<times> json) list" "frame list" | AfterValue "frame list" | Finished json | Stuck

definition complete_value :: "json \<Rightarrow> frame list \<Rightarrow> pstate" where
  "complete_value v st = (case st of
     [] \<Rightarrow> Finished v
   | FArr xs # st' \<Rightarrow> AfterValue (FArr (v # xs) # st')
   | FObj ms k # st' \<Rightarrow> AfterValue (FObj ((k, v) # ms) k # st'))"

fun want_value :: "tok \<Rightarrow> frame list \<Rightarrow> pstate" where
  "want_value (TValue v) st = complete_value v st"
| "want_value (TStr s) st = complete_value (JStr s) st"
| "want_value LBracket st = WantItem (FArr [] # st)"
| "want_value LBrace st = WantKey True [] st"
| "want_value _ st = Stuck"

fun pstep :: "tok \<Rightarrow> pstate \<Rightarrow> pstate" where
  "pstep t (WantValue st) = want_value t st"
| "pstep t (WantItem st) = (if t = RBracket
     then (case st of FArr xs # st' \<Rightarrow> complete_value (JArr (rev xs)) st' | _ \<Rightarrow> Stuck)
     else want_value t st)"
| "pstep t (WantKey fresh ms st) = (case t of
     TStr k \<Rightarrow> WantColon k ms st
   | RBrace \<Rightarrow> if fresh then complete_value (make_object []) st else Stuck
   | _ \<Rightarrow> Stuck)"
| "pstep t (WantColon k ms st) = (if t = Colon then WantValue (FObj ms k # st) else Stuck)"
| "pstep t (AfterValue st) = (case (st, t) of
     (FArr xs # st', Comma) \<Rightarrow> WantValue (FArr xs # st')
   | (FArr xs # st', RBracket) \<Rightarrow> complete_value (JArr (rev xs)) st'
   | (FObj ms k # st', Comma) \<Rightarrow> WantKey False ms st'
   | (FObj ms k # st', RBrace) \<Rightarrow> complete_value (make_object (rev ms)) st'
   | _ \<Rightarrow> Stuck)"
| "pstep t (Finished v) = Stuck"
| "pstep t Stuck = Stuck"

definition json_parse :: "str \<Rightarrow> json option" where
  "json_parse s = (case tokens s of None \<Rightarrow> None
     | Some ts \<Rightarrow> (case fold pstep ts (WantValue []) of Finished v \<Rightarrow> Some v | _ \<Rightarrow> None))"

section \<open>Safe integers\<close>

lemma bits_le: "bits n \<le> k \<longleftrightarrow> n < 2 ^ k"
proof (induction n arbitrary: k rule: bits.induct)
  case (1 n)
  show ?case
  proof (cases k)
    case 0
    then show ?thesis by (subst bits.simps) simp
  next
    case (Suc j)
    have "n div 2 < 2 ^ j \<longleftrightarrow> n < 2 ^ k" using Suc by auto
    then show ?thesis using 1 Suc by (subst bits.simps) auto
  qed
qed

lemma bits_shift: "0 < n \<Longrightarrow> bits (n * 2 ^ j) = bits n + j"
proof (induction j)
  case (Suc j)
  have "bits (n * 2 ^ Suc j) = Suc (bits (n * 2 ^ j))"
    using Suc.prems by (subst bits.simps) (simp add: mult.assoc mult.left_commute)
  then show ?case using Suc by simp
qed simp

lemma canon_shift: "0 < m \<Longrightarrow> canon neg (m * 2 ^ j) e = canon neg m (e + int j)"
proof (induction j arbitrary: e)
  case (Suc j)
  have "canon neg (m * 2 ^ Suc j) e = canon neg (m * 2 ^ j) (e + 1)"
    using Suc.prems by (subst canon.simps) simp
  then show ?case using Suc by (simp add: ac_simps)
qed simp

lemma canon_value: "0 < m \<Longrightarrow> \<exists>m' j. canon neg m e = Fin neg m' (e + int j) \<and> m = m' * 2 ^ j"
proof (induction neg m e rule: canon.induct)
  case (1 neg m e)
  show ?case
  proof (cases "even m")
    case True
    then have "0 < m div 2" using 1(2) by auto
    then obtain m' j where "canon neg (m div 2) (e + 1) = Fin neg m' (e + 1 + int j)" "m div 2 = m' * 2 ^ j"
      using 1(1)[OF _ True] 1(2) by auto
    then have "canon neg m e = Fin neg m' (e + int (Suc j)) \<and> m = m' * 2 ^ Suc j"
      using True 1(2) by (subst canon.simps) auto
    then show ?thesis by blast
  next
    case False
    then have "canon neg m e = Fin neg m (e + int 0) \<and> m = m * 2 ^ 0"
      using 1(2) by (subst canon.simps) auto
    then show ?thesis by blast
  qed
qed

lemma canon_not_Inf: "canon neg m e \<noteq> Inf n"
  by (cases "m = 0") (auto simp: canon.simps[of neg 0] dest: canon_value[of m neg e])

lemma round_safe:
  assumes "int n \<le> max_safe"
  shows "round_dbl neg n 1 = canon neg n 0"
proof (cases "n = 0")
  case True
  then show ?thesis by (simp add: round_dbl_def canon.simps[of neg 0])
next
  case False
  have b: "bits n \<le> 53" using assms by (simp add: bits_le max_safe_def)
  have "bits 1 = 1" by (simp add: bits.simps)
  then have fl: "floor_log n 1 \<le> 52" using b by (simp add: floor_log_def Let_def split: prod.split)
  define e where "e = max (floor_log n 1 - 52) (- 1074)"
  define j where "j = nat (- e)"
  have e: "e = - int j" using fl by (simp add: j_def e_def)
  have "scaled n 1 e = (n * 2 ^ j, 1)" by (simp add: scaled_def e)
  moreover have "half_even (n * 2 ^ j) 1 = n * 2 ^ j" by (simp add: half_even_def Let_def)
  moreover have "int (bits (n * 2 ^ j)) + e \<le> 1024" using False b by (simp add: bits_shift e)
  ultimately have "round_dbl neg n 1 = canon neg (n * 2 ^ j) e"
    using False by (simp add: round_dbl_def Let_def e_def[symmetric] del: One_nat_def)
  then show ?thesis using False by (simp add: canon_shift e)
qed

definition safe_dbl :: "dbl \<Rightarrow> bool" where
  "safe_dbl d \<longleftrightarrow> (\<exists>i. \<bar>i\<bar> \<le> max_safe \<and> d = dbl_of_int i)"

lemma show_dbl_int: "\<bar>i\<bar> \<le> max_safe \<Longrightarrow> show_dbl (dbl_of_int i) = show_int i"
proof (cases "i = 0")
  case False
  assume i: "\<bar>i\<bar> \<le> max_safe"
  obtain m j where m: "canon (i < 0) (nat \<bar>i\<bar>) 0 = Fin (i < 0) m (0 + int j)" "nat \<bar>i\<bar> = m * 2 ^ j"
    using canon_value[of "nat \<bar>i\<bar>" "i < 0" 0] False by auto
  have "m \<noteq> 0" using m(2) False by (cases m) auto
  moreover have "int (nat \<bar>i\<bar>) \<le> max_safe" using i by simp
  ultimately have "show_dbl (Fin (i < 0) m (int j)) = (if i < 0 then [45] else []) @ show_base 10 (nat \<bar>i\<bar>)"
    unfolding show_dbl.simps(2) nat_int m(2)[symmetric] Let_def by simp
  then show ?thesis using m(1) by (simp add: dbl_of_int_def show_int_def)
qed (simp add: dbl_of_int_def canon.simps[of _ 0] show_int_def max_safe_def)

lemma parse_number_int:
  assumes "\<bar>i\<bar> \<le> max_safe" shows "parse_number (show_int i) = Some (dbl_of_int i)"
proof -
  define ds where "ds = show_base 10 (nat \<bar>i\<bar>)"
  have d: "list_all is_digit ds" "is_decimal ds" "ds \<noteq> []" "val_base 10 ds = nat \<bar>i\<bar>"
    by (simp_all add: ds_def show_base_10_digits is_decimal_show show_base_nonempty val_show_base)
  have h: "hd ds \<noteq> 45" using d(1,3) by (cases ds) (auto simp: is_digit_def)
  have s: "show_int i = (if i < 0 then 45 # ds else ds)" by (auto simp: show_int_def ds_def)
  have tw: "takeWhile is_digit ds = ds" "dropWhile is_digit ds = []"
    using d(1) by (simp_all add: takeWhile_eq_all_conv dropWhile_eq_Nil_conv list_all_iff)
  have r: "round_decimal neg (nat \<bar>i\<bar>) 0 = canon neg (nat \<bar>i\<bar>) 0" for neg
    using assms by (simp add: round_decimal_def round_safe del: One_nat_def)
  show ?thesis
    using d h r[of True] r[of False] d(1)[unfolded list_all_iff]
    by (cases "i < 0") (simp_all add: s parse_number_def scan_exponent_def tw dbl_of_int_def)
qed

lemma show_int_numeric: "list_all is_numeric (show_int i) \<and> show_int i \<noteq> [] \<and> \<not> is_ws (hd (show_int i))
    \<and> hd (show_int i) \<noteq> 34 \<and> punct (hd (show_int i)) = None \<and> \<not> is_lower (hd (show_int i))"
proof -
  have d: "list_all is_digit (show_base 10 n)" "show_base 10 n \<noteq> []" for n
    by (simp_all add: show_base_10_digits show_base_nonempty)
  have h: "is_digit (hd (show_base 10 n))" for n using d[of n] by (cases "show_base 10 n") auto
  have k: "is_digit c \<Longrightarrow> \<not> is_ws c \<and> c \<noteq> 34 \<and> punct c = None \<and> \<not> is_lower c" for c
    by (auto simp: is_digit_def is_ws_def punct_def is_lower_def word_le_nat_alt)
  show ?thesis
    using d h k[OF h] by (auto simp: show_int_def list_all_iff is_numeric_def is_ws_def punct_def is_lower_def)
qed

section \<open>Strings\<close>

lemma scan_plain: "c \<noteq> 34 \<Longrightarrow> c \<noteq> 92 \<Longrightarrow> \<not> c < 32 \<Longrightarrow>
    scan_string (c # s) = map_option (apfst (Cons c)) (scan_string s)"
  by simp

lemma scan_simple:
  "simple_escape e = Some u \<Longrightarrow> e \<noteq> 117 \<Longrightarrow>
     scan_string (92 # e # s) = map_option (apfst (Cons u)) (scan_string s)"
  by simp

lemma length_4: "length xs = 4 \<Longrightarrow> \<exists>a b c d. xs = [a, b, c, d]"
  by (auto simp: numeral_eq_Suc length_Suc_conv)

lemma scan_escape_unit:
  "scan_string (escape_unit c @ s) = map_option (apfst (Cons c)) (scan_string s)"
proof -
  obtain a b d f where h: "hex_fix 4 (unat c) = [a, b, d, f]"
    using length_4[OF length_hex_fix] by blast
  have "list_all is_hex [a, b, d, f]"
    using hex_fix_lhex[of 4 "unat c"] h by (auto simp: is_hex_def)
  moreover have "unat c < 16 ^ 4" using unsigned_less[of c, where ?'a = nat] by simp
  then have "val_base 16 [a, b, d, f] = unat c" using val_hex_fix[of "unat c" 4] h by simp
  ultimately show ?thesis by (simp add: escape_unit_def h)
qed

lemma scan_quote_char:
  assumes "ch \<in> set (chars s)"
  shows "scan_string (quote_char ch @ t) = map_option (apfst ((@) ch)) (scan_string t)"
  using chars_shape[OF assms]
proof (elim disjE exE conjE)
  fix c assume ch: "ch = [c]"
  have a: "(@) [c] = Cons c" by (rule ext) simp
  consider "c \<in> set [8, 9, 10, 12, 13, 34, 92]" | "c \<notin> set [8, 9, 10, 12, 13, 34, 92]" "c < 32 \<or> is_surrogate c"
    | "c \<notin> set [8, 9, 10, 12, 13, 34, 92]" "\<not> c < 32" "\<not> is_surrogate c"
    by blast
  then show ?thesis
  proof cases
    case 1
    then have "\<exists>e. quote_char [c] = [92, e] \<and> e \<noteq> 117 \<and> simple_escape e = Some c"
      by (simp add: quote_char_def simple_escape_def) (elim disjE; simp)
    then show ?thesis unfolding ch a by (auto simp: scan_simple simp del: scan_string.simps(2))
  next
    case 2
    then have "quote_char [c] = escape_unit c" by (auto simp: quote_char_def)
    then show ?thesis unfolding ch a by (simp only: scan_escape_unit)
  next
    case 3
    then have "quote_char [c] = [c]" "c \<noteq> 34" "c \<noteq> 92" by (auto simp: quote_char_def)
    then show ?thesis unfolding ch a using 3 by simp
  qed
next
  fix h l assume ch: "ch = [h, l]" "is_high h" "is_low l"
  then have "\<not> h < 32" "h \<noteq> 34" "h \<noteq> 92" "\<not> l < 32" "l \<noteq> 34" "l \<noteq> 92"
    by (auto simp: is_high_def is_low_def word_less_nat_alt word_le_nat_alt)
  then show ?thesis
    by (simp add: ch quote_char_def scan_plain option.map_comp del: scan_string.simps(2))
      (cases "scan_string t"; auto)
qed

lemma scan_quoted_chars:
  "set chs \<subseteq> set (chars s) \<Longrightarrow>
     scan_string (concat (map quote_char chs) @ 34 # t) = Some (concat chs, t)"
proof (induction chs)
  case (Cons a chs)
  then show ?case using scan_quote_char[of a s "concat (map quote_char chs) @ 34 # t"] by simp
qed simp

lemma scan_quote: "scan_string (concat (map quote_char (chars s)) @ 34 # t) = Some (s, t)"
  using scan_quoted_chars[of "chars s" s t] by (simp add: concat_chars)

lemma tokens_quote: "tokens (quote s @ r) = map_option (Cons (TStr s)) (tokens r)"
  by (simp add: quote_def tokens.simps(2) is_ws_def scan_quote)

section \<open>The round trip\<close>

fun wf_json :: "json \<Rightarrow> bool" where
  "wf_json (JNum d) = safe_dbl d"
| "wf_json (JArr xs) = list_all wf_json xs"
| "wf_json (JObj ms) = (distinct (map fst ms) \<and> own_order ms = ms \<and> list_all (\<lambda>(k, v). wf_json v) ms)"
| "wf_json v = True"

definition sep_toks :: "tok list list \<Rightarrow> tok list" where
  "sep_toks xs = (case xs of [] \<Rightarrow> [] | y # ys \<Rightarrow> y @ concat (map (\<lambda>s. Comma # s) ys))"

fun toks :: "json \<Rightarrow> tok list" where
  "toks (JStr s) = [TStr s]"
| "toks (JArr xs) = [LBracket] @ sep_toks (map toks xs) @ [RBracket]"
| "toks (JObj ms) = [LBrace] @ sep_toks (map (\<lambda>(k, v). [TStr k, Colon] @ toks v) ms) @ [RBrace]"
| "toks v = [TValue v]"

text \<open>What may follow a value in printed text.\<close>

definition follows :: "str \<Rightarrow> bool" where
  "follows r \<longleftrightarrow> r = [] \<or> hd r \<in> {44, 93, 125}"

lemma takeWhile_follows:
  assumes "list_all P s" "r = [] \<or> \<not> P (hd r)"
  shows "takeWhile P (s @ r) = s" "dropWhile P (s @ r) = r"
  using assms by (induction s) (cases r; simp)+

lemma tokens_punct:
  "c \<in> {91, 93, 123, 125, 44, 58} \<Longrightarrow> tokens (c # r) = map_option (Cons (the (punct c))) (tokens r)"
  by (auto simp: tokens.simps(2) punct_def is_ws_def)

lemma follows_class: "follows r \<Longrightarrow> r = [] \<or> \<not> is_lower (hd r) \<and> \<not> is_numeric (hd r)"
  by (auto simp: follows_def is_lower_def is_numeric_def is_digit_def)

lemma tokens_word:
  assumes "list_all is_lower (c # w)" "word_token (c # w) = Some t" "follows r"
  shows "tokens ((c # w) @ r) = map_option (Cons t) (tokens r)"
proof -
  have c: "\<not> is_ws c" "c \<noteq> 34" "punct c = None" "is_lower c"
    using assms(1) by (auto simp: is_ws_def is_lower_def punct_def)
  have "takeWhile is_lower (w @ r) = w" "dropWhile is_lower (w @ r) = r"
    using takeWhile_follows[of is_lower w r] assms(1) follows_class[OF assms(3)] by auto
  with c assms(2) show ?thesis by (simp add: tokens.simps(2))
qed

lemma tokens_number:
  assumes "safe_dbl d" "follows r"
  shows "tokens (show_dbl d @ r) = map_option (Cons (TValue (JNum d))) (tokens r)"
proof -
  obtain i where i: "\<bar>i\<bar> \<le> max_safe" "d = dbl_of_int i" using assms(1) by (auto simp: safe_dbl_def)
  obtain c cs where s: "show_int i = c # cs" using show_int_numeric[of i] by (cases "show_int i") auto
  have c: "\<not> is_ws c" "c \<noteq> 34" "punct c = None" "\<not> is_lower c" "is_numeric c" "list_all is_numeric cs"
    using show_int_numeric[of i] s by auto
  have "takeWhile is_numeric (cs @ r) = cs" "dropWhile is_numeric (cs @ r) = r"
    using takeWhile_follows[of is_numeric cs r] c(6) follows_class[OF assms(2)] by auto
  moreover have "parse_number (c # cs) = Some d" using parse_number_int[OF i(1)] s i(2) by simp
  ultimately show ?thesis
    using c by (simp add: i(2) show_dbl_int[OF i(1)] s) (simp add: tokens.simps(2) i(2))
qed

lemma append_fun: "(@) (x # xs) = (\<lambda>r. x # xs @ r)" "(@) (xs @ ys) = (\<lambda>r. xs @ ys @ r)"
  by (rule ext, simp)+

lemma map_option_Nil [simp]: "map_option ((@) []) x = x"
  by (cases x) simp_all

lemma tokens_sep:
  assumes "\<And>x r. x \<in> set xs \<Longrightarrow> follows r \<Longrightarrow> tokens (f x @ r) = map_option ((@) (g x)) (tokens r)"
    and "follows r"
  shows "tokens (comma_sep (map f xs) @ r) = map_option ((@) (sep_toks (map g xs))) (tokens r)"
proof -
  have step: "tokens (concat (map (\<lambda>s. 44 # s) (map f ys)) @ r)
      = map_option ((@) (concat (map (\<lambda>s. Comma # s) (map g ys)))) (tokens r)
      \<and> follows (concat (map (\<lambda>s. 44 # s) (map f ys)) @ r)" if "set ys \<subseteq> set xs" for ys
    using that
  proof (induction ys)
    case Nil
    then show ?case using assms(2) by (simp add: option.map_ident)
  next
    case (Cons y ys)
    then show ?case
      using assms(1)[of y] by (auto simp: tokens_punct punct_def option.map_comp comp_def follows_def)
  qed
  show ?thesis
  proof (cases xs)
    case Nil
    then show ?thesis by (simp add: comma_sep_def sep_toks_def option.map_ident)
  next
    case (Cons y ys)
    then show ?thesis
      using step[of ys] assms(1)[of y "concat (map (\<lambda>s. 44 # s) (map f ys)) @ r"]
      by (simp add: comma_sep_def sep_toks_def option.map_comp comp_def append_fun subset_insertI)
  qed
qed

lemma tokens_stringify:
  "wf_json v \<Longrightarrow> follows r \<Longrightarrow> tokens (stringify v @ r) = map_option ((@) (toks v)) (tokens r)"
proof (induction v arbitrary: r rule: stringify.induct)
  case 1
  then show ?case using tokens_word[of "cu_of (CHR ''n'')" "lit ''ull''" "TValue JNull" r]
    by (simp add: word_token_def str_simps)
next
  case (2 b)
  then show ?case
    using tokens_word[of "cu_of (CHR ''t'')" "lit ''rue''" "TValue (JBool True)" r]
      tokens_word[of "cu_of (CHR ''f'')" "lit ''alse''" "TValue (JBool False)" r]
    by (simp add: word_token_def str_simps)
next
  case (3 d)
  have "stringify (JNum d) = show_dbl d"
  proof (cases d)
    case (Inf n)
    then have "\<exists>i. dbl_of_int i = Inf n" using 3 by (auto simp: safe_dbl_def)
    then show ?thesis by (auto simp: dbl_of_int_def canon_not_Inf)
  qed (simp del: show_dbl.simps)
  then show ?case using 3 tokens_number[of d r] by (simp del: show_dbl.simps stringify.simps)
next
  case (4 s)
  then show ?case by (simp add: tokens_quote)
next
  case (5 xs)
  have "tokens (comma_sep (map stringify xs) @ 93 # r)
      = map_option ((@) (sep_toks (map toks xs))) (tokens (93 # r))"
    using 5 by (intro tokens_sep) (auto simp: list_all_iff follows_def)
  then show ?case by (simp add: tokens_punct punct_def option.map_comp comp_def)
next
  case (6 ms)
  have m: "tokens ((case x of (k, v) \<Rightarrow> quote k @ [58] @ stringify v) @ r')
      = map_option ((@) (case x of (k, v) \<Rightarrow> [TStr k, Colon] @ toks v)) (tokens r')"
    if "x \<in> set ms" "follows r'" for x r'
  proof (cases x)
    case (Pair k v)
    have "wf_json v" using 6(2) that(1) Pair by (auto simp: list_all_iff)
    then have "tokens (stringify v @ r') = map_option ((@) (toks v)) (tokens r')"
      using 6(1)[OF that(1) Pair[symmetric]] that(2) Pair by blast
    then show ?thesis
      by (simp add: Pair tokens_quote tokens_punct punct_def option.map_comp comp_def append_fun)
  qed
  have "tokens (comma_sep (map (\<lambda>(k, v). quote k @ [58] @ stringify v) ms) @ 125 # r)
      = map_option ((@) (sep_toks (map (\<lambda>(k, v). [TStr k, Colon] @ toks v) ms))) (tokens (125 # r))"
    using m by (intro tokens_sep) (auto simp: follows_def)
  then show ?case by (simp add: tokens_punct punct_def option.map_comp comp_def)
qed

lemma toks_first: "\<exists>t ts. toks v = t # ts \<and> t \<noteq> RBracket"
  by (cases v) simp_all

lemma fold_item: "fold pstep (toks v) (WantItem st) = fold pstep (toks v) (WantValue st)"
  using toks_first[of v] by auto

text \<open>The items and the members that follow the first one, up to the closing bracket.\<close>

lemma fold_items:
  assumes "\<And>x st. x \<in> set xs \<Longrightarrow> fold pstep (toks x) (WantValue st) = complete_value x st"
  shows "fold pstep (concat (map (\<lambda>s. Comma # s) (map toks xs)) @ [RBracket]) (AfterValue (FArr acc # st))
    = complete_value (JArr (rev acc @ xs)) st"
  using assms
proof (induction xs arbitrary: acc)
  case (Cons x xs)
  then show ?case using Cons.IH[of "x # acc"] by (simp add: complete_value_def)
qed simp

lemma fold_members:
  assumes "\<And>k v st. (k, v) \<in> set ms \<Longrightarrow> fold pstep (toks v) (WantValue st) = complete_value v st"
  shows "fold pstep (concat (map (\<lambda>s. Comma # s) (map (\<lambda>(k, v). [TStr k, Colon] @ toks v) ms)) @ [RBrace])
      (AfterValue (FObj acc k0 # st)) = complete_value (make_object (rev acc @ ms)) st"
  using assms
proof (induction ms arbitrary: acc k0)
  case (Cons m ms)
  obtain k v where m: "m = (k, v)" by (cases m)
  have "fold pstep (toks v) (WantValue (FObj acc k # st)) = AfterValue (FObj ((k, v) # acc) k # st)"
    using Cons.prems[of k v] m by (simp add: complete_value_def)
  moreover note Cons.IH[of "(k, v) # acc" k, OF Cons.prems[OF list.set_intros(2)]]
  ultimately show ?case using m by simp
qed simp

lemma spread_distinct: "distinct (map fst (a @ b)) \<Longrightarrow> spread a b = a @ b"
proof (induction b arbitrary: a)
  case (Cons m b)
  obtain k v where m: "m = (k, v)" by (cases m)
  have "AList.update k v a = a @ [(k, v)]"
    using Cons.prems m by (induction a) auto
  then show ?case using Cons m by (simp add: spread_def)
qed (simp add: spread_def)

lemma fold_toks:
  "wf_json v \<Longrightarrow> fold pstep (toks v) (WantValue st) = complete_value v st"
proof (induction v arbitrary: st rule: stringify.induct)
  case (5 xs)
  show ?case
  proof (cases xs)
    case Nil
    then show ?thesis by (simp add: sep_toks_def)
  next
    case (Cons y ys)
    have "fold pstep (toks y) (WantItem (FArr [] # st)) = AfterValue (FArr [y] # st)"
      using 5 Cons by (simp add: fold_item complete_value_def)
    moreover have "fold pstep (concat (map (\<lambda>s. Comma # s) (map toks ys)) @ [RBracket])
        (AfterValue (FArr [y] # st)) = complete_value (JArr (rev [y] @ ys)) st"
      using 5 Cons by (intro fold_items) (auto simp: list_all_iff)
    ultimately show ?thesis using Cons by (simp add: sep_toks_def)
  qed
next
  case (6 ms)
  have v: "fold pstep (toks v) (WantValue st) = complete_value v st" if "(k, v) \<in> set ms" for k v st
    using 6(1)[OF that refl] 6(2) that by (auto simp: list_all_iff)
  have ms: "make_object ms = JObj ms"
    using 6(2) spread_distinct[of "[]" ms] by (simp add: make_object_def)
  show ?case
  proof (cases ms)
    case Nil
    then show ?thesis using ms by (simp add: sep_toks_def)
  next
    case (Cons m ys)
    obtain k w where m: "m = (k, w)" by (cases m)
    have "fold pstep (toks w) (WantValue (FObj [] k # st)) = AfterValue (FObj [(k, w)] k # st)"
      using v[of k w] Cons m by (simp add: complete_value_def)
    moreover have "fold pstep (concat (map (\<lambda>s. Comma # s) (map (\<lambda>(k, v). [TStr k, Colon] @ toks v) ys)) @ [RBrace])
        (AfterValue (FObj [(k, w)] k # st)) = complete_value (make_object (rev [(k, w)] @ ys)) st"
      using v Cons by (intro fold_members) auto
    ultimately show ?thesis using Cons m ms by (simp add: sep_toks_def)
  qed
qed simp_all

lemma json_round_trip: "wf_json v \<Longrightarrow> json_parse (stringify v) = Some v"
  using tokens_stringify[of v "[]"] fold_toks[of v "[]"]
  by (simp add: json_parse_def follows_def complete_value_def)

section \<open>What the parser returns\<close>

text \<open>Objects list distinct keys in own order; and numbers are safe integers.\<close>

fun ordered :: "json \<Rightarrow> bool" where
  "ordered (JArr xs) = list_all ordered xs"
| "ordered (JObj ms) = (distinct (map fst ms) \<and> own_order ms = ms \<and> list_all (\<lambda>(k, v). ordered v) ms)"
| "ordered v = True"

fun safe_numbers :: "json \<Rightarrow> bool" where
  "safe_numbers (JNum d) = safe_dbl d"
| "safe_numbers (JArr xs) = list_all safe_numbers xs"
| "safe_numbers (JObj ms) = list_all (\<lambda>(k, v). safe_numbers v) ms"
| "safe_numbers v = True"

lemma wf_json_iff: "wf_json v \<longleftrightarrow> ordered v \<and> safe_numbers v"
  by (induction v rule: wf_json.induct) (auto simp: list_all_iff)

lemma set_own_order: "set (own_order ms) = set ms"
  by (auto simp: own_order_def)

lemma own_order_idem: "own_order (own_order ms) = own_order ms"
proof -
  let ?i = "filter (\<lambda>(k, v). index_key k) ms" and ?n = "filter (\<lambda>(k, v). \<not> index_key k) ms"
  let ?s = "sort_key (\<lambda>(k, v). val_base 10 k) ?i"
  have i: "filter (\<lambda>(k, v). index_key k) ?s = ?s" by (auto simp: filter_id_conv)
  have e: "filter (\<lambda>(k, v). \<not> index_key k) ?s = []" by (auto simp: filter_empty_conv)
  have n: "filter (\<lambda>(k, v). index_key k) ?n = []" by (auto simp: filter_empty_conv)
  have "sort_key (\<lambda>(k, v). val_base 10 k) ?s = ?s" by (intro sort_key_id_if_sorted sorted_sort_key)
  then show ?thesis unfolding own_order_def filter_append i n e by simp
qed

lemma distinct_own_order: "distinct (map fst ms) \<Longrightarrow> distinct (map fst (own_order ms))"
proof -
  assume d: "distinct (map fst ms)"
  let ?s = "sort_key (\<lambda>(k, v). val_base 10 k) (filter (\<lambda>(k, v). index_key k) ms)"
  have "distinct (map fst (filter P ms))" for P using d by (simp add: distinct_map_filter)
  moreover from this have "distinct (map fst ?s)"
    by (simp add: distinct_map inj_on_def)
  ultimately show ?thesis by (auto simp: own_order_def)
qed

lemma spread_values: "(k, v) \<in> set (spread a b) \<Longrightarrow> (k, v) \<in> set a \<or> (k, v) \<in> set b"
  unfolding spread_def
proof (induction b arbitrary: a)
  case (Cons x b)
  obtain k' v' where x: "x = (k', v')" by (cases x)
  have "set (AList.update k' v' a) \<subseteq> insert (k', v') (set a)" by (induction a) auto
  then show ?case using Cons x by fastforce
qed simp

lemma ordered_object: "list_all (\<lambda>(k, v). ordered v) ms \<Longrightarrow> ordered (make_object ms)"
proof -
  assume v: "list_all (\<lambda>(k, v). ordered v) ms"
  have "wf_obj (spread [] ms)" by (rule wf_obj_spread) simp
  then have "distinct (map fst (own_order (spread [] ms)))"
    by (intro distinct_own_order) (simp add: wf_obj_def keys_of_def)
  moreover have "list_all (\<lambda>(k, v). ordered v) (own_order (spread [] ms))"
    using v by (auto simp: list_all_iff set_own_order dest!: spread_values)
  ultimately show ?thesis by (simp add: make_object_def own_order_idem)
qed

fun ordered_frame :: "frame \<Rightarrow> bool" where
  "ordered_frame (FArr xs) = list_all ordered xs"
| "ordered_frame (FObj ms k) = list_all (\<lambda>(k, v). ordered v) ms"

fun ordered_state :: "pstate \<Rightarrow> bool" where
  "ordered_state (WantValue st) = list_all ordered_frame st"
| "ordered_state (WantItem st) = list_all ordered_frame st"
| "ordered_state (WantKey b ms st) = (list_all (\<lambda>(k, v). ordered v) ms \<and> list_all ordered_frame st)"
| "ordered_state (WantColon k ms st) = (list_all (\<lambda>(k, v). ordered v) ms \<and> list_all ordered_frame st)"
| "ordered_state (AfterValue st) = list_all ordered_frame st"
| "ordered_state (Finished v) = ordered v"
| "ordered_state Stuck = True"

fun ordered_tok :: "tok \<Rightarrow> bool" where
  "ordered_tok (TValue v) = ordered v"
| "ordered_tok t = True"

lemma complete_ordered: "ordered v \<Longrightarrow> list_all ordered_frame st \<Longrightarrow> ordered_state (complete_value v st)"
  by (auto simp: complete_value_def split: list.split frame.split)

lemma ordered_rev: "list_all (\<lambda>(k, v). ordered v) ms \<Longrightarrow> ordered (make_object (rev ms))"
  by (intro ordered_object) (simp add: list_all_iff)

lemma want_ordered: "ordered_tok t \<Longrightarrow> list_all ordered_frame st \<Longrightarrow> ordered_state (want_value t st)"
  by (cases t) (auto intro: complete_ordered)

lemma pstep_ordered: "ordered_tok t \<Longrightarrow> ordered_state s \<Longrightarrow> ordered_state (pstep t s)"
proof (cases s)
  case (AfterValue st)
  assume "ordered_tok t" "ordered_state s"
  then show ?thesis
    using AfterValue
    by (auto intro!: complete_ordered ordered_rev simp: list_all_iff split: list.split frame.split tok.split)
next
  case (WantItem st)
  assume "ordered_tok t" "ordered_state s"
  then show ?thesis
    using WantItem
    by (auto intro!: complete_ordered want_ordered simp: list_all_iff split: list.split frame.split)
qed (auto intro!: complete_ordered want_ordered ordered_object split: tok.split)

lemma tokens_ordered: "tokens s = Some ts \<Longrightarrow> list_all ordered_tok ts"
proof (induction s arbitrary: ts rule: tokens.induct)
  case (2 c s)
  have p: "punct c = Some t \<Longrightarrow> ordered_tok t" for t
    by (auto simp: punct_def split: if_splits)
  have w: "word_token x = Some t \<Longrightarrow> ordered_tok t" for t x
    by (auto simp: word_token_def split: if_splits)
  show ?case
    using 2 by (auto simp: tokens.simps(2) p w split: if_splits option.splits)
qed simp

lemma json_parse_ordered: "json_parse s = Some v \<Longrightarrow> ordered v"
proof -
  assume a: "json_parse s = Some v"
  then obtain ts where ts: "tokens s = Some ts" "fold pstep ts (WantValue []) = Finished v"
    by (auto simp: json_parse_def split: option.splits pstate.splits)
  have "list_all ordered_tok us \<Longrightarrow> ordered_state st \<Longrightarrow> ordered_state (fold pstep us st)" for us st
    by (induction us arbitrary: st) (auto intro: pstep_ordered)
  from this[OF tokens_ordered[OF ts(1)], of "WantValue []"] show ?thesis using ts(2) by simp
qed
section \<open>Properties\<close>

text \<open>
  Every JSON value whose numbers are safe integers and whose objects list distinct keys in
  JavaScript's own order is read back exactly from its printed text, whatever strings it
  holds, lone surrogates included.
\<close>

lemma json_text_round_trip:
  assumes "wf_json v" shows "json_parse (stringify v) = Some v"
  by (rule json_round_trip[OF assms])

lemma json_text_round_trip_witness:
  "json_parse (stringify (JArr [JStr [0xD800, 34], JObj [(lit ''k'', JNull)], JBool True]))
   = Some (JArr [JStr [0xD800, 34], JObj [(lit ''k'', JNull)], JBool True])"
proof (rule json_text_round_trip)
  have "\<not> index_key (lit ''k'')" by (simp add: index_key_def is_decimal_def str_simps)
  then show "wf_json (JArr [JStr [0xD800, 34], JObj [(lit ''k'', JNull)], JBool True])"
    by (simp add: own_order_def)
qed

end
