(* ===== verification/Pagination.thy ===== *)
theory Pagination
  imports Json
begin

text \<open>
  \<open>src/shared/pagination/index.ts\<close>: page sizes, cursors bound to the query they belong to,
  and the window that turns one row too many into a next cursor.
\<close>

section \<open>Operations\<close>

definition pg_invalid :: failure where
  "pg_invalid = fail Invalid ''invalid pagination'' ''pagination.invalid''"

definition page_size :: "jsval \<Rightarrow> int result" where
  "page_size raw = (if raw = Undefined then Inr 25 else decimal raw (Whole 1) (Whole 100))"

definition validPart :: "jsval \<Rightarrow> nat \<Rightarrow> bool" where
  "validPart v limit = (case v of
     Str s \<Rightarrow> \<not> lone_surrogate s \<and> length s > 0 \<and> byteLength s \<le> limit \<and> \<not> has_control s
   | _ \<Rightarrow> False)"

definition cursor_json :: "str \<Rightarrow> str \<Rightarrow> json" where
  "cursor_json scope position = JArr [jint 1, JStr scope, JStr position]"

definition page_encode :: "str \<Rightarrow> str \<Rightarrow> str result" where
  "page_encode scope position =
     (if validPart (Str scope) 128 \<and> validPart (Str position) 256
      then Inr (b64_encode (utf8_encode (stringify (cursor_json scope position))))
      else Inl pg_invalid)"

definition page_decode :: "jsval \<Rightarrow> str \<Rightarrow> str result" where
  "page_decode wire scope =
     (case wire of
        Str w \<Rightarrow>
          if length w = 0 \<or> length w > 1024 \<or> \<not> list_all is_b64 w \<or> \<not> validPart (Str scope) 128
          then Inl pg_invalid
          else
            let bytes = b64_decode w in
            if b64_encode bytes \<noteq> w then Inl pg_invalid
            else (case (case utf8_decode bytes of None \<Rightarrow> None | Some t \<Rightarrow> json_parse t) of
                Some (JArr [one, sc, JStr p]) \<Rightarrow>
                  if one = JNum (Fin False 1 0) \<and> sc = JStr scope \<and> validPart (Str p) 256
                  then Inr p else Inl pg_invalid
              | _ \<Rightarrow> Inl pg_invalid)
      | _ \<Rightarrow> Inl pg_invalid)"

record 'a page =
  pa_items :: "'a list"
  pa_hasMore :: bool
  pa_nextCursor :: "str option"

definition page_window :: "'a list \<Rightarrow> number \<Rightarrow> str \<Rightarrow> ('a \<Rightarrow> str) \<Rightarrow> 'a page result" where
  "page_window rows limit scope position =
     (case limit of
        Whole n \<Rightarrow>
          if n < 1 \<or> n > 100 \<or> int (length rows) > n + 1 then Inl pg_invalid
          else
            let hasMore = (int (length rows) > n);
                items = take (nat n) rows
            in if \<not> hasMore then Inr \<lparr>pa_items = items, pa_hasMore = hasMore, pa_nextCursor = None\<rparr>
               else (case page_encode scope (position (items ! (length items - 1))) of
                   Inl e \<Rightarrow> Inl e
                 | Inr c \<Rightarrow> Inr \<lparr>pa_items = items, pa_hasMore = hasMore, pa_nextCursor = Some c\<rparr>)
      | _ \<Rightarrow> Inl pg_invalid)"

section \<open>The text of a cursor\<close>

definition text_part :: "str \<Rightarrow> bool" where
  "text_part s \<longleftrightarrow> \<not> lone_surrogate s \<and> \<not> has_control s"

lemma validPart_text: "validPart (Str s) n \<Longrightarrow> text_part s \<and> byteLength s \<le> n"
  by (simp add: validPart_def text_part_def)

definition needs_escape :: "cu \<Rightarrow> bool" where
  "needs_escape c \<longleftrightarrow> c = 34 \<or> c = 92"

lemma quote_char_plain:
  assumes "plain_char ch" "\<not> hd ch < 32"
  shows "quote_char ch = (if ch = [34] then [92, 34] else if ch = [92] then [92, 92] else ch)"
proof -
  have w: "8 < (32 :: cu)" "9 < (32 :: cu)" "10 < (32 :: cu)" "12 < (32 :: cu)" "13 < (32 :: cu)" by simp_all
  show ?thesis using assms w by (auto simp: plain_char_def quote_char_def split: if_splits)
qed

lemma quote_char_size:
  assumes "plain_char ch" "\<not> hd ch < 32"
  shows "\<not> lone_surrogate (quote_char ch) \<and> byteLength (quote_char ch) \<le> 2 * byteLength ch
    \<and> (\<not> list_ex needs_escape ch \<longrightarrow> quote_char ch = ch)"
proof (cases "ch = [34] \<or> ch = [92]")
  case True
  then have "quote_char ch = [92, hd ch]" "hd ch < 128" "\<not> is_surrogate (hd ch)"
    using assms by (auto simp: quote_char_plain surrogate_defs)
  then show ?thesis
    using True by (auto simp: byteLength_ascii needs_escape_def intro!: well_formed_unit)
      (auto simp: surrogate_defs)
next
  case False
  then show ?thesis using assms by (auto simp: quote_char_plain plain_char_well_formed)
qed

lemma quoted_size:
  assumes "list_all (\<lambda>ch. plain_char ch \<and> \<not> hd ch < 32) chs"
  shows "\<not> lone_surrogate (concat (map quote_char chs)) \<and>
    byteLength (concat (map quote_char chs)) \<le> 2 * byteLength (concat chs)"
  using assms
proof (induction chs)
  case (Cons ch chs)
  have ch: "\<not> lone_surrogate ch" "\<not> lone_surrogate (concat chs)"
    using Cons.prems by (auto simp: plain_char_well_formed list_all_iff intro!: well_formed_concat)
  from Cons quote_char_size[of ch] show ?case
    by (simp add: well_formed_append byteLength_append ch)
qed (simp add: lone_surrogate_def)

lemma text_part_chars: "text_part s \<Longrightarrow> list_all (\<lambda>ch. plain_char ch \<and> \<not> hd ch < 32) (chars s)"
  using plain_chars[of s] by (auto simp: text_part_def has_control_def list_ex_iff list_all_iff)

lemma quote_size:
  assumes "text_part s"
  shows "\<not> lone_surrogate (quote s)" "byteLength (quote s) \<le> 2 * byteLength s + 2"
proof -
  note q = quoted_size[OF text_part_chars[OF assms]]
  have d: "\<not> lone_surrogate [34]" "byteLength [34] = 1"
    by (simp_all add: byteLength_ascii well_formed_unit surrogate_defs)
  show "\<not> lone_surrogate (quote s)"
    unfolding quote_def by (intro well_formed_append d q[THEN conjunct1])
  show "byteLength (quote s) \<le> 2 * byteLength s + 2"
    unfolding quote_def using q d by (simp add: byteLength_append well_formed_append concat_chars del: append.simps)
qed

lemma stringify_one: "stringify (jint 1) = [49]"
proof -
  have "show_dbl (dbl_of_int 1) = show_int 1" by (rule show_dbl_int) (simp add: max_safe_def)
  moreover have "show_int 1 = [49]" by (simp add: show_int_def show_base.simps[of 10 "Suc 0"] digit_char_def)
  moreover have "dbl_of_int 1 = Fin False 1 0" by (simp add: dbl_of_int_def canon.simps)
  ultimately show ?thesis by (simp add: jint_def del: show_dbl.simps)
qed

lemma cursor_text: "stringify (cursor_json sc p) = [91, 49, 44] @ quote sc @ [44] @ quote p @ [93]"
  by (simp add: cursor_json_def stringify_one comma_sep_def del: stringify.simps(3))

lemma cursor_text_size:
  assumes "text_part sc" "text_part p"
  shows "\<not> lone_surrogate (stringify (cursor_json sc p))"
    "byteLength (stringify (cursor_json sc p)) = byteLength (quote sc) + byteLength (quote p) + 5"
proof -
  have d: "\<not> lone_surrogate [91, 49, 44]" "\<not> lone_surrogate [44]" "\<not> lone_surrogate [93]"
    by (simp_all add: well_formed_unit surrogate_defs)
  note q = quote_size(1)[OF assms(1)] quote_size(1)[OF assms(2)]
  show "\<not> lone_surrogate (stringify (cursor_json sc p))"
    unfolding cursor_text by (intro well_formed_append d q)
  show "byteLength (stringify (cursor_json sc p)) = byteLength (quote sc) + byteLength (quote p) + 5"
    unfolding cursor_text
    by (simp add: byteLength_append well_formed_append d q byteLength_ascii del: append.simps)
qed

lemma wf_cursor: "wf_json (cursor_json sc p)"
proof -
  have "safe_dbl (dbl_of_int 1)" unfolding safe_dbl_def by (rule exI[of _ 1]) (simp add: max_safe_def)
  then show ?thesis by (simp add: cursor_json_def jint_def)
qed

lemma cursor_bytes:
  assumes "text_part sc" "text_part p"
  shows "utf8_decode (utf8_encode (stringify (cursor_json sc p))) = Some (stringify (cursor_json sc p))"
proof (rule utf8_round_trip)
  show "\<not> lone_surrogate (stringify (cursor_json sc p))" by (rule cursor_text_size[OF assms])
  have "points (stringify (cursor_json sc p)) = 91 # points (49 # 44 # quote sc @ [44] @ quote p @ [93])"
    unfolding cursor_text by (simp add: points_def char_point_def is_high_def is_surrogate_def)
  then show "points (stringify (cursor_json sc p)) = [] \<or> hd (points (stringify (cursor_json sc p))) \<noteq> 0xFEFF"
    by simp
qed

lemma page_encode_Inr:
  "page_encode sc p = Inr w \<longleftrightarrow> validPart (Str sc) 128 \<and> validPart (Str p) 256
     \<and> w = b64_encode (utf8_encode (stringify (cursor_json sc p)))"
  by (auto simp: page_encode_def)

lemma page_round_trip:
  assumes "page_encode sc p = Inr w" "length w \<le> 1024"
  shows "page_decode (Str w) sc = Inr p"
proof -
  have v: "validPart (Str sc) 128" "validPart (Str p) 256"
    and w: "w = b64_encode (utf8_encode (stringify (cursor_json sc p)))"
    using assms(1) by (simp_all add: page_encode_Inr)
  have t: "text_part sc" "text_part p" using validPart_text v by blast+
  have "dbl_of_int 1 = Fin False 1 0" by (simp add: dbl_of_int_def canon.simps)
  moreover have "w \<noteq> []"
    using length_b64_encode[of "utf8_encode (stringify (cursor_json sc p))"] cursor_text_size(2)[OF t]
    by (auto simp: w byteLength_def)
  moreover have "b64_decode w = utf8_encode (stringify (cursor_json sc p))" "list_all is_b64 w"
    by (simp_all add: w b64_round_trip b64_encode_alphabet)
  ultimately show ?thesis
    using assms(2) v w json_round_trip[OF wf_cursor[of sc p]]
    by (simp add: page_decode_def Let_def cursor_bytes[OF t] del: stringify.simps)
      (simp add: cursor_json_def jint_def)
qed

text \<open>The wire stays below the bound when the two parts together take at most 379 bytes.\<close>

lemma page_encode_short:
  assumes "page_encode sc p = Inr w" "byteLength sc + byteLength p \<le> 379"
  shows "length w \<le> 1024"
proof -
  have t: "text_part sc" "text_part p"
    and w: "w = b64_encode (utf8_encode (stringify (cursor_json sc p)))"
    using assms(1) validPart_text by (auto simp: page_encode_Inr)
  have "byteLength (stringify (cursor_json sc p)) \<le> 768"
    using cursor_text_size(2)[OF t] quote_size(2)[OF t(1)] quote_size(2)[OF t(2)] assms(2) by linarith
  then show ?thesis by (simp add: w length_b64_encode byteLength_def)
qed

lemma page_decode_Inr:
  assumes "page_decode (Str w) sc = Inr p"
  shows "validPart (Str p) 256" "length w \<le> 1024"
    "\<exists>t one. utf8_decode (b64_decode w) = Some t \<and> json_parse t = Some (JArr [one, JStr sc, JStr p])"
  using assms by (auto simp: page_decode_def Let_def split: if_splits option.splits json.splits list.splits)

section \<open>Cursors made of quotation marks\<close>

text \<open>The longest parts made of quotation marks: every unit is escaped.\<close>

lemma chars_quotes: "chars (replicate n 34) = replicate n [34]"
  using chars_plain[of "replicate n [34]"]
  by (simp add: list_all_iff plain_char_def surrogate_defs concat_replicate_single)

lemma byteLength_quotes: "byteLength (replicate n 34) = n"
  by (simp add: byteLength_ascii list_all_iff)

lemma quote_quotes: "quote (replicate n 34) = [34] @ concat (replicate n [92, 34]) @ [34]"
  by (simp add: quote_def chars_quotes quote_char_def)

lemma byteLength_quote_quotes: "byteLength (quote (replicate n 34)) = 2 * n + 2"
proof -
  have "length (concat (replicate n [92 :: cu, 34])) = 2 * n" by (induction n) simp_all
  then show ?thesis unfolding quote_quotes
    by (subst byteLength_ascii) (auto simp: list_all_iff)
qed

lemma validPart_quotes: "0 < n \<Longrightarrow> n \<le> k \<Longrightarrow> validPart (Str (replicate n 34)) k"
  using well_formed_unit[of "replicate n 34"]
  by (simp add: validPart_def byteLength_quotes has_control_def chars_quotes list_ex_iff list_all_iff
      surrogate_defs)

text \<open>Printable ASCII is always a valid part.\<close>

lemma chars_ascii: "list_all (\<lambda>c. c < 128) s \<Longrightarrow> chars s = map (\<lambda>c. [c]) s"
proof -
  assume a: "list_all (\<lambda>c. c < 128) s"
  have "concat (map (\<lambda>c. [c]) s) = s" by (induction s) simp_all
  moreover have "list_all plain_char (map (\<lambda>c. [c]) s)"
    using a by (auto simp: list_all_iff plain_char_def ascii_not_surrogate)
  ultimately show ?thesis using chars_plain by metis
qed

lemma validPart_ascii:
  assumes "list_all (\<lambda>c. 32 \<le> c \<and> c < 127) s" "s \<noteq> []" "length s \<le> k"
  shows "validPart (Str s) k"
proof -
  have a: "list_all (\<lambda>c. c < 128) s" using assms(1) by (auto simp: list_all_iff word_less_nat_alt)
  have "\<not> lone_surrogate s" using a by (intro well_formed_unit) (auto simp: list_all_iff ascii_not_surrogate)
  moreover have "\<not> has_control s"
    using assms(1) by (auto simp: has_control_def chars_ascii[OF a] list_ex_iff list_all_iff word_less_nat_alt word_le_nat_alt)
  ultimately show ?thesis using assms(2,3) by (simp add: validPart_def byteLength_ascii[OF a])
qed

lemma sample_parts:
  "validPart (Str (lit ''orders'')) 128" "validPart (Str (lit ''42'')) 256"
  "byteLength (lit ''orders'') + byteLength (lit ''42'') \<le> 379"
  by (simp_all add: validPart_ascii byteLength_ascii str_simps)

section \<open>Properties\<close>

text \<open>
  C34: a cursor the encoder returns decodes, under the same scope, to the position it was made
  from, whenever the two parts together take at most 379 bytes.
\<close>

theorem cursor_round_trip:
  assumes "page_encode scope position = Inr w" "byteLength scope + byteLength position \<le> 379"
  shows "page_decode (Str w) scope = Inr position"
  using page_round_trip[OF assms(1) page_encode_short[OF assms]] .

theorem cursor_round_trip_witness:
  "\<exists>w. page_encode (lit ''orders'') (lit ''42'') = Inr w \<and> page_decode (Str w) (lit ''orders'') = Inr (lit ''42'')"
proof -
  obtain w where w: "page_encode (lit ''orders'') (lit ''42'') = Inr w"
    using sample_parts by (auto simp: page_encode_def)
  from cursor_round_trip[OF w sample_parts(3)] w show ?thesis by blast
qed

text \<open>
  C35: the encoder accepts parts whose cursor the decoder refuses: a scope of 128 and a
  position of 256 quotation marks give a cursor longer than the 1024 units decoding allows.
\<close>

theorem cursor_too_long:
  "\<exists>w. page_encode (replicate 128 34) (replicate 256 34) = Inr w \<and> length w = 1036
     \<and> page_decode (Str w) (replicate 128 34) = Inl pg_invalid"
proof -
  have v: "validPart (Str (replicate 128 34)) 128" "validPart (Str (replicate 256 34)) 256"
    by (simp_all only: validPart_quotes)
  have t: "text_part (replicate 128 34)" "text_part (replicate 256 34)"
    using validPart_text v by blast+
  define w where "w = b64_encode (utf8_encode (stringify (cursor_json (replicate 128 34) (replicate 256 34))))"
  have "length w = 1036"
    using cursor_text_size(2)[OF t]
    by (simp only: w_def length_b64_encode byteLength_def[symmetric] byteLength_quote_quotes) simp
  moreover from this have "page_decode (Str w) (replicate 128 34) = Inl pg_invalid"
    by (simp add: page_decode_def)
  moreover have "page_encode (replicate 128 34) (replicate 256 34) = Inr w"
    using v by (simp only: page_encode_Inr w_def)
  ultimately show ?thesis by blast
qed

text \<open>
  A cursor is bound to its query: whatever text is presented, at most one scope accepts
  it and the position read from it is unique and a valid part.
\<close>

lemma cursor_bound_to_scope:
  assumes "page_decode (Str w) scope = Inr p" "page_decode (Str w) scope' = Inr p'"
  shows "scope = scope' \<and> p = p' \<and> validPart (Str p) 256"
proof -
  obtain t one t' one' where "utf8_decode (b64_decode w) = Some t" "json_parse t = Some (JArr [one, JStr scope, JStr p])"
    "utf8_decode (b64_decode w) = Some t'" "json_parse t' = Some (JArr [one', JStr scope', JStr p'])"
    using page_decode_Inr(3)[OF assms(1)] page_decode_Inr(3)[OF assms(2)] by blast
  then show ?thesis using page_decode_Inr(1)[OF assms(1)] by simp
qed

lemma cursor_bound_to_scope_witness:
  "\<exists>w. page_decode (Str w) (lit ''orders'') = Inr (lit ''42'') \<and> validPart (Str (lit ''42'')) 256"
proof -
  obtain w where w: "page_encode (lit ''orders'') (lit ''42'') = Inr w"
    using sample_parts by (auto simp: page_encode_def)
  have d: "page_decode (Str w) (lit ''orders'') = Inr (lit ''42'')"
    using page_round_trip[OF w page_encode_short[OF w sample_parts(3)]] .
  from cursor_bound_to_scope[OF d d] d show ?thesis by blast
qed

text \<open>
  A window of at most one row too many gives the first \<open>n\<close> rows, says whether there are
  more, and carries a cursor exactly then: the one of the last row it shows.
\<close>

lemma window_page:
  assumes "page_window rows (Whole n) scope position = Inr pg"
  shows "pa_items pg = take (nat n) rows \<and> pa_hasMore pg = (int (length rows) > n)
    \<and> (case pa_nextCursor pg of
         None \<Rightarrow> pa_items pg = rows
       | Some c \<Rightarrow> length rows = Suc (nat n) \<and> page_encode scope (position (rows ! (nat n - 1))) = Inr c)"
  using assms
  by (auto simp: page_window_def Let_def split: if_splits sum.splits)

lemma window_page_witness:
  "\<exists>pg. page_window [lit ''42'', lit ''43''] (Whole 1) (lit ''orders'') id = Inr pg \<and> pa_items pg = [lit ''42'']
     \<and> pa_hasMore pg \<and> pa_nextCursor pg \<noteq> None"
proof -
  obtain pg where pg: "page_window [lit ''42'', lit ''43''] (Whole 1) (lit ''orders'') id = Inr pg"
    "pa_nextCursor pg \<noteq> None"
    using sample_parts by (simp add: page_window_def page_encode_def)
  from window_page[OF pg(1)] pg show ?thesis by auto
qed

end
