(* ===== verification/Clock.thy ===== *)
theory Clock
  imports Errors
begin

text \<open>
  \<open>src/shared/clock/clock.ts\<close> and \<open>src/shared/secret/value.ts\<close>: dates, the two clocks and
  the redacting secret. An operation that throws returns the exception together with the
  state it leaves behind, so that a refusal without a change of state is a statement
  about the model.
\<close>

section \<open>Secrets\<close>

datatype secret = Secret (hidden: str)

definition redacted :: str where
  "redacted = lit ''[REDACTED]''"

definition newSecret :: "jsval \<Rightarrow> exn + secret" where
  "newSecret v = (case v of Str s \<Rightarrow> Inr (Secret s)
     | _ \<Rightarrow> Inl (TypeError (lit ''secret requires a string'')))"

definition reveal :: "secret \<Rightarrow> str" where
  "reveal s = hidden s"

text \<open>\<open>toString\<close>, \<open>toJSON\<close>, \<open>Symbol.toPrimitive\<close> and the inspection hook.\<close>

definition secret_toString :: "secret \<Rightarrow> str" where
  "secret_toString s = redacted"

definition secret_toJSON :: "secret \<Rightarrow> str" where
  "secret_toJSON s = redacted"

definition secret_toPrimitive :: "secret \<Rightarrow> str" where
  "secret_toPrimitive s = redacted"

definition secret_inspect :: "secret \<Rightarrow> str" where
  "secret_inspect s = redacted"

section \<open>Dates\<close>

text \<open>A \<open>Date\<close> holds an integral number of milliseconds within \<open>\<plusminus>8.64e15\<close>, or \<open>NaN\<close>.\<close>

datatype date = Date int | InvalidDate

definition max_date :: int where
  "max_date = 8640000000000000"

fun getTime :: "date \<Rightarrow> number" where
  "getTime (Date ms) = Whole ms"
| "getTime InvalidDate = NaN"

fun wf_date :: "date \<Rightarrow> bool" where
  "wf_date (Date ms) = (\<bar>ms\<bar> \<le> max_date)"
| "wf_date InvalidDate = True"

definition new_Date :: "int \<Rightarrow> date" where
  "new_Date ms = (if \<bar>ms\<bar> \<le> max_date then Date ms else InvalidDate)"

section \<open>The controlled clock\<close>

definition validMillis :: "date \<Rightarrow> exn + int" where
  "validMillis d = (case getTime d of Whole ms \<Rightarrow> Inr ms
     | _ \<Rightarrow> Inl (RangeError (lit ''clock: invalid wall time'')))"

record fake_clock =
  fc_wall :: int
  fc_elapsed :: int

definition fake_new :: "date \<Rightarrow> exn + fake_clock" where
  "fake_new start = (case validMillis start of Inl e \<Rightarrow> Inl e
     | Inr ms \<Rightarrow> Inr \<lparr>fc_wall = ms, fc_elapsed = 0\<rparr>)"

definition fake_now :: "fake_clock \<Rightarrow> date" where
  "fake_now c = new_Date (fc_wall c)"

definition fake_elapsed :: "fake_clock \<Rightarrow> int" where
  "fake_elapsed c = fc_elapsed c"

definition fake_set :: "date \<Rightarrow> fake_clock \<Rightarrow> (exn + unit) \<times> fake_clock" where
  "fake_set wall c = (case validMillis wall of Inl e \<Rightarrow> (Inl e, c)
     | Inr ms \<Rightarrow> (Inr (), c\<lparr>fc_wall := ms\<rparr>))"

text \<open>
  The sum of two safe integers may round when it leaves the safe range; the second guard
  refuses it in either case, so the exact sum decides as the rounded one does.
\<close>

definition fake_advance :: "number \<Rightarrow> fake_clock \<Rightarrow> (exn + unit) \<times> fake_clock" where
  "fake_advance milliseconds c =
     (case milliseconds of
        Whole ms \<Rightarrow>
          if \<not> is_safe_integer (Whole ms) \<or> ms < 0
          then (Inl (RangeError (lit ''clock: invalid advance'')), c)
          else let wall = fc_wall c + ms in
            if \<not> is_safe_integer (Whole wall) \<or> \<bar>wall\<bar> > max_date
            then (Inl (RangeError (lit ''clock: invalid advance'')), c)
            else (Inr (), c\<lparr>fc_wall := wall, fc_elapsed := fc_elapsed c + ms * 1000000\<rparr>)
      | _ \<Rightarrow> (Inl (RangeError (lit ''clock: invalid advance'')), c))"

datatype clock_op = SetWall date | Advance number

fun clock_apply :: "clock_op \<Rightarrow> fake_clock \<Rightarrow> (exn + unit) \<times> fake_clock" where
  "clock_apply (SetWall d) c = fake_set d c"
| "clock_apply (Advance n) c = fake_advance n c"

definition clock_inv :: "fake_clock \<Rightarrow> bool" where
  "clock_inv c \<longleftrightarrow> \<bar>fc_wall c\<bar> \<le> max_date \<and> 0 \<le> fc_elapsed c"

text \<open>The production clock: a wall reading, and monotonic nanoseconds from a private origin.\<close>

record system_clock =
  sc_origin :: int

definition system_new :: "int \<Rightarrow> system_clock" where
  "system_new hr = \<lparr>sc_origin = hr\<rparr>"

definition system_now :: "int \<Rightarrow> date" where
  "system_now wall = new_Date wall"

definition system_elapsed :: "int \<Rightarrow> system_clock \<Rightarrow> int" where
  "system_elapsed hr c = hr - sc_origin c"

section \<open>Lemmas\<close>

lemma fake_set_cases:
  "fake_set d c = (r, c') \<Longrightarrow> (r = Inr () \<and> (\<exists>ms. d = Date ms \<and> c' = c\<lparr>fc_wall := ms\<rparr>))
     \<or> (\<exists>e. r = Inl e \<and> c' = c)"
  by (cases d) (auto simp: fake_set_def validMillis_def)

lemma fake_advance_cases:
  "fake_advance n c = (r, c') \<Longrightarrow>
     (r = Inr () \<and> (\<exists>ms. n = Whole ms \<and> 0 \<le> ms \<and> \<bar>fc_wall c + ms\<bar> \<le> max_date
        \<and> c' = c\<lparr>fc_wall := fc_wall c + ms, fc_elapsed := fc_elapsed c + ms * 1000000\<rparr>))
     \<or> (\<exists>e. r = Inl e \<and> c' = c)"
  by (cases n) (auto simp: fake_advance_def Let_def split: if_splits)

lemma clock_apply_inv:
  "clock_inv c \<Longrightarrow> (\<And>d. x = SetWall d \<Longrightarrow> wf_date d) \<Longrightarrow> clock_inv (snd (clock_apply x c))"
  by (cases x; cases "clock_apply x c")
    (auto simp: clock_inv_def dest!: fake_set_cases fake_advance_cases)

lemma fake_now_getTime: "clock_inv c \<Longrightarrow> getTime (fake_now c) = Whole (fc_wall c)"
  by (simp add: clock_inv_def fake_now_def new_Date_def)

section \<open>Properties\<close>

text \<open>
  On a consistent fake clock, an accepted advance moves the wall by exactly the given
  milliseconds and the monotonic reading by exactly as many nanoseconds, and a refused one
  moves neither.
\<close>

lemma clock_advance_exact:
  assumes "clock_inv c"
  shows "case fake_advance n c of
       (Inr _, c') \<Rightarrow> clock_inv c' \<and> n = Whole (fc_wall c' - fc_wall c)
         \<and> getTime (fake_now c') = Whole (fc_wall c') \<and> fc_wall c \<le> fc_wall c'
         \<and> fake_elapsed c' = fake_elapsed c + (fc_wall c' - fc_wall c) * 1000000
     | (Inl _, c') \<Rightarrow> c' = c"
proof (cases "fake_advance n c")
  case (Pair r c')
  have "clock_inv c'" using clock_apply_inv[OF assms, of "Advance n"] Pair by simp
  then show ?thesis
    using fake_advance_cases[OF Pair] Pair fake_now_getTime[of c']
    by (auto simp: fake_elapsed_def split: sum.split)
qed

lemma clock_advance_exact_witness:
  "clock_inv \<lparr>fc_wall = 5, fc_elapsed = 0\<rparr> \<and>
   (case fake_advance (Whole 7) \<lparr>fc_wall = 5, fc_elapsed = 0\<rparr> of
       (Inr _, c') \<Rightarrow> fc_wall c' = 12 \<and> fake_elapsed c' = 7000000 | _ \<Rightarrow> False)"
proof -
  have i: "clock_inv \<lparr>fc_wall = 5, fc_elapsed = 0\<rparr>" by (simp add: clock_inv_def max_date_def)
  show ?thesis
    using clock_advance_exact[OF i, of "Whole 7"] i
    by (simp add: fake_advance_def max_safe_def max_date_def Let_def fake_elapsed_def)
qed

end
