(* ===== verification/Ids.thy ===== *)
theory Ids
  imports Clock
begin

text \<open>
  \<open>src/shared/id\<close>: canonical UUID text (\<open>value.ts\<close>), the ordered version 7 generator
  (\<open>v7.ts\<close>) and the finite test sequence (\<open>sequence.ts\<close>). The wall clock and the
  entropy source are inputs of a step: one reading and one outcome of filling ten bytes.
\<close>

unbundle bit_operations_syntax

section \<open>Parsing\<close>

type_synonym id = str

definition is_variant :: "cu \<Rightarrow> bool" where
  "is_variant c \<longleftrightarrow> c = 56 \<or> c = 57 \<or> c = 97 \<or> c = 98 \<or> c = 65 \<or> c = 66"

definition is_dash :: "cu \<Rightarrow> bool" where
  "is_dash c \<longleftrightarrow> c = 45"

text \<open>The regular expression, one class per position.\<close>

definition canonical_pat :: "(cu \<Rightarrow> bool) list" where
  "canonical_pat = replicate 8 is_hex @ [is_dash] @ replicate 4 is_hex @ [is_dash]
     @ replicate 4 is_hex @ [is_dash] @ [is_variant] @ replicate 3 is_hex @ [is_dash]
     @ replicate 12 is_hex"

definition canonical :: "str \<Rightarrow> bool" where
  "canonical s \<longleftrightarrow> list_all2 (\<lambda>P c. P c) canonical_pat s"

definition lower_unit :: "cu \<Rightarrow> cu" where
  "lower_unit c = (if is_upper c then c + 32 else c)"

text \<open>\<open>toLowerCase\<close>, on the ASCII text the pattern has admitted.\<close>

definition to_lower :: "str \<Rightarrow> str" where
  "to_lower s = map lower_unit s"

definition parse :: "jsval \<Rightarrow> id result" where
  "parse input = (case input of
     Str s \<Rightarrow> if length s \<noteq> 36 \<or> \<not> canonical s
       then Inl (fail Invalid ''invalid ID'' ''id.invalid'') else Inr (to_lower s)
   | _ \<Rightarrow> Inl (fail Invalid ''invalid ID'' ''id.invalid''))"

text \<open>\<open>validID\<close> of \<open>provenance/reference.ts\<close>: the canonical spelling itself.\<close>

definition validID :: "str \<Rightarrow> bool" where
  "validID s \<longleftrightarrow> parse (Str s) = Inr s"

definition version :: "id \<Rightarrow> nat" where
  "version i = digit_val (i ! 14)"

definition unixMillis :: "id \<Rightarrow> nat option" where
  "unixMillis i = (if version i = 7
     then Some (val_base 16 (take 8 i @ take 4 (drop 9 i))) else None)"

section \<open>Version 7\<close>

definition tail_byte :: "nat \<Rightarrow> 8 word \<Rightarrow> 8 word" where
  "tail_byte i b = (if i = 0 then (b AND 0x3f) OR 0x80 else b)"

definition encode_tail :: "8 word list \<Rightarrow> str" where
  "encode_tail suffix =
     concat (map (\<lambda>(i, b). pad_start 2 (show_base 16 (unat (tail_byte i b)))) (enumerate 0 suffix))"

definition encodeV7 :: "nat \<Rightarrow> nat \<Rightarrow> 8 word list \<Rightarrow> id" where
  "encodeV7 ms counter suffix =
     (let stamp = pad_start 12 (show_base 16 ms);
          sequence = show_base 16 (unat ((0x7000 :: 32 word) OR of_nat counter));
          tail = encode_tail suffix
      in take 8 stamp @ [45] @ drop 8 stamp @ [45] @ sequence @ [45] @ take 4 tail @ [45] @ drop 4 tail)"

record v7 =
  v7_last :: "nat option"
  v7_counter :: nat

definition v7_new :: v7 where
  "v7_new = \<lparr>v7_last = None, v7_counter = 0\<rparr>"

text \<open>The outcome of the entropy call: a thrown value, or what it wrote to the ten bytes.\<close>

type_synonym entropy = "jsval + 8 word list"

definition filled :: "8 word list \<Rightarrow> 8 word list" where
  "filled bs = take 10 (bs @ replicate 10 0)"

definition fresh_counter :: "8 word list \<Rightarrow> nat" where
  "fresh_counter random =
     unat ((push_bit 8 (ucast (random ! 0)) OR ucast (random ! 1)) AND (0x07ff :: 32 word))"

definition v7_newId :: "date \<Rightarrow> entropy \<Rightarrow> v7 \<Rightarrow> id result \<times> v7" where
  "v7_newId now ent g =
     (case getTime now of
        Whole t \<Rightarrow>
          if \<not> is_safe_integer (Whole t) \<or> t < 0 \<or> t > 281474976710655
          then (Inl (fail Invalid ''ID timestamp out of range'' ''id.time_range''), g)
          else
            let fresh = (case v7_last g of None \<Rightarrow> True | Some l \<Rightarrow> nat t > l);
                ms = (if fresh then nat t else the (v7_last g))
            in if \<not> fresh \<and> v7_counter g = 4095
               then (Inl (fail Unavailable ''ID counter exhausted'' ''id.exhausted''), g)
               else (case ent of
                 Inl cause \<Rightarrow> (Inl (failure Unavailable (lit ''ID entropy unavailable'')
                   (no_options\<lparr>o_type := Some (lit ''id.entropy''), o_cause := cause\<rparr>)), g)
               | Inr bs \<Rightarrow>
                   let random = filled bs;
                       counter = (if fresh then fresh_counter random else v7_counter g + 1)
                   in (Inr (encodeV7 ms counter (drop 2 random)),
                       g\<lparr>v7_last := Some ms, v7_counter := counter\<rparr>))
      | _ \<Rightarrow> (Inl (fail Invalid ''ID timestamp out of range'' ''id.time_range''), g))"

text \<open>A run of the generator over the successive readings and entropy outcomes.\<close>

fun v7_run :: "(date \<times> entropy) list \<Rightarrow> v7 \<Rightarrow> id list" where
  "v7_run [] g = []"
| "v7_run ((now, ent) # es) g = (case v7_newId now ent g of
     (Inr i, g') \<Rightarrow> i # v7_run es g' | (Inl _, g') \<Rightarrow> v7_run es g')"

section \<open>Sequences\<close>

record id_sequence =
  sq_ids :: "id list"
  sq_next :: nat

definition seq_new :: "id list \<Rightarrow> id_sequence" where
  "seq_new ids = \<lparr>sq_ids = ids, sq_next = 0\<rparr>"

definition seq_newId :: "id_sequence \<Rightarrow> id result \<times> id_sequence" where
  "seq_newId s = (if sq_next s \<ge> length (sq_ids s)
     then (Inl (fail Unavailable ''ID sequence exhausted'' ''id.sequence_exhausted''), s)
     else (Inr (sq_ids s ! sq_next s), s\<lparr>sq_next := sq_next s + 1\<rparr>))"

section \<open>Lemmas on canonical text\<close>

lemma list_all2_replicate_class:
  "list_all2 (\<lambda>P c. P c) (replicate n Q) s \<longleftrightarrow> length s = n \<and> list_all Q s"
proof (induction n arbitrary: s)
  case (Suc n)
  then show ?case by (cases s) auto
qed auto

lemma list_all2_singleton_class: "list_all2 (\<lambda>P c. P c) [Q] s \<longleftrightarrow> (\<exists>c. s = [c] \<and> Q c)"
  by (auto simp: list_all2_Cons1)

lemma length_canonical_pat [simp]: "length canonical_pat = 36"
  by (simp add: canonical_pat_def)

lemma canonical_length: "canonical s \<Longrightarrow> length s = 36"
  unfolding canonical_def by (drule list_all2_lengthD) simp

lemma parse_Str: "parse (Str s) =
    (if canonical s then Inr (to_lower s) else Inl (fail Invalid ''invalid ID'' ''id.invalid''))"
  by (auto simp: parse_def dest: canonical_length)

lemma lower_unit_fix: "c \<le> 57 \<or> 97 \<le> c \<Longrightarrow> lower_unit c = c"
  by (auto simp: lower_unit_def is_upper_def word_le_nat_alt)

lemma is_upper_le: "is_upper c \<Longrightarrow> 65 \<le> c \<and> c \<le> 90"
  by (simp add: is_upper_def)

lemma lower_unit_upper:
  fixes c :: cu
  assumes "65 \<le> c" "c \<le> 90" shows "unat (c + 32) = unat c + 32"
proof -
  have "unat c \<le> 90" using assms by (simp add: word_le_nat_alt)
  then show ?thesis by (subst unat_word_ariths) simp
qed

lemma lower_unit_idem [simp]: "lower_unit (lower_unit c) = lower_unit c"
proof (cases "is_upper c")
  case True
  then have "unat (c + 32) = unat c + 32" "65 \<le> unat c"
    using lower_unit_upper[of c] by (auto simp: is_upper_def word_le_nat_alt)
  then have "97 \<le> c + 32" by (simp add: word_le_nat_alt)
  with True show ?thesis using lower_unit_fix[of "c + 32"] by (simp add: lower_unit_def[of c])
qed (simp add: lower_unit_def)

lemma lower_unit_hex: "is_hex c \<Longrightarrow> is_lhex (lower_unit c)"
proof (cases "is_upper c")
  case True
  assume "is_hex c"
  with True have "65 \<le> unat c" "unat c \<le> 70" "unat (c + 32) = unat c + 32"
    using lower_unit_upper[of c] by (auto simp: str_simps word_le_nat_alt)
  then show ?thesis using True by (simp add: lower_unit_def str_simps word_le_nat_alt)
next
  case False
  assume "is_hex c"
  with False show ?thesis by (auto simp: lower_unit_def str_simps word_le_nat_alt)
qed

lemma is_lhex_imp_hex: "is_lhex c \<Longrightarrow> is_hex c"
  by (simp add: is_hex_def)

lemma lower_unit_variant: "is_variant c \<Longrightarrow> is_variant (lower_unit c)"
  by (auto simp: is_variant_def lower_unit_def is_upper_def)

lemma lower_unit_dash: "is_dash c \<Longrightarrow> lower_unit c = c"
  by (auto simp: is_dash_def lower_unit_def is_upper_def)

lemma lower_unit_lhex: "is_lhex c \<Longrightarrow> lower_unit c = c"
  by (auto simp: lower_unit_def str_simps word_le_nat_alt)

text \<open>Lower-casing keeps every class of the pattern, so it keeps the pattern.\<close>

lemma canonical_pat_lower: "P \<in> set canonical_pat \<Longrightarrow> P c \<Longrightarrow> P (lower_unit c)"
  by (auto simp: canonical_pat_def lower_unit_dash lower_unit_variant
      intro: is_lhex_imp_hex lower_unit_hex split: if_splits)

lemma canonical_to_lower: "canonical s \<Longrightarrow> canonical (to_lower s)"
  by (auto simp: canonical_def to_lower_def list_all2_conv_all_nth simp del: length_canonical_pat
      intro: canonical_pat_lower)

lemma to_lower_idem [simp]: "to_lower (to_lower s) = to_lower s"
  by (simp add: to_lower_def)

lemma validID_iff: "validID s \<longleftrightarrow> canonical s \<and> to_lower s = s"
  by (auto simp: validID_def parse_Str)

lemma parse_valid: "parse v = Inr i \<Longrightarrow> validID i"
  by (auto simp: validID_iff parse_Str canonical_to_lower parse_def split: jsval.splits if_splits)

lemma parse_validID: "validID i \<Longrightarrow> parse (Str i) = Inr i"
  by (simp add: validID_def)

section \<open>Lemmas on the version 7 encoding\<close>

lemma hex_fix_split: "hex_fix (a + b) n = hex_fix a (n div 16 ^ b) @ hex_fix b (n mod 16 ^ b)"
proof (induction b arbitrary: n)
  case (Suc b)
  have "n div 16 mod 16 ^ b = n mod 16 ^ Suc b div 16"
    by (simp add: mod_mult2_eq)
  moreover have "n mod 16 ^ Suc b mod 16 = n mod 16"
    by (simp add: mod_mult2_eq)
  ultimately show ?case using Suc[of "n div 16"] by (simp add: div_mult2_eq)
qed simp

lemma show_base_16_exact:
  "n < 16 ^ Suc w \<Longrightarrow> 16 ^ w \<le> n \<Longrightarrow> show_base 16 n = hex_fix (Suc w) n"
proof (induction w arbitrary: n)
  case 0
  then show ?case by (simp add: show_base.simps[of 16 n])
next
  case (Suc w)
  have "n div 16 < 16 ^ Suc w" "16 ^ w \<le> n div 16"
    using Suc.prems by (simp_all add: less_mult_imp_div_less mult.commute less_eq_div_iff_mult_less_eq)
  then have "show_base 16 (n div 16) = hex_fix (Suc w) (n div 16)" by (rule Suc.IH)
  moreover have "16 \<le> n" using Suc.prems(2) by (simp add: order_trans[rotated])
  ultimately show ?case by (simp add: show_base.simps[of 16 n])
qed

lemma show_base_16_width:
  "n < 16 ^ w \<Longrightarrow> 16 ^ (w - 1) \<le> n \<Longrightarrow> 0 < w \<Longrightarrow> show_base 16 n = hex_fix w n"
  by (cases w) (auto simp: show_base_16_exact simp del: hex_fix.simps)

lemma sequence_value:
  assumes "c < 4096" shows "unat ((0x7000 :: 32 word) OR of_nat c) = 0x7000 + c"
proof -
  have c: "of_nat c AND (0x7000 :: 32 word) = 0"
  proof (rule bit_word_eqI)
    fix n
    have "c < 2 ^ 12" using assms by simp
    then have "bit c n \<Longrightarrow> n < 12" by (metis bit_take_bit_iff take_bit_nat_eq_self)
    moreover have "bit (0x7000 :: 32 word) n \<Longrightarrow> 12 \<le> n"
      by (simp add: bit_numeral_rec bit_0 numeral_eq_Suc split: nat.splits)
    ultimately show "bit (of_nat c AND (0x7000 :: 32 word)) n = bit (0 :: 32 word) n"
      by (auto simp: bit_simps)
  qed
  then have "(0x7000 :: 32 word) OR of_nat c = 0x7000 + of_nat c"
    by (simp add: disjunctive_add_eq_or and.commute)
  also have "\<dots> = of_nat (0x7000 + c)" by simp
  finally have "(0x7000 :: 32 word) OR of_nat c = of_nat (0x7000 + c)" .
  then show ?thesis using assms by (simp only: unat_of_nat) (simp add: take_bit_nat_eq_self)
qed

lemma fresh_counter_bound: "fresh_counter r < 2048"
proof -
  have "(push_bit 8 (ucast (r ! 0)) OR ucast (r ! 1)) AND (0x07ff :: 32 word) \<le> 0x07ff"
    by (rule word_and_le1)
  then show ?thesis by (simp add: fresh_counter_def word_le_nat_alt)
qed

lemma variant_byte: "unat (tail_byte 0 b) = 128 + unat b mod 64"
proof -
  have z: "(b AND 0x3f) AND 0x80 = 0"
    by (rule bit_word_eqI) (auto simp: bit_simps bit_numeral_rec numeral_eq_Suc split: nat.splits)
  have "b AND 0x3f = take_bit 6 b"
    by (simp add: take_bit_eq_mask mask_eq_decr_exp)
  then have u: "unat (b AND 0x3f) = unat b mod 64"
    by (simp only: unsigned_take_bit_eq) (simp add: take_bit_eq_mod)
  have "(b AND 0x3f) OR 0x80 = (b AND 0x3f) + 0x80"
    using z by (simp add: disjunctive_add_eq_or)
  moreover have "unat b mod 64 < 64" by simp
  ultimately show ?thesis
    using u by (simp add: tail_byte_def unat_word_ariths)
qed

lemma tail_hex: "pad_start 2 (show_base 16 (unat (b :: 8 word))) = hex_fix 2 (unat b)"
proof -
  have "unat b < 16 ^ 2" using unsigned_less[of b, where ?'a = nat] by simp
  then show ?thesis using hex_pad_fix[of "unat b" 2] by (simp add: hex_pad_def)
qed

text \<open>The sixteen digits of the tail: the first one carries the variant.\<close>

lemma encode_tail_shape:
  assumes "length suffix = 8"
  obtains v t1 t2 where "encode_tail suffix = v # t1 @ t2" "is_variant v" "is_lhex v"
    "length t1 = 3" "length t2 = 12" "list_all is_lhex t1" "list_all is_lhex t2"
proof -
  obtain b0 b1 bs where s: "suffix = b0 # b1 # bs" and l: "length bs = 6"
    using assms by (auto simp: numeral_eq_Suc length_Suc_conv)
  define d where "d = unat (tail_byte 0 b0) div 16"
  have d: "d \<in> {8, 9, 10, 11}"
    using variant_byte[of b0] by (auto simp: d_def)
  define rest where "rest = concat (map (\<lambda>(i, b). pad_start 2 (show_base 16 (unat (tail_byte i b)))) (enumerate 2 bs))"
  have rest: "length rest = 12" "list_all is_lhex rest"
  proof -
    obtain c1 c2 c3 c4 c5 c6 where "bs = [c1, c2, c3, c4, c5, c6]"
      using l by (auto simp: numeral_eq_Suc length_Suc_conv)
    then show "length rest = 12" "list_all is_lhex rest"
      by (simp_all add: rest_def tail_hex hex_fix_lhex)
  qed
  have h: "hex_fix 2 n = [digit_char (n div 16 mod 16), digit_char (n mod 16)]" for n
    by (simp add: numeral_2_eq_2)
  have e: "encode_tail suffix = hex_fix 2 (unat (tail_byte 0 b0)) @ hex_fix 2 (unat (tail_byte 1 b1)) @ rest"
    by (simp add: encode_tail_def s rest_def tail_hex flip: numeral_2_eq_2)
  have vd: "digit_char (d mod 16) = digit_char d" using d by auto
  have "is_variant (digit_char d)" "is_lhex (digit_char d)"
    using d digit_char_ok(1)[of d] by (auto simp: is_variant_def digit_char_def)
  moreover have "list_all is_lhex (hex_fix 2 n)" for n by (rule hex_fix_lhex)
  ultimately show thesis
    using that[of "digit_char d" "[digit_char (unat (tail_byte 0 b0) mod 16)] @ hex_fix 2 (unat (tail_byte 1 b1))" rest]
      rest vd by (simp add: e h d_def[symmetric] digit_char_ok)
qed

text \<open>The whole identifier as fixed-width groups.\<close>

lemma encodeV7_groups:
  assumes "ms < 2 ^ 48" "c < 4096"
  shows "encodeV7 ms c suffix = hex_fix 8 (ms div 16 ^ 4) @ [45] @ hex_fix 4 (ms mod 16 ^ 4) @ [45]
    @ hex_fix 4 (0x7000 + c) @ [45] @ take 4 (encode_tail suffix) @ [45] @ drop 4 (encode_tail suffix)"
proof -
  have ms: "ms < 16 ^ 12" using assms(1) by simp
  have "pad_start 12 (show_base 16 ms) = hex_fix 12 ms"
    using hex_pad_fix[OF ms] by (simp add: hex_pad_def)
  moreover have "hex_fix 12 ms = hex_fix 8 (ms div 16 ^ 4) @ hex_fix 4 (ms mod 16 ^ 4)"
    using hex_fix_split[of 8 4 ms] by simp
  moreover have "show_base 16 (0x7000 + c) = hex_fix 4 (0x7000 + c)"
    by (rule show_base_16_width) (use assms(2) in simp_all)
  ultimately show ?thesis
    by (simp add: encodeV7_def Let_def sequence_value assms(2))
qed

text \<open>Every identifier the encoder builds is canonical and in its parsed spelling.\<close>

lemma lhex_to_lower: "list_all (\<lambda>c. is_lhex c \<or> c = 45) s \<Longrightarrow> to_lower s = s"
  unfolding to_lower_def
  by (induction s) (auto simp: lower_unit_lhex lower_unit_dash is_dash_def)

lemma hex_fix_hex: "list_all is_hex (hex_fix w n)"
  using hex_fix_lhex[of w n] by (auto simp: list_all_iff is_lhex_imp_hex)

lemma hex_class: "list_all is_lhex s \<Longrightarrow> list_all is_hex s"
  by (auto simp: list_all_iff is_lhex_imp_hex)

lemma lhex_or_dash: "list_all is_lhex s \<Longrightarrow> list_all (\<lambda>c. is_lhex c \<or> c = 45) s"
  by (auto simp: list_all_iff)

lemma encodeV7_valid:
  assumes "ms < 2 ^ 48" "c < 4096" "length suffix = 8"
  shows "validID (encodeV7 ms c suffix)"
proof -
  obtain v t1 t2 where t: "encode_tail suffix = v # t1 @ t2" "is_variant v" "is_lhex v"
    "length t1 = 3" "length t2 = 12" "list_all is_lhex t1" "list_all is_lhex t2"
    using encode_tail_shape[OF assms(3)] by metis
  have e: "encodeV7 ms c suffix = hex_fix 8 (ms div 16 ^ 4) @ [45] @ hex_fix 4 (ms mod 16 ^ 4)
      @ [45] @ hex_fix 4 (0x7000 + c) @ [45] @ [v] @ t1 @ [45] @ t2"
    using encodeV7_groups[OF assms(1,2)] t by simp
  have "canonical (encodeV7 ms c suffix)"
    unfolding canonical_def canonical_pat_def e
    by (intro list_all2_appendI)
      (simp_all add: list_all2_replicate_class hex_fix_hex is_dash_def t hex_class)
  moreover have "to_lower (encodeV7 ms c suffix) = encodeV7 ms c suffix"
    by (rule lhex_to_lower) (simp add: e hex_fix_lhex lhex_or_dash t)
  ultimately show ?thesis by (simp add: validID_iff)
qed

lemma version_encodeV7:
  assumes "ms < 2 ^ 48" "c < 4096"
  shows "version (encodeV7 ms c suffix) = 7"
proof -
  have "hex_fix 4 (0x7000 + c) = hex_fix (1 + 3) (0x7000 + c)" by simp
  also have "\<dots> = hex_fix 1 ((0x7000 + c) div 16 ^ 3) @ hex_fix 3 ((0x7000 + c) mod 16 ^ 3)"
    by (rule hex_fix_split)
  also have "(0x7000 + c) div 16 ^ 3 = 7" using assms(2) by simp
  finally have "hex_fix 4 (0x7000 + c) = digit_char 7 # hex_fix 3 ((0x7000 + c) mod 16 ^ 3)"
    by simp
  then show ?thesis
    by (simp add: version_def encodeV7_groups[OF assms] nth_append digit_char_ok)
qed

lemma unixMillis_encodeV7:
  assumes "ms < 2 ^ 48" "c < 4096"
  shows "unixMillis (encodeV7 ms c suffix) = Some ms"
proof -
  have "take 8 (encodeV7 ms c suffix) @ take 4 (drop 9 (encodeV7 ms c suffix)) = hex_fix 12 ms"
    using hex_fix_split[of 8 4 ms] by (simp add: encodeV7_groups[OF assms])
  then show ?thesis
    using assms by (simp add: unixMillis_def version_encodeV7 val_hex_fix)
qed

text \<open>The order of identifiers is the order of their time stamps, then of their counters.\<close>

lemma encodeV7_less:
  assumes "ms < 2 ^ 48" "c < 4096" "ms' < 2 ^ 48" "c' < 4096"
    and less: "ms < ms' \<or> ms = ms' \<and> c < c'"
  shows "encodeV7 ms c s < encodeV7 ms' c' s'"
proof -
  have b: "ms div 16 ^ 4 < 16 ^ 8" "ms' div 16 ^ 4 < 16 ^ 8" using assms by simp_all
  have d: "ms div 16 ^ 4 < ms' div 16 ^ 4 \<or>
      ms div 16 ^ 4 = ms' div 16 ^ 4 \<and> (ms mod 16 ^ 4 < ms' mod 16 ^ 4 \<or> ms = ms' \<and> c < c')"
    using less less_by_div_mod[of "ms mod 16 ^ 4" "16 ^ 4" "ms' mod 16 ^ 4" "ms div 16 ^ 4" "ms' div 16 ^ 4"]
    by auto
  have c: "hex_fix 4 (0x7000 + c) < hex_fix 4 (0x7000 + c') \<longleftrightarrow> c < c'"
    using assms(2,4) by (subst hex_fix_less) simp_all
  have m: "hex_fix 4 (ms mod 16 ^ 4) < hex_fix 4 (ms' mod 16 ^ 4) \<longleftrightarrow> ms mod 16 ^ 4 < ms' mod 16 ^ 4"
    by (subst hex_fix_less) simp_all
  have h: "hex_fix 8 (ms div 16 ^ 4) < hex_fix 8 (ms' div 16 ^ 4) \<longleftrightarrow> ms div 16 ^ 4 < ms' div 16 ^ 4"
    by (rule hex_fix_less[OF b])
  show ?thesis
    unfolding encodeV7_groups[OF assms(1,2)] encodeV7_groups[OF assms(3,4)]
    using d c m h by (auto simp: append_less_iff)
qed

section \<open>The generator\<close>

definition v7_inv :: "v7 \<Rightarrow> bool" where
  "v7_inv g \<longleftrightarrow> v7_counter g < 4096 \<and> (\<forall>l. v7_last g = Some l \<longrightarrow> l < 2 ^ 48)"

text \<open>What the generator has committed, as a pair that each success raises.\<close>

definition v7_before :: "v7 \<Rightarrow> nat \<Rightarrow> nat \<Rightarrow> bool" where
  "v7_before g ms c \<longleftrightarrow> (\<forall>l. v7_last g = Some l \<longrightarrow> l < ms \<or> l = ms \<and> v7_counter g < c)"

lemma length_filled [simp]: "length (filled bs) = 10"
  by (simp add: filled_def)

lemma v7_new_inv [simp]: "v7_inv v7_new"
  by (simp add: v7_inv_def v7_new_def)

lemma v7_newId_Inl: "v7_newId now ent g = (Inl e, g') \<Longrightarrow> g' = g"
  by (auto simp: v7_newId_def Let_def split: number.splits if_splits sum.splits)

lemma v7_newId_Inr:
  assumes "v7_newId now ent g = (Inr i, g')" and "v7_inv g"
  obtains ms c suf where "i = encodeV7 ms c suf" "length suf = 8" "ms < 2 ^ 48" "c < 4096"
    "v7_last g' = Some ms" "v7_counter g' = c" "v7_before g ms c" "v7_inv g'"
proof -
  obtain t bs where t: "getTime now = Whole t" "0 \<le> t" "t \<le> 281474976710655" "ent = Inr bs"
    using assms(1) by (auto simp: v7_newId_def Let_def split: number.splits if_splits sum.splits)
  define fresh where "fresh \<longleftrightarrow> (case v7_last g of None \<Rightarrow> True | Some l \<Rightarrow> nat t > l)"
  define ms where "ms = (if fresh then nat t else the (v7_last g))"
  define c where "c = (if fresh then fresh_counter (filled bs) else v7_counter g + 1)"
  have nf: "fresh \<or> v7_counter g \<noteq> 4095"
    and i: "i = encodeV7 ms c (drop 2 (filled bs))"
    and g': "g' = g\<lparr>v7_last := Some ms, v7_counter := c\<rparr>"
    using assms(1) t
    by (auto simp: v7_newId_def Let_def fresh_def[symmetric] ms_def[symmetric] c_def[symmetric]
        split: if_splits)
  have ms: "ms < 2 ^ 48" using t assms(2)
    by (auto simp: ms_def fresh_def v7_inv_def split: option.splits)
  have c: "c < 4096" using nf assms(2) fresh_counter_bound[of "filled bs"]
    by (auto simp: c_def v7_inv_def)
  have "v7_before g ms c"
    by (auto simp: v7_before_def ms_def c_def fresh_def)
  moreover have "v7_inv g'" using ms c by (simp add: g' v7_inv_def)
  ultimately show thesis
    using that[of ms c "drop 2 (filled bs)"] i ms c by (simp add: g')
qed

lemma v7_newId_inv: "v7_inv g \<Longrightarrow> v7_inv (snd (v7_newId now ent g))"
  by (cases "v7_newId now ent g"; cases "fst (v7_newId now ent g)")
    (auto dest: v7_newId_Inl elim: v7_newId_Inr)

lemma v7_newId_valid: "v7_inv g \<Longrightarrow> v7_newId now ent g = (Inr i, g') \<Longrightarrow> validID i"
  by (metis v7_newId_Inr encodeV7_valid)

lemma v7_run_after:
  assumes "v7_inv g" "v7_last g = Some l" "j \<in> set (v7_run es g)"
  shows "encodeV7 l (v7_counter g) suf < j"
  using assms
proof (induction es arbitrary: g l suf)
  case (Cons e es)
  obtain now ent r g' where e: "e = (now, ent)" "v7_newId now ent g = (r, g')"
    by (metis surj_pair)
  show ?case
  proof (cases r)
    case (Inl x)
    then show ?thesis using Cons e v7_newId_Inl[of now ent g x g'] by simp
  next
    case (Inr i)
    obtain ms c s where i: "i = encodeV7 ms c s" "ms < 2 ^ 48" "c < 4096"
      "v7_last g' = Some ms" "v7_counter g' = c" "v7_before g ms c" "v7_inv g'"
      using v7_newId_Inr[OF e(2)[unfolded Inr] Cons.prems(1)] by metis
    have less: "encodeV7 l (v7_counter g) s0 < encodeV7 ms c s" for s0
      using encodeV7_less i Cons.prems(1,2) by (simp add: v7_inv_def v7_before_def)
    have "j = i \<or> j \<in> set (v7_run es g')" using Cons.prems(3) e Inr by simp
    then show ?thesis
      using less[of suf] i Cons.IH[OF i(7,4), of s] by (auto intro: less_trans)
  qed
qed simp

lemma v7_run_sorted: "v7_inv g \<Longrightarrow> sorted_wrt (<) (v7_run es g)"
proof (induction es arbitrary: g)
  case (Cons e es)
  obtain now ent r g' where e: "e = (now, ent)" "v7_newId now ent g = (r, g')"
    by (metis surj_pair)
  have g': "v7_inv g'" using v7_newId_inv[OF Cons.prems, of now ent] e by simp
  show ?case
  proof (cases r)
    case (Inl x)
    then show ?thesis using Cons.IH[OF g'] e by simp
  next
    case (Inr i)
    obtain ms c s where i: "i = encodeV7 ms c s" "v7_last g' = Some ms" "v7_counter g' = c"
      using v7_newId_Inr[OF e(2)[unfolded Inr] Cons.prems] by metis
    then show ?thesis using Cons.IH[OF g'] v7_run_after[OF g' i(2)] e Inr by simp
  qed
qed simp

lemma v7_run_valid: "v7_inv g \<Longrightarrow> list_all validID (v7_run es g)"
proof (induction es arbitrary: g)
  case (Cons e es)
  obtain now ent r g' where e: "e = (now, ent)" "v7_newId now ent g = (r, g')"
    by (metis surj_pair)
  have g': "v7_inv g'" using v7_newId_inv[OF Cons.prems, of now ent] e by simp
  then show ?case
    using Cons.IH[OF g'] e v7_newId_valid[OF Cons.prems, of now ent] by (cases r) auto
qed simp

section \<open>Properties\<close>

text \<open>
  C32: whatever the clock reads and the entropy source does, the identifiers a fresh
  generator issues are valid, strictly increasing as strings, and so all different.
\<close>

theorem ids_increasing:
  "sorted_wrt (<) (v7_run es v7_new) \<and> distinct (v7_run es v7_new) \<and> list_all validID (v7_run es v7_new)"
  using v7_run_sorted[of v7_new es] v7_run_valid[of v7_new es] strict_sorted_iff[of "v7_run es v7_new"]
  by simp

text \<open>
  An issued identifier is a version 7 identifier in canonical spelling that carries the
  generator's last committed instant, and a refusal commits nothing.
\<close>

lemma newId_decodes:
  assumes "v7_inv g"
  shows "case v7_newId now ent g of
       (Inr i, g') \<Rightarrow> v7_inv g' \<and> version i = 7 \<and> unixMillis i = v7_last g' \<and> parse (Str i) = Inr i
     | (Inl _, g') \<Rightarrow> g' = g"
proof (cases "v7_newId now ent g")
  case (Pair r g')
  show ?thesis
  proof (cases r)
    case (Inl e)
    then show ?thesis using v7_newId_Inl[of now ent g e g'] Pair by simp
  next
    case (Inr i)
    obtain ms c suf where "i = encodeV7 ms c suf" "length suf = 8" "ms < 2 ^ 48" "c < 4096"
      "v7_last g' = Some ms" "v7_inv g'"
      using v7_newId_Inr[OF Pair[unfolded Inr] assms] by metis
    then show ?thesis
      using Pair Inr by (simp add: version_encodeV7 unixMillis_encodeV7 parse_validID encodeV7_valid)
  qed
qed

lemma newId_decodes_witness:
  "\<exists>i g'. v7_newId (Date 1000) (Inr []) v7_new = (Inr i, g') \<and> version i = 7 \<and> unixMillis i = Some 1000"
proof -
  obtain i g' where n: "v7_newId (Date 1000) (Inr []) v7_new = (Inr i, g')" "v7_last g' = Some 1000"
    by (simp add: v7_newId_def v7_new_def max_safe_def Let_def)
  then show ?thesis using newId_decodes[of v7_new "Date 1000" "Inr []"] by simp
qed

text \<open>
  Parsing accepts a value exactly when it is a canonical text, and answers its
  lower-case spelling, which is itself valid and parses to itself.
\<close>

lemma parse_normalizes:
  "case parse v of
     Inr i \<Rightarrow> \<exists>s. v = Str s \<and> canonical s \<and> i = to_lower s \<and> validID i \<and> parse (Str i) = Inr i
   | Inl _ \<Rightarrow> \<forall>s. \<not> (v = Str s \<and> canonical s)"
proof (cases "parse v")
  case (Inl e)
  then show ?thesis by (auto simp: parse_Str)
next
  case (Inr i)
  then obtain s where "v = Str s" by (auto simp: parse_def split: jsval.splits)
  with Inr parse_valid[OF Inr] show ?thesis by (auto simp: parse_Str validID_def split: if_splits)
qed

end
