(* ===== verification/Principal.thy ===== *)
theory Principal
  imports Ids Validation Clock
begin

text \<open>
  \<open>src/modules/identity/domain\<close>: the principal with its life cycle (\<open>principal.ts\<close>) and the
  authentication leaves, which the code keeps as a scaffold that refuses every call
  (\<open>auth-spec-stub.ts\<close> and the files that use it).
\<close>

section \<open>Principals\<close>

record psnapshot =
  ps_id :: str
  ps_kind :: str
  ps_displayName :: str
  ps_status :: str
  ps_createdAtMs :: number
  ps_updatedAtMs :: number
  ps_version :: number

definition principal_invalid :: failure where
  "principal_invalid = fail Invalid ''invalid principal'' ''identity.principal_invalid''"

definition max_instant :: int where
  "max_instant = 253402300799999"

definition max_version :: int where
  "max_version = 2147483647"

text \<open>The guard of \<open>Principal.restore\<close>, in its order.\<close>

definition snapshot_refused :: "psnapshot \<Rightarrow> bool" where
  "snapshot_refused s \<longleftrightarrow>
     \<not> is_ok (parse (Str (ps_id s)))
     \<or> ps_kind s \<notin> set [lit ''human'', lit ''service'']
     \<or> ps_status s \<notin> set [lit ''active'', lit ''suspended'']
     \<or> \<not> is_safe_integer (ps_createdAtMs s)
     \<or> \<not> is_safe_integer (ps_updatedAtMs s)
     \<or> num_lt (ps_createdAtMs s) 0
     \<or> (case (ps_updatedAtMs s, ps_createdAtMs s) of (Whole u, Whole c) \<Rightarrow> u < c | _ \<Rightarrow> False)
     \<or> num_gt (ps_updatedAtMs s) max_instant
     \<or> \<not> is_safe_integer (ps_version s)
     \<or> num_lt (ps_version s) 1
     \<or> num_gt (ps_version s) max_version
     \<or> \<not> is_ok (text_check (Str (ps_displayName s)) (Whole 1) (Whole 100) True)
     \<or> has_control (ps_displayName s)"

text \<open>A \<open>Principal\<close> is its frozen snapshot; an absent argument is \<open>None\<close>.\<close>

definition principal_restore :: "psnapshot option \<Rightarrow> psnapshot result" where
  "principal_restore so = (case so of None \<Rightarrow> Inl principal_invalid
     | Some s \<Rightarrow>
         if snapshot_refused s then Inl principal_invalid
         else (case parse (Str (ps_id s)) of
             Inl _ \<Rightarrow> Inl principal_invalid
           | Inr i \<Rightarrow> Inr (s\<lparr>ps_id := i\<rparr>)))"

definition principal_register :: "str \<Rightarrow> str \<Rightarrow> str \<Rightarrow> number \<Rightarrow> psnapshot result" where
  "principal_register i kind displayName at = principal_restore (Some
     \<lparr>ps_id = i, ps_kind = kind, ps_displayName = displayName, ps_status = lit ''active'',
      ps_createdAtMs = at, ps_updatedAtMs = at, ps_version = Whole 1\<rparr>)"

definition transition_refused :: "string \<Rightarrow> failure" where
  "transition_refused t = fail Conflict ''principal transition refused'' t"

definition principal_transition :: "str \<Rightarrow> number \<Rightarrow> number \<Rightarrow> psnapshot \<Rightarrow> psnapshot result" where
  "principal_transition status expected at p =
     (if \<not> is_ok (principal_restore (Some p)) then Inl principal_invalid
      else if expected \<noteq> ps_version p then Inl (transition_refused ''identity.version_conflict'')
      else if status = ps_status p then Inl (transition_refused ''identity.state_conflict'')
      else (case (at, ps_updatedAtMs p, ps_version p) of
          (Whole t, Whole u, Whole v) \<Rightarrow>
            if \<not> is_safe_integer at \<or> t < u \<or> t > max_instant then Inl principal_invalid
            else if v = max_version then Inl (transition_refused ''identity.version_exhausted'')
            else Inr (p\<lparr>ps_status := status, ps_version := Whole (v + 1), ps_updatedAtMs := at\<rparr>)
        | _ \<Rightarrow> Inl principal_invalid))"

definition principal_suspend :: "number \<Rightarrow> number \<Rightarrow> psnapshot \<Rightarrow> psnapshot result" where
  "principal_suspend = principal_transition (lit ''suspended'')"

definition principal_activate :: "number \<Rightarrow> number \<Rightarrow> psnapshot \<Rightarrow> psnapshot result" where
  "principal_activate = principal_transition (lit ''active'')"

section \<open>The invariant\<close>

text \<open>What every constructed principal satisfies: its snapshot restores to itself.\<close>

definition principal_ok :: "psnapshot \<Rightarrow> bool" where
  "principal_ok p \<longleftrightarrow> principal_restore (Some p) = Inr p"

lemma principal_restore_Inr:
  "principal_restore (Some s) = Inr p \<longleftrightarrow> \<not> snapshot_refused s \<and> p = s\<lparr>ps_id := to_lower (ps_id s)\<rparr>"
  by (auto simp: principal_restore_def snapshot_refused_def parse_Str split: if_splits)

lemma principal_restore_ok:
  assumes "principal_restore so = Inr p"
  shows "principal_ok p"
proof -
  obtain s where s: "so = Some s" using assms by (cases so) (auto simp: principal_restore_def)
  have p: "\<not> snapshot_refused s" "p = s\<lparr>ps_id := to_lower (ps_id s)\<rparr>"
    using assms unfolding s principal_restore_Inr by auto
  then have "\<not> snapshot_refused p"
    by (auto simp: snapshot_refused_def parse_Str canonical_to_lower split: if_splits)
  then show ?thesis using p by (simp add: principal_ok_def principal_restore_Inr)
qed

lemma principal_okD:
  assumes "principal_ok p"
  obtains c u v where "ps_createdAtMs p = Whole c" "ps_updatedAtMs p = Whole u"
    "ps_version p = Whole v" "0 \<le> c" "c \<le> u" "u \<le> max_instant" "1 \<le> v" "v \<le> max_version"
  using assms unfolding principal_ok_def principal_restore_Inr snapshot_refused_def
  by (cases "ps_createdAtMs p"; cases "ps_updatedAtMs p"; cases "ps_version p") auto

text \<open>A transition either refuses or moves to the other state, one version on.\<close>

lemma principal_transition_Inr:
  assumes "principal_transition st e at p = Inr q"
  obtains t u v where "at = Whole t" "ps_updatedAtMs p = Whole u" "ps_version p = Whole v"
    "e = Whole v" "st \<noteq> ps_status p" "u \<le> t" "t \<le> max_instant" "v \<noteq> max_version"
    "q = p\<lparr>ps_status := st, ps_version := Whole (v + 1), ps_updatedAtMs := Whole t\<rparr>"
    "is_ok (principal_restore (Some p))"
  using assms by (auto simp: principal_transition_def split: if_splits number.splits)

lemma principal_transition_ok:
  assumes "principal_ok p" "principal_transition st e at p = Inr q" "st \<in> {lit ''active'', lit ''suspended''}"
  shows "principal_ok q"
proof -
  obtain t u v where q: "at = Whole t" "ps_updatedAtMs p = Whole u" "ps_version p = Whole v"
    "u \<le> t" "t \<le> max_instant" "v \<noteq> max_version"
    "q = p\<lparr>ps_status := st, ps_version := Whole (v + 1), ps_updatedAtMs := Whole t\<rparr>"
    using principal_transition_Inr[OF assms(2)] by metis
  obtain c where c: "ps_createdAtMs p = Whole c" "0 \<le> c" "c \<le> u" "1 \<le> v" "v \<le> max_version"
    using principal_okD[OF assms(1)] q by (metis number.inject(1))
  have r: "\<not> snapshot_refused p" "ps_id p = to_lower (ps_id p)"
    using assms(1) by (simp_all add: principal_ok_def principal_restore_Inr)
       (metis psnapshot.select_convs(1) psnapshot.surjective psnapshot.update_convs(1))
  have "\<not> snapshot_refused q"
    using r(1) q c assms(3)
    by (auto simp: snapshot_refused_def max_instant_def max_version_def max_safe_def)
  then show ?thesis using r(2) q(7) by (simp add: principal_ok_def principal_restore_Inr)
qed

section \<open>Histories\<close>

datatype life_op = Suspend number number | Activate number number

fun life_apply :: "life_op \<Rightarrow> psnapshot \<Rightarrow> psnapshot result" where
  "life_apply (Suspend e at) p = principal_suspend e at p"
| "life_apply (Activate e at) p = principal_activate e at p"

text \<open>The successive principals of a sequence of calls; a refused call leaves the last one.\<close>

fun life_run :: "life_op list \<Rightarrow> psnapshot \<Rightarrow> psnapshot list" where
  "life_run [] p = [p]"
| "life_run (x # xs) p = (case life_apply x p of
     Inl _ \<Rightarrow> life_run xs p | Inr q \<Rightarrow> p # life_run xs q)"

lemma life_apply_transition:
  "\<exists>st e at. life_apply x p = principal_transition st e at p \<and> st \<in> {lit ''active'', lit ''suspended''}"
  by (cases x) (auto simp: principal_suspend_def principal_activate_def)

definition next_principal :: "psnapshot \<Rightarrow> psnapshot \<Rightarrow> bool" where
  "next_principal p q \<longleftrightarrow> ps_id q = ps_id p \<and> ps_kind q = ps_kind p
     \<and> ps_displayName q = ps_displayName p \<and> ps_createdAtMs q = ps_createdAtMs p
     \<and> ps_status q \<noteq> ps_status p
     \<and> (\<exists>v u t. ps_version p = Whole v \<and> ps_version q = Whole (v + 1)
          \<and> ps_updatedAtMs p = Whole u \<and> ps_updatedAtMs q = Whole t \<and> u \<le> t)"

lemma life_apply_next:
  assumes "life_apply x p = Inr q"
  shows "next_principal p q" "principal_ok p \<Longrightarrow> principal_ok q"
proof -
  obtain st e at where st: "principal_transition st e at p = Inr q" "st \<in> {lit ''active'', lit ''suspended''}"
    using life_apply_transition[of x p] assms by auto
  show "next_principal p q"
    using st(1) by (rule principal_transition_Inr) (auto simp: next_principal_def)
  show "principal_ok p \<Longrightarrow> principal_ok q"
    using principal_transition_ok st by blast
qed

fun chain :: "('a \<Rightarrow> 'a \<Rightarrow> bool) \<Rightarrow> 'a list \<Rightarrow> bool" where
  "chain R (x # y # zs) \<longleftrightarrow> R x y \<and> chain R (y # zs)"
| "chain R xs \<longleftrightarrow> True"

lemma life_run_hd: "\<exists>ps. life_run xs p = p # ps"
  by (induction xs p rule: life_run.induct) (auto split: sum.split)

lemma life_run_chain:
  "principal_ok p \<Longrightarrow> chain next_principal (life_run xs p) \<and> list_all principal_ok (life_run xs p)"
proof (induction xs p rule: life_run.induct)
  case (2 x xs p)
  show ?case
  proof (cases "life_apply x p")
    case (Inl e)
    then show ?thesis using 2 by simp
  next
    case (Inr q)
    obtain qs where "life_run xs q = q # qs" using life_run_hd by blast
    then show ?thesis using 2(2)[OF Inr] life_apply_next[OF Inr] 2(3) Inr by simp
  qed
qed simp

section \<open>The authentication scaffold\<close>

definition authPending :: "'a result" where
  "authPending = Inl (fail Internal ''auth leaf not implemented'' ''identity.auth_not_implemented'')"

text \<open>The values the scaffold declares; no operation of the code constructs one.\<close>

record token_digest =
  td_purpose :: str
  td_data :: "8 word list"

record auth_state =
  au_principalId :: str
  au_epoch :: number

record credential =
  cr_principalId :: str
  cr_email :: secret
  cr_passwordHash :: secret
  cr_verifiedAtMs :: "number option"
  cr_passwordVersion :: number
  cr_createdAtMs :: number
  cr_changedAtMs :: number

record session =
  se_id :: str
  se_principalId :: str
  se_tokenDigest :: token_digest
  se_authEpoch :: number
  se_issuedAtMs :: number
  se_lastSeenAtMs :: number
  se_absoluteExpiresAtMs :: number
  se_idleExpiresAtMs :: number
  se_revokedAtMs :: "number option"

record challenge =
  ch_id :: str
  ch_principalId :: str
  ch_tokenDigest :: token_digest
  ch_passwordVersion :: number
  ch_issuedAtMs :: number
  ch_expiresAtMs :: number
  ch_consumedAtMs :: "number option"
  ch_invalidatedAtMs :: "number option"

definition email_parse :: "str \<Rightarrow> secret result" where
  "email_parse i = authPending"

definition parseTokenPurpose :: "str \<Rightarrow> str result" where
  "parseTokenPurpose v = authPending"

definition digest_parse :: "str \<Rightarrow> 8 word list \<Rightarrow> token_digest result" where
  "digest_parse purpose data = authPending"

definition newPassword_parse :: "secret \<Rightarrow> secret result" where
  "newPassword_parse i = authPending"

definition passwordInput_parse :: "secret \<Rightarrow> secret result" where
  "passwordInput_parse i = authPending"

definition credential_restore :: "credential \<Rightarrow> credential result" where
  "credential_restore s = authPending"

definition authState_create :: "str \<Rightarrow> number \<Rightarrow> auth_state result" where
  "authState_create i epoch = authPending"

definition authState_invalidate :: "number \<Rightarrow> auth_state \<Rightarrow> auth_state result" where
  "authState_invalidate expected a = authPending"

definition session_restore :: "session \<Rightarrow> session result" where
  "session_restore s = authPending"

definition session_issue :: "str \<Rightarrow> str \<Rightarrow> token_digest \<Rightarrow> number \<Rightarrow> number \<Rightarrow> number \<Rightarrow> number
    \<Rightarrow> session result" where
  "session_issue i pid digest epoch issued absolute idle = authPending"

definition session_check :: "number \<Rightarrow> session \<Rightarrow> unit result" where
  "session_check now s = authPending"

definition session_revoke :: "number \<Rightarrow> session \<Rightarrow> session result" where
  "session_revoke now s = authPending"

definition session_touch :: "number \<Rightarrow> number \<Rightarrow> session \<Rightarrow> session result" where
  "session_touch now idleTtl s = authPending"

definition challenge_restore :: "challenge \<Rightarrow> challenge result" where
  "challenge_restore s = authPending"

definition challenge_issue :: "str \<Rightarrow> str \<Rightarrow> token_digest \<Rightarrow> number \<Rightarrow> number \<Rightarrow> number
    \<Rightarrow> challenge result" where
  "challenge_issue i pid digest ver issued expires = authPending"

definition challenge_invalidate :: "number \<Rightarrow> challenge \<Rightarrow> challenge result" where
  "challenge_invalidate now c = authPending"

definition challenge_consume :: "str \<Rightarrow> number \<Rightarrow> number \<Rightarrow> challenge \<Rightarrow> challenge result" where
  "challenge_consume purpose ver now c = authPending"

section \<open>Properties\<close>

text \<open>
  A registered principal is well formed, active, at version 1, and stamped with the
  given instant; restoring is idempotent: what it accepts restores to itself.
\<close>

lemma registration_sound:
  "case principal_register i kind name at of
     Inr p \<Rightarrow> principal_ok p \<and> ps_status p = lit ''active'' \<and> ps_version p = Whole 1
       \<and> ps_createdAtMs p = at \<and> ps_updatedAtMs p = at \<and> validID (ps_id p) \<and> is_safe_integer at
   | Inl e \<Rightarrow> e = principal_invalid"
proof (cases "principal_register i kind name at")
  case (Inl e)
  then show ?thesis
    by (auto simp: principal_register_def principal_restore_def split: if_splits sum.splits)
next
  case (Inr p)
  define s where "s = \<lparr>ps_id = i, ps_kind = kind, ps_displayName = name, ps_status = lit ''active'',
      ps_createdAtMs = at, ps_updatedAtMs = at, ps_version = Whole 1\<rparr>"
  have r: "principal_restore (Some s) = Inr p" using Inr by (simp add: principal_register_def s_def)
  then have p: "\<not> snapshot_refused s" "p = s\<lparr>ps_id := to_lower (ps_id s)\<rparr>"
    by (simp_all add: principal_restore_Inr)
  then have "canonical (ps_id s)" "is_safe_integer at"
    by (auto simp: snapshot_refused_def parse_Str s_def split: if_splits)
  then show ?thesis
    using Inr principal_restore_ok[OF r] p(2) by (simp add: s_def validID_iff canonical_to_lower)
qed

text \<open>
  C36: along any sequence of suspensions and activations of a well-formed principal, every
  principal is well formed, and each one keeps the identity, kind, name and creation of the
  one before it, has the other status, exactly the next version, and a time no earlier.
\<close>

theorem lifecycle_chain:
  assumes "principal_ok p"
  shows "chain next_principal (life_run ops p) \<and> list_all principal_ok (life_run ops p)"
  by (rule life_run_chain[OF assms])

definition sample_principal :: psnapshot where
  "sample_principal = \<lparr>ps_id = encodeV7 0 0 (replicate 8 0), ps_kind = lit ''human'',
     ps_displayName = lit ''Ada'', ps_status = lit ''active'', ps_createdAtMs = Whole 0,
     ps_updatedAtMs = Whole 5, ps_version = Whole 1\<rparr>"

lemma sample_principal_ok: "principal_ok sample_principal"
proof -
  have c: "canonical (ps_id sample_principal)" "to_lower (ps_id sample_principal) = ps_id sample_principal"
    using encodeV7_valid[of 0 0 "replicate 8 0"] by (simp_all add: sample_principal_def validID_iff)
  have "chars (ps_displayName sample_principal) = [[65], [100], [97]]"
    by (simp add: sample_principal_def str_simps)
  then have "text_check (Str (ps_displayName sample_principal)) (Whole 1) (Whole 100) True = Inr ()"
    "\<not> has_control (ps_displayName sample_principal)"
    by (simp_all add: text_check_ok max_safe_def lone_surrogate_def is_surrogate_def has_control_def)
      (simp add: is_blank_def sample_principal_def str_simps)
  with c show ?thesis
    by (simp add: principal_ok_def principal_restore_Inr snapshot_refused_def parse_Str)
      (simp add: sample_principal_def max_instant_def max_version_def max_safe_def)
qed

theorem lifecycle_chain_witness:
  "map ps_version (life_run [Suspend (Whole 1) (Whole 7), Suspend (Whole 2) (Whole 8),
       Activate (Whole 2) (Whole 9)] sample_principal) = [Whole 1, Whole 2, Whole 3]
   \<and> list_all principal_ok (life_run [Suspend (Whole 1) (Whole 7), Suspend (Whole 2) (Whole 8),
       Activate (Whole 2) (Whole 9)] sample_principal)"
proof -
  note ok = sample_principal_ok
  have s: "principal_suspend (Whole 1) (Whole 7) sample_principal = Inr (sample_principal\<lparr>
      ps_status := lit ''suspended'', ps_version := Whole 2, ps_updatedAtMs := Whole 7\<rparr>)" (is "_ = Inr ?q")
    using ok by (simp add: principal_suspend_def principal_transition_def principal_ok_def)
      (simp add: sample_principal_def max_instant_def max_version_def max_safe_def)
  have q: "principal_ok ?q" using life_apply_next(2)[of "Suspend (Whole 1) (Whole 7)"] s ok by simp
  have "principal_suspend (Whole 2) (Whole 8) ?q = Inl (transition_refused ''identity.state_conflict'')"
    using q by (simp add: principal_suspend_def principal_transition_def principal_ok_def)
  moreover have "principal_activate (Whole 2) (Whole 9) ?q = Inr (?q\<lparr>
      ps_status := lit ''active'', ps_version := Whole 3, ps_updatedAtMs := Whole 9\<rparr>)"
    using q by (simp add: principal_activate_def principal_transition_def principal_ok_def)
      (simp add: sample_principal_def max_instant_def max_version_def max_safe_def)
  ultimately have "map ps_version (life_run [Suspend (Whole 1) (Whole 7), Suspend (Whole 2) (Whole 8),
       Activate (Whole 2) (Whole 9)] sample_principal) = [Whole 1, Whole 2, Whole 3]"
    using s by (simp add: sample_principal_def)
  with lifecycle_chain[OF ok] show ?thesis by blast
qed

end
