(* ===== verification/Provenance.thy ===== *)
theory Provenance
  imports Ids
begin

text \<open>
  \<open>src/shared/provenance\<close> but for the factory: actors, attributions, operations,
  references, work contexts, scopes, link sets and incoming hints. The code recognises the
  values its own constructors made by membership in private weak sets; an argument of such
  a type is \<open>Made\<close> by the constructor or \<open>Forged\<close>. Frozen snapshots are values.
\<close>

datatype 'a brand = Made (made: 'a) | Forged

definition p_invalid :: "string \<Rightarrow> failure" where
  "p_invalid code = fail Invalid ''invalid provenance'' (''provenance.'' @ code)"

section \<open>Actors\<close>

record actor =
  ac_kind :: str
  ac_identity :: "str option"

definition identity_unit :: "cu \<Rightarrow> bool" where
  "identity_unit c \<longleftrightarrow> is_alnum c \<or> c \<in> set (lit ''._:/-'')"

definition identityValid :: "str \<Rightarrow> bool" where
  "identityValid s \<longleftrightarrow> matches identity_unit 1 128 s"

definition anonymous :: actor where
  "anonymous = \<lparr>ac_kind = lit ''anonymous'', ac_identity = None\<rparr>"

definition actor :: "str \<Rightarrow> str \<Rightarrow> actor result" where
  "actor kind identity =
     (if (kind = lit ''anonymous'' \<and> identity \<noteq> []) \<or>
         (kind \<noteq> lit ''anonymous'' \<and>
           (kind \<notin> set [lit ''user'', lit ''service'', lit ''system''] \<or> \<not> identityValid identity))
      then Inl (p_invalid ''invalid_actor'')
      else Inr (if kind = lit ''anonymous'' then \<lparr>ac_kind = kind, ac_identity = None\<rparr>
                else \<lparr>ac_kind = kind, ac_identity = Some identity\<rparr>))"

fun validActor :: "actor brand \<Rightarrow> bool" where
  "validActor (Made a) = True"
| "validActor Forged = False"

fun namedActor :: "actor brand \<Rightarrow> bool" where
  "namedActor (Made a) = (ac_kind a \<noteq> lit ''anonymous'')"
| "namedActor Forged = False"

section \<open>Attributions\<close>

record attribution_spec =
  as_initiator :: "actor brand option"
  as_onBehalfOf :: "actor brand option"
  as_tenant :: "str option"

record attribution =
  at_initiator :: "actor option"
  at_onBehalfOf :: "actor option"
  at_tenant :: "str option"

definition attribution :: "attribution_spec \<Rightarrow> attribution result" where
  "attribution s =
     (if (case as_initiator s of None \<Rightarrow> False | Some a \<Rightarrow> \<not> validActor a)
      then Inl (p_invalid ''invalid_attribution'')
      else if (case as_onBehalfOf s of None \<Rightarrow> False
          | Some b \<Rightarrow> (case as_initiator s of None \<Rightarrow> True
              | Some a \<Rightarrow> \<not> namedActor a \<or> \<not> namedActor b \<or>
                  (ac_kind (made a) = ac_kind (made b) \<and> ac_identity (made a) = ac_identity (made b))))
      then Inl (p_invalid ''invalid_attribution'')
      else if (case as_tenant s of None \<Rightarrow> False | Some t \<Rightarrow> \<not> identityValid t)
      then Inl (p_invalid ''invalid_attribution'')
      else Inr \<lparr>at_initiator = map_option made (as_initiator s),
                at_onBehalfOf = map_option made (as_onBehalfOf s),
                at_tenant = as_tenant s\<rparr>)"

definition no_attribution :: attribution_spec where
  "no_attribution = \<lparr>as_initiator = None, as_onBehalfOf = None, as_tenant = None\<rparr>"

section \<open>Operations and references\<close>

definition operation_unit :: "cu \<Rightarrow> bool" where
  "operation_unit c \<longleftrightarrow> is_lower c \<or> is_digit c \<or> c \<in> set (lit ''_.:-'')"

definition validOperation :: "str \<Rightarrow> bool" where
  "validOperation s = (case s of [] \<Rightarrow> False
     | c # cs \<Rightarrow> is_lower c \<and> matches operation_unit 0 127 cs)"

definition operation :: "str \<Rightarrow> str result" where
  "operation s = (if validOperation s then Inr s else Inl (p_invalid ''invalid_operation''))"

record reference =
  rf_kind :: str
  rf_id :: id

definition validReferenceKind :: "str \<Rightarrow> bool" where
  "validReferenceKind k \<longleftrightarrow> k = lit ''scope'' \<or> k = lit ''work'' \<or> k = lit ''event''"

definition reference :: "str \<Rightarrow> id \<Rightarrow> reference result" where
  "reference kind i = (if \<not> validReferenceKind kind \<or> \<not> validID i
     then Inl (p_invalid ''invalid_reference'') else Inr \<lparr>rf_kind = kind, rf_id = i\<rparr>)"

fun validReference :: "reference brand \<Rightarrow> bool" where
  "validReference (Made r) = True"
| "validReference Forged = False"

section \<open>Work\<close>

text \<open>
  One record for \<open>WorkSnapshot\<close> and \<open>DraftWork\<close>: in a draft the identifiers may be
  missing. \<open>ReplayInfo\<close> is the pair of the run and the source.
\<close>

record work =
  wk_workId :: "id option"
  wk_correlationId :: "id option"
  wk_correlationSource :: str
  wk_causation :: "reference brand option"
  wk_origin :: "str option"
  wk_operation :: str
  wk_attribution :: "attribution brand"
  wk_depth :: "number option"
  wk_replay :: "(id option \<times> reference brand) option"

definition max_u32 :: int where
  "max_u32 = 4294967295"

definition origins :: "str list" where
  "origins = [lit ''request'', lit ''schedule'', lit ''replay'', lit ''backfill'', lit ''startup'']"

definition validOrigin :: "str \<Rightarrow> bool" where
  "validOrigin v \<longleftrightarrow> v \<in> set origins"

text \<open>An identifier that must be valid, and may be missing only under \<open>defaults\<close>.\<close>

definition bad_id :: "bool \<Rightarrow> id option \<Rightarrow> bool" where
  "bad_id defaults i = (case i of None \<Rightarrow> \<not> defaults | Some x \<Rightarrow> \<not> validID x)"

definition refers_to_work :: "reference brand \<Rightarrow> id option \<Rightarrow> bool" where
  "refers_to_work r w = (case r of Made x \<Rightarrow> rf_kind x = lit ''work'' \<and> Some (rf_id x) = w | Forged \<Rightarrow> False)"

definition check_causation :: "work \<Rightarrow> failure option" where
  "check_causation w = (case wk_causation w of None \<Rightarrow> None
     | Some c \<Rightarrow> if \<not> validReference c then Some (p_invalid ''invalid_reference'')
         else if refers_to_work c (wk_workId w) then Some (p_invalid ''invalid_work'') else None)"

definition check_depth :: "work \<Rightarrow> failure option" where
  "check_depth w = (case wk_depth w of None \<Rightarrow> None
     | Some d \<Rightarrow>
         if \<not> is_integer d \<or> num_lt d 0 \<or> num_gt d max_u32
           \<or> (wk_correlationSource w = lit ''local'' \<and> num_eq d 0 \<and> wk_causation w \<noteq> None)
           \<or> (num_gt d 0 \<and> wk_causation w = None)
         then Some (p_invalid ''invalid_depth'') else None)"

definition check_replay :: "bool \<Rightarrow> work \<Rightarrow> failure option" where
  "check_replay defaults w = (case wk_replay w of None \<Rightarrow> None
     | Some (run, src) \<Rightarrow>
         if \<not> validReference src \<or> bad_id defaults run then Some (p_invalid ''invalid_reference'')
         else if refers_to_work src (wk_workId w) then Some (p_invalid ''invalid_work'') else None)"

fun first_failure :: "failure option list \<Rightarrow> failure option" where
  "first_failure [] = None"
| "first_failure (Some e # es) = Some e"
| "first_failure (None # es) = first_failure es"

definition validateWork :: "work \<Rightarrow> bool \<Rightarrow> failure option" where
  "validateWork w defaults =
     (if bad_id defaults (wk_workId w) \<or> bad_id defaults (wk_correlationId w)
        \<or> wk_correlationSource w \<notin> set [lit ''local'', lit ''external'']
      then Some (p_invalid ''invalid_work'')
      else if \<not> validOperation (wk_operation w) then Some (p_invalid ''invalid_operation'')
      else if wk_attribution w = Forged then Some (p_invalid ''invalid_attribution'')
      else if (case wk_origin w of None \<Rightarrow> False | Some ori \<Rightarrow> \<not> validOrigin ori)
        then Some (p_invalid ''invalid_origin'')
      else if (wk_replay w \<noteq> None) \<noteq> (wk_origin w = Some (lit ''replay''))
        then Some (p_invalid ''invalid_origin'')
      else first_failure [check_causation w, check_depth w, check_replay defaults w])"

text \<open>A \<open>WorkContext\<close> holds a work record that has passed validation.\<close>

definition restoreWork :: "work \<Rightarrow> work result" where
  "restoreWork w = (case validateWork w False of Some e \<Rightarrow> Inl e | None \<Rightarrow> Inr w)"

section \<open>Scopes\<close>

record scope_snapshot =
  sn_work :: work
  sn_scopeId :: id
  sn_startedAt :: date
  sn_executor :: "actor brand"
  sn_attempt :: number
  sn_previousAttempt :: "id option"

text \<open>\<open>Scope\<close>: the validated work, the frozen data and the start in milliseconds.\<close>

record scope =
  sp_work :: work
  sp_scopeId :: id
  sp_executor :: actor
  sp_attempt :: int
  sp_previousAttempt :: "id option"
  sp_started :: int

definition normalizedTime :: "date \<Rightarrow> int option" where
  "normalizedTime t = (case getTime t of
     Whole ms \<Rightarrow> if is_safe_integer (Whole ms) \<and> ms \<ge> 0 \<and> ms \<le> 281474976710655 then Some ms else None
   | _ \<Rightarrow> None)"

definition scope_snapshot_of :: "scope \<Rightarrow> scope_snapshot" where
  "scope_snapshot_of s = \<lparr>sn_work = sp_work s, sn_scopeId = sp_scopeId s,
     sn_startedAt = new_Date (sp_started s), sn_executor = Made (sp_executor s),
     sn_attempt = Whole (sp_attempt s), sn_previousAttempt = sp_previousAttempt s\<rparr>"

definition caused_by_scope :: "work \<Rightarrow> id \<Rightarrow> bool" where
  "caused_by_scope w i = (case wk_causation w of
     Some (Made r) \<Rightarrow> rf_kind r = lit ''scope'' \<and> rf_id r = i | _ \<Rightarrow> False)"

definition restoreScope :: "scope_snapshot \<Rightarrow> scope result" where
  "restoreScope s =
     (if \<not> validID (sn_scopeId s) then Inl (p_invalid ''invalid_scope'')
      else (case restoreWork (sn_work s) of Inl e \<Rightarrow> Inl e
      | Inr w \<Rightarrow>
          (case (sn_executor s, sn_attempt s) of
             (Made ex, Whole n) \<Rightarrow>
               if \<not> namedActor (sn_executor s) then Inl (p_invalid ''invalid_actor'')
               else if n < 1 \<or> n > max_u32 then Inl (p_invalid ''invalid_attempt'')
               else if (case sn_previousAttempt s of None \<Rightarrow> False
                   | Some p \<Rightarrow> \<not> validID p \<or> p = sn_scopeId s \<or> n = 1)
                 then Inl (p_invalid ''invalid_scope'')
               else if caused_by_scope (sn_work s) (sn_scopeId s) then Inl (p_invalid ''invalid_scope'')
               else (case normalizedTime (sn_startedAt s) of
                   None \<Rightarrow> Inl (p_invalid ''invalid_time'')
                 | Some ms \<Rightarrow> Inr \<lparr>sp_work = w, sp_scopeId = sn_scopeId s, sp_executor = ex,
                     sp_attempt = n, sp_previousAttempt = sn_previousAttempt s, sp_started = ms\<rparr>)
           | _ \<Rightarrow> if \<not> namedActor (sn_executor s) then Inl (p_invalid ''invalid_actor'')
               else Inl (p_invalid ''invalid_attempt''))))"

section \<open>Link sets\<close>

record link =
  ln_relation :: str
  ln_target :: "reference brand"

definition relations :: "str list" where
  "relations = [lit ''input'', lit ''replay_of'', lit ''previous_attempt'']"

definition link_ok :: "link \<Rightarrow> bool" where
  "link_ok l = (case ln_target l of
     Made r \<Rightarrow> ln_relation l \<in> set relations
       \<and> \<not> (ln_relation l = lit ''previous_attempt'' \<and> rf_kind r \<noteq> lit ''scope'')
   | Forged \<Rightarrow> False)"

definition link_key :: "link \<Rightarrow> str" where
  "link_key l = (case ln_target l of
     Made r \<Rightarrow> ln_relation l @ [58] @ rf_kind r @ [58] @ rf_id r | Forged \<Rightarrow> [])"

text \<open>The loop: the links still to look at, the keys seen and the links kept so far.\<close>

fun link_loop :: "link list \<Rightarrow> str list \<Rightarrow> link list \<Rightarrow> link list result" where
  "link_loop [] seen kept = Inr kept"
| "link_loop (l # ls) seen kept =
     (if \<not> link_ok l then Inl (p_invalid ''invalid_reference'')
      else if List.member seen (link_key l) then link_loop ls seen kept
      else link_loop ls (link_key l # seen) (kept @ [l]))"

definition linkSet :: "link list \<Rightarrow> link list result" where
  "linkSet input = (if length input > 32 then Inl (p_invalid ''too_many_links'')
     else link_loop input [] [])"

section \<open>Incoming hints\<close>

record incoming_hints =
  ih_correlation :: "str option"
  ih_causation :: "(str \<times> str) option"

datatype disposition = Fresh | Continued | Restarted

datatype hint_field = CorrelationField | CausationField
datatype hint_reason = InvalidId | InvalidKind | MissingCorrelation

record incoming =
  in_decision :: disposition
  in_correlation :: "id option"
  in_cause :: "reference option"
  in_issues :: "(hint_field \<times> hint_reason) list"

definition inspectIncoming :: "incoming_hints \<Rightarrow> incoming" where
  "inspectIncoming h =
     (if ih_correlation h = None \<and> ih_causation h = None
      then \<lparr>in_decision = Fresh, in_correlation = None, in_cause = None, in_issues = []\<rparr>
      else
        let (decision, correlation, issues) =
              (case ih_correlation h of None \<Rightarrow> (Restarted, None, [])
               | Some c \<Rightarrow> (case parse (Str c) of
                   Inr i \<Rightarrow> (Continued, Some i, [])
                 | Inl _ \<Rightarrow> (Restarted, None, [(CorrelationField, InvalidId)])));
            (cause, issues') =
              (case ih_causation h of None \<Rightarrow> (None, issues)
               | Some (k, i) \<Rightarrow>
                   if \<not> validReferenceKind k then (None, issues @ [(CausationField, InvalidKind)])
                   else (case parse (Str i) of
                       Inl _ \<Rightarrow> (None, issues @ [(CausationField, InvalidId)])
                     | Inr r \<Rightarrow>
                         if correlation = None then (None, issues @ [(CausationField, MissingCorrelation)])
                         else (case reference k r of Inr ref \<Rightarrow> (Some ref, issues) | Inl _ \<Rightarrow> (None, issues))))
        in \<lparr>in_decision = decision, in_correlation = correlation, in_cause = cause, in_issues = issues'\<rparr>)"

end
