(* ===== verification/Projection.thy ===== *)
theory Projection
  imports Provenance Json
begin

text \<open>
  The JSON forms of provenance values, which the log projections and the event envelopes
  share, and what printed JSON consists of.
\<close>

section \<open>Projections\<close>

definition jobject :: "(str \<times> json option) list \<Rightarrow> json" where
  "jobject ms = make_object (List.map_filter (\<lambda>(k, v). map_option (Pair k) v) ms)"

definition actor_json :: "actor \<Rightarrow> json" where
  "actor_json a = jobject [(lit ''kind'', Some (JStr (ac_kind a))),
     (lit ''identity'', map_option JStr (ac_identity a))]"

definition reference_json :: "reference brand \<Rightarrow> json" where
  "reference_json r = jobject [(lit ''kind'', Some (JStr (rf_kind (made r)))), (lit ''id'', Some (JStr (rf_id (made r))))]"

text \<open>A depth is integral in every scope there is; other numbers have no JSON form here.\<close>

definition depth_json :: "number \<Rightarrow> json option" where
  "depth_json n = (case n of Whole i \<Rightarrow> Some (jint i) | _ \<Rightarrow> None)"

section \<open>Objects of present members\<close>

definition present :: "(str \<times> json option) list \<Rightarrow> (str \<times> json) list" where
  "present ms = List.map_filter (\<lambda>(k, v). map_option (Pair k) v) ms"

definition plain_keys :: "(str \<times> 'v) list \<Rightarrow> bool" where
  "plain_keys ms \<longleftrightarrow> distinct (map fst ms) \<and> list_all (\<lambda>k. \<not> index_key k) (map fst ms)"

lemma present_simps [simp]:
  "present [] = []" "present ((k, None) # ms) = present ms" "present ((k, Some v) # ms) = (k, v) # present ms"
  by (simp_all add: present_def)

lemma present_keys: "set (map fst (present ms)) \<subseteq> set (map fst ms)"
proof (induction ms)
  case (Cons m ms)
  obtain k v where "m = (k, v)" by (cases m)
  with Cons show ?case by (cases v) auto
qed simp

lemma plain_present: "plain_keys ms \<Longrightarrow> plain_keys (present ms)"
proof (induction ms)
  case (Cons m ms)
  obtain k v where m: "m = (k, v)" by (cases m)
  have "k \<notin> set (map fst (present ms))" using Cons.prems present_keys[of ms] m by (auto simp: plain_keys_def)
  then show ?case using Cons m by (cases v) (auto simp: plain_keys_def)
qed (simp add: plain_keys_def)

lemma own_order_plain: "plain_keys ms \<Longrightarrow> own_order ms = ms"
proof -
  assume "plain_keys ms"
  then have "filter (\<lambda>(k, v). index_key k) ms = []" "filter (\<lambda>(k, v). \<not> index_key k) ms = ms"
    by (auto simp: plain_keys_def list_all_iff filter_empty_conv filter_id_conv)
  then show ?thesis by (simp add: own_order_def)
qed

lemma make_object_plain: "plain_keys ms \<Longrightarrow> make_object ms = JObj ms"
  using spread_distinct[of "[]" ms] by (simp add: make_object_def own_order_plain plain_keys_def)

lemma jobject_plain: "plain_keys ms \<Longrightarrow> jobject ms = JObj (present ms)"
  unfolding jobject_def present_def[symmetric] by (simp add: make_object_plain plain_present)

lemma map_of_present: "plain_keys ms \<Longrightarrow> map_of (present ms) k = Option.bind (map_of ms k) (\<lambda>v. v)"
proof (induction ms)
  case (Cons m ms)
  obtain k' v where m: "m = (k', v)" by (cases m)
  have "k' \<notin> set (map fst (present ms))" using Cons.prems present_keys[of ms] m by (auto simp: plain_keys_def)
  then have "map_of (present ms) k' = None" by (simp add: map_of_eq_None_iff)
  then show ?case using Cons m by (cases v) (auto simp: plain_keys_def)
qed simp

lemma not_index_lit: "s \<noteq> [] \<Longrightarrow> \<not> is_digit (cu_of (hd s)) \<Longrightarrow> \<not> index_key (lit s)"
  by (cases s) (auto simp: index_key_def is_decimal_def lit_def is_digit_def)

lemma plain_keys_lit:
  "distinct ks \<Longrightarrow> list_all (\<lambda>s. s \<noteq> [] \<and> \<not> is_digit (cu_of (hd s))) ks \<Longrightarrow> map fst ms = map lit ks \<Longrightarrow> plain_keys ms"
  unfolding plain_keys_def by (simp add: distinct_map list_all_iff not_index_lit inj_on_def)

lemma wf_jobject:
  assumes "plain_keys ms" "list_all (\<lambda>(k, v). case v of None \<Rightarrow> True | Some j \<Rightarrow> wf_json j) ms"
  shows "wf_json (jobject ms)"
proof -
  have "list_all (\<lambda>(k, v). wf_json v) (present ms)"
    using assms(2) by (induction ms) (auto split: option.splits simp: present_def List.map_filter_def)
  then show ?thesis
    using plain_present[OF assms(1)] by (simp add: jobject_plain assms(1) own_order_plain plain_keys_def[of "present ms"])
qed

section \<open>Printed text\<close>

definition graphic :: "cu \<Rightarrow> bool" where
  "graphic c \<longleftrightarrow> 32 \<le> c"

lemma graphic_lit: "graphic 34" "graphic 44" "graphic 58" "graphic 91" "graphic 93" "graphic 123" "graphic 125"
  "graphic 45" "graphic 46" "graphic 48" "graphic 92" "graphic 101" "graphic 43" "graphic 117"
  by (simp_all add: graphic_def)

lemma graphic_digits: "is_digit c \<Longrightarrow> graphic c" "is_lhex c \<Longrightarrow> graphic c"
  by (auto simp: graphic_def str_simps word_le_nat_alt)

lemma graphic_show_base: "list_all graphic (show_base 10 n)"
  using show_base_10_digits[of n] by (auto simp: list_all_iff graphic_digits)

lemma graphic_hex_fix: "list_all graphic (hex_fix w n)"
  using hex_fix_lhex[of w n] by (auto simp: list_all_iff graphic_digits)

lemma is_numeric_digit [simp]: "is_digit c \<Longrightarrow> is_numeric c"
  by (simp add: is_numeric_def)

lemma numeric_show_base: "list_all is_numeric (show_base 10 n)"
  using show_base_10_digits[of n] by (auto simp: list_all_iff)

lemma numeric_marks [simp]: "is_numeric 43" "is_numeric 45" "is_numeric 46" "is_numeric 48" "is_numeric 101"
  by (simp_all add: is_numeric_def is_digit_def)

lemma list_all_sub: "list_all P xs \<Longrightarrow> set ys \<subseteq> set xs \<Longrightarrow> list_all P ys"
  by (auto simp: list_all_iff)

text \<open>A number prints digits, signs, a point and an exponent only.\<close>

lemma numeric_show_dbl: "list_all is_numeric (show_dbl (Fin neg m e))"
proof -
  have z: "list_all is_numeric (strip_zeros (show_base 10 s))" for s
    by (rule list_all_sub[OF numeric_show_base[of s]]) (auto simp: strip_zeros_def dest: set_dropWhileD)
  have p: "list_all is_numeric ds \<Longrightarrow> list_all is_numeric (place_point ds n)" for ds n
    by (auto simp: place_point_def Let_def numeric_show_base list_all_iff
        dest: in_set_takeD in_set_dropD numeric_show_base[unfolded list_all_iff, rule_format])
  show ?thesis
    using numeric_show_base z p by (auto simp: Let_def split: option.split)
qed

lemma numeric_class: "is_numeric c \<Longrightarrow> graphic c \<and> c < 128"
  by (auto simp: is_numeric_def graphic_def str_simps word_le_nat_alt word_less_nat_alt)

lemma graphic_show_dbl: "list_all graphic (show_dbl (Fin neg m e))"
  using numeric_show_dbl[of neg m e] by (auto simp: list_all_iff numeric_class simp del: show_dbl.simps)

lemma graphic_quote_char: "ch \<in> set (chars s) \<Longrightarrow> list_all graphic (quote_char ch)"
proof -
  assume "ch \<in> set (chars s)"
  from chars_shape[OF this] show ?thesis
  proof (elim disjE exE conjE)
    fix c assume "ch = [c]"
    then show ?thesis
      using graphic_hex_fix by (auto simp: quote_char_def escape_unit_def graphic_def)
  next
    fix h l assume "ch = [h, l]" "is_high h" "is_low l"
    then show ?thesis by (auto simp: quote_char_def graphic_def surrogate_defs word_le_nat_alt)
  qed
qed

lemma graphic_quote: "list_all graphic (quote s)"
  using graphic_quote_char by (auto simp: quote_def graphic_lit list_all_iff)

lemma graphic_comma_sep: "list_all (list_all graphic) xs \<Longrightarrow> list_all graphic (comma_sep xs)"
  by (auto simp: comma_sep_def graphic_lit list_all_iff split: list.split)

text \<open>Printed JSON holds no control character.\<close>

lemma graphic_stringify: "list_all graphic (stringify v)"
proof (induction v rule: stringify.induct)
  case (3 d)
  have "list_all graphic (lit ''null'')" by (simp add: str_simps graphic_def)
  then show ?case using graphic_show_dbl by (cases d) (simp_all del: show_dbl.simps)
next
  case (5 xs)
  then show ?case
    using graphic_comma_sep[of "map stringify xs"] by (simp add: graphic_lit list_all_iff)
next
  case (6 ms)
  have "list_all (list_all graphic) (map (\<lambda>(k, v). quote k @ [58] @ stringify v) ms)"
    using 6 graphic_quote by (auto simp: list_all_iff graphic_lit)
  from graphic_comma_sep[OF this] show ?case by (simp add: graphic_lit)
next
  case (4 s)
  then show ?case by (simp add: graphic_quote)
qed (auto simp: str_simps graphic_def)

section \<open>Printed JSON as bytes\<close>

lemma ascii_well_formed: "list_all (\<lambda>c. c < 128) s \<Longrightarrow> \<not> lone_surrogate s"
  by (intro well_formed_unit) (auto simp: list_all_iff ascii_not_surrogate)

lemma hex_fix_ascii: "list_all (\<lambda>c. c < 128) (hex_fix w n)"
  using hex_fix_lhex[of w n] by (auto simp: list_all_iff str_simps word_less_nat_alt word_le_nat_alt)

lemma well_formed_marks [simp]:
  "\<not> lone_surrogate []" "\<not> lone_surrogate [44]" "\<not> lone_surrogate [58]" "\<not> lone_surrogate [91]"
  "\<not> lone_surrogate [93]" "\<not> lone_surrogate [123]" "\<not> lone_surrogate [125]" "\<not> lone_surrogate [34]"
  by (simp_all add: ascii_well_formed)

lemma quote_char_well_formed: "ch \<in> set (chars s) \<Longrightarrow> \<not> lone_surrogate (quote_char ch)"
proof -
  assume "ch \<in> set (chars s)"
  from chars_shape[OF this] show ?thesis
  proof (elim disjE exE conjE)
    fix c assume c: "ch = [c]"
    have "\<not> lone_surrogate (escape_unit c)"
      unfolding escape_unit_def by (intro ascii_well_formed) (simp add: hex_fix_ascii)
    moreover have "\<not> is_surrogate c \<Longrightarrow> \<not> lone_surrogate [c]"
      by (simp add: plain_char_well_formed plain_char_def)
    moreover have "\<not> lone_surrogate [92, x]" if "x < 128" for x
      using that by (intro ascii_well_formed) simp
    ultimately show ?thesis using c by (auto simp: quote_char_def)
  next
    fix h l assume "ch = [h, l]" "is_high h" "is_low l"
    then show ?thesis by (simp add: quote_char_def plain_char_well_formed plain_char_def)
  qed
qed

lemma quote_well_formed [simp]: "\<not> lone_surrogate (quote s)"
  unfolding quote_def
  by (intro well_formed_append well_formed_concat) (auto simp: list_all_iff quote_char_well_formed)

lemma well_formed_comma: "\<not> lone_surrogate x \<Longrightarrow> \<not> lone_surrogate (44 # x)"
  using well_formed_append[of "[44]" x] by simp

lemma comma_sep_well_formed: "list_all (\<lambda>s. \<not> lone_surrogate s) xs \<Longrightarrow> \<not> lone_surrogate (comma_sep xs)"
proof (cases xs)
  case (Cons y ys)
  assume "list_all (\<lambda>s. \<not> lone_surrogate s) xs"
  then show ?thesis
    unfolding comma_sep_def Cons list.case
    by (intro well_formed_append well_formed_concat) (auto simp: list_all_iff well_formed_comma)
qed (simp add: comma_sep_def)

text \<open>\<open>JSON.stringify\<close> never emits a lone surrogate, so its text survives UTF-8.\<close>

lemma stringify_well_formed: "\<not> lone_surrogate (stringify v)"
proof (induction v rule: stringify.induct)
  case (3 d)
  have "\<not> lone_surrogate (show_dbl (Fin neg m e))" for neg m e
    using numeric_show_dbl[of neg m e]
    by (intro ascii_well_formed) (auto simp: list_all_iff numeric_class simp del: show_dbl.simps)
  then show ?case by (cases d) (simp_all add: ascii_well_formed str_simps del: show_dbl.simps)
next
  case (5 xs)
  then show ?case
    unfolding stringify.simps
    by (intro well_formed_append comma_sep_well_formed) (auto simp: list_all_iff)
next
  case (6 ms)
  have "\<not> lone_surrogate (quote k @ [58] @ stringify v)" if "(k, v) \<in> set ms" for k v
    using 6[OF that refl] by (intro well_formed_append) simp_all
  then show ?case
    unfolding stringify.simps
    by (intro well_formed_append comma_sep_well_formed) (auto simp: list_all_iff)
qed (auto simp: quote_well_formed str_simps intro!: ascii_well_formed)

lemma points_ascii: "c < 128 \<Longrightarrow> points (c # s) = unat c # points s"
  using ascii_not_surrogate[of c] high_surrogate[of c]
  by (cases s) (auto simp: points_def char_point_def)

lemma stringify_first: "stringify v = [] \<or> hd (stringify v) < 128"
proof (cases v)
  case (JNum d)
  have "show_dbl (Fin neg m e) = [] \<or> hd (show_dbl (Fin neg m e)) < 128" for neg m e
    using numeric_show_dbl[of neg m e] by (cases "show_dbl (Fin neg m e)") (auto simp: numeric_class simp del: show_dbl.simps)
  then show ?thesis using JNum by (cases d) (simp_all add: str_simps del: show_dbl.simps)
qed (simp_all add: str_simps quote_def)

lemma json_bytes: "utf8_decode (utf8_encode (stringify v)) = Some (stringify v)"
proof (rule utf8_round_trip[OF stringify_well_formed])
  show "points (stringify v) = [] \<or> hd (points (stringify v)) \<noteq> 0xFEFF"
  proof (cases "stringify v")
    case (Cons c s)
    have "c < 128" using stringify_first[of v] Cons by simp
    then show ?thesis by (simp add: Cons points_ascii word_less_nat_alt)
  qed (simp add: points_def)
qed

section \<open>Numbers and sizes\<close>

lemma dbl_number_int: "dbl_number (dbl_of_int i) = Whole i"
proof (cases "i = 0")
  case True
  then show ?thesis by (simp add: dbl_of_int_def canon.simps)
next
  case False
  then have "0 < nat \<bar>i\<bar>" by simp
  from canon_value[OF this, of "i < 0" 0] obtain m j
    where m: "canon (i < 0) (nat \<bar>i\<bar>) 0 = Fin (i < 0) m (0 + int j)" "nat \<bar>i\<bar> = m * 2 ^ j" by blast
  have "(if i < 0 then - 1 else 1) * int (nat \<bar>i\<bar>) = i" by simp
  then show ?thesis unfolding dbl_of_int_def m(1) using m(2) by simp
qed

lemma wf_int: "\<bar>i\<bar> \<le> max_safe \<Longrightarrow> wf_json (jint i)"
  by (auto simp: jint_def safe_dbl_def)

text \<open>An upper bound of the printed size: every unit may need an escape.\<close>

fun json_size :: "json \<Rightarrow> nat" where
  "json_size (JStr s) = 6 * length s + 2"
| "json_size (JArr xs) = 2 + sum_list (map (\<lambda>x. json_size x + 1) xs)"
| "json_size (JObj ms) = 2 + sum_list (map (\<lambda>(k, v). 6 * length k + json_size v + 4) ms)"
| "json_size v = length (stringify v)"

lemma length_quote_char: "ch \<in> set (chars s) \<Longrightarrow> length (quote_char ch) \<le> 6 * length ch"
  by (drule chars_shape) (auto simp: quote_char_def escape_unit_def)

lemma length_quote: "length (quote s) \<le> 6 * length s + 2"
proof -
  have "sum_list (map (length \<circ> quote_char) cs) \<le> 6 * sum_list (map length cs)" if "set cs \<subseteq> set (chars s)" for cs
    using that length_quote_char by (induction cs) fastforce+
  from this[of "chars s"] have "length (concat (map quote_char (chars s))) \<le> 6 * length (concat (chars s))"
    by (simp add: length_concat comp_def)
  then show ?thesis by (simp add: quote_def concat_chars)
qed

lemma length_comma_sep: "length (comma_sep xs) \<le> sum_list (map (\<lambda>x. length x + 1) xs)"
  by (auto simp: comma_sep_def length_concat comp_def split: list.split)

lemma sum_list_le: "(\<And>x. x \<in> set xs \<Longrightarrow> f x \<le> (g x :: nat)) \<Longrightarrow> sum_list (map f xs) \<le> sum_list (map g xs)"
  by (rule sum_list_mono)

lemma stringify_size: "length (stringify v) \<le> json_size v"
proof (induction v rule: json_size.induct)
  case (2 xs)
  have "length (comma_sep (map stringify xs)) \<le> sum_list (map (\<lambda>x. length (stringify x) + 1) xs)"
    using length_comma_sep[of "map stringify xs"] by (simp add: comp_def)
  also have "\<dots> \<le> sum_list (map (\<lambda>x. json_size x + 1) xs)" using 2 by (intro sum_list_le) simp
  finally show ?case by simp
next
  case (3 ms)
  let ?f = "\<lambda>(k, v). quote k @ [58] @ stringify v"
  have "length (comma_sep (map ?f ms)) \<le> sum_list (map (\<lambda>m. length (?f m) + 1) ms)"
    using length_comma_sep[of "map ?f ms"] by (simp add: comp_def)
  also have "\<dots> \<le> sum_list (map (\<lambda>(k, v). 6 * length k + json_size v + 4) ms)"
  proof (rule sum_list_le)
    fix m assume m: "m \<in> set ms"
    obtain k v where "m = (k, v)" by (cases m)
    then show "length (?f m) + 1 \<le> (case m of (k, v) \<Rightarrow> 6 * length k + json_size v + 4)"
      using 3[OF m, of k v] length_quote[of k] by simp
  qed
  finally show ?case by simp
qed (use length_quote in simp_all)

lemma length_utf8: "length (utf8_encode s) \<le> 3 * length s"
proof -
  have "length (utf8_point (char_point ch)) \<le> 3 * length ch" if "ch \<in> set (chars s)" for ch
    using chars_shape[OF that]
  proof (elim disjE exE conjE)
    fix c assume "ch = [c]"
    then show ?thesis using unsigned_less[of c] by (auto simp: utf8_point_def char_point_def)
  qed (auto simp: utf8_point_def)
  then have "sum_list (map (\<lambda>ch. length (utf8_point (char_point ch))) (chars s)) \<le> sum_list (map (\<lambda>ch. 3 * length ch) (chars s))"
    by (intro sum_list_le)
  also have "\<dots> = 3 * length (concat (chars s))" by (simp add: length_concat sum_list_const_mult)
  finally show ?thesis by (simp add: utf8_encode_def points_def length_concat comp_def concat_chars)
qed

lemma event_size: "3 * json_size v \<le> n \<Longrightarrow> length (utf8_encode (stringify v)) \<le> n"
  using length_utf8[of "stringify v"] stringify_size[of v] by linarith

end
