(* ===== verification/Factory.thy ===== *)
theory Factory
  imports Provenance
begin

text \<open>
  \<open>src/shared/provenance/factory.ts\<close>. The factory owns two capabilities, a wall clock and
  an identifier generator; both act on a world that is passed through, so an operation
  shows what it read and generated even when it refuses. The interface the proofs use is
  the locale \<open>id_source\<close>; the version 7 generator and the finite sequence provide it.
\<close>

section \<open>Specifications\<close>

record root_spec =
  rs_workId :: "id option"
  rs_origin :: str
  rs_operation :: str
  rs_attribution :: "attribution brand"
  rs_executor :: "actor brand"

record step_spec =
  ss_workId :: "id option"
  ss_operation :: str
  ss_executor :: "actor brand"
  ss_cause :: "reference brand option"

record work_spec =
  ws_workId :: id
  ws_operation :: str
  ws_cause :: "reference brand option"

record replay_spec =
  rp_source :: "reference brand"
  rp_runId :: "id option"
  rp_workId :: "id option"
  rp_operation :: str
  rp_attribution :: "attribution brand"
  rp_executor :: "actor brand"

definition generatedError :: failure where
  "generatedError = fail Internal ''invalid generated provenance ID'' ''provenance.invalid_generated_id''"

definition rootWork :: "root_spec \<Rightarrow> work result" where
  "rootWork s =
     (if \<not> validOrigin (rs_origin s) \<or> rs_origin s = lit ''replay'' then Inl (p_invalid ''invalid_origin'')
      else if (case rs_workId s of None \<Rightarrow> False | Some i \<Rightarrow> \<not> validID i) then Inl (p_invalid ''invalid_work'')
      else Inr \<lparr>wk_workId = rs_workId s, wk_correlationId = None,
        wk_correlationSource = lit ''local'', wk_causation = None, wk_origin = Some (rs_origin s),
        wk_operation = rs_operation s, wk_attribution = rs_attribution s,
        wk_depth = Some (Whole 0), wk_replay = None\<rparr>)"

text \<open>\<open>w.depth++\<close>, refused at the largest depth.\<close>

definition next_depth :: "number option \<Rightarrow> number option option" where
  "next_depth d = (case d of None \<Rightarrow> Some None
     | Some (Whole n) \<Rightarrow> if n = max_u32 then None else Some (Some (Whole (n + 1)))
     | Some x \<Rightarrow> Some (Some x))"

definition childWork :: "scope brand \<Rightarrow> id option \<Rightarrow> str \<Rightarrow> reference brand option \<Rightarrow> work result" where
  "childWork parent workId oper cause =
     (case parent of Forged \<Rightarrow> Inl (p_invalid ''invalid_scope'')
      | Made s \<Rightarrow>
          if (case workId of None \<Rightarrow> False | Some i \<Rightarrow> \<not> validID i \<or> Some i = wk_workId (sp_work s))
          then Inl (p_invalid ''invalid_work'')
          else (case next_depth (wk_depth (sp_work s)) of
              None \<Rightarrow> Inl (p_invalid ''depth_exhausted'')
            | Some d \<Rightarrow>
                (case (case cause of
                         None \<Rightarrow> (case reference (lit ''scope'') (sp_scopeId s) of
                           Inl e \<Rightarrow> Inl e | Inr r \<Rightarrow> Inr (Made r))
                       | Some c \<Rightarrow> Inr c) of
                   Inl e \<Rightarrow> Inl e
                 | Inr c \<Rightarrow>
                     let w = (sp_work s)\<lparr>wk_workId := workId, wk_operation := oper,
                                wk_depth := d, wk_causation := Some c\<rparr>
                     in (case validateWork w True of Some e \<Rightarrow> Inl e | None \<Rightarrow> Inr w))))"

definition prepare :: "scope brand \<Rightarrow> work_spec \<Rightarrow> work result" where
  "prepare parent s =
     (case parent of Forged \<Rightarrow> Inl (p_invalid ''invalid_scope'')
      | Made _ \<Rightarrow>
          if \<not> validID (ws_workId s) then Inl (p_invalid ''invalid_work'')
          else (case childWork parent (Some (ws_workId s)) (ws_operation s) (ws_cause s) of
              Inl e \<Rightarrow> Inl e | Inr w \<Rightarrow> restoreWork w))"

section \<open>The factory\<close>

record 's factory =
  fa_now :: "'s \<Rightarrow> date \<times> 's"
  fa_newId :: "'s \<Rightarrow> id result \<times> 's"

definition or_id :: "id option \<Rightarrow> id \<Rightarrow> id option" where
  "or_id i d = (case i of None \<Rightarrow> Some d | Some x \<Rightarrow> Some x)"

definition fill_work :: "work \<Rightarrow> id \<Rightarrow> work" where
  "fill_work w scopeId = w\<lparr>wk_workId := or_id (wk_workId w) scopeId,
     wk_correlationId := or_id (wk_correlationId w) scopeId,
     wk_replay := map_option (\<lambda>(run, src). (or_id run scopeId, src)) (wk_replay w)\<rparr>"

definition emit :: "'s factory \<Rightarrow> work \<Rightarrow> actor brand \<Rightarrow> number \<Rightarrow> id option \<Rightarrow> id list \<Rightarrow> 's
    \<Rightarrow> scope result \<times> 's" where
  "emit fa w executor attempt previousAttempt forbidden s =
     (if \<not> namedActor executor then (Inl (p_invalid ''invalid_actor''), s)
      else if \<not> int_in 1 max_u32 attempt then (Inl (p_invalid ''invalid_attempt''), s)
      else (case validateWork w True of Some e \<Rightarrow> (Inl e, s)
      | None \<Rightarrow>
          (case fa_now fa s of (now, s1) \<Rightarrow>
            (case normalizedTime now of None \<Rightarrow> (Inl (p_invalid ''invalid_time''), s1)
             | Some ms \<Rightarrow>
                (case fa_newId fa s1 of
                   (Inl e, s2) \<Rightarrow> (Inl e, s2)
                 | (Inr scopeId, s2) \<Rightarrow>
                     if \<not> validID scopeId \<or> List.member forbidden scopeId then (Inl generatedError, s2)
                     else (case restoreScope \<lparr>sn_work = fill_work w scopeId, sn_scopeId = scopeId,
                             sn_startedAt = new_Date ms, sn_executor = executor,
                             sn_attempt = attempt, sn_previousAttempt = previousAttempt\<rparr> of
                         Inr sc \<Rightarrow> (Inr sc, s2)
                       | Inl _ \<Rightarrow> (Inl generatedError, s2)))))))"

definition factory_open :: "'s factory \<Rightarrow> root_spec \<Rightarrow> 's \<Rightarrow> scope result \<times> 's" where
  "factory_open fa sp s = (case rootWork sp of Inl e \<Rightarrow> (Inl e, s)
     | Inr w \<Rightarrow> emit fa w (rs_executor sp) (Whole 1) None [] s)"

definition factory_child :: "'s factory \<Rightarrow> scope brand \<Rightarrow> step_spec \<Rightarrow> 's \<Rightarrow> scope result \<times> 's" where
  "factory_child fa parent sp s =
     (case childWork parent (ss_workId sp) (ss_operation sp) (ss_cause sp) of
        Inl e \<Rightarrow> (Inl e, s)
      | Inr w \<Rightarrow>
          let p = made parent;
              forbidden = [sp_scopeId p] @
                (if ss_workId sp = None then (case wk_workId (sp_work p) of None \<Rightarrow> [] | Some i \<Rightarrow> [i]) else [])
          in emit fa w (ss_executor sp) (Whole 1) None forbidden s)"

definition factory_execute :: "'s factory \<Rightarrow> work brand \<Rightarrow> actor brand \<Rightarrow> number \<Rightarrow> 's
    \<Rightarrow> scope result \<times> 's" where
  "factory_execute fa w executor attempt s =
     (case w of Made wk \<Rightarrow> emit fa wk executor attempt None [] s
      | Forged \<Rightarrow> (Inl (p_invalid ''invalid_work''), s))"

definition factory_retry :: "'s factory \<Rightarrow> scope brand \<Rightarrow> actor brand \<Rightarrow> 's \<Rightarrow> scope result \<times> 's" where
  "factory_retry fa previous executor s =
     (case previous of Forged \<Rightarrow> (Inl (p_invalid ''invalid_scope''), s)
      | Made p \<Rightarrow>
          if sp_attempt p = max_u32 then (Inl (p_invalid ''attempt_exhausted''), s)
          else emit fa (sp_work p) executor (Whole (sp_attempt p + 1)) (Some (sp_scopeId p))
            [sp_scopeId p] s)"

definition factory_replay :: "'s factory \<Rightarrow> replay_spec \<Rightarrow> 's \<Rightarrow> scope result \<times> 's" where
  "factory_replay fa sp s =
     (if \<not> validReference (rp_source sp) \<or> (case rp_runId sp of None \<Rightarrow> False | Some i \<Rightarrow> \<not> validID i)
      then (Inl (p_invalid ''invalid_reference''), s)
      else if (case rp_workId sp of None \<Rightarrow> False
          | Some i \<Rightarrow> \<not> validID i \<or> refers_to_work (rp_source sp) (Some i))
      then (Inl (p_invalid ''invalid_work''), s)
      else emit fa \<lparr>wk_workId = rp_workId sp, wk_correlationId = None,
             wk_correlationSource = lit ''local'', wk_causation = None,
             wk_origin = Some (lit ''replay''), wk_operation = rp_operation sp,
             wk_attribution = rp_attribution sp, wk_depth = Some (Whole 0),
             wk_replay = Some (rp_runId sp, rp_source sp)\<rparr>
           (rp_executor sp) (Whole 1) None
           (if rf_kind (made (rp_source sp)) = lit ''scope'' then [rf_id (made (rp_source sp))] else []) s)"

definition factory_enter :: "'s factory \<Rightarrow> root_spec \<Rightarrow> incoming brand \<Rightarrow> 's \<Rightarrow> scope result \<times> 's" where
  "factory_enter fa sp i s =
     (case i of Forged \<Rightarrow> (Inl (p_invalid ''invalid_incoming_result''), s)
      | Made inc \<Rightarrow>
          (case rootWork sp of Inl e \<Rightarrow> (Inl e, s)
           | Inr w \<Rightarrow>
               let w' = (if in_decision inc = Continued
                     then w\<lparr>wk_correlationId := in_correlation inc,
                            wk_correlationSource := lit ''external'',
                            wk_causation := map_option Made (in_cause inc),
                            wk_origin := None, wk_depth := None\<rparr>
                     else w)
               in emit fa w' (rs_executor sp) (Whole 1) None [] s))"

section \<open>What an emitted scope is\<close>

text \<open>A scope is sound when its own snapshot restores to it.\<close>

definition sound_scope :: "scope \<Rightarrow> bool" where
  "sound_scope sc \<longleftrightarrow> restoreScope (scope_snapshot_of sc) = Inr sc"

lemma restoreWork_Inr [simp]: "restoreWork w = Inr w' \<longleftrightarrow> validateWork w False = None \<and> w' = w"
  by (auto simp: restoreWork_def split: option.split)

lemma normalizedTime_Some: "normalizedTime d = Some ms \<longleftrightarrow> d = Date ms \<and> 0 \<le> ms \<and> ms \<le> 281474976710655"
  by (cases d) (auto simp: normalizedTime_def max_safe_def)

lemma restoreScope_Inr:
  "restoreScope sn = Inr sc \<longleftrightarrow>
     sn_scopeId sn = sp_scopeId sc \<and> validID (sp_scopeId sc)
     \<and> sn_work sn = sp_work sc \<and> validateWork (sp_work sc) False = None
     \<and> sn_executor sn = Made (sp_executor sc) \<and> namedActor (Made (sp_executor sc))
     \<and> sn_attempt sn = Whole (sp_attempt sc) \<and> 1 \<le> sp_attempt sc \<and> sp_attempt sc \<le> max_u32
     \<and> sn_previousAttempt sn = sp_previousAttempt sc
     \<and> (\<forall>p. sp_previousAttempt sc = Some p \<longrightarrow> validID p \<and> p \<noteq> sp_scopeId sc \<and> sp_attempt sc \<noteq> 1)
     \<and> \<not> caused_by_scope (sp_work sc) (sp_scopeId sc)
     \<and> normalizedTime (sn_startedAt sn) = Some (sp_started sc)"
  (is "?l = ?r")
proof
  assume ?l
  then show ?r
    by (auto simp: restoreScope_def simp del: namedActor.simps split: if_splits sum.splits brand.splits number.splits option.splits)
next
  assume r: ?r
  then have "restoreScope sn = Inr \<lparr>sp_work = sp_work sc, sp_scopeId = sp_scopeId sc,
      sp_executor = sp_executor sc, sp_attempt = sp_attempt sc,
      sp_previousAttempt = sp_previousAttempt sc, sp_started = sp_started sc\<rparr>"
    by (cases "sp_previousAttempt sc")
      (simp_all add: restoreScope_def restoreWork_def)
  then show ?l by simp
qed

lemma new_Date_in_range: "0 \<le> ms \<Longrightarrow> ms \<le> 281474976710655 \<Longrightarrow> new_Date ms = Date ms"
  by (simp add: new_Date_def max_date_def)

lemma restoreScope_sound: "restoreScope sn = Inr sc \<Longrightarrow> sound_scope sc"
  unfolding sound_scope_def
  by (simp add: restoreScope_Inr scope_snapshot_of_def normalizedTime_Some new_Date_in_range)

lemma sound_scopeD:
  assumes "sound_scope sc"
  shows "validID (sp_scopeId sc)" "validateWork (sp_work sc) False = None"
    "1 \<le> sp_attempt sc" "sp_attempt sc \<le> max_u32"
  using assms by (auto simp: sound_scope_def restoreScope_Inr)

lemma first_failure_None: "first_failure es = None \<longleftrightarrow> (\<forall>e \<in> set es. e = None)"
  by (induction es rule: first_failure.induct) auto

text \<open>A validated work record has both identifiers.\<close>

lemma validateWork_ids:
  assumes "validateWork w False = None"
  obtains i c where "wk_workId w = Some i" "wk_correlationId w = Some c" "validID i" "validID c"
  using assms by (auto simp: validateWork_def bad_id_def split: if_splits option.splits)

lemma validateWork_replay:
  assumes "validateWork w False = None" "wk_replay w = Some (run, src)"
  obtains r where "run = Some r"
  using assms by (auto simp: validateWork_def check_replay_def bad_id_def first_failure_None
      split: if_splits option.splits)

lemma emit_Inr:
  assumes "emit fa w ex att prev forb s = (Inr sc, s')"
  obtains now s1 where "fa_now fa s = (now, s1)" "normalizedTime now = Some (sp_started sc)"
    "fa_newId fa s1 = (Inr (sp_scopeId sc), s')" "sp_scopeId sc \<notin> set forb"
    "sp_work sc = fill_work w (sp_scopeId sc)" "ex = Made (sp_executor sc)"
    "att = Whole (sp_attempt sc)" "sp_previousAttempt sc = prev" "sound_scope sc"
    "validateWork w True = None"
proof -
  obtain now s1 where n: "fa_now fa s = (now, s1)" by fastforce
  obtain ms i where r: "normalizedTime now = Some ms" "fa_newId fa s1 = (Inr i, s')" "i \<notin> set forb"
    "restoreScope \<lparr>sn_work = fill_work w i, sn_scopeId = i, sn_startedAt = new_Date ms,
       sn_executor = ex, sn_attempt = att, sn_previousAttempt = prev\<rparr> = Inr sc"
    "validateWork w True = None"
    using assms n by (auto simp: emit_def split: if_splits option.splits prod.splits sum.splits)
  have "ms = sp_started sc"
    using r(1,4) by (auto simp: restoreScope_Inr normalizedTime_Some new_Date_in_range)
  then show thesis
    using that[OF n] r restoreScope_sound[OF r(4)] by (auto simp: restoreScope_Inr)
qed

text \<open>A refusal before the generator is asked leaves the generator alone.\<close>

lemma emit_InrD:
  assumes "emit fa w ex att prev forb s = (Inr sc, s')"
  shows "sp_scopeId sc \<notin> set forb" "sp_work sc = fill_work w (sp_scopeId sc)"
    "ex = Made (sp_executor sc)" "att = Whole (sp_attempt sc)" "sp_previousAttempt sc = prev"
    "sound_scope sc"
  using assms by (auto elim: emit_Inr)

lemma emit_sound: "emit fa w ex att prev forb s = (Inr sc, s') \<Longrightarrow> sound_scope sc"
  by (rule emit_Inr)

lemma fill_work_keeps:
  assumes "validateWork w False = None"
  shows "fill_work w i = w"
proof -
  obtain a c where ids: "wk_workId w = Some a" "wk_correlationId w = Some c"
    using validateWork_ids[OF assms] by metis
  show ?thesis
  proof (cases "wk_replay w")
    case None
    with ids show ?thesis by (simp add: fill_work_def or_id_def)
  next
    case (Some p)
    obtain run src where p: "p = (run, src)" by (cases p)
    obtain r where "run = Some r" using validateWork_replay[OF assms] Some p by metis
    with ids Some p show ?thesis by (simp add: fill_work_def or_id_def)
  qed
qed

section \<open>The operations on success\<close>

datatype factory_op = Open root_spec | Child "scope brand" step_spec
  | Execute "work brand" "actor brand" number | Retry "scope brand" "actor brand"
  | Replay replay_spec | Enter root_spec "incoming brand"

fun factory_apply :: "'s factory \<Rightarrow> factory_op \<Rightarrow> 's \<Rightarrow> scope result \<times> 's" where
  "factory_apply fa (Open sp) s = factory_open fa sp s"
| "factory_apply fa (Child p sp) s = factory_child fa p sp s"
| "factory_apply fa (Execute w ex n) s = factory_execute fa w ex n s"
| "factory_apply fa (Retry p ex) s = factory_retry fa p ex s"
| "factory_apply fa (Replay sp) s = factory_replay fa sp s"
| "factory_apply fa (Enter sp i) s = factory_enter fa sp i s"

text \<open>Every operation either refuses without touching the world or emits.\<close>

definition refuses_or_emits :: "'s factory \<Rightarrow> 's \<Rightarrow> scope result \<times> 's \<Rightarrow> bool" where
  "refuses_or_emits fa s r \<longleftrightarrow> (\<exists>e. r = (Inl e, s)) \<or>
     (\<exists>w ex att prev forb. r = emit fa w ex att prev forb s)"

lemma refuses [simp]: "refuses_or_emits fa s (Inl e, s)"
  by (simp add: refuses_or_emits_def)

lemma emits [simp]: "refuses_or_emits fa s (emit fa w ex att prev forb s)"
  unfolding refuses_or_emits_def by (intro disjI2 exI) (rule refl)

lemma factory_apply_emit: "refuses_or_emits fa s (factory_apply fa x s)"
  by (cases x)
    (simp_all add: factory_open_def factory_child_def factory_execute_def factory_retry_def
      factory_replay_def factory_enter_def Let_def split: sum.split brand.split)

lemma factory_apply_sound: "factory_apply fa x s = (Inr sc, s') \<Longrightarrow> sound_scope sc"
  using factory_apply_emit[of fa s x] unfolding refuses_or_emits_def
  by (elim disjE exE) (simp, metis emit_sound)

lemma childWork_Inr:
  assumes "childWork (Made p) wid oper cause = Inr w"
  shows "\<exists>d c. next_depth (wk_depth (sp_work p)) = Some d
    \<and> w = (sp_work p)\<lparr>wk_workId := wid, wk_operation := oper, wk_depth := d, wk_causation := Some c\<rparr>
    \<and> (cause = Some c \<or> cause = None \<and> c = Made \<lparr>rf_kind = lit ''scope'', rf_id = sp_scopeId p\<rparr>)"
    and "wid = Some i \<Longrightarrow> wk_workId (sp_work p) \<noteq> Some i"
  using assms
  by (auto simp: childWork_def reference_def Let_def split: brand.splits if_splits option.splits sum.splits)

lemma factory_child_Inr:
  assumes "factory_child fa (Made p) sp s = (Inr sc, s')" "sound_scope p"
  shows "sound_scope sc" "sp_scopeId sc \<noteq> sp_scopeId p" "sp_attempt sc = 1"
    "sp_previousAttempt sc = None" "Made (sp_executor sc) = ss_executor sp"
    "wk_correlationId (sp_work sc) = wk_correlationId (sp_work p)"
    "wk_correlationSource (sp_work sc) = wk_correlationSource (sp_work p)"
    "wk_attribution (sp_work sc) = wk_attribution (sp_work p)"
    "wk_origin (sp_work sc) = wk_origin (sp_work p)"
    "wk_replay (sp_work sc) = wk_replay (sp_work p)"
    "wk_operation (sp_work sc) = ss_operation sp"
    "wk_workId (sp_work sc) \<noteq> wk_workId (sp_work p)"
    "next_depth (wk_depth (sp_work p)) = Some (wk_depth (sp_work sc))"
    "ss_cause sp = None \<Longrightarrow>
       wk_causation (sp_work sc) = Some (Made \<lparr>rf_kind = lit ''scope'', rf_id = sp_scopeId p\<rparr>)"
proof -
  obtain w where w: "childWork (Made p) (ss_workId sp) (ss_operation sp) (ss_cause sp) = Inr w"
    using assms(1) by (auto simp: factory_child_def split: sum.splits)
  obtain d c where c: "next_depth (wk_depth (sp_work p)) = Some d"
    "w = (sp_work p)\<lparr>wk_workId := ss_workId sp, wk_operation := ss_operation sp, wk_depth := d,
       wk_causation := Some c\<rparr>"
    "ss_cause sp = Some c \<or> ss_cause sp = None \<and> c = Made \<lparr>rf_kind = lit ''scope'', rf_id = sp_scopeId p\<rparr>"
    using childWork_Inr(1)[OF w] by blast
  obtain a cor where ids: "wk_workId (sp_work p) = Some a" "wk_correlationId (sp_work p) = Some cor"
    using validateWork_ids[OF sound_scopeD(2)[OF assms(2)]] by metis
  define forb where "forb = [sp_scopeId p] @ (if ss_workId sp = None then [a] else [])"
  have "emit fa w (ss_executor sp) (Whole 1) None forb s = (Inr sc, s')"
    using assms(1) w by (cases "ss_workId sp") (simp_all add: factory_child_def forb_def Let_def ids)
  note e = emit_InrD[OF this]
  have rep: "map_option (\<lambda>(run, src). (or_id run i, src)) (wk_replay (sp_work p)) = wk_replay (sp_work p)" for i
    using arg_cong[OF fill_work_keeps[OF sound_scopeD(2)[OF assms(2)], of i], of wk_replay]
    by (simp add: fill_work_def)
  show "sound_scope sc" "sp_previousAttempt sc = None" by (rule e)+
  show "sp_scopeId sc \<noteq> sp_scopeId p" using e(1) by (simp add: forb_def)
  show "sp_attempt sc = 1" using e(4) by simp
  show "Made (sp_executor sc) = ss_executor sp" using e(3) by simp
  have wk: "sp_work sc = (sp_work p)\<lparr>wk_workId := or_id (ss_workId sp) (sp_scopeId sc),
      wk_operation := ss_operation sp, wk_depth := d, wk_causation := Some c\<rparr>"
    unfolding e(2) c(2) using ids rep by (simp add: fill_work_def or_id_def)
  show "wk_correlationId (sp_work sc) = wk_correlationId (sp_work p)"
    "wk_correlationSource (sp_work sc) = wk_correlationSource (sp_work p)"
    "wk_attribution (sp_work sc) = wk_attribution (sp_work p)"
    "wk_origin (sp_work sc) = wk_origin (sp_work p)"
    "wk_replay (sp_work sc) = wk_replay (sp_work p)"
    "wk_operation (sp_work sc) = ss_operation sp"
    "next_depth (wk_depth (sp_work p)) = Some (wk_depth (sp_work sc))"
    by (simp_all add: wk c(1))
  show "wk_workId (sp_work sc) \<noteq> wk_workId (sp_work p)"
    using e(1) childWork_Inr(2)[OF w] ids by (cases "ss_workId sp") (auto simp: wk or_id_def forb_def)
  show "ss_cause sp = None \<Longrightarrow>
     wk_causation (sp_work sc) = Some (Made \<lparr>rf_kind = lit ''scope'', rf_id = sp_scopeId p\<rparr>)"
    using c(3) by (simp add: wk)
qed

lemma factory_retry_Inr:
  assumes "factory_retry fa (Made p) ex s = (Inr sc, s')" "sound_scope p"
  shows "sound_scope sc" "sp_work sc = sp_work p" "sp_attempt sc = sp_attempt p + 1"
    "sp_previousAttempt sc = Some (sp_scopeId p)" "sp_scopeId sc \<noteq> sp_scopeId p"
    "Made (sp_executor sc) = ex" "sp_attempt p < max_u32"
proof -
  have m: "sp_attempt p \<noteq> max_u32"
    and "emit fa (sp_work p) ex (Whole (sp_attempt p + 1)) (Some (sp_scopeId p)) [sp_scopeId p] s = (Inr sc, s')"
    using assms(1) by (simp_all add: factory_retry_def split: if_splits)
  note e = emit_InrD[OF this(2)]
  show "sound_scope sc" "sp_previousAttempt sc = Some (sp_scopeId p)" by (rule e)+
  show "sp_work sc = sp_work p"
    using e(2) fill_work_keeps[OF sound_scopeD(2)[OF assms(2)]] by simp
  show "sp_attempt sc = sp_attempt p + 1" using e(4) by simp
  show "sp_scopeId sc \<noteq> sp_scopeId p" using e(1) by simp
  show "Made (sp_executor sc) = ex" using e(3) by simp
  show "sp_attempt p < max_u32" using m sound_scopeD(4)[OF assms(2)] by simp
qed

lemma factory_execute_Inr:
  assumes "factory_execute fa (Made w) ex n s = (Inr sc, s')" "validateWork w False = None"
  shows "sp_work sc = w" "n = Whole (sp_attempt sc)" "ex = Made (sp_executor sc)"
    "sp_previousAttempt sc = None"
  using assms emit_InrD[of fa w ex n None "[]" s sc s'] fill_work_keeps[OF assms(2)]
  by (simp_all add: factory_execute_def)

lemma rootWork_Inr:
  "rootWork sp = Inr w \<Longrightarrow> w = \<lparr>wk_workId = rs_workId sp, wk_correlationId = None,
     wk_correlationSource = lit ''local'', wk_causation = None, wk_origin = Some (rs_origin sp),
     wk_operation = rs_operation sp, wk_attribution = rs_attribution sp,
     wk_depth = Some (Whole 0), wk_replay = None\<rparr> \<and> rs_origin sp \<noteq> lit ''replay''"
  by (auto simp: rootWork_def split: if_splits)

lemma factory_open_Inr:
  assumes "factory_open fa sp s = (Inr sc, s')"
  shows "sp_work sc = \<lparr>wk_workId = or_id (rs_workId sp) (sp_scopeId sc),
     wk_correlationId = Some (sp_scopeId sc), wk_correlationSource = lit ''local'',
     wk_causation = None, wk_origin = Some (rs_origin sp), wk_operation = rs_operation sp,
     wk_attribution = rs_attribution sp, wk_depth = Some (Whole 0), wk_replay = None\<rparr>"
    "rs_origin sp \<noteq> lit ''replay''" "sp_attempt sc = 1" "sp_previousAttempt sc = None"
proof -
  obtain w where w: "rootWork sp = Inr w" "emit fa w (rs_executor sp) (Whole 1) None [] s = (Inr sc, s')"
    using assms by (auto simp: factory_open_def split: sum.splits)
  note e = emit_InrD[OF w(2)] rootWork_Inr[OF w(1)]
  show "sp_work sc = \<lparr>wk_workId = or_id (rs_workId sp) (sp_scopeId sc),
     wk_correlationId = Some (sp_scopeId sc), wk_correlationSource = lit ''local'',
     wk_causation = None, wk_origin = Some (rs_origin sp), wk_operation = rs_operation sp,
     wk_attribution = rs_attribution sp, wk_depth = Some (Whole 0), wk_replay = None\<rparr>"
    using e(2) e(7) by (simp add: fill_work_def or_id_def)
  show "rs_origin sp \<noteq> lit ''replay''" using e(7) by simp
  show "sp_attempt sc = 1" using e(4) by simp
  show "sp_previousAttempt sc = None" by (rule e)
qed

lemma factory_replay_Inr:
  assumes "factory_replay fa sp s = (Inr sc, s')"
  obtains src where "rp_source sp = Made src"
    "sp_work sc = \<lparr>wk_workId = or_id (rp_workId sp) (sp_scopeId sc),
       wk_correlationId = Some (sp_scopeId sc), wk_correlationSource = lit ''local'',
       wk_causation = None, wk_origin = Some (lit ''replay''), wk_operation = rp_operation sp,
       wk_attribution = rp_attribution sp, wk_depth = Some (Whole 0),
       wk_replay = Some (or_id (rp_runId sp) (sp_scopeId sc), Made src)\<rparr>"
    "rf_kind src = lit ''scope'' \<longrightarrow> sp_scopeId sc \<noteq> rf_id src"
proof -
  obtain src where src: "rp_source sp = Made src"
    using assms by (cases "rp_source sp") (auto simp: factory_replay_def)
  note e = emit_InrD[where fa=fa and s=s and sc=sc and s'=s']
  have "sp_work sc = \<lparr>wk_workId = or_id (rp_workId sp) (sp_scopeId sc),
       wk_correlationId = Some (sp_scopeId sc), wk_correlationSource = lit ''local'',
       wk_causation = None, wk_origin = Some (lit ''replay''), wk_operation = rp_operation sp,
       wk_attribution = rp_attribution sp, wk_depth = Some (Whole 0),
       wk_replay = Some (or_id (rp_runId sp) (sp_scopeId sc), Made src)\<rparr>"
    using assms by (auto simp: factory_replay_def src fill_work_def or_id_def split: if_splits dest!: e(2))
  moreover have "rf_kind src = lit ''scope'' \<longrightarrow> sp_scopeId sc \<noteq> rf_id src"
    using assms by (auto simp: factory_replay_def src split: if_splits dest!: e(1))
  ultimately show thesis using that src by metis
qed

lemma inspectIncoming_continued:
  "in_decision (inspectIncoming h) = Continued \<longleftrightarrow>
     (\<exists>c i. ih_correlation h = Some c \<and> parse (Str c) = Inr i \<and> in_correlation (inspectIncoming h) = Some i)"
  by (auto simp: inspectIncoming_def Let_def split: option.splits sum.splits prod.splits)

lemma inspectIncoming_correlation:
  "in_correlation (inspectIncoming h) = Some i \<Longrightarrow> in_decision (inspectIncoming h) = Continued \<and> validID i"
  by (auto simp: inspectIncoming_def Let_def intro: parse_valid split: option.splits sum.splits prod.splits if_splits)

lemma factory_enter_Inr:
  assumes "factory_enter fa sp (Made inc) s = (Inr sc, s')"
  shows "wk_attribution (sp_work sc) = rs_attribution sp" "wk_replay (sp_work sc) = None"
    "wk_operation (sp_work sc) = rs_operation sp" "sp_attempt sc = 1"
    "in_decision inc = Continued \<Longrightarrow> wk_correlationId (sp_work sc) = or_id (in_correlation inc) (sp_scopeId sc)
       \<and> wk_correlationSource (sp_work sc) = lit ''external'' \<and> wk_origin (sp_work sc) = None
       \<and> wk_depth (sp_work sc) = None \<and> wk_causation (sp_work sc) = map_option Made (in_cause inc)"
    "in_decision inc \<noteq> Continued \<Longrightarrow> wk_correlationId (sp_work sc) = Some (sp_scopeId sc)
       \<and> wk_correlationSource (sp_work sc) = lit ''local'' \<and> wk_origin (sp_work sc) = Some (rs_origin sp)
       \<and> wk_depth (sp_work sc) = Some (Whole 0) \<and> wk_causation (sp_work sc) = None"
proof -
  obtain w where w: "rootWork sp = Inr w"
    using assms by (auto simp: factory_enter_def split: sum.splits)
  note r = rootWork_Inr[OF w]
  define w' where "w' = (if in_decision inc = Continued
     then w\<lparr>wk_correlationId := in_correlation inc, wk_correlationSource := lit ''external'',
        wk_causation := map_option Made (in_cause inc), wk_origin := None, wk_depth := None\<rparr> else w)"
  have "emit fa w' (rs_executor sp) (Whole 1) None [] s = (Inr sc, s')"
    using assms w by (simp add: factory_enter_def w'_def Let_def)
  note e = emit_InrD[OF this]
  show "wk_attribution (sp_work sc) = rs_attribution sp" "wk_replay (sp_work sc) = None"
    "wk_operation (sp_work sc) = rs_operation sp"
    using e(2) r by (simp_all add: w'_def fill_work_def)
  show "sp_attempt sc = 1" using e(4) by simp
  show "in_decision inc = Continued \<Longrightarrow> wk_correlationId (sp_work sc) = or_id (in_correlation inc) (sp_scopeId sc)
       \<and> wk_correlationSource (sp_work sc) = lit ''external'' \<and> wk_origin (sp_work sc) = None
       \<and> wk_depth (sp_work sc) = None \<and> wk_causation (sp_work sc) = map_option Made (in_cause inc)"
    using e(2) by (simp add: w'_def fill_work_def)
  show "in_decision inc \<noteq> Continued \<Longrightarrow> wk_correlationId (sp_work sc) = Some (sp_scopeId sc)
       \<and> wk_correlationSource (sp_work sc) = lit ''local'' \<and> wk_origin (sp_work sc) = Some (rs_origin sp)
       \<and> wk_depth (sp_work sc) = Some (Whole 0) \<and> wk_causation (sp_work sc) = None"
    using e(2) r by (simp add: w'_def fill_work_def or_id_def)
qed

section \<open>Lineages\<close>

text \<open>A lineage of children and retries, each step on the scope the step before it gave.\<close>

datatype descent = Step step_spec | Again "actor brand"

fun lineage :: "'s factory \<Rightarrow> descent list \<Rightarrow> scope \<Rightarrow> 's \<Rightarrow> scope result \<times> 's" where
  "lineage fa [] p s = (Inr p, s)"
| "lineage fa (Step sp # ds) p s = (case factory_child fa (Made p) sp s of
     (Inl e, s') \<Rightarrow> (Inl e, s') | (Inr c, s') \<Rightarrow> lineage fa ds c s')"
| "lineage fa (Again ex # ds) p s = (case factory_retry fa (Made p) ex s of
     (Inl e, s') \<Rightarrow> (Inl e, s') | (Inr c, s') \<Rightarrow> lineage fa ds c s')"

definition same_lineage :: "work \<Rightarrow> work \<Rightarrow> bool" where
  "same_lineage v w \<longleftrightarrow> wk_correlationId v = wk_correlationId w
     \<and> wk_correlationSource v = wk_correlationSource w \<and> wk_attribution v = wk_attribution w
     \<and> wk_origin v = wk_origin w \<and> wk_replay v = wk_replay w"

fun steps_of :: "descent list \<Rightarrow> nat" where
  "steps_of [] = 0"
| "steps_of (Step sp # ds) = Suc (steps_of ds)"
| "steps_of (Again ex # ds) = steps_of ds"

lemma lineage_keeps:
  "lineage fa ds p s = (Inr sc, s') \<Longrightarrow> sound_scope p \<Longrightarrow>
     sound_scope sc \<and> same_lineage (sp_work p) (sp_work sc)"
proof (induction fa ds p s rule: lineage.induct)
  case (2 fa sp ds p s)
  then obtain c s1 where "factory_child fa (Made p) sp s = (Inr c, s1)" "lineage fa ds c s1 = (Inr sc, s')"
    by (auto split: prod.splits sum.splits)
  with 2 factory_child_Inr[of fa p sp s c s1] show ?case by (simp add: same_lineage_def)
next
  case (3 fa ex ds p s)
  then obtain c s1 where "factory_retry fa (Made p) ex s = (Inr c, s1)" "lineage fa ds c s1 = (Inr sc, s')"
    by (auto split: prod.splits sum.splits)
  with 3 factory_retry_Inr[of fa p ex s c s1] show ?case by (simp add: same_lineage_def)
qed (simp add: same_lineage_def)

lemma lineage_depth:
  "lineage fa ds p s = (Inr sc, s') \<Longrightarrow> sound_scope p \<Longrightarrow> wk_depth (sp_work p) = Some (Whole n) \<Longrightarrow>
     wk_depth (sp_work sc) = Some (Whole (n + int (steps_of ds)))"
proof (induction fa ds p s arbitrary: n rule: lineage.induct)
  case (2 fa sp ds p s)
  then obtain c s1 where c: "factory_child fa (Made p) sp s = (Inr c, s1)" "lineage fa ds c s1 = (Inr sc, s')"
    by (auto split: prod.splits sum.splits)
  have "wk_depth (sp_work c) = Some (Whole (n + 1))"
    using factory_child_Inr(13)[OF c(1) 2(3)] 2(4) by (simp add: next_depth_def split: if_splits)
  with 2(1)[OF c(1)[symmetric] refl c(2)] factory_child_Inr(1)[OF c(1) 2(3)] show ?case by simp
next
  case (3 fa ex ds p s)
  then obtain c s1 where c: "factory_retry fa (Made p) ex s = (Inr c, s1)" "lineage fa ds c s1 = (Inr sc, s')"
    by (auto split: prod.splits sum.splits)
  with 3(1)[OF c(1)[symmetric] refl c(2)] factory_retry_Inr(1,2)[OF c(1) 3(3)] 3(4) show ?case by simp
qed simp

section \<open>The generator as an interface\<close>

text \<open>
  What the factory relies on. \<open>spent\<close> are the identifiers a state of the world will not
  issue any more: a success is a valid identifier that was not spent and is spent
  afterwards, and neither a refusal nor a clock reading releases one.
\<close>

locale id_source =
  fixes newId :: "'s \<Rightarrow> id result \<times> 's"
    and src_inv :: "'s \<Rightarrow> bool"
    and spent :: "'s \<Rightarrow> id set"
  assumes newId_ok: "src_inv s \<Longrightarrow> newId s = (Inr i, s') \<Longrightarrow>
      validID i \<and> i \<notin> spent s \<and> insert i (spent s) \<subseteq> spent s' \<and> src_inv s'"
    and newId_err: "src_inv s \<Longrightarrow> newId s = (Inl e, s') \<Longrightarrow> spent s \<subseteq> spent s' \<and> src_inv s'"
begin

lemma newId_mono: "src_inv s \<Longrightarrow> newId s = (r, s') \<Longrightarrow> spent s \<subseteq> spent s' \<and> src_inv s'"
  by (cases r) (auto dest: newId_ok newId_err)

end

fun factory_run :: "'s factory \<Rightarrow> factory_op list \<Rightarrow> 's \<Rightarrow> scope list \<times> 's" where
  "factory_run fa [] s = ([], s)"
| "factory_run fa (x # xs) s = (case factory_apply fa x s of (r, s1) \<Rightarrow>
     (case factory_run fa xs s1 of (scs, s2) \<Rightarrow>
        ((case r of Inl _ \<Rightarrow> scs | Inr sc \<Rightarrow> sc # scs), s2)))"

locale factory_env = id_source newId src_inv spent
  for newId :: "'s \<Rightarrow> id result \<times> 's" and src_inv and spent +
  fixes now :: "'s \<Rightarrow> date \<times> 's"
  assumes now_keeps: "src_inv s \<Longrightarrow> now s = (d, s') \<Longrightarrow> spent s \<subseteq> spent s' \<and> src_inv s'"
begin

abbreviation fac :: "'s factory" where
  "fac \<equiv> \<lparr>fa_now = now, fa_newId = newId\<rparr>"

lemma emit_mono:
  assumes "src_inv s" "emit fac w ex att prev forb s = (r, s')"
  shows "spent s \<subseteq> spent s' \<and> src_inv s'"
proof -
  obtain d s1 where n: "now s = (d, s1)" by fastforce
  obtain r2 s2 where i: "newId s1 = (r2, s2)" by fastforce
  have "spent s \<subseteq> spent s1" "src_inv s1" using now_keeps[OF assms(1) n] by auto
  moreover have "spent s1 \<subseteq> spent s2" "src_inv s2"
    using newId_mono[OF \<open>src_inv s1\<close> i] by auto
  moreover have "s' \<in> {s, s1, s2}"
    using assms(2) n i by (auto simp: emit_def split: if_splits option.splits sum.splits)
  ultimately show ?thesis using assms(1) by auto
qed

lemma emit_fresh:
  assumes "src_inv s" "emit fac w ex att prev forb s = (Inr sc, s')"
  shows "sp_scopeId sc \<notin> spent s \<and> sp_scopeId sc \<in> spent s'"
  using assms(2)
proof (rule emit_Inr)
  fix d s1
  assume n: "fa_now fac s = (d, s1)" and i: "fa_newId fac s1 = (Inr (sp_scopeId sc), s')"
  have k: "spent s \<subseteq> spent s1" "src_inv s1" using now_keeps[OF assms(1)] n by auto
  then show ?thesis using newId_ok[OF k(2), of "sp_scopeId sc" s'] i by auto
qed

lemma apply_mono:
  assumes "src_inv s" "factory_apply fac x s = (r, s')"
  shows "spent s \<subseteq> spent s' \<and> src_inv s'"
  using factory_apply_emit[of fac s x] emit_mono[OF assms(1)] assms
  unfolding refuses_or_emits_def by fastforce

lemma apply_fresh:
  assumes "src_inv s" "factory_apply fac x s = (Inr sc, s')"
  shows "sp_scopeId sc \<notin> spent s \<and> sp_scopeId sc \<in> spent s'"
  using factory_apply_emit[of fac s x] emit_fresh[OF assms(1)] assms
  unfolding refuses_or_emits_def by fastforce

lemma run_fresh:
  "src_inv s \<Longrightarrow> factory_run fac xs s = (scs, s') \<Longrightarrow>
     distinct (map sp_scopeId scs) \<and> sp_scopeId ` set scs \<inter> spent s = {} \<and> src_inv s'"
proof (induction xs arbitrary: s scs)
  case (Cons x xs)
  obtain r s1 where r: "factory_apply fac x s = (r, s1)" by fastforce
  obtain rest s2 where rest: "factory_run fac xs s1 = (rest, s2)" by fastforce
  have m: "spent s \<subseteq> spent s1" "src_inv s1" using apply_mono[OF Cons.prems(1) r] by auto
  have s2: "s2 = s'" and scs: "scs = (case r of Inl _ \<Rightarrow> rest | Inr sc \<Rightarrow> sc # rest)"
    using Cons.prems(2) r rest by auto
  have ih: "distinct (map sp_scopeId rest)" "sp_scopeId ` set rest \<inter> spent s1 = {}" "src_inv s'"
    using Cons.IH[OF m(2) rest[unfolded s2]] by auto
  show ?case
  proof (cases r)
    case (Inl e)
    then show ?thesis using ih m scs by auto
  next
    case (Inr sc)
    then show ?thesis using ih m scs apply_fresh[OF Cons.prems(1), of x sc s1] r by auto
  qed
qed simp

end

section \<open>The two generators of the code\<close>

text \<open>
  A process whose clock and entropy source answer by the number of calls so far; the
  version 7 generator is the third component of the world.
\<close>

record v7_world =
  vw_clock :: "nat \<Rightarrow> date"
  vw_entropy :: "nat \<Rightarrow> entropy"
  vw_calls :: nat
  vw_gen :: v7

definition v7w_now :: "v7_world \<Rightarrow> date \<times> v7_world" where
  "v7w_now w = (vw_clock w (vw_calls w), w\<lparr>vw_calls := Suc (vw_calls w)\<rparr>)"

definition v7w_newId :: "v7_world \<Rightarrow> id result \<times> v7_world" where
  "v7w_newId w = (case v7_newId (vw_clock w (vw_calls w)) (vw_entropy w (vw_calls w)) (vw_gen w) of
     (r, g) \<Rightarrow> (r, w\<lparr>vw_calls := Suc (vw_calls w), vw_gen := g\<rparr>))"

definition v7w_factory :: "v7_world factory" where
  "v7w_factory = \<lparr>fa_now = v7w_now, fa_newId = v7w_newId\<rparr>"

definition v7_spent :: "v7 \<Rightarrow> id set" where
  "v7_spent g = {i. \<exists>l suf. v7_last g = Some l \<and> i \<le> encodeV7 l (v7_counter g) suf}"

lemma v7_spent_grows:
  assumes "v7_inv g" "v7_newId now ent g = (Inr i, g')"
  shows "validID i \<and> i \<notin> v7_spent g \<and> insert i (v7_spent g) \<subseteq> v7_spent g' \<and> v7_inv g'"
proof -
  obtain ms c suf where i: "i = encodeV7 ms c suf" "ms < 2 ^ 48" "c < 4096"
    "v7_last g' = Some ms" "v7_counter g' = c" "v7_before g ms c" "v7_inv g'"
    using v7_newId_Inr[OF assms(2,1)] by metis
  have "j < i" if j: "j \<in> v7_spent g" for j
  proof -
    obtain l s where l: "v7_last g = Some l" "j \<le> encodeV7 l (v7_counter g) s"
      using j unfolding v7_spent_def by blast
    then have "encodeV7 l (v7_counter g) s < i"
      using encodeV7_less i assms(1) by (simp add: v7_inv_def v7_before_def)
    with l(2) show ?thesis by simp
  qed
  moreover have "j \<in> v7_spent g'" if "j \<le> i" for j
    using that i by (auto simp: v7_spent_def)
  ultimately show ?thesis
    using v7_newId_valid[OF assms] i(7) by fastforce
qed

interpretation v7w: factory_env v7w_newId "\<lambda>w. v7_inv (vw_gen w)" "\<lambda>w. v7_spent (vw_gen w)" v7w_now
proof unfold_locales
  fix s i s'
  assume inv: "v7_inv (vw_gen s)" and n: "v7w_newId s = (Inr i, s')"
  have "v7_newId (vw_clock s (vw_calls s)) (vw_entropy s (vw_calls s)) (vw_gen s) = (Inr i, vw_gen s')"
    using n by (auto simp: v7w_newId_def split: prod.splits)
  from v7_spent_grows[OF inv this]
  show "validID i \<and> i \<notin> v7_spent (vw_gen s)
      \<and> insert i (v7_spent (vw_gen s)) \<subseteq> v7_spent (vw_gen s') \<and> v7_inv (vw_gen s')" .
next
  fix s e s'
  assume inv: "v7_inv (vw_gen s)" and n: "v7w_newId s = (Inl e, s')"
  then have "vw_gen s' = vw_gen s"
    using v7_newId_Inl by (auto simp: v7w_newId_def split: prod.splits)
  then show "v7_spent (vw_gen s) \<subseteq> v7_spent (vw_gen s') \<and> v7_inv (vw_gen s')"
    using inv by simp
qed (auto simp: v7w_now_def)

text \<open>The finite sequence, with a clock that always reads the same instant.\<close>

record seq_world =
  sw_time :: date
  sw_seq :: id_sequence

definition seqw_newId :: "seq_world \<Rightarrow> id result \<times> seq_world" where
  "seqw_newId w = (case seq_newId (sw_seq w) of (r, q) \<Rightarrow> (r, w\<lparr>sw_seq := q\<rparr>))"

definition seqw_now :: "seq_world \<Rightarrow> date \<times> seq_world" where
  "seqw_now w = (sw_time w, w)"

definition seqw_inv :: "seq_world \<Rightarrow> bool" where
  "seqw_inv w \<longleftrightarrow> distinct (sq_ids (sw_seq w)) \<and> list_all validID (sq_ids (sw_seq w))"

definition seqw_spent :: "seq_world \<Rightarrow> id set" where
  "seqw_spent w = - set (drop (sq_next (sw_seq w)) (sq_ids (sw_seq w)))"

interpretation seqw: factory_env seqw_newId seqw_inv seqw_spent seqw_now
proof unfold_locales
  fix s i s'
  assume inv: "seqw_inv s" and n: "seqw_newId s = (Inr i, s')"
  define ids k where "ids = sq_ids (sw_seq s)" and "k = sq_next (sw_seq s)"
  have k: "k < length ids" "i = ids ! k" and s': "sq_ids (sw_seq s') = ids" "sq_next (sw_seq s') = Suc k"
    using n by (auto simp: seqw_newId_def seq_newId_def ids_def k_def split: if_splits)
  have d: "drop k ids = i # drop (Suc k) ids" using k by (simp add: Cons_nth_drop_Suc)
  have "distinct (drop k ids)" using inv by (simp add: seqw_inv_def ids_def)
  moreover have "validID i" using inv k by (simp add: seqw_inv_def ids_def list_all_length)
  ultimately show "validID i \<and> i \<notin> seqw_spent s \<and> insert i (seqw_spent s) \<subseteq> seqw_spent s' \<and> seqw_inv s'"
    using inv d s' by (auto simp: seqw_spent_def seqw_inv_def ids_def[symmetric] k_def[symmetric])
next
  fix s e s'
  assume "seqw_inv s" "seqw_newId s = (Inl e, s')"
  then show "seqw_spent s \<subseteq> seqw_spent s' \<and> seqw_inv s'"
    by (auto simp: seqw_newId_def seq_newId_def split: if_splits)
qed (auto simp: seqw_now_def)

section \<open>Properties\<close>

text \<open>
  Every scope any operation of the factory returns is sound: its own snapshot restores to
  exactly that scope, so it satisfies all rules of scopes, work records and actors.
\<close>

lemma emitted_scopes_sound:
  "case factory_apply fa x s of (Inr sc, _) \<Rightarrow> restoreScope (scope_snapshot_of sc) = Inr sc | (Inl _, _) \<Rightarrow> True"
  using factory_apply_sound[of fa x s] unfolding sound_scope_def
  by (auto split: prod.split sum.split)

text \<open>
  C33: the scopes one process opens, in any sequence of factory operations, have pairwise
  different identifiers, whatever its clock reads and its entropy source does.
\<close>

theorem scope_ids_distinct:
  "distinct (map sp_scopeId (fst (factory_run v7w_factory ops
     \<lparr>vw_clock = clk, vw_entropy = ent, vw_calls = 0, vw_gen = v7_new\<rparr>)))"
proof -
  define w where "w = \<lparr>vw_clock = clk, vw_entropy = ent, vw_calls = 0, vw_gen = v7_new\<rparr>"
  obtain scs w' where run: "factory_run v7w_factory ops w = (scs, w')" by fastforce
  have "v7_inv (vw_gen w)" by (simp add: w_def)
  from v7w.run_fresh[OF this run[unfolded v7w_factory_def]] show ?thesis
    using run by (simp add: w_def)
qed

text \<open>Sample identifiers and a sample root.\<close>

definition sid :: "nat \<Rightarrow> id" where
  "sid k = encodeV7 0 k (replicate 8 0)"

lemma sid_valid: "k < 4096 \<Longrightarrow> validID (sid k)"
  by (simp add: sid_def encodeV7_valid)

lemma sid_less: "k < l \<Longrightarrow> l < 4096 \<Longrightarrow> sid k < sid l"
  unfolding sid_def by (rule encodeV7_less) simp_all

lemma sid_neq: "k < 4096 \<Longrightarrow> l < 4096 \<Longrightarrow> sid k = sid l \<longleftrightarrow> k = l"
  using sid_less[of k l] sid_less[of l k] by (cases k l rule: linorder_cases) auto

definition sample_world :: seq_world where
  "sample_world = \<lparr>sw_time = Date 5, sw_seq = seq_new [sid 1, sid 2, sid 3]\<rparr>"

definition sample_factory :: "seq_world factory" where
  "sample_factory = \<lparr>fa_now = seqw_now, fa_newId = seqw_newId\<rparr>"

definition sample_actor :: "actor brand" where
  "sample_actor = Made \<lparr>ac_kind = lit ''service'', ac_identity = Some (lit ''api'')\<rparr>"

definition sample_root :: root_spec where
  "sample_root = \<lparr>rs_workId = None, rs_origin = lit ''startup'', rs_operation = lit ''a.b'',
     rs_attribution = Made \<lparr>at_initiator = None, at_onBehalfOf = None, at_tenant = None\<rparr>,
     rs_executor = sample_actor\<rparr>"

definition sample_step :: step_spec where
  "sample_step = \<lparr>ss_workId = None, ss_operation = lit ''a.c'', ss_executor = sample_actor, ss_cause = None\<rparr>"

text \<open>The scopes the sample factory gives: a root, its child and a second attempt of the root.\<close>

definition sample_scope :: scope where
  "sample_scope = \<lparr>sp_work = \<lparr>wk_workId = Some (sid 1), wk_correlationId = Some (sid 1),
       wk_correlationSource = lit ''local'', wk_causation = None, wk_origin = Some (lit ''startup''),
       wk_operation = lit ''a.b'',
       wk_attribution = Made \<lparr>at_initiator = None, at_onBehalfOf = None, at_tenant = None\<rparr>,
       wk_depth = Some (Whole 0), wk_replay = None\<rparr>,
     sp_scopeId = sid 1, sp_executor = made sample_actor, sp_attempt = 1, sp_previousAttempt = None,
     sp_started = 5\<rparr>"

definition after_open :: seq_world where
  "after_open = sample_world\<lparr>sw_seq := \<lparr>sq_ids = [sid 1, sid 2, sid 3], sq_next = 1\<rparr>\<rparr>"

lemmas scope_checks = emit_def validateWork_def bad_id_def check_causation_def check_depth_def check_replay_def
  restoreScope_def restoreWork_def caused_by_scope_def refers_to_work_def fill_work_def or_id_def
  validOrigin_def origins_def seqw_now_def seqw_newId_def seq_newId_def new_Date_def max_date_def
  normalizedTime_def max_safe_def max_u32_def

lemma sample_operations: "validOperation (lit ''a.b'')" "validOperation (lit ''a.c'')"
  by (simp_all add: validOperation_def matches_def operation_unit_def str_simps)

lemma sample_opens: "factory_open sample_factory sample_root sample_world = (Inr sample_scope, after_open)"
  by (simp add: factory_open_def rootWork_def sample_factory_def sample_root_def sample_world_def
      after_open_def sample_scope_def sample_actor_def scope_checks seq_new_def sid_valid sample_operations)

lemma sample_scope_sound: "sound_scope sample_scope"
  using factory_apply_sound[of sample_factory "Open sample_root" sample_world] sample_opens by simp

lemma sample_child: "\<exists>sc s'. factory_child sample_factory (Made sample_scope) sample_step after_open = (Inr sc, s')
    \<and> sp_scopeId sc = sid 2"
  by (simp add: factory_child_def childWork_def reference_def next_depth_def Let_def sample_factory_def sample_step_def
      sample_world_def after_open_def sample_scope_def sample_actor_def scope_checks sid_valid sid_neq
      sample_operations validReferenceKind_def)

lemma sample_retry: "\<exists>sc s'. factory_retry sample_factory (Made sample_scope) sample_actor after_open = (Inr sc, s')
    \<and> sp_scopeId sc = sid 2"
  by (simp add: factory_retry_def sample_factory_def sample_world_def after_open_def sample_scope_def
      sample_actor_def scope_checks sid_valid sid_neq sample_operations)

text \<open>
  A child scope belongs to its parent's lineage: same correlation, attribution, origin
  and replay, one level deeper when the depth is known, a work item and a scope of its own, a first
  attempt, and caused by the parent's scope unless another cause was given.
\<close>

lemma child_inherits:
  assumes "factory_child fa (Made p) sp s = (Inr sc, s')" "sound_scope p"
  shows "same_lineage (sp_work p) (sp_work sc) \<and> sp_scopeId sc \<noteq> sp_scopeId p
    \<and> wk_workId (sp_work sc) \<noteq> wk_workId (sp_work p) \<and> sp_attempt sc = 1 \<and> sp_previousAttempt sc = None
    \<and> next_depth (wk_depth (sp_work p)) = Some (wk_depth (sp_work sc))
    \<and> (case ss_cause sp of
         None \<Rightarrow> wk_causation (sp_work sc) = Some (Made \<lparr>rf_kind = lit ''scope'', rf_id = sp_scopeId p\<rparr>)
       | Some c \<Rightarrow> True)"
  using factory_child_Inr[OF assms] by (simp add: same_lineage_def split: option.split)

lemma child_inherits_witness:
  "\<exists>sc s'. factory_child sample_factory (Made sample_scope) sample_step after_open = (Inr sc, s')
     \<and> wk_depth (sp_work sc) = Some (Whole 1) \<and> wk_correlationId (sp_work sc) = Some (sid 1)"
proof -
  obtain sc s' where c: "factory_child sample_factory (Made sample_scope) sample_step after_open = (Inr sc, s')"
    using sample_child by blast
  from child_inherits[OF c sample_scope_sound] c show ?thesis
    by (simp add: same_lineage_def sample_scope_def next_depth_def max_u32_def)
qed

text \<open>
  A retry runs the same work: its scope keeps the whole work record, counts one attempt
  more, names the attempt before it, and has an identifier of its own.
\<close>

lemma retry_keeps_work:
  assumes "factory_retry fa (Made p) ex s = (Inr sc, s')" "sound_scope p"
  shows "sp_work sc = sp_work p \<and> sp_attempt sc = sp_attempt p + 1 \<and> sp_attempt sc \<le> max_u32
    \<and> sp_previousAttempt sc = Some (sp_scopeId p) \<and> sp_scopeId sc \<noteq> sp_scopeId p
    \<and> ex = Made (sp_executor sc)"
  using factory_retry_Inr[OF assms] by simp

lemma retry_keeps_work_witness:
  "\<exists>sc s'. factory_retry sample_factory (Made sample_scope) sample_actor after_open = (Inr sc, s')
     \<and> sp_attempt sc = 2 \<and> sp_previousAttempt sc = Some (sid 1)"
proof -
  obtain sc s' where r: "factory_retry sample_factory (Made sample_scope) sample_actor after_open = (Inr sc, s')"
    using sample_retry by blast
  from retry_keeps_work[OF r sample_scope_sound] r show ?thesis by (simp add: sample_scope_def)
qed

text \<open>
  However long a chain of children and retries grows, its last scope is sound, shares the
  first one's lineage, and its depth counts exactly the children of the chain.
\<close>

lemma lineage_depth_counts:
  assumes "lineage fa ds p s = (Inr sc, s')" "sound_scope p" "wk_depth (sp_work p) = Some (Whole n)"
  shows "sound_scope sc \<and> same_lineage (sp_work p) (sp_work sc)
    \<and> wk_depth (sp_work sc) = Some (Whole (n + int (steps_of ds)))"
  using lineage_keeps[OF assms(1,2)] lineage_depth[OF assms] by simp

lemma lineage_depth_counts_witness:
  "\<exists>sc s'. lineage sample_factory [Step sample_step] sample_scope after_open = (Inr sc, s')
     \<and> wk_depth (sp_work sc) = Some (Whole 1)"
proof -
  obtain sc s' where "lineage sample_factory [Step sample_step] sample_scope after_open = (Inr sc, s')"
    using sample_child by auto
  from lineage_depth_counts[OF this sample_scope_sound, of 0] this show ?thesis
    by (simp add: sample_scope_def)
qed

text \<open>
  Hints from outside are never authority: entering with inspected hints, the attribution,
  operation and attempt are the local ones, and the lineage is external exactly when
  the hinted correlation parses; then it is that correlation, without a known origin or depth.
\<close>

lemma entering_hints:
  assumes "factory_enter fa sp (Made (inspectIncoming h)) s = (Inr sc, s')"
  shows "wk_attribution (sp_work sc) = rs_attribution sp \<and> wk_operation (sp_work sc) = rs_operation sp
    \<and> wk_replay (sp_work sc) = None \<and> sp_attempt sc = 1
    \<and> (case map_option (parse \<circ> Str) (ih_correlation h) of
         Some (Inr i) \<Rightarrow> wk_correlationId (sp_work sc) = Some i
           \<and> wk_correlationSource (sp_work sc) = lit ''external''
           \<and> wk_origin (sp_work sc) = None \<and> wk_depth (sp_work sc) = None
       | _ \<Rightarrow> wk_correlationId (sp_work sc) = Some (sp_scopeId sc)
           \<and> wk_correlationSource (sp_work sc) = lit ''local'' \<and> wk_causation (sp_work sc) = None
           \<and> wk_origin (sp_work sc) = Some (rs_origin sp) \<and> wk_depth (sp_work sc) = Some (Whole 0))"
proof (cases "in_decision (inspectIncoming h) = Continued")
  case True
  then obtain c i where "ih_correlation h = Some c" "parse (Str c) = Inr i" "in_correlation (inspectIncoming h) = Some i"
    using inspectIncoming_continued by blast
  then show ?thesis using factory_enter_Inr(1-5)[OF assms] True by (simp add: or_id_def)
next
  case False
  then have "case map_option (parse \<circ> Str) (ih_correlation h) of Some (Inr i) \<Rightarrow> False | _ \<Rightarrow> True"
    by (auto simp: inspectIncoming_def Let_def split: option.splits sum.splits prod.splits)
  then show ?thesis using factory_enter_Inr(1-4,6)[OF assms] False
    by (auto split: option.splits sum.splits)
qed

lemma entering_hints_witness:
  "\<exists>sc s'. factory_enter sample_factory sample_root
      (Made (inspectIncoming \<lparr>ih_correlation = Some (sid 9), ih_causation = None\<rparr>)) sample_world = (Inr sc, s')
     \<and> wk_correlationId (sp_work sc) = Some (sid 9) \<and> wk_correlationSource (sp_work sc) = lit ''external''"
proof -
  have p: "parse (Str (sid 9)) = Inr (sid 9)" by (simp add: parse_validID sid_valid)
  obtain sc s' where e: "factory_enter sample_factory sample_root
      (Made (inspectIncoming \<lparr>ih_correlation = Some (sid 9), ih_causation = None\<rparr>)) sample_world = (Inr sc, s')"
    by (simp add: factory_enter_def inspectIncoming_def p rootWork_def sample_factory_def sample_root_def
        sample_world_def sample_actor_def scope_checks seq_new_def sid_valid sample_operations Let_def)
  from entering_hints[OF e] e show ?thesis by (simp add: p)
qed

end
