(* ===== verification/Envelope.thy ===== *)
theory Envelope
  imports Projection Factory "HOL-Library.Monad_Syntax"
begin

text \<open>
  \<open>src/shared/events/index.ts\<close>: the durable envelope of an event. Everything its codec throws is
  caught by the operation and answered with one failure, so a throwing helper is an option here.
\<close>

section \<open>Reading JSON\<close>

definition env_invalid :: failure where
  "env_invalid = fail Invalid ''invalid event envelope'' ''events.invalid''"

text \<open>\<open>value\<close> under the catch of the codec.\<close>

definition value_of :: "'a result \<Rightarrow> 'a option" where
  "value_of r = (case unwrap r of Inl _ \<Rightarrow> None | Inr x \<Rightarrow> Some x)"

fun object_of :: "json option \<Rightarrow> (str \<times> json) list option" where
  "object_of (Some (JObj ms)) = Some ms"
| "object_of _ = None"

fun str_of :: "json option \<Rightarrow> str option" where
  "str_of (Some (JStr s)) = Some s"
| "str_of _ = None"

definition get :: "(str \<times> json) list \<Rightarrow> string \<Rightarrow> json option" where
  "get ms k = map_of ms (lit k)"

text \<open>\<open>undefined\<close> and \<open>null\<close> are both absent.\<close>

fun nonnull :: "json option \<Rightarrow> json option" where
  "nonnull (Some JNull) = None"
| "nonnull v = v"

definition keys_ok :: "(str \<times> json) list \<Rightarrow> string list \<Rightarrow> bool" where
  "keys_ok ms allowed = list_all (\<lambda>(k, v). k \<in> set (map lit allowed)) ms"

definition require :: "bool \<Rightarrow> unit option" where
  "require b = (if b then Some () else None)"

text \<open>What is read when present; an absent value is read as absent.\<close>

definition optional :: "(json option \<Rightarrow> 'a option) \<Rightarrow> json option \<Rightarrow> 'a option option" where
  "optional f v = (case nonnull v of None \<Rightarrow> Some None | Some x \<Rightarrow> map_option Some (f (Some x)))"

definition idIn :: "json option \<Rightarrow> id option" where
  "idIn v = do { s \<leftarrow> str_of v; value_of (parse (Str s)) }"

definition actorIn :: "json option \<Rightarrow> actor brand option option" where
  "actorIn = optional (\<lambda>v. do {
     a \<leftarrow> object_of v;
     require (keys_ok a [''kind'', ''identity'']);
     kind \<leftarrow> str_of (get a ''kind'');
     identity \<leftarrow> optional str_of (get a ''identity'');
     x \<leftarrow> value_of (actor kind (case identity of None \<Rightarrow> [] | Some i \<Rightarrow> i));
     Some (Made x) })"

definition refIn :: "json option \<Rightarrow> reference brand option option" where
  "refIn = optional (\<lambda>v. do {
     r \<leftarrow> object_of v;
     require (keys_ok r [''kind'', ''id'']);
     kind \<leftarrow> str_of (get r ''kind'');
     i \<leftarrow> idIn (get r ''id'');
     x \<leftarrow> value_of (reference kind i);
     Some (Made x) })"

definition attributionIn :: "(str \<times> json) list \<Rightarrow> attribution option" where
  "attributionIn a = do {
     initiator \<leftarrow> actorIn (get a ''initiator'');
     behalf \<leftarrow> actorIn (get a ''on_behalf_of'');
     tenant \<leftarrow> optional str_of (get a ''tenant'');
     value_of (attribution \<lparr>as_initiator = initiator, as_onBehalfOf = behalf, as_tenant = tenant\<rparr>) }"

text \<open>A replay whose source is missing is refused by the validation, like a forged one.\<close>

definition replayIn :: "(str \<times> json) list \<Rightarrow> (id option \<times> reference brand) option" where
  "replayIn r = do {
     run \<leftarrow> idIn (get r ''run_id'');
     src \<leftarrow> refIn (get r ''source'');
     Some (Some run, case src of None \<Rightarrow> Forged | Some s \<Rightarrow> s) }"

text \<open>The depth is not looked at here: what is no number fails the validation, like \<open>NaN\<close>.\<close>

definition depthIn :: "json option \<Rightarrow> number option" where
  "depthIn v = (case nonnull v of None \<Rightarrow> None | Some (JNum d) \<Rightarrow> Some (dbl_number d) | Some _ \<Rightarrow> Some NaN)"

definition work_keys :: "string list" where
  "work_keys = [''work_id'', ''correlation_id'', ''correlation_source'', ''operation'', ''attribution'',
     ''causation'', ''origin'', ''depth'', ''replay'']"

definition workIn :: "json option \<Rightarrow> work option" where
  "workIn v = do {
     w \<leftarrow> object_of v;
     a \<leftarrow> object_of (get w ''attribution'');
     replay \<leftarrow> optional object_of (get w ''replay'');
     require (keys_ok w work_keys);
     require (keys_ok a [''initiator'', ''on_behalf_of'', ''tenant'']);
     require (case replay of None \<Rightarrow> True | Some r \<Rightarrow> keys_ok r [''run_id'', ''source'']);
     workId \<leftarrow> idIn (get w ''work_id'');
     correlationId \<leftarrow> idIn (get w ''correlation_id'');
     source \<leftarrow> str_of (get w ''correlation_source'');
     opn \<leftarrow> str_of (get w ''operation'');
     operation \<leftarrow> value_of (operation opn);
     attribution \<leftarrow> attributionIn a;
     causation \<leftarrow> refIn (get w ''causation'');
     origin \<leftarrow> optional str_of (get w ''origin'');
     rp \<leftarrow> (case replay of None \<Rightarrow> Some None | Some r \<Rightarrow> map_option Some (replayIn r));
     value_of (restoreWork \<lparr>wk_workId = Some workId, wk_correlationId = Some correlationId,
       wk_correlationSource = source, wk_causation = causation, wk_origin = origin, wk_operation = operation,
       wk_attribution = Made attribution, wk_depth = depthIn (get w ''depth''), wk_replay = rp\<rparr>) }"

section \<open>Writing JSON\<close>

definition attributionOut :: "attribution \<Rightarrow> json" where
  "attributionOut a = jobject
     [(lit ''initiator'', map_option actor_json (at_initiator a)),
      (lit ''on_behalf_of'', map_option actor_json (at_onBehalfOf a)),
      (lit ''tenant'', map_option JStr (at_tenant a))]"

definition replayOut :: "id option \<times> reference brand \<Rightarrow> json" where
  "replayOut r = (case r of (run, src) \<Rightarrow> jobject
     [(lit ''run_id'', map_option JStr run), (lit ''source'', Some (reference_json src))])"

definition workOut :: "work \<Rightarrow> json" where
  "workOut w = jobject
     [(lit ''work_id'', map_option JStr (wk_workId w)),
      (lit ''correlation_id'', map_option JStr (wk_correlationId w)),
      (lit ''correlation_source'', Some (JStr (wk_correlationSource w))),
      (lit ''operation'', Some (JStr (wk_operation w))),
      (lit ''attribution'', Some (attributionOut (made (wk_attribution w)))),
      (lit ''causation'', map_option reference_json (wk_causation w)),
      (lit ''origin'', map_option JStr (wk_origin w)),
      (lit ''depth'', Option.bind (wk_depth w) depth_json),
      (lit ''replay'', map_option replayOut (wk_replay w))]"

section \<open>Envelopes\<close>

record envelope =
  en_id :: id
  en_raw :: "byte list"
  en_work :: work

text \<open>\<open>/^[a-z0-9_.-]{1,120}\.v[1-9][0-9]{0,5}$/\<close>: the digits at the end, the mark before them, the name.\<close>

definition type_unit :: "cu \<Rightarrow> bool" where
  "type_unit c \<longleftrightarrow> is_lower c \<or> is_digit c \<or> c \<in> set (lit ''_.-'')"

definition type_version :: "str \<Rightarrow> bool" where
  "type_version s \<longleftrightarrow> (case s of [] \<Rightarrow> False | c # ds \<Rightarrow> is_digit c \<and> c \<noteq> 48 \<and> matches is_digit 0 5 ds)"

definition event_type :: "str \<Rightarrow> bool" where
  "event_type s = (case dropWhile is_digit (rev s) of
     v # dot # name \<Rightarrow> v = 118 \<and> dot = 46 \<and> matches type_unit 1 120 (rev name)
       \<and> type_version (rev (takeWhile is_digit (rev s)))
   | _ \<Rightarrow> False)"

definition envelope_keys :: "string list" where
  "envelope_keys = [''v'', ''id'', ''type'', ''occurred_at_ms'', ''work'', ''payload'']"

definition header_ok :: "(str \<times> json) list \<Rightarrow> bool" where
  "header_ok w \<longleftrightarrow> length w = 6 \<and> list_all (\<lambda>k. obj_has w (lit k)) envelope_keys
     \<and> (case get w ''v'' of Some (JNum d) \<Rightarrow> dbl_number d = Whole 1 | _ \<Rightarrow> False)
     \<and> (case get w ''type'' of Some (JStr t) \<Rightarrow> length t \<le> 128 \<and> event_type t | _ \<Rightarrow> False)
     \<and> (case get w ''occurred_at_ms'' of
          Some (JNum d) \<Rightarrow> is_safe_integer (dbl_number d) \<and> \<not> num_lt (dbl_number d) 0
            \<and> \<not> num_gt (dbl_number d) 253402300799999
        | _ \<Rightarrow> False)"

definition normalized_json :: "(str \<times> json) list \<Rightarrow> id \<Rightarrow> work \<Rightarrow> json" where
  "normalized_json w i wk = JObj (spread w [(lit ''id'', JStr i), (lit ''work'', workOut wk)])"

definition env_read :: "(str \<times> json) list \<Rightarrow> envelope option" where
  "env_read w = do {
     require (header_ok w);
     object_of (get w ''payload'');
     i \<leftarrow> idIn (get w ''id'');
     wk \<leftarrow> workIn (get w ''work'');
     let normalized = utf8_encode (stringify (normalized_json w i wk));
     require (length normalized \<le> 65536);
     Some \<lparr>en_id = i, en_raw = normalized, en_work = wk\<rparr> }"

definition env_decode :: "byte list \<Rightarrow> envelope result" where
  "env_decode raw =
     (if 65536 < length raw then Inl env_invalid
      else case do { s \<leftarrow> utf8_decode raw; v \<leftarrow> json_parse s; w \<leftarrow> object_of (Some v); env_read w } of
        None \<Rightarrow> Inl env_invalid | Some e \<Rightarrow> Inr e)"

definition event_members :: "str \<Rightarrow> str \<Rightarrow> dbl \<Rightarrow> work \<Rightarrow> json \<Rightarrow> (str \<times> json) list" where
  "event_members i t occurredAtMs w payload =
     [(lit ''v'', jint 1), (lit ''id'', JStr i), (lit ''type'', JStr t), (lit ''occurred_at_ms'', JNum occurredAtMs),
      (lit ''work'', workOut w), (lit ''payload'', payload)]"

definition env_create :: "str \<Rightarrow> str \<Rightarrow> dbl \<Rightarrow> work brand \<Rightarrow> json \<Rightarrow> envelope result" where
  "env_create i t occurredAtMs wk payload = (case wk of Forged \<Rightarrow> Inl env_invalid
     | Made w \<Rightarrow> env_decode (utf8_encode (stringify (JObj (event_members i t occurredAtMs w payload)))))"

definition env_bytes :: "envelope \<Rightarrow> byte list" where
  "env_bytes e = en_raw e"

section \<open>What the constructors made\<close>

definition genuine_actor :: "actor \<Rightarrow> bool" where
  "genuine_actor a \<longleftrightarrow> actor (ac_kind a) (case ac_identity a of None \<Rightarrow> [] | Some i \<Rightarrow> i) = Inr a"

definition genuine_reference :: "reference brand \<Rightarrow> bool" where
  "genuine_reference r \<longleftrightarrow> (case r of Made x \<Rightarrow> reference (rf_kind x) (rf_id x) = Inr x | Forged \<Rightarrow> False)"

definition genuine_attribution :: "attribution \<Rightarrow> bool" where
  "genuine_attribution a \<longleftrightarrow> attribution \<lparr>as_initiator = map_option Made (at_initiator a),
       as_onBehalfOf = map_option Made (at_onBehalfOf a), as_tenant = at_tenant a\<rparr> = Inr a
     \<and> pred_option genuine_actor (at_initiator a) \<and> pred_option genuine_actor (at_onBehalfOf a)"

definition genuine_work :: "work \<Rightarrow> bool" where
  "genuine_work w \<longleftrightarrow> restoreWork w = Inr w
     \<and> (case wk_attribution w of Made a \<Rightarrow> genuine_attribution a | Forged \<Rightarrow> False)
     \<and> pred_option genuine_reference (wk_causation w)
     \<and> pred_option (genuine_reference \<circ> snd) (wk_replay w)"

lemma value_of_Some [simp]: "value_of r = Some x \<longleftrightarrow> r = Inr x"
  by (auto simp: value_of_def unwrap_def split: sum.split)

lemma value_of_Inr [simp]: "value_of (Inr x) = Some x"
  by simp

lemma actor_genuine: "actor k i = Inr a \<Longrightarrow> genuine_actor a"
  by (auto simp: actor_def genuine_actor_def split: if_splits)

lemma reference_genuine: "reference k i = Inr r \<Longrightarrow> genuine_reference (Made r)"
  by (auto simp: reference_def genuine_reference_def split: if_splits)

lemma attribution_made:
  "attribution s = Inr a \<Longrightarrow> at_initiator a = map_option made (as_initiator s)
     \<and> at_onBehalfOf a = map_option made (as_onBehalfOf s) \<and> at_tenant a = as_tenant s"
  by (auto simp: attribution_def split: if_splits)

section \<open>The round trip of work\<close>

lemma get_present: "plain_keys ms \<Longrightarrow> get (present ms) k = Option.bind (map_of ms (lit k)) (\<lambda>v. v)"
  by (simp add: get_def map_of_present)

lemma keys_ok_present: "list_all (\<lambda>k. k \<in> set (map lit allowed)) (map fst ms) \<Longrightarrow> keys_ok (present ms) allowed"
  using present_keys[of ms] by (force simp: keys_ok_def list_all_iff)

lemma require_True [simp]: "require True = Some ()" "require False = None"
  by (simp_all add: require_def)

lemma optional_simps [simp]:
  "optional f None = Some None" "optional f (Some JNull) = Some None"
  "j \<noteq> JNull \<Longrightarrow> optional f (Some j) = map_option Some (f (Some j))"
  by (cases j; simp add: optional_def)+

lemma jobject_not_null [simp]: "plain_keys ms \<Longrightarrow> jobject ms \<noteq> JNull"
  by (simp add: jobject_plain)

lemma idIn_valid: "validID i \<Longrightarrow> idIn (Some (JStr i)) = Some i"
  by (simp add: idIn_def parse_validID)

lemma plain_actor: "plain_keys [(lit ''kind'', a), (lit ''identity'', b)]"
  by (rule plain_keys_lit[of "[''kind'', ''identity'']"]) (simp_all add: str_simps)

lemma plain_reference: "plain_keys [(lit ''kind'', a), (lit ''id'', b)]"
  by (rule plain_keys_lit[of "[''kind'', ''id'']"]) (simp_all add: str_simps)

lemma plain_attribution: "plain_keys [(lit ''initiator'', a), (lit ''on_behalf_of'', b), (lit ''tenant'', c)]"
  by (rule plain_keys_lit[of "[''initiator'', ''on_behalf_of'', ''tenant'']"]) (simp_all add: str_simps)

lemma plain_replay: "plain_keys [(lit ''run_id'', a), (lit ''source'', b)]"
  by (rule plain_keys_lit[of "[''run_id'', ''source'']"]) (simp_all add: str_simps)

lemma plain_work: "plain_keys [(lit ''work_id'', a), (lit ''correlation_id'', b), (lit ''correlation_source'', c),
    (lit ''operation'', d), (lit ''attribution'', e), (lit ''causation'', f), (lit ''origin'', g),
    (lit ''depth'', h), (lit ''replay'', i)]"
  by (rule plain_keys_lit[of "[''work_id'', ''correlation_id'', ''correlation_source'', ''operation'',
      ''attribution'', ''causation'', ''origin'', ''depth'', ''replay'']"]) (simp_all add: str_simps)

lemmas plain_objects = plain_actor plain_reference plain_attribution plain_replay plain_work

lemma actor_round:
  assumes "genuine_actor a" shows "actorIn (Some (actor_json a)) = Some (Some (Made a))"
  using assms
  by (cases "ac_identity a")
    (simp_all add: actorIn_def actor_json_def jobject_plain plain_actor get_present keys_ok_present genuine_actor_def
      del: present_simps)

lemma reference_round:
  assumes "genuine_reference r" shows "refIn (Some (reference_json r)) = Some (Some r)"
proof (cases r)
  case (Made x)
  then have "validID (rf_id x)" using assms by (auto simp: genuine_reference_def reference_def split: if_splits)
  then show ?thesis
    using assms Made
    by (simp add: refIn_def reference_json_def jobject_plain plain_reference get_present keys_ok_present
        genuine_reference_def idIn_valid del: present_simps)
qed (use assms in \<open>simp add: genuine_reference_def\<close>)

lemma actor_json_not_null [simp]: "actor_json a \<noteq> JNull" "reference_json r \<noteq> JNull"
  by (simp_all add: actor_json_def reference_json_def plain_objects)

lemma attribution_round:
  assumes "genuine_attribution a"
  shows "Option.bind (object_of (Some (attributionOut a))) attributionIn = Some a"
proof -
  have i: "actorIn (map_option actor_json x) = Some (map_option Made x)" if "pred_option genuine_actor x" for x
    using that by (cases x) (simp_all add: actor_round, simp add: actorIn_def)
  have t: "optional str_of (map_option JStr x) = Some x" for x
    by (cases x) simp_all
  show ?thesis
    using assms
    by (simp add: attributionOut_def jobject_plain plain_attribution attributionIn_def get_present
        genuine_attribution_def i t map_option_case[symmetric] del: present_simps)
qed

lemma validateWork_parts:
  assumes "validateWork w False = None"
  shows "validOperation (wk_operation w)" "check_depth w = None"
    "pred_option (\<lambda>(run, src). validReference src \<and> (\<exists>i. run = Some i \<and> validID i)) (wk_replay w)"
  using assms
  by (auto simp: validateWork_def first_failure_None check_replay_def bad_id_def
      split: if_splits option.splits prod.splits)

lemma depth_round:
  assumes "validateWork w False = None"
  shows "depthIn (Option.bind (wk_depth w) depth_json) = wk_depth w"
proof (cases "wk_depth w")
  case (Some d)
  then have "is_integer d" using validateWork_parts(2)[OF assms] by (auto simp: check_depth_def split: if_splits)
  then obtain i where "d = Whole i" by (elim is_integerE)
  then show ?thesis using Some by (simp add: depth_json_def depthIn_def jint_def dbl_number_int)
qed (simp add: depthIn_def)

lemma attribution_object:
  assumes "genuine_attribution a"
  obtains ms where "attributionOut a = JObj ms" "keys_ok ms [''initiator'', ''on_behalf_of'', ''tenant'']"
    "attributionIn ms = Some a"
proof -
  define ms where "ms = present [(lit ''initiator'', map_option actor_json (at_initiator a)),
    (lit ''on_behalf_of'', map_option actor_json (at_onBehalfOf a)), (lit ''tenant'', map_option JStr (at_tenant a))]"
  have o: "attributionOut a = JObj ms"
    by (simp add: attributionOut_def ms_def jobject_plain plain_attribution del: present_simps)
  moreover have "keys_ok ms [''initiator'', ''on_behalf_of'', ''tenant'']"
    unfolding ms_def by (rule keys_ok_present) simp
  moreover have "attributionIn ms = Some a" using attribution_round[OF assms] o by simp
  ultimately show ?thesis using that by blast
qed

lemma replay_object:
  assumes "genuine_reference src" "validID run"
  obtains ms where "replayOut (Some run, src) = JObj ms" "keys_ok ms [''run_id'', ''source'']"
    "replayIn ms = Some (Some run, src)"
proof -
  define ms where "ms = present [(lit ''run_id'', Some (JStr run)), (lit ''source'', Some (reference_json src))]"
  have "replayOut (Some run, src) = JObj ms"
    by (simp add: replayOut_def ms_def jobject_plain plain_replay del: present_simps)
  moreover have "keys_ok ms [''run_id'', ''source'']"
    unfolding ms_def by (rule keys_ok_present) simp
  moreover have "replayIn ms = Some (Some run, src)"
    using assms by (simp add: ms_def replayIn_def get_present plain_replay idIn_valid reference_round del: present_simps)
  ultimately show ?thesis using that by blast
qed

lemma refIn_option: "pred_option genuine_reference r \<Longrightarrow> refIn (map_option reference_json r) = Some r"
  by (cases r) (simp_all add: reference_round, simp add: refIn_def)

lemma optional_str [simp]: "optional str_of (map_option JStr x) = Some x"
  by (cases x) simp_all

lemma work_round:
  assumes "genuine_work w" shows "workIn (Some (workOut w)) = Some w"
proof -
  have v: "validateWork w False = None" and c: "pred_option genuine_reference (wk_causation w)"
    using assms by (simp_all add: genuine_work_def)
  obtain a where a: "wk_attribution w = Made a" "genuine_attribution a"
    using assms by (cases "wk_attribution w") (auto simp: genuine_work_def)
  obtain ams where ams: "attributionOut a = JObj ams" "keys_ok ams [''initiator'', ''on_behalf_of'', ''tenant'']"
    "attributionIn ams = Some a" using attribution_object[OF a(2)] .
  obtain i j where ij: "wk_workId w = Some i" "wk_correlationId w = Some j" "validID i" "validID j"
    using validateWork_ids[OF v] by blast
  have op: "value_of (operation (wk_operation w)) = Some (wk_operation w)"
    using validateWork_parts(1)[OF v] by (simp add: operation_def)
  define rp where "rp = map_option replayOut (wk_replay w)"
  have "\<exists>r. optional object_of rp = Some r \<and> (case r of None \<Rightarrow> True | Some m \<Rightarrow> keys_ok m [''run_id'', ''source''])
      \<and> (case r of None \<Rightarrow> Some None | Some m \<Rightarrow> map_option Some (replayIn m)) = Some (wk_replay w)"
  proof (cases "wk_replay w")
    case (Some x)
    obtain run src where x: "x = (run, src)" by (cases x)
    have "\<exists>i. run = Some i \<and> validID i" "genuine_reference src"
      using validateWork_parts(3)[OF v] assms Some x by (auto simp: genuine_work_def)
    then obtain k where k: "run = Some k" "validID k" "genuine_reference src" by blast
    obtain ms where "replayOut (Some k, src) = JObj ms" "keys_ok ms [''run_id'', ''source'']"
      "replayIn ms = Some (Some k, src)" using replay_object[OF k(3,2)] .
    then show ?thesis using Some x k by (intro exI[of _ "Some ms"]) (simp add: rp_def)
  qed (simp add: rp_def)
  then obtain r where r: "optional object_of rp = Some r"
    "(case r of None \<Rightarrow> True | Some m \<Rightarrow> keys_ok m [''run_id'', ''source''])"
    "(case r of None \<Rightarrow> Some None | Some m \<Rightarrow> map_option Some (replayIn m)) = Some (wk_replay w)" by blast
  define ms where "ms = [(lit ''work_id'', map_option JStr (wk_workId w)),
      (lit ''correlation_id'', map_option JStr (wk_correlationId w)),
      (lit ''correlation_source'', Some (JStr (wk_correlationSource w))),
      (lit ''operation'', Some (JStr (wk_operation w))),
      (lit ''attribution'', Some (attributionOut (made (wk_attribution w)))),
      (lit ''causation'', map_option reference_json (wk_causation w)),
      (lit ''origin'', map_option JStr (wk_origin w)),
      (lit ''depth'', Option.bind (wk_depth w) depth_json), (lit ''replay'', rp)]"
  have pl: "plain_keys ms" unfolding ms_def by (rule plain_work)
  have o: "workOut w = JObj (present ms)"
    unfolding workOut_def by (subst jobject_plain[OF plain_work]) (simp add: ms_def rp_def del: present_simps)
  have k: "keys_ok (present ms) work_keys" unfolding ms_def work_keys_def by (rule keys_ok_present) simp
  have g: "get (present ms) s = Option.bind (map_of ms (lit s)) (\<lambda>v. v)" for s by (rule get_present[OF pl])
  have w: "restoreWork \<lparr>wk_workId = Some i, wk_correlationId = Some j,
       wk_correlationSource = wk_correlationSource w, wk_causation = wk_causation w, wk_origin = wk_origin w,
       wk_operation = wk_operation w, wk_attribution = Made a, wk_depth = wk_depth w, wk_replay = wk_replay w\<rparr> = Inr w"
  proof -
    have e: "\<lparr>wk_workId = Some i, wk_correlationId = Some j, wk_correlationSource = wk_correlationSource w,
       wk_causation = wk_causation w, wk_origin = wk_origin w, wk_operation = wk_operation w,
       wk_attribution = Made a, wk_depth = wk_depth w, wk_replay = wk_replay w\<rparr> = w"
      using ij(1,2) a(1) by (cases w) simp
    show ?thesis unfolding e using v by simp
  qed
  have gs: "get (present ms) ''work_id'' = Some (JStr i)" "get (present ms) ''correlation_id'' = Some (JStr j)"
    "get (present ms) ''correlation_source'' = Some (JStr (wk_correlationSource w))"
    "get (present ms) ''operation'' = Some (JStr (wk_operation w))"
    "get (present ms) ''attribution'' = Some (JObj ams)"
    "get (present ms) ''causation'' = map_option reference_json (wk_causation w)"
    "get (present ms) ''origin'' = map_option JStr (wk_origin w)"
    "get (present ms) ''depth'' = Option.bind (wk_depth w) depth_json" "get (present ms) ''replay'' = rp"
    unfolding g by (simp_all add: ms_def ij a ams map_option_case split: option.split)
  show ?thesis
    unfolding workIn_def o
    by (simp add: k gs ams op r c idIn_valid ij depth_round[OF v] refIn_option w del: restoreWork_Inr)
qed

section \<open>What is read is genuine\<close>

lemma optional_Some:
  "optional f v = Some r \<Longrightarrow> (case r of None \<Rightarrow> True | Some x \<Rightarrow> \<exists>u. f u = Some x)"
  by (auto simp: optional_def split: option.splits)

lemma actorIn_genuine: "actorIn v = Some r \<Longrightarrow> pred_option (\<lambda>a. \<exists>x. a = Made x \<and> genuine_actor x) r"
  unfolding actorIn_def
  by (drule optional_Some) (auto simp: Option.bind_eq_Some_conv actor_genuine split: option.splits)

lemma refIn_genuine: "refIn v = Some r \<Longrightarrow> pred_option genuine_reference r"
  unfolding refIn_def
  by (drule optional_Some) (auto simp: Option.bind_eq_Some_conv reference_genuine split: option.splits)

lemma attributionIn_genuine:
  assumes "attributionIn ms = Some a" shows "genuine_attribution a"
proof -
  obtain x y t where x: "actorIn (get ms ''initiator'') = Some x" and y: "actorIn (get ms ''on_behalf_of'') = Some y"
    and a: "attribution \<lparr>as_initiator = x, as_onBehalfOf = y, as_tenant = t\<rparr> = Inr a"
    using assms by (auto simp: attributionIn_def Option.bind_eq_Some_conv)
  have m: "map_option Made (map_option made z) = z \<and> pred_option genuine_actor (map_option made z)"
    if "pred_option (\<lambda>a. \<exists>x. a = Made x \<and> genuine_actor x) z" for z
    using that by (cases z) auto
  show ?thesis
    using attribution_made[OF a] a m[OF actorIn_genuine[OF x]] m[OF actorIn_genuine[OF y]]
    by (simp add: genuine_attribution_def)
qed

lemma replayIn_genuine:
  assumes "replayIn ms = Some r" "validateWork w False = None" "wk_replay w = Some r"
  shows "genuine_reference (snd r)"
proof -
  obtain run src where r: "refIn (get ms ''source'') = Some src"
    "r = (Some run, case src of None \<Rightarrow> Forged | Some s \<Rightarrow> s)"
    using assms(1) by (auto simp: replayIn_def Option.bind_eq_Some_conv)
  then show ?thesis
    using validateWork_parts(3)[OF assms(2)] assms(3) refIn_genuine[OF r(1)] by (cases src) auto
qed

lemma workIn_genuine: "workIn v = Some w \<Longrightarrow> genuine_work w"
  unfolding workIn_def
  by (auto simp: Option.bind_eq_Some_conv genuine_work_def attributionIn_genuine refIn_genuine
      split: option.splits dest!: replayIn_genuine)

section \<open>Normalization\<close>

lemma six_keys: "distinct (map lit envelope_keys)" "list_all (\<lambda>s. s \<noteq> [] \<and> \<not> is_digit (cu_of (hd s))) envelope_keys"
  by (simp_all add: envelope_keys_def str_simps)

lemma header_plain:
  assumes "header_ok w" "distinct (map fst w)" shows "plain_keys w"
proof -
  have sub: "set (map lit envelope_keys) \<subseteq> set (map fst w)"
    using assms(1) by (auto simp: header_ok_def list_all_iff obj_has_def keys_of_def)
  have "card (set (map lit envelope_keys)) = 6" "card (set (map fst w)) = 6"
    using six_keys(1) assms distinct_card[of "map lit envelope_keys"] distinct_card[of "map fst w"]
    by (simp_all add: header_ok_def envelope_keys_def)
  then have "set (map fst w) = set (map lit envelope_keys)"
    using sub card_subset_eq[OF _ sub] by simp
  moreover have "list_all (\<lambda>k. \<not> index_key k) (map lit envelope_keys)"
    using six_keys(2) by (simp add: list_all_iff not_index_lit)
  ultimately show ?thesis using assms(2) unfolding plain_keys_def list_all_iff by blast
qed

lemma spread_keys: "set (map fst b) \<subseteq> set (map fst a) \<Longrightarrow> map fst (spread a b) = map fst a"
  unfolding spread_def
proof (induction b arbitrary: a)
  case (Cons x b)
  have u: "map fst (AList.update (fst x) (snd x) a) = map fst a" using Cons.prems by (simp add: update_keys)
  then have "set (map fst b) \<subseteq> set (map fst (AList.update (fst x) (snd x) a))"
    using Cons.prems by (simp only: u) simp
  from Cons.IH[OF this] u show ?case by (simp add: case_prod_unfold)
qed simp

definition normalized :: "(str \<times> json) list \<Rightarrow> id \<Rightarrow> work \<Rightarrow> (str \<times> json) list" where
  "normalized w i wk = spread w [(lit ''id'', JStr i), (lit ''work'', workOut wk)]"

lemma normalized_keys:
  assumes "header_ok w" shows "map fst (normalized w i wk) = map fst w"
  unfolding normalized_def
  using assms by (intro spread_keys) (auto simp: header_ok_def obj_has_def keys_of_def envelope_keys_def)

lemma normalized_get:
  "get (normalized w i wk) k = (if k = ''work'' then Some (workOut wk) else if k = ''id'' then Some (JStr i) else get w k)"
  by (simp add: get_def normalized_def map_of_spread)

lemma normalized_header:
  assumes "header_ok w" shows "header_ok (normalized w i wk)"
proof -
  have "length (normalized w i wk) = length w" using arg_cong[OF normalized_keys[OF assms], of length] by simp
  then show ?thesis
    using assms unfolding header_ok_def normalized_get obj_has_def keys_of_def normalized_keys[OF assms] by simp
qed

lemma spread_fix: "list_all (\<lambda>(k, v). map_of a k = Some v) b \<Longrightarrow> spread a b = a"
  unfolding spread_def by (induction b) (auto simp: update_triv)

lemma normalized_idem: "normalized (normalized w i wk) i wk = normalized w i wk"
  by (subst (1) normalized_def, rule spread_fix)
    (use normalized_get[of w i wk] in \<open>simp add: get_def\<close>)

lemma env_read_Some:
  "env_read w = Some e \<longleftrightarrow> header_ok w \<and> (\<exists>p. get w ''payload'' = Some (JObj p))
     \<and> (\<exists>i wk. idIn (get w ''id'') = Some i \<and> workIn (get w ''work'') = Some wk
       \<and> length (utf8_encode (stringify (JObj (normalized w i wk)))) \<le> 65536
       \<and> e = \<lparr>en_id = i, en_raw = utf8_encode (stringify (JObj (normalized w i wk))), en_work = wk\<rparr>)"
proof -
  have o: "object_of v = Some p \<longleftrightarrow> v = Some (JObj p)" for v p
    by (induction v rule: object_of.induct) auto
  show ?thesis
    by (auto simp: env_read_def Option.bind_eq_Some_conv require_def normalized_json_def normalized_def[symmetric] o
        Let_def)
qed

lemma idIn_valid_Some: "idIn v = Some i \<Longrightarrow> validID i"
  by (auto simp: idIn_def Option.bind_eq_Some_conv parse_valid)

lemma read_normalized:
  assumes "env_read w = Some e"
  shows "env_read (normalized w (en_id e) (en_work e)) = Some e"
proof -
  obtain i wk where e: "header_ok w" "\<exists>p. get w ''payload'' = Some (JObj p)" "idIn (get w ''id'') = Some i"
    "workIn (get w ''work'') = Some wk" "length (utf8_encode (stringify (JObj (normalized w i wk)))) \<le> 65536"
    "e = \<lparr>en_id = i, en_raw = utf8_encode (stringify (JObj (normalized w i wk))), en_work = wk\<rparr>"
    using assms unfolding env_read_Some by blast
  then show ?thesis
    by (simp add: env_read_Some normalized_header normalized_get idIn_valid[OF idIn_valid_Some[OF e(3)]]
        work_round[OF workIn_genuine[OF e(4)]] normalized_idem)
qed

section \<open>Well-formed output\<close>

lemma wf_actor: "wf_json (actor_json a)" and wf_reference: "wf_json (reference_json r)"
  unfolding actor_json_def reference_json_def
  by (intro wf_jobject plain_objects; auto split: option.split)+

lemma wf_replay: "wf_json (replayOut r)"
  unfolding replayOut_def case_prod_unfold
  by (intro wf_jobject plain_objects) (auto split: option.split simp: wf_reference)

lemma wf_attribution: "wf_json (attributionOut a)"
  unfolding attributionOut_def by (intro wf_jobject plain_objects) (auto split: option.split simp: wf_actor)

lemma wf_depth:
  assumes "validateWork w False = None" "wk_depth w = Some d" "depth_json d = Some j"
  shows "wf_json j"
proof -
  have "is_integer d" "\<not> num_lt d 0" "\<not> num_gt d max_u32"
    using validateWork_parts(2)[OF assms(1)] assms(2) by (auto simp: check_depth_def split: if_splits)
  then obtain i where "d = Whole i" "0 \<le> i" "i \<le> max_u32" by (auto elim: is_integerE)
  then show ?thesis using assms(3) by (auto simp: depth_json_def max_u32_def max_safe_def intro!: wf_int)
qed

lemma wf_workOut: "genuine_work w \<Longrightarrow> wf_json (workOut w)"
  unfolding workOut_def
  by (intro wf_jobject plain_objects)
    (auto split: option.split simp: wf_attribution wf_reference wf_replay genuine_work_def Option.bind_eq_Some_conv
      dest: wf_depth)

lemma wf_members: "plain_keys ms \<Longrightarrow> list_all (\<lambda>(k, v). wf_json v) ms \<Longrightarrow> wf_json (JObj ms)"
  by (simp add: own_order_plain) (simp add: plain_keys_def)

lemma wf_normalized:
  assumes "header_ok w" "wf_json (JObj w)" "genuine_work wk"
  shows "wf_json (JObj (normalized w i wk))"
proof (rule wf_members)
  have "distinct (map fst (normalized w i wk))"
    using assms by (simp add: normalized_keys del: list.set_map)
  then show "plain_keys (normalized w i wk)" by (rule header_plain[OF normalized_header[OF assms(1)]])
  show "list_all (\<lambda>(k, v). wf_json v) (normalized w i wk)"
    using assms wf_workOut[OF assms(3)] unfolding normalized_def
    by (auto simp: list_all_iff dest!: spread_values)
qed

lemma decode_printed:
  assumes "wf_json (JObj w)"
  shows "env_decode (utf8_encode (stringify (JObj w))) =
    (if 65536 < length (utf8_encode (stringify (JObj w))) then Inl env_invalid
     else case env_read w of None \<Rightarrow> Inl env_invalid | Some e \<Rightarrow> Inr e)"
  by (simp add: env_decode_def json_bytes json_round_trip[OF assms] del: stringify.simps)

lemma decode_Inr:
  "env_decode raw = Inr e \<longleftrightarrow> length raw \<le> 65536
     \<and> (\<exists>s w. utf8_decode raw = Some s \<and> json_parse s = Some (JObj w) \<and> env_read w = Some e)"
proof -
  have "object_of (Some v) = Some w \<longleftrightarrow> v = JObj w" for v w by (cases v) auto
  then show ?thesis
    by (auto simp: env_decode_def Option.bind_eq_Some_conv split: option.splits)
qed

section \<open>Properties\<close>

text \<open>
  C27: what decoding yields is normalized. Every decoded envelope has a valid identifier, a validated work context
  and at most 65536 bytes, whatever its payload holds. Its bytes are the printed normal form: when the numbers of the
  document are safe integers, as those of the codec's own members are, they decode to the very same envelope.
\<close>

theorem decode_normalizes:
  assumes "env_decode raw = Inr e"
  shows "validID (en_id e) \<and> restoreWork (en_work e) = Inr (en_work e) \<and> length (env_bytes e) \<le> 65536
    \<and> (\<forall>s v. utf8_decode raw = Some s \<and> json_parse s = Some v \<and> safe_numbers v \<longrightarrow> env_decode (env_bytes e) = Inr e)"
proof -
  obtain s v w where w: "utf8_decode raw = Some s" "json_parse s = Some v" "v = JObj w" "env_read w = Some e"
    using assms by (auto simp: decode_Inr)
  obtain i wk where e: "header_ok w" "idIn (get w ''id'') = Some i" "workIn (get w ''work'') = Some wk"
    "length (utf8_encode (stringify (JObj (normalized w i wk)))) \<le> 65536"
    "e = \<lparr>en_id = i, en_raw = utf8_encode (stringify (JObj (normalized w i wk))), en_work = wk\<rparr>"
    using w(4) unfolding env_read_Some by blast
  have "env_decode (env_bytes e) = Inr e" if "safe_numbers v"
  proof -
    have "wf_json (JObj w)" using json_parse_ordered[OF w(2)] that w(3) by (simp add: wf_json_iff)
    then have "wf_json (JObj (normalized w i wk))" by (rule wf_normalized[OF e(1) _ workIn_genuine[OF e(3)]])
    from decode_printed[OF this] show ?thesis
      using e(4,5) read_normalized[OF w(4)] by (simp add: env_bytes_def del: stringify.simps)
  qed
  then show ?thesis
    using e idIn_valid_Some[OF e(2)] workIn_genuine[OF e(3)] w(1,2)
    by (simp add: env_bytes_def genuine_work_def del: stringify.simps)
qed

lemma plain_event: "plain_keys (event_members i t d w p)"
  unfolding event_members_def
  by (rule plain_keys_lit[of "[''v'', ''id'', ''type'', ''occurred_at_ms'', ''work'', ''payload'']"])
    (simp_all add: str_simps)

lemma matches_length: "matches P lo hi s \<Longrightarrow> length s \<le> hi"
  by (simp add: matches_def)

lemma event_type_length: assumes "event_type t" shows "length t \<le> 128"
proof -
  have "length t = length (takeWhile is_digit (rev t)) + length (dropWhile is_digit (rev t))"
    by (metis length_append length_rev takeWhile_dropWhile_id)
  then show ?thesis
    using assms by (auto simp: event_type_def type_version_def split: list.splits dest!: matches_length)
qed

lemma event_decoded:
  assumes "validID i" "event_type t" "0 \<le> ms" "ms \<le> 253402300799999" "genuine_work w"
    and "payload = JObj ps" "wf_json payload"
    and "raw = utf8_encode (stringify (JObj (event_members i t (dbl_of_int ms) w payload)))"
  shows "env_create i t (dbl_of_int ms) (Made w) payload =
      (if length raw \<le> 65536 then Inr \<lparr>en_id = i, en_raw = raw, en_work = w\<rparr> else Inl env_invalid)
    \<and> (length raw \<le> 65536 \<longrightarrow> env_decode raw = Inr \<lparr>en_id = i, en_raw = raw, en_work = w\<rparr>)"
proof -
  define m where "m = event_members i t (dbl_of_int ms) w payload"
  have g: "get m ''v'' = Some (jint 1)" "get m ''id'' = Some (JStr i)" "get m ''type'' = Some (JStr t)"
    "get m ''occurred_at_ms'' = Some (JNum (dbl_of_int ms))" "get m ''work'' = Some (workOut w)"
    "get m ''payload'' = Some (JObj ps)"
    using assms(6) by (simp_all add: m_def event_members_def get_def)
  have h: "header_ok m"
    unfolding header_ok_def g using assms(2,3,4) event_type_length[OF assms(2)]
    by (simp add: m_def event_members_def envelope_keys_def obj_has_def keys_of_def jint_def dbl_number_int max_safe_def)
  have n: "normalized m i w = m"
    unfolding normalized_def by (rule spread_fix) (use g in \<open>simp add: get_def\<close>)
  have "wf_json (jint ms)" using assms(3,4) by (intro wf_int) (simp add: max_safe_def)
  then have "wf_json (JObj m)"
    unfolding m_def by (intro wf_members plain_event)
      (use assms(5,7) in \<open>simp add: event_members_def wf_workOut wf_int max_safe_def, simp add: jint_def\<close>)
  moreover have "env_read m = (if length raw \<le> 65536 then Some \<lparr>en_id = i, en_raw = raw, en_work = w\<rparr> else None)"
  proof -
    have "idIn (get m ''id'') = Some i" "workIn (get m ''work'') = Some w"
      using g assms(1,5) by (simp_all add: idIn_valid work_round)
    then show ?thesis
      using h g n unfolding env_read_def normalized_json_def normalized_def[symmetric]
      by (simp add: assms(8) m_def[symmetric] require_def del: stringify.simps)
  qed
  ultimately show ?thesis
    using decode_printed[of m] by (simp add: env_create_def assms(8) m_def[symmetric] del: stringify.simps)
qed

text \<open>
  An event created from a valid identifier, an event type, a time and a validated work context
  is refused exactly when its text exceeds 65536 bytes; otherwise it is the envelope of that
  identifier and work, and decodes from its bytes to itself.
\<close>

lemma event_round_trip:
  assumes "validID i" "event_type t" "0 \<le> ms" "ms \<le> 253402300799999" "genuine_work w"
    and "payload = JObj ps" "wf_json payload"
    and "raw = utf8_encode (stringify (JObj (event_members i t (dbl_of_int ms) w payload)))"
  shows "env_create i t (dbl_of_int ms) (Made w) payload =
      (if length raw \<le> 65536 then Inr \<lparr>en_id = i, en_raw = raw, en_work = w\<rparr> else Inl env_invalid)
    \<and> (length raw \<le> 65536 \<longrightarrow> env_decode raw = Inr \<lparr>en_id = i, en_raw = raw, en_work = w\<rparr>)"
  by (rule event_decoded[OF assms])

section \<open>Witnesses\<close>

definition sample_work :: work where
  "sample_work = sp_work sample_scope"

lemma sample_work_genuine: "genuine_work sample_work"
proof -
  have "validateWork (sp_work sample_scope) False = None" using sample_scope_sound by (rule sound_scopeD)
  then have "restoreWork sample_work = Inr sample_work" by (simp add: sample_work_def)
  then show ?thesis
    by (simp add: genuine_work_def) (simp add: sample_work_def sample_scope_def genuine_attribution_def attribution_def)
qed

lemma sample_type: "event_type (lit ''demo.made.v1'')"
  by (simp add: event_type_def type_version_def type_unit_def matches_def str_simps)

definition sample_event :: "nat \<Rightarrow> byte list" where
  "sample_event k = utf8_encode (stringify (JObj (event_members (sid k) (lit ''demo.made.v1'') (dbl_of_int 5)
     sample_work (JObj []))))"

definition sample_envelope :: "nat \<Rightarrow> envelope" where
  "sample_envelope k = \<lparr>en_id = sid k, en_raw = sample_event k, en_work = sample_work\<rparr>"

lemma sid_length: "k < 4096 \<Longrightarrow> length (sid k) = 36"
  using sid_valid[of k] canonical_length by (simp add: validID_iff)

lemma sample_event_size: "k < 4096 \<Longrightarrow> length (sample_event k) \<le> 65536"
  unfolding sample_event_def
proof (rule event_size)
  assume k: "k < 4096"
  have "length (stringify (jint 1)) = 1" "length (stringify (JNum (dbl_of_int 5))) = 1" "length (stringify (jint 0)) = 1"
    using show_dbl_int[of 1] show_dbl_int[of 5] show_dbl_int[of 0]
    by (simp_all add: jint_def dbl_of_int_def canon.simps max_safe_def show_int_def show_base.simps[of 10])
  then show "3 * json_size (JObj (event_members (sid k) (lit ''demo.made.v1'') (dbl_of_int 5) sample_work (JObj []))) \<le> 65536"
    by (simp add: event_members_def workOut_def attributionOut_def jobject_plain plain_objects sample_work_def
        sample_scope_def sid_length k depth_json_def jint_def del: stringify.simps)
qed

lemma own_order_Nil [simp]: "own_order [] = []"
  by (simp add: own_order_def)

lemma event_round_trip_witness:
  "env_create (sid 9) (lit ''demo.made.v1'') (dbl_of_int 5) (Made sample_work) (JObj []) = Inr (sample_envelope 9)"
  using event_round_trip[of "sid 9" "lit ''demo.made.v1''" 5 sample_work "JObj []" "[]" "sample_event 9"]
    sample_event_size[of 9]
  by (simp add: sid_valid sample_type sample_work_genuine sample_event_def sample_envelope_def)

lemma sample_decodes: "k < 4096 \<Longrightarrow> env_decode (sample_event k) = Inr (sample_envelope k)"
  using event_decoded[of "sid k" "lit ''demo.made.v1''" 5 sample_work "JObj []" "[]" "sample_event k"]
    sample_event_size[of k]
  by (simp add: sid_valid sample_type sample_work_genuine sample_event_def sample_envelope_def)

lemma sample_event_parsed:
  "\<exists>v s. utf8_decode (sample_event k) = Some s \<and> json_parse s = Some v \<and> safe_numbers v"
proof -
  define v where "v = JObj (event_members (sid k) (lit ''demo.made.v1'') (dbl_of_int 5) sample_work (JObj []))"
  have "wf_json v"
    unfolding v_def
    by (intro wf_members plain_event)
      (simp add: event_members_def wf_workOut[OF sample_work_genuine] wf_int max_safe_def
        jint_def[symmetric] del: wf_json.simps(1))
  then show ?thesis
    using json_bytes[of v] json_round_trip[of v] wf_json_iff unfolding sample_event_def v_def[symmetric] by blast
qed

theorem decode_normalizes_witness:
  "\<exists>e. env_decode (sample_event 9) = Inr e \<and> env_decode (env_bytes e) = Inr e \<and> validID (en_id e)"
  using decode_normalizes[OF sample_decodes[of 9]] sample_event_parsed[of 9] sample_decodes[of 9] by auto

end
