(* ===== verification/Database.thy ===== *)
theory Database
  imports Errors "HOL-Library.Sublist"
begin

text \<open>
  \<open>src/shared/postgres/index.ts\<close>: the classification of driver errors, one transaction as a
  machine whose steps are the answers of the server, the timer and the caller's signal in any
  order, closing, and the migration ledger. The server is the third party of the machine; what it may answer
  is stated by the guards of \<open>enabled\<close>.
\<close>

section \<open>Failures\<close>

text \<open>What a query may throw: a \<open>DatabaseError\<close> with its code, or any other value.\<close>

datatype db_error = DbError "str option" | Other jsval

definition db_invalid :: failure where
  "db_invalid = fail Invalid ''invalid database configuration'' ''database.config''"

definition db_timedOut :: failure where
  "db_timedOut = fail Timeout ''database operation timed out'' ''database.timeout''"

definition db_uncertain :: failure where
  "db_uncertain = fail Unavailable ''database commit outcome uncertain'' ''database.commit_uncertain''"

definition db_drift :: failure where
  "db_drift = fail Conflict ''migration history differs'' ''database.migration_drift''"

definition db_closed :: failure where
  "db_closed = fail Unavailable ''database closed'' ''database.closed''"

definition db_canceled :: failure where
  "db_canceled = fail Canceled ''database operation canceled'' ''database.canceled''"

definition db_aborted :: failure where
  "db_aborted = fail Internal ''database transaction aborted'' ''database.failed''"

definition db_map :: "db_error \<Rightarrow> failure" where
  "db_map e = (case e of
     Other v \<Rightarrow> if kindOf v \<noteq> None then fromCaught v
       else fail Unavailable ''database operation failed'' ''database.unavailable''
   | DbError code \<Rightarrow>
       let c = (case code of None \<Rightarrow> [] | Some s \<Rightarrow> s) in
       if c \<in> set [lit ''23505'', lit ''40001'', lit ''40P01'']
       then fail Conflict ''database operation failed'' ''database.conflict''
       else if c = lit ''57014'' then db_timedOut
       else fail Internal ''database operation failed'' ''database.failed'')"

definition commitFailure :: "db_error \<Rightarrow> failure" where
  "commitFailure e = (case e of DbError _ \<Rightarrow> db_map e | Other _ \<Rightarrow> db_uncertain)"

section \<open>Opening\<close>

text \<open>A parsed URL, as far as it is looked at; \<open>None\<close> is a URL that does not parse.\<close>

record db_url =
  du_protocol :: str
  du_hostname :: str
  du_hash :: str

record database =
  db_budget :: int
  db_closing :: bool

definition db_open :: "db_url option \<Rightarrow> number \<Rightarrow> number \<Rightarrow> unit result \<Rightarrow> database result" where
  "db_open url maxConnections timeoutMs ping = (case (url, timeoutMs) of
     (Some u, Whole t) \<Rightarrow>
       if du_protocol u \<notin> set [lit ''postgres:'', lit ''postgresql:''] \<or> du_hostname u = [] \<or> du_hash u \<noteq> []
         \<or> \<not> int_in 1 64 maxConnections \<or> t < 1 \<or> t > 30000
       then Inl db_invalid
       else (case ping of Inl e \<Rightarrow> Inl e | Inr _ \<Rightarrow> Inr \<lparr>db_budget = t, db_closing = False\<rparr>)
   | _ \<Rightarrow> Inl db_invalid)"

text \<open>How \<open>pool.end()\<close> and the timer of \<open>close\<close> race.\<close>

datatype close_race = PoolEnded | PoolFailed | CloseTimer

definition db_close :: "close_race \<Rightarrow> database \<Rightarrow> unit result \<times> database" where
  "db_close r d = ((case r of PoolEnded \<Rightarrow> Inr () | CloseTimer \<Rightarrow> Inl db_timedOut
     | PoolFailed \<Rightarrow> Inl (fail Unavailable ''database close failed'' ''database.close'')),
     d\<lparr>db_closing := True\<rparr>)"

section \<open>A transaction\<close>

text \<open>Where the operation is: the await it has reached.\<close>

datatype 'a tx_pc = Connecting | Beginning | InCallback | RollingBack failure | Committing 'a | Ended

text \<open>What the server has done with the transaction.\<close>

datatype server = NoTx | Open | Committed | RolledBack

record 'a tx =
  tx_pc :: "'a tx_pc"
  tx_signal :: bool
  tx_aborted :: bool
  tx_committing :: bool
  tx_active :: bool
  tx_released :: bool
  tx_releases :: nat
  tx_destroyed :: bool
  tx_stopped :: "failure option"
  tx_answer :: "'a result option"
  tx_server :: server

text \<open>The call, up to \<open>pool.connect()\<close>; \<open>signal\<close> is the caller's signal, aborted or not.\<close>

definition tx_start :: "bool \<Rightarrow> bool \<Rightarrow> 'a tx" where
  "tx_start closing signal =
     \<lparr>tx_pc = (if closing \<or> signal then Ended else Connecting), tx_signal = signal, tx_aborted = False,
      tx_committing = False, tx_active = False, tx_released = False, tx_releases = 0, tx_destroyed = False,
      tx_stopped = None,
      tx_answer = (if closing then Some (Inl db_closed) else if signal then Some (Inl db_canceled) else None),
      tx_server = NoTx\<rparr>"

definition tx_release :: "bool \<Rightarrow> 'a tx \<Rightarrow> 'a tx" where
  "tx_release destroy t = (if tx_released t then t
     else t\<lparr>tx_released := True, tx_active := False, tx_releases := tx_releases t + 1, tx_destroyed := destroy\<rparr>)"

text \<open>The race of the operation and \<open>stopped\<close>: the first to settle wins.\<close>

definition tx_settle :: "'a result \<Rightarrow> 'a tx \<Rightarrow> 'a tx" where
  "tx_settle r t = (if tx_answer t = None then t\<lparr>tx_answer := Some r\<rparr> else t)"

definition tx_stop :: "bool \<Rightarrow> 'a tx \<Rightarrow> 'a tx" where
  "tx_stop canceled t =
     (let f = (if tx_committing t then db_uncertain else if canceled then db_canceled else db_timedOut);
          t1 = tx_release True (t\<lparr>tx_aborted := True\<rparr>);
          t2 = (if tx_stopped t1 = None then t1\<lparr>tx_stopped := Some f\<rparr> else t1)
      in tx_settle (Inl f) t2)"

text \<open>The operation returns \<open>r\<close>, after the \<open>finally\<close> that releases the client.\<close>

definition tx_return :: "'a result \<Rightarrow> 'a tx \<Rightarrow> 'a tx" where
  "tx_return r t = tx_settle r (tx_release False (t\<lparr>tx_pc := Ended\<rparr>))"

text \<open>The \<open>catch\<close>.\<close>

definition tx_catch :: "db_error \<Rightarrow> 'a tx \<Rightarrow> 'a tx" where
  "tx_catch e t = tx_return (Inl (if tx_committing t then commitFailure e else db_map e)) (tx_release True t)"

text \<open>\<open>return await stopped\<close>.\<close>

definition tx_await_stopped :: "'a tx \<Rightarrow> 'a tx" where
  "tx_await_stopped t = (case tx_stopped t of Some f \<Rightarrow> tx_return (Inl f) t | None \<Rightarrow> t)"

text \<open>The client is there: the listeners are installed and the operation starts.\<close>

definition tx_connected :: "'a tx \<Rightarrow> 'a tx" where
  "tx_connected t = (let t1 = t\<lparr>tx_active := True, tx_pc := Beginning\<rparr> in
     if tx_signal t then tx_await_stopped (tx_stop True t1) else t1)"

definition tx_callback_returned :: "'a result \<Rightarrow> 'a tx \<Rightarrow> 'a tx" where
  "tx_callback_returned r t =
     (if tx_aborted t then tx_await_stopped t
      else (case r of Inl f \<Rightarrow> t\<lparr>tx_pc := RollingBack f\<rparr>
        | Inr v \<Rightarrow> t\<lparr>tx_pc := Committing v, tx_committing := True\<rparr>))"

datatype 'r tx_event = Connected | ConnectFails db_error | Timer | Abort | QueryAnswers | QueryFails db_error
  | CallbackReturns 'r | CallbackThrows db_error | CommitAnswers bool | ServerCommits | ServerRollsBack

text \<open>
  Which events can happen. The timer and the signal's listener exist from the connection to the
  answer; before it, the signal is only recorded. \<open>COMMIT\<close> is answered with its own command when
  the server has committed, with \<open>ROLLBACK\<close> or an error of the database when it has not and never will;
  without an answer nothing is known.
\<close>

fun enabled :: "'a result tx_event \<Rightarrow> 'a tx \<Rightarrow> bool" where
  "enabled Connected t = (tx_pc t = Connecting)"
| "enabled (ConnectFails e) t = (tx_pc t = Connecting)"
| "enabled Timer t = (tx_pc t \<noteq> Connecting \<and> tx_answer t = None)"
| "enabled Abort t = (tx_answer t = None)"
| "enabled QueryAnswers t = (tx_pc t = Beginning \<or> (\<exists>f. tx_pc t = RollingBack f))"
| "enabled (QueryFails e) t = (tx_pc t = Beginning \<or> (\<exists>f. tx_pc t = RollingBack f)
     \<or> ((\<exists>v. tx_pc t = Committing v) \<and> (case e of DbError _ \<Rightarrow> tx_server t = RolledBack | Other _ \<Rightarrow> True)))"
| "enabled (CallbackReturns r) t = (tx_pc t = InCallback)"
| "enabled (CallbackThrows e) t = (tx_pc t = InCallback)"
| "enabled (CommitAnswers c) t = ((\<exists>v. tx_pc t = Committing v)
     \<and> tx_server t = (if c then Committed else RolledBack))"
| "enabled ServerCommits t = (tx_committing t \<and> tx_server t = Open)"
| "enabled ServerRollsBack t = (tx_server t = Open)"

fun tx_effect :: "'a result tx_event \<Rightarrow> 'a tx \<Rightarrow> 'a tx" where
  "tx_effect Connected t = tx_connected t"
| "tx_effect (ConnectFails e) t = tx_settle (Inl (db_map e)) (t\<lparr>tx_pc := Ended\<rparr>)"
| "tx_effect Timer t = tx_stop False t"
| "tx_effect Abort t = (if tx_pc t = Connecting then t\<lparr>tx_signal := True\<rparr> else tx_stop True (t\<lparr>tx_signal := True\<rparr>))"
| "tx_effect QueryAnswers t = (case tx_pc t of
     Beginning \<Rightarrow> t\<lparr>tx_pc := InCallback, tx_server := (if tx_server t = NoTx then Open else tx_server t)\<rparr>
   | RollingBack f \<Rightarrow> tx_return (Inl f) (t\<lparr>tx_server := RolledBack\<rparr>)
   | _ \<Rightarrow> t)"
| "tx_effect (QueryFails e) t = tx_catch e t"
| "tx_effect (CallbackReturns r) t = tx_callback_returned r t"
| "tx_effect (CallbackThrows e) t = tx_catch e t"
| "tx_effect (CommitAnswers c) t = (case tx_pc t of
     Committing v \<Rightarrow> tx_return (if c then Inr v else Inl db_aborted) t | _ \<Rightarrow> t)"
| "tx_effect ServerCommits t = t\<lparr>tx_server := Committed\<rparr>"
| "tx_effect ServerRollsBack t = t\<lparr>tx_server := RolledBack\<rparr>"

definition tx_apply :: "'a result tx_event \<Rightarrow> 'a tx \<Rightarrow> 'a tx" where
  "tx_apply e t = (if enabled e t then tx_effect e t else t)"

inductive tx_step :: "'a tx \<Rightarrow> 'a tx \<Rightarrow> bool" where
  "tx_step t (tx_apply e t)"

inductive_cases tx_stepE: "tx_step t t'"

section \<open>Transactions over stored data\<close>

text \<open>
  A whole transaction: a schedule of events, where the callback is a function of the stored data. Its effect on
  the data exists when the server commits. Whatever the schedule leaves open, the connection timeout
  and the timer close.
\<close>

definition tx_run :: "'a result tx_event list \<Rightarrow> 'a tx \<Rightarrow> 'a tx" where
  "tx_run es t = fold tx_apply es t"

definition connect_timeout :: db_error where
  "connect_timeout = Other Undefined"

record call =
  ca_closing :: bool
  ca_signal :: bool
  ca_events :: "unit tx_event list"

definition db_transaction :: "call \<Rightarrow> ('d \<Rightarrow> 'a result \<times> 'd) \<Rightarrow> 'd \<Rightarrow> 'a result \<times> 'd" where
  "db_transaction c f d =
     (let (r, d') = f d;
          t = tx_run (map (map_tx_event (\<lambda>_. r)) (ca_events c) @ [ConnectFails connect_timeout, Timer])
                (tx_start (ca_closing c) (ca_signal c))
      in (the (tx_answer t), if tx_server t = Committed then d' else d))"

section \<open>Migrations\<close>

record migration =
  mg_version :: number
  mg_sql :: str

text \<open>The ledger with its rows, and the scripts the database has run.\<close>

record mig_db =
  md_ledger :: "(int \<times> str) list"
  md_scripts :: "str list"

fun versions_ok :: "int \<Rightarrow> migration list \<Rightarrow> bool" where
  "versions_ok previous [] = True"
| "versions_ok previous (m # ms) = (is_safe_integer (mg_version m) \<and> num_gt (mg_version m) previous
     \<and> mg_sql m \<noteq> [] \<and> (case mg_version m of Whole v \<Rightarrow> versions_ok v ms | _ \<Rightarrow> False))"

definition mg_number :: "migration \<Rightarrow> int" where
  "mg_number m = (case mg_version m of Whole v \<Rightarrow> v | _ \<Rightarrow> 0)"

text \<open>The loop; \<open>sha\<close> is the checksum of the platform. The versions are compared as text.\<close>

fun migrate_loop :: "(str \<Rightarrow> str) \<Rightarrow> (int \<times> str) list \<Rightarrow> migration list \<Rightarrow> mig_db \<Rightarrow> unit result \<times> mig_db" where
  "migrate_loop sha rows [] d = (Inr (), d)"
| "migrate_loop sha ((v, c) # rows) (m # ms) d =
     (if show_int v \<noteq> show_int (mg_number m) \<or> c \<noteq> sha (mg_sql m) then (Inl db_drift, d)
      else migrate_loop sha rows ms d)"
| "migrate_loop sha [] (m # ms) d =
     migrate_loop sha [] ms (d\<lparr>md_scripts := md_scripts d @ [mg_sql m],
       md_ledger := md_ledger d @ [(mg_number m, sha (mg_sql m))]\<rparr>)"

definition migrate_tx :: "(str \<Rightarrow> str) \<Rightarrow> migration list \<Rightarrow> mig_db \<Rightarrow> unit result \<times> mig_db" where
  "migrate_tx sha ms d =
     (let rows = sort_key fst (md_ledger d) in
      if length ms < length rows then (Inl db_drift, d) else migrate_loop sha rows ms d)"

definition migrate :: "call \<Rightarrow> (str \<Rightarrow> str) \<Rightarrow> migration list \<Rightarrow> mig_db \<Rightarrow> unit result \<times> mig_db" where
  "migrate c sha ms d = (if versions_ok 0 ms then db_transaction c (migrate_tx sha ms) d else (Inl db_invalid, d))"

section \<open>The invariant of a transaction\<close>

text \<open>A transaction that has been answered, or is over, can no longer start to commit.\<close>

definition tx_phase_inv :: "'a tx \<Rightarrow> bool" where
  "tx_phase_inv t \<longleftrightarrow>
     (tx_pc t = Connecting \<longrightarrow> tx_answer t = None \<and> \<not> tx_aborted t \<and> \<not> tx_active t \<and> \<not> tx_released t)
     \<and> (tx_pc t \<in> {Connecting, Beginning} \<longrightarrow> tx_server t = NoTx)
     \<and> (tx_committing t \<longrightarrow> tx_pc t = Ended \<or> (\<exists>v. tx_pc t = Committing v))
     \<and> (\<forall>v. tx_pc t = Committing v \<longrightarrow> tx_committing t)
     \<and> (tx_pc t = Ended \<longrightarrow> tx_answer t \<noteq> None)
     \<and> (tx_aborted t \<longleftrightarrow> tx_stopped t \<noteq> None)
     \<and> (tx_aborted t \<longrightarrow> tx_answer t \<noteq> None \<and> tx_released t)
     \<and> (tx_answer t \<noteq> None \<longrightarrow> tx_aborted t \<or> tx_pc t = Ended)"

definition tx_client_inv :: "'a tx \<Rightarrow> bool" where
  "tx_client_inv t \<longleftrightarrow>
     tx_releases t = (if tx_released t then 1 else 0)
     \<and> (tx_active t \<longrightarrow> \<not> tx_released t)
     \<and> (tx_pc t \<noteq> Connecting \<and> tx_pc t \<noteq> Ended \<longrightarrow> tx_active t \<or> tx_released t)
     \<and> (tx_pc t = Ended \<longrightarrow> \<not> tx_active t)
     \<and> (tx_aborted t \<longrightarrow> \<not> tx_active t)"

text \<open>What an answer says of the server, for good.\<close>

fun answer_ok :: "bool \<Rightarrow> server \<Rightarrow> 'a result \<Rightarrow> bool" where
  "answer_ok committing s (Inr v) = (s = Committed)"
| "answer_ok committing s (Inl f) = (f = db_uncertain \<or> \<not> committing \<or> s = RolledBack)"

lemma answer_ok_moves [intro]:
  "answer_ok c NoTx y \<Longrightarrow> answer_ok c Open y" "answer_ok c Open y \<Longrightarrow> answer_ok c RolledBack y"
  "answer_ok c NoTx y \<Longrightarrow> answer_ok c RolledBack y" "answer_ok c Open y \<Longrightarrow> c \<Longrightarrow> answer_ok c Committed y"
  "answer_ok False s y \<Longrightarrow> s \<noteq> Committed \<Longrightarrow> answer_ok False RolledBack y"
  by (cases y; simp)+

definition tx_commit_inv :: "'a tx \<Rightarrow> bool" where
  "tx_commit_inv t \<longleftrightarrow> (tx_server t = Committed \<longrightarrow> tx_committing t)
     \<and> pred_option (answer_ok (tx_committing t) (tx_server t)) (tx_answer t)"

definition tx_inv :: "'a tx \<Rightarrow> bool" where
  "tx_inv t \<longleftrightarrow> tx_phase_inv t \<and> tx_client_inv t \<and> tx_commit_inv t"

text \<open>What the helpers do to each field.\<close>

lemma release_fields [simp]:
  "tx_pc (tx_release d t) = tx_pc t" "tx_signal (tx_release d t) = tx_signal t"
  "tx_aborted (tx_release d t) = tx_aborted t" "tx_committing (tx_release d t) = tx_committing t"
  "tx_stopped (tx_release d t) = tx_stopped t" "tx_answer (tx_release d t) = tx_answer t"
  "tx_server (tx_release d t) = tx_server t" "tx_released (tx_release d t) = True"
  "tx_active (tx_release d t) = (tx_released t \<and> tx_active t)"
  "tx_releases (tx_release d t) = (if tx_released t then tx_releases t else tx_releases t + 1)"
  by (simp_all add: tx_release_def)

definition first_of :: "'b option \<Rightarrow> 'b \<Rightarrow> 'b option" where
  "first_of x y = (case x of None \<Rightarrow> Some y | Some z \<Rightarrow> Some z)"

lemma first_of_simps [simp]: "first_of None y = Some y" "first_of (Some z) y = Some z" "first_of x y \<noteq> None"
  by (simp_all add: first_of_def split: option.split)

lemma settle_fields [simp]:
  "tx_pc (tx_settle r t) = tx_pc t" "tx_signal (tx_settle r t) = tx_signal t"
  "tx_aborted (tx_settle r t) = tx_aborted t" "tx_committing (tx_settle r t) = tx_committing t"
  "tx_stopped (tx_settle r t) = tx_stopped t" "tx_answer (tx_settle r t) = first_of (tx_answer t) r"
  "tx_server (tx_settle r t) = tx_server t" "tx_released (tx_settle r t) = tx_released t"
  "tx_active (tx_settle r t) = tx_active t" "tx_releases (tx_settle r t) = tx_releases t"
  by (auto simp: tx_settle_def split: option.split)

definition stop_failure :: "bool \<Rightarrow> 'a tx \<Rightarrow> failure" where
  "stop_failure canceled t = (if tx_committing t then db_uncertain else if canceled then db_canceled else db_timedOut)"

lemma stop_fields [simp]:
  "tx_pc (tx_stop c t) = tx_pc t" "tx_signal (tx_stop c t) = tx_signal t" "tx_aborted (tx_stop c t) = True"
  "tx_committing (tx_stop c t) = tx_committing t" "tx_stopped (tx_stop c t) = first_of (tx_stopped t) (stop_failure c t)"
  "tx_answer (tx_stop c t) = first_of (tx_answer t) (Inl (stop_failure c t))"
  "tx_server (tx_stop c t) = tx_server t" "tx_released (tx_stop c t) = True"
  "tx_active (tx_stop c t) = (tx_released t \<and> tx_active t)"
  "tx_releases (tx_stop c t) = (if tx_released t then tx_releases t else tx_releases t + 1)"
  by (auto simp: tx_stop_def stop_failure_def Let_def split: option.split)

lemma return_fields [simp]:
  "tx_pc (tx_return r t) = Ended" "tx_signal (tx_return r t) = tx_signal t"
  "tx_aborted (tx_return r t) = tx_aborted t" "tx_committing (tx_return r t) = tx_committing t"
  "tx_stopped (tx_return r t) = tx_stopped t" "tx_answer (tx_return r t) = first_of (tx_answer t) r"
  "tx_server (tx_return r t) = tx_server t" "tx_released (tx_return r t) = True"
  "tx_active (tx_return r t) = (tx_released t \<and> tx_active t)"
  "tx_releases (tx_return r t) = (if tx_released t then tx_releases t else tx_releases t + 1)"
  by (simp_all add: tx_return_def)

lemma tx_start_inv: "tx_inv (tx_start closing signal)"
  by (simp add: tx_inv_def tx_start_def tx_phase_inv_def tx_client_inv_def tx_commit_inv_def)

lemma tx_await_stopped_eq:
  assumes "tx_aborted t" "tx_phase_inv t"
  shows "\<exists>f. tx_stopped t = Some f \<and> tx_await_stopped t = tx_return (Inl f) t"
proof -
  have "tx_stopped t \<noteq> None" using assms unfolding tx_phase_inv_def by blast
  then show ?thesis by (cases "tx_stopped t") (simp_all add: tx_await_stopped_def)
qed

lemma tx_return_inv:
  assumes "tx_inv t" "tx_pc t \<noteq> Connecting" "tx_answer t = None \<Longrightarrow> answer_ok (tx_committing t) (tx_server t) r"
  shows "tx_inv (tx_return r t)"
proof -
  have "tx_phase_inv (tx_return r t)" using assms(1,2) by (simp add: tx_inv_def tx_phase_inv_def)
  moreover have "tx_client_inv (tx_return r t)" using assms(1) by (simp add: tx_inv_def tx_client_inv_def) blast
  moreover have "tx_commit_inv (tx_return r t)"
    using assms(1,3) by (cases "tx_answer t") (simp_all add: tx_inv_def tx_commit_inv_def)
  ultimately show ?thesis by (simp add: tx_inv_def)
qed

lemma tx_stop_inv:
  assumes "tx_inv t" "tx_pc t \<noteq> Connecting"
  shows "tx_inv (tx_stop c t)"
proof -
  have "tx_phase_inv (tx_stop c t)" using assms by (simp add: tx_inv_def tx_phase_inv_def)
  moreover have "tx_client_inv (tx_stop c t)" using assms by (simp add: tx_inv_def tx_client_inv_def) blast
  moreover have "tx_commit_inv (tx_stop c t)"
    using assms by (cases "tx_answer t") (simp_all add: tx_inv_def tx_commit_inv_def stop_failure_def)
  ultimately show ?thesis by (simp add: tx_inv_def)
qed

lemma tx_await_inv:
  assumes "tx_inv t" "tx_aborted t" "tx_pc t \<noteq> Connecting" shows "tx_inv (tx_await_stopped t)"
proof -
  have "tx_phase_inv t" using assms(1) by (simp add: tx_inv_def)
  from tx_await_stopped_eq[OF assms(2) this] obtain f where f: "tx_await_stopped t = tx_return (Inl f) t" by blast
  have "tx_answer t \<noteq> None" using \<open>tx_phase_inv t\<close> assms(2) by (simp add: tx_phase_inv_def)
  then show ?thesis unfolding f by (intro tx_return_inv assms) simp
qed

lemma tx_catch_inv:
  assumes "tx_inv t" "enabled (QueryFails e) t \<or> enabled (CallbackThrows e) t"
  shows "tx_inv (tx_catch e t)"
proof -
  have c: "tx_pc t \<noteq> Connecting" using assms(2) by auto
  have r: "tx_inv (tx_release True t)"
    using assms(1) c by (simp add: tx_inv_def tx_phase_inv_def tx_client_inv_def tx_commit_inv_def) blast
  have "answer_ok (tx_committing t) (tx_server t) (Inl (if tx_committing t then commitFailure e else db_map e))"
    using assms by (cases e) (auto simp: tx_inv_def tx_phase_inv_def commitFailure_def)
  then show ?thesis
    unfolding tx_catch_def using c by (intro tx_return_inv[OF r]) simp_all
qed

lemma tx_effect_inv:
  assumes "tx_inv t" "enabled e t" shows "tx_inv (tx_effect e t)"
proof (cases e)
  case Connected
  have "tx_inv (t\<lparr>tx_active := True, tx_pc := Beginning\<rparr>)"
    using assms Connected
    by (auto simp: tx_inv_def tx_phase_inv_def tx_client_inv_def tx_commit_inv_def)
  then show ?thesis
    using Connected by (simp add: tx_connected_def Let_def tx_await_inv tx_stop_inv)
next
  case (ConnectFails x)
  then show ?thesis
    using assms by (auto simp: tx_inv_def tx_phase_inv_def tx_client_inv_def tx_commit_inv_def)
next
  case Timer
  then show ?thesis using assms by (auto intro: tx_stop_inv)
next
  case Abort
  have s: "tx_inv (t\<lparr>tx_signal := True\<rparr>)"
    using assms(1) by (simp add: tx_inv_def tx_phase_inv_def tx_client_inv_def tx_commit_inv_def) auto
  then show ?thesis using Abort by (auto intro: tx_stop_inv)
next
  case QueryAnswers
  then consider "tx_pc t = Beginning" | f where "tx_pc t = RollingBack f" using assms(2) by auto
  then show ?thesis
  proof cases
    case 1
    then show ?thesis
      using assms(1) QueryAnswers
      by (auto simp: tx_inv_def tx_phase_inv_def tx_client_inv_def tx_commit_inv_def  split: option.splits)
  next
    case 2
    have "tx_inv (t\<lparr>tx_server := RolledBack\<rparr>)"
      using assms(1) 2 by (auto simp: tx_inv_def tx_phase_inv_def tx_client_inv_def tx_commit_inv_def
           split: option.splits)
    then show ?thesis using 2 QueryAnswers by (auto intro!: tx_return_inv)
  qed
next
  case (QueryFails x)
  then show ?thesis using assms by (auto intro!: tx_catch_inv)
next
  case (CallbackReturns r)
  then have c: "tx_pc t = InCallback" using assms(2) by simp
  show ?thesis
  proof (cases "tx_aborted t")
    case True
    then show ?thesis using CallbackReturns assms(1) c by (simp add: tx_callback_returned_def tx_await_inv)
  next
    case False
    then show ?thesis
      using CallbackReturns assms(1) c
      by (auto simp: tx_callback_returned_def tx_inv_def tx_phase_inv_def tx_client_inv_def tx_commit_inv_def
          split: sum.splits)
  qed
next
  case (CallbackThrows x)
  then show ?thesis using assms by (auto intro!: tx_catch_inv)
next
  case (CommitAnswers b)
  then show ?thesis using assms by (auto intro!: tx_return_inv split: if_splits)
next
  case ServerCommits
  then show ?thesis
    using assms by (auto simp: tx_inv_def tx_phase_inv_def tx_client_inv_def tx_commit_inv_def
         split: option.splits)
next
  case ServerRollsBack
  then show ?thesis
    using assms by (auto simp: tx_inv_def tx_phase_inv_def tx_client_inv_def tx_commit_inv_def
         split: option.splits)
qed

lemma tx_apply_inv: "tx_inv t \<Longrightarrow> tx_inv (tx_apply e t)"
  by (simp add: tx_apply_def tx_effect_inv)

interpretation tx: step_invariant tx_step tx_inv
  by unfold_locales (auto elim!: tx_stepE intro: tx_apply_inv)

section \<open>The contract of a transaction\<close>

text \<open>
  What the users of transactions rely on: an answer is the callback's and its effect is stored, or
  nothing is stored, or the answer says that it is not known.
\<close>

locale transactions =
  fixes run :: "'c \<Rightarrow> ('d \<Rightarrow> 'a result \<times> 'd) \<Rightarrow> 'd \<Rightarrow> 'a result \<times> 'd"
  assumes run_ok: "run c f d = (Inr v, d') \<Longrightarrow> f d = (Inr v, d')"
    and run_failed: "run c f d = (Inl e, d') \<Longrightarrow> d' = d \<or> e = db_uncertain \<and> (\<exists>v. f d = (Inr v, d'))"
begin

lemma run_effect: "snd (run c f d) = d \<or> (\<exists>v. f d = (Inr v, snd (run c f d)))"
  using run_ok[of c f d] run_failed[of c f d] by (cases "run c f d"; cases "fst (run c f d)") fastforce+

lemma run_keeps:
  assumes "P d" "\<And>v d'. f d = (Inr v, d') \<Longrightarrow> P d'"
  shows "P (snd (run c f d))"
  using run_effect[of c f d] assms by metis

lemma run_keeps_snd: "P d \<Longrightarrow> P (snd (f d)) \<Longrightarrow> P (snd (run c f d))"
  by (rule run_keeps) auto

lemma run_refused: "f d = (Inl e, d') \<Longrightarrow> snd (run c f d) = d"
  using run_effect[of c f d] by auto

end

lemma tx_run_inv: "tx_inv t \<Longrightarrow> tx_inv (tx_run es t)"
  unfolding tx_run_def by (induction es arbitrary: t) (simp_all add: tx_apply_inv)

text \<open>Every commit is of the callback's own value.\<close>

definition tx_value_inv :: "'a result \<Rightarrow> 'a tx \<Rightarrow> bool" where
  "tx_value_inv r t \<longleftrightarrow> (\<forall>v. tx_pc t = Committing v \<longrightarrow> r = Inr v)
     \<and> (tx_committing t \<longrightarrow> is_ok r) \<and> (\<forall>v. tx_answer t = Some (Inr v) \<longrightarrow> r = Inr v)"

lemma tx_value_return:
  "tx_value_inv r t \<Longrightarrow> (\<And>v. x = Inr v \<Longrightarrow> r = Inr v) \<Longrightarrow> tx_value_inv r (tx_return x t)"
  by (cases "tx_answer t") (auto simp: tx_value_inv_def)

lemma tx_value_stop: "tx_value_inv r t \<Longrightarrow> tx_value_inv r (tx_stop c t)"
  by (cases "tx_answer t") (auto simp: tx_value_inv_def)

lemma tx_value_await: "tx_value_inv r t \<Longrightarrow> tx_value_inv r (tx_await_stopped t)"
  by (auto simp: tx_await_stopped_def intro: tx_value_return split: option.split)

lemma tx_value_catch: "tx_value_inv r t \<Longrightarrow> tx_value_inv r (tx_catch e t)"
  unfolding tx_catch_def by (rule tx_value_return) (simp_all add: tx_value_inv_def)

lemma tx_value_effect:
  assumes "tx_value_inv r t" "enabled (map_tx_event (\<lambda>_. r) e) t"
  shows "tx_value_inv r (tx_effect (map_tx_event (\<lambda>_. r) e) t)"
proof (cases e)
  case Connected
  have "tx_value_inv r (t\<lparr>tx_active := True, tx_pc := Beginning\<rparr>)" using assms by (simp add: tx_value_inv_def)
  then show ?thesis
    using Connected by (simp add: tx_connected_def Let_def tx_value_await tx_value_stop)
next
  case (ConnectFails x)
  then show ?thesis using assms by (cases "tx_answer t") (auto simp: tx_value_inv_def)
next
  case Abort
  have "tx_value_inv r (t\<lparr>tx_signal := True\<rparr>)" using assms by (simp add: tx_value_inv_def)
  then show ?thesis using Abort by (simp add: tx_value_stop)
next
  case QueryAnswers
  have "tx_value_inv r (t\<lparr>tx_server := RolledBack\<rparr>)" using assms by (simp add: tx_value_inv_def)
  then show ?thesis
    using assms QueryAnswers by (auto simp: tx_value_inv_def[of _ t] intro!: tx_value_return) (simp_all add: tx_value_inv_def)
next
  case (CallbackReturns u)
  then show ?thesis
    using assms by (auto simp: tx_callback_returned_def tx_value_await split: sum.split) (auto simp: tx_value_inv_def)
next
  case (CommitAnswers b)
  then show ?thesis
    using assms by (auto intro!: tx_value_return) (auto simp: tx_value_inv_def split: if_splits)
qed (use assms in \<open>simp_all add: tx_value_stop tx_value_catch, simp_all add: tx_value_inv_def\<close>)

lemma tx_value_run: "tx_value_inv r t \<Longrightarrow> tx_value_inv r (tx_run (map (map_tx_event (\<lambda>_. r)) es) t)"
  unfolding tx_run_def
  by (induction es arbitrary: t) (simp_all add: tx_apply_def tx_value_effect)

lemma tx_start_value: "tx_value_inv r (tx_start closing signal)"
  by (simp add: tx_value_inv_def tx_start_def)

text \<open>The connection timeout and the timer answer whatever is still open.\<close>

lemma tx_closed_answer:
  assumes "tx_inv t" shows "tx_answer (tx_run [ConnectFails e, Timer] t) \<noteq> None"
proof -
  have "tx_pc t = Ended \<longrightarrow> tx_answer t \<noteq> None" using assms unfolding tx_inv_def tx_phase_inv_def by blast
  then show ?thesis by (auto simp: tx_run_def tx_apply_def)
qed

lemma db_transaction_state:
  fixes f :: "'d \<Rightarrow> 'a result \<times> 'd"
  assumes "db_transaction c f d = (x, d')"
  obtains t where "tx_inv t" "tx_value_inv (fst (f d)) t" "tx_answer t = Some x"
    "d' = (if tx_server t = Committed then snd (f d) else d)"
proof -
  define es where "es = map (map_tx_event (\<lambda>_. fst (f d))) (ca_events c @ [ConnectFails connect_timeout, Timer])"
  define t0 where "t0 = (tx_start (ca_closing c) (ca_signal c) :: 'a tx)"
  have "tx_run es t0 = tx_run [ConnectFails connect_timeout, Timer] (tx_run (map (map_tx_event (\<lambda>_. fst (f d))) (ca_events c)) t0)"
    by (simp add: es_def tx_run_def)
  then have "tx_answer (tx_run es t0) \<noteq> None"
    using tx_closed_answer[OF tx_run_inv[OF tx_start_inv]] by (simp add: t0_def)
  moreover have "tx_inv (tx_run es t0)" unfolding t0_def by (rule tx_run_inv[OF tx_start_inv])
  moreover have "tx_value_inv (fst (f d)) (tx_run es t0)"
    unfolding es_def t0_def by (rule tx_value_run[OF tx_start_value])
  moreover have "x = the (tx_answer (tx_run es t0))" "d' = (if tx_server (tx_run es t0) = Committed then snd (f d) else d)"
    using assms by (auto simp: db_transaction_def Let_def case_prod_unfold es_def t0_def)
  ultimately show ?thesis using that by force
qed

interpretation db: transactions db_transaction
proof unfold_locales
  fix c f d v d'
  assume "db_transaction c f d = (Inr v, d')"
  then show "f d = (Inr v, d')"
    by (elim db_transaction_state) (auto simp: tx_inv_def tx_commit_inv_def tx_value_inv_def prod_eq_iff)
next
  fix c f d e d'
  assume "db_transaction c f d = (Inl e, d')"
  then show "d' = d \<or> e = db_uncertain \<and> (\<exists>v. f d = (Inr v, d'))"
    by (elim db_transaction_state) (auto simp: tx_inv_def tx_commit_inv_def tx_value_inv_def prod_eq_iff)
qed

section \<open>The ledger\<close>

definition ledger_of :: "(str \<Rightarrow> str) \<Rightarrow> migration list \<Rightarrow> (int \<times> str) list" where
  "ledger_of sha ms = map (\<lambda>m. (mg_number m, sha (mg_sql m))) ms"

lemma show_int_inject: "show_int i = show_int j \<longleftrightarrow> i = j"
  by (metis val_show_int)

lemma migrate_loop_new:
  "migrate_loop sha [] ms d = (Inr (), d\<lparr>md_scripts := md_scripts d @ map mg_sql ms,
     md_ledger := md_ledger d @ ledger_of sha ms\<rparr>)"
  by (induction ms arbitrary: d) (simp_all add: ledger_of_def)

lemma migrate_loop_rows:
  "length rows \<le> length ms \<Longrightarrow> migrate_loop sha rows ms d =
     (if prefix rows (ledger_of sha ms)
      then (Inr (), d\<lparr>md_scripts := md_scripts d @ map mg_sql (drop (length rows) ms),
        md_ledger := md_ledger d @ ledger_of sha (drop (length rows) ms)\<rparr>)
      else (Inl db_drift, d))"
proof (induction sha rows ms d rule: migrate_loop.induct)
  case (1 sha rows d)
  then show ?case by (simp add: ledger_of_def)
next
  case (2 sha v c rows m ms d)
  then show ?case by (auto simp: show_int_inject ledger_of_def)
next
  case (3 sha m ms d)
  show ?case by (subst migrate_loop_new) simp
qed

lemma versions_sorted: "versions_ok p ms \<Longrightarrow> sorted_wrt (<) (map mg_number ms) \<and> (\<forall>m \<in> set ms. p < mg_number m)"
proof (induction p ms rule: versions_ok.induct)
  case (2 p m ms)
  then obtain v where v: "mg_version m = Whole v" "p < v" "versions_ok v ms"
    by (auto split: number.splits)
  then show ?case using 2(1)[OF v(1)] by (auto simp: mg_number_def)
qed simp

lemma migrate_tx_exact:
  assumes "sorted (map fst (md_ledger d))"
  shows "migrate_tx sha ms d = (if prefix (md_ledger d) (ledger_of sha ms)
      then (Inr (), \<lparr>md_ledger = ledger_of sha ms,
        md_scripts = md_scripts d @ map mg_sql (drop (length (md_ledger d)) ms)\<rparr>)
      else (Inl db_drift, d))"
proof (cases "length ms < length (md_ledger d)")
  case True
  then have "\<not> prefix (md_ledger d) (ledger_of sha ms)"
    by (auto simp: ledger_of_def dest!: prefix_length_le)
  then show ?thesis using True assms by (simp add: migrate_tx_def sort_key_id_if_sorted)
next
  case False
  have "md_ledger d @ ledger_of sha (drop (length (md_ledger d)) ms) = ledger_of sha ms"
    if "prefix (md_ledger d) (ledger_of sha ms)"
    using that by (auto simp: prefix_def ledger_of_def drop_map[symmetric])
  then show ?thesis
    using False assms by (simp add: migrate_tx_def sort_key_id_if_sorted migrate_loop_rows)
qed

definition ledger_inv :: "(str \<Rightarrow> str) \<Rightarrow> mig_db \<Rightarrow> bool" where
  "ledger_inv sha d \<longleftrightarrow> sorted_wrt (<) (map fst (md_ledger d)) \<and> map sha (md_scripts d) = map snd (md_ledger d)"

lemma ledger_inv_sorted: "ledger_inv sha d \<Longrightarrow> sorted (map fst (md_ledger d))"
  by (auto simp: ledger_inv_def intro: strict_sorted_imp_sorted)

lemma migrate_tx_inv:
  assumes "versions_ok 0 ms" "ledger_inv sha d" "migrate_tx sha ms d = (Inr u, d')"
  shows "ledger_inv sha d'"
proof -
  have p: "prefix (md_ledger d) (ledger_of sha ms)" and d': "d' = \<lparr>md_ledger = ledger_of sha ms,
        md_scripts = md_scripts d @ map mg_sql (drop (length (md_ledger d)) ms)\<rparr>"
    using assms(3) migrate_tx_exact[OF ledger_inv_sorted[OF assms(2)], of sha ms] by (auto split: if_splits)
  have e: "ledger_of sha ms = md_ledger d @ ledger_of sha (drop (length (md_ledger d)) ms)"
    using p by (auto simp: prefix_def ledger_of_def drop_map[symmetric])
  have "map snd (ledger_of sha ms) = map snd (md_ledger d) @ map (sha \<circ> mg_sql) (drop (length (md_ledger d)) ms)"
    by (subst e) (simp add: ledger_of_def comp_def)
  moreover have "map fst (ledger_of sha ms) = map mg_number ms" by (simp add: ledger_of_def)
  ultimately show ?thesis
    using versions_sorted[OF assms(1)] assms(2) by (simp add: ledger_inv_def d' drop_map)
qed

lemma migrate_inv: "ledger_inv sha d \<Longrightarrow> ledger_inv sha (snd (migrate c sha ms d))"
  using db.run_keeps[of "ledger_inv sha" d "migrate_tx sha ms" c] migrate_tx_inv[of ms sha d]
  by (auto simp: migrate_def)

definition migrate_all :: "(str \<Rightarrow> str) \<Rightarrow> (call \<times> migration list) list \<Rightarrow> mig_db" where
  "migrate_all sha calls = fold (\<lambda>(c, ms) d. snd (migrate c sha ms d)) calls \<lparr>md_ledger = [], md_scripts = []\<rparr>"

lemma migrate_all_inv: "ledger_inv sha (migrate_all sha calls)"
proof -
  have "ledger_inv sha d \<Longrightarrow> ledger_inv sha (fold (\<lambda>(c, ms) d. snd (migrate c sha ms d)) calls d)" for d
    by (induction calls arbitrary: d) (auto simp: migrate_inv)
  then show ?thesis by (simp add: migrate_all_def ledger_inv_def)
qed

section \<open>Properties\<close>

text \<open>
  C1: a transaction is atomic under every order of server answers, timeouts and aborts: an answer of
  success is the callback's own and its effect is stored; a failure stored nothing, unless it is the one
  failure that says the outcome is uncertain.
\<close>

theorem transaction_atomic:
  "case db_transaction c f d of
     (Inr v, d') \<Rightarrow> f d = (Inr v, d')
   | (Inl e, d') \<Rightarrow> d' = d \<or> e = db_uncertain \<and> (\<exists>v. f d = (Inr v, d'))"
  using db.run_ok[of c f d] db.run_failed[of c f d]
  by (auto split: prod.split sum.split)

lemma tx_run_steps: "tx_step\<^sup>*\<^sup>* t (tx_run es t)"
  unfolding tx_run_def
  by (induction es arbitrary: t) (auto intro: converse_rtranclp_into_rtranclp tx_step.intros)

lemma tx_answer_kept:
  assumes "tx_step\<^sup>*\<^sup>* t t'" "tx_answer t = Some a" shows "tx_answer t' = Some a"
  using assms
proof (induction rule: rtranclp_induct)
  case (step u v)
  have "tx_answer (tx_await_stopped x) = Some a" if "tx_answer x = Some a" for x
    using that by (simp add: tx_await_stopped_def split: option.split)
  then have "tx_answer (tx_effect e u) = Some a" for e
    using step.IH step.prems
    by (cases e) (auto simp: tx_connected_def tx_callback_returned_def tx_catch_def Let_def
        split: tx_pc.split sum.split)
  then show ?case using step by (auto elim!: tx_stepE simp: tx_apply_def)
qed simp

text \<open>
  C8: in every reachable state of a transaction its client has been released at most once and is not in
  use once the call is over; an answer never changes; after an answer of success the server has
  committed, and after a failure other than the uncertain one it never will.
\<close>

theorem transaction_safe:
  assumes "tx_step\<^sup>*\<^sup>* (tx_start closing signal) t" "tx_step\<^sup>*\<^sup>* t t'"
  shows "tx_releases t \<le> 1 \<and> (tx_pc t = Ended \<longrightarrow> \<not> tx_active t) \<and> (tx_active t \<longrightarrow> tx_releases t = 0)
    \<and> (\<forall>a. tx_answer t = Some a \<longrightarrow> tx_answer t' = Some a)
    \<and> (\<forall>v. tx_answer t = Some (Inr v) \<longrightarrow> tx_server t' = Committed)
    \<and> (\<forall>e. tx_answer t = Some (Inl e) \<and> e \<noteq> db_uncertain \<longrightarrow> tx_server t' \<noteq> Committed)"
proof -
  have "tx_inv t" by (rule tx.steps_inv[OF assms(1) tx_start_inv])
  then have "tx_releases t \<le> 1" "tx_pc t = Ended \<longrightarrow> \<not> tx_active t" "tx_active t \<longrightarrow> tx_releases t = 0"
    unfolding tx_inv_def tx_client_inv_def by auto
  moreover have c: "tx_commit_inv t'"
    using tx.steps_inv[OF assms(2) \<open>tx_inv t\<close>] by (simp add: tx_inv_def)
  moreover have "tx_server t' = Committed" if "tx_answer t = Some (Inr v)" for v
    using tx_answer_kept[OF assms(2) that] c by (simp add: tx_commit_inv_def)
  moreover have "tx_server t' \<noteq> Committed" if "tx_answer t = Some (Inl e)" "e \<noteq> db_uncertain" for e
    using tx_answer_kept[OF assms(2) that(1)] c that(2) by (auto simp: tx_commit_inv_def)
  ultimately show ?thesis using tx_answer_kept[OF assms(2)] by blast
qed

theorem transaction_safe_witness:
  "\<exists>t :: nat tx. tx_answer t = Some (Inr 7) \<and> tx_server t = Committed \<and> tx_releases t \<le> 1 \<and> \<not> tx_active t"
proof -
  define t where "t = tx_run [Connected, QueryAnswers, CallbackReturns (Inr 7), ServerCommits, CommitAnswers True]
    (tx_start False False :: nat tx)"
  have a: "tx_answer t = Some (Inr 7)" "tx_pc t = Ended"
    by (simp_all add: t_def tx_run_def tx_apply_def tx_start_def tx_connected_def tx_callback_returned_def)
  have "tx_step\<^sup>*\<^sup>* (tx_start False False) t" unfolding t_def by (rule tx_run_steps)
  from transaction_safe[OF this rtranclp.rtrancl_refl] a show ?thesis by blast
qed

lemma tx_await_pc: "tx_pc (tx_await_stopped t) = (if tx_stopped t = None then tx_pc t else Ended)"
  by (simp add: tx_await_stopped_def split: option.split)

lemma tx_connected_kept:
  assumes "tx_step\<^sup>*\<^sup>* t t'" "tx_pc t \<noteq> Connecting" shows "tx_pc t' \<noteq> Connecting"
  using assms
proof (induction rule: rtranclp_induct)
  case (step u v)
  have "tx_pc (tx_effect e u) \<noteq> Connecting" for e
    using step.IH step.prems
    by (cases e) (simp_all add: tx_connected_def tx_callback_returned_def tx_catch_def tx_await_pc Let_def
        split: tx_pc.split sum.split)
  then show ?case using step by (auto elim!: tx_stepE simp: tx_apply_def split: if_splits)
qed simp

lemma tx_apply_Connected: "tx_pc (tx_apply Connected t) \<noteq> Connecting"
  by (auto simp: tx_apply_def tx_connected_def Let_def tx_await_stopped_def split: option.split)

text \<open>
  C9: every call whose connection is established is answered once its timer fires, whatever
  its callback, its caller and the server do before, between and after.
\<close>

theorem transaction_answered:
  "tx_answer (tx_run (before @ Connected # between @ Timer # after) (tx_start closing signal)) \<noteq> None"
proof -
  define t1 where "t1 = tx_apply Connected (tx_run before (tx_start closing signal))"
  define t2 where "t2 = tx_run between t1"
  have "tx_pc t2 \<noteq> Connecting"
    using tx_connected_kept[OF tx_run_steps tx_apply_Connected] unfolding t1_def t2_def .
  then have "tx_answer (tx_apply Timer t2) \<noteq> None" by (auto simp: tx_apply_def)
  then obtain a where "tx_answer (tx_apply Timer t2) = Some a" by blast
  from tx_answer_kept[OF tx_run_steps this, of after]
  have "tx_answer (tx_run after (tx_apply Timer t2)) \<noteq> None" by simp
  moreover have "tx_run (before @ Connected # between @ Timer # after) (tx_start closing signal)
      = tx_run after (tx_apply Timer t2)" by (simp add: tx_run_def t1_def t2_def)
  ultimately show ?thesis by simp
qed

text \<open>
  C10: each migration runs once and in order. After any history of migration calls, interrupted ones included, a
  call that succeeds found its own beginning in the ledger, has run exactly the scripts that were
  missing, and leaves the ledger that names every script ever run with its checksum.
\<close>

theorem migrations_once:
  assumes "d = migrate_all sha calls" "migrate c sha ms d = (Inr u, d')"
  shows "prefix (md_ledger d) (ledger_of sha ms) \<and> md_ledger d' = ledger_of sha ms
    \<and> md_scripts d' = md_scripts d @ map mg_sql (drop (length (md_ledger d)) ms)
    \<and> map sha (md_scripts d') = map snd (md_ledger d') \<and> sorted_wrt (<) (map fst (md_ledger d'))"
proof -
  have i: "ledger_inv sha d" using assms(1) migrate_all_inv by simp
  have "versions_ok 0 ms" "migrate_tx sha ms d = (Inr u, d')"
    using assms(2) db.run_ok by (auto simp: migrate_def split: if_splits)
  with migrate_tx_exact[OF ledger_inv_sorted[OF i], of sha ms] migrate_tx_inv[OF _ i, of ms] show ?thesis
    by (auto simp: ledger_inv_def split: if_splits)
qed

text \<open>A call on which nothing goes wrong runs its callback and stores its effect.\<close>

definition good_call :: call where
  "good_call = \<lparr>ca_closing = False, ca_signal = False, ca_events =
     [Connected, QueryAnswers, CallbackReturns (), ServerCommits, QueryAnswers, CommitAnswers True]\<rparr>"

lemma good_call_runs: "db_transaction good_call f d = (case f d of (Inr v, d') \<Rightarrow> (Inr v, d') | (Inl e, d') \<Rightarrow> (Inl e, d))"
  by (simp add: db_transaction_def good_call_def tx_run_def tx_apply_def tx_start_def tx_connected_def
      tx_callback_returned_def Let_def split: prod.split sum.split)

theorem migrations_once_witness:
  "\<exists>d'. migrate good_call (\<lambda>s. s) [\<lparr>mg_version = Whole 1, mg_sql = [65]\<rparr>] (migrate_all (\<lambda>s. s) []) = (Inr (), d')
    \<and> md_ledger d' = [(1, [65])]"
proof -
  obtain d' where m: "migrate good_call (\<lambda>s. s) [\<lparr>mg_version = Whole 1, mg_sql = [65]\<rparr>] (migrate_all (\<lambda>s. s) []) = (Inr (), d')"
    by (simp add: migrate_def good_call_runs migrate_tx_def migrate_all_def mg_number_def max_safe_def)
  from migrations_once[OF refl m] m show ?thesis by (auto simp: ledger_of_def mg_number_def)
qed

end
