(* ===== verification/Outbox.thy ===== *)
theory Outbox
  imports Envelope Database "HOL-Library.Product_Lexorder"
begin

text \<open>
  \<open>src/shared/events/postgres/store.ts\<close> with its table \<open>n2f_outbox\<close>: recording events, claiming them
  under leases, acknowledging and releasing. A table is the list of its rows; every statement is a
  function of the rows and of the clock readings it makes (microseconds); \<open>jsonb\<close> is the
  database's cast of text, which fails on what is not an object it can hold.
\<close>

section \<open>Rows\<close>

datatype row_state = Pending | Sent | Dead

record orow =
  or_event :: id
  or_envelope :: str
  or_state :: row_state
  or_attempts :: nat
  or_available :: int
  or_lease :: "id option"
  or_until :: "int option"

text \<open>\<open>UPDATE ... WHERE\<close>.\<close>

definition update_rows :: "('r \<Rightarrow> bool) \<Rightarrow> ('r \<Rightarrow> 'r) \<Rightarrow> 'r list \<Rightarrow> 'r list" where
  "update_rows p f rows = map (\<lambda>r. if p r then f r else r) rows"

definition conflict :: "string \<Rightarrow> failure" where
  "conflict code = fail Conflict ''event delivery conflict'' (''events.'' @ code)"

text \<open>The text of an envelope, and what is read back from a stored text.\<close>

definition env_text :: "envelope \<Rightarrow> str" where
  "env_text e = (case utf8_decode (env_bytes e) of Some s \<Rightarrow> s | None \<Rightarrow> [])"

definition decode_text :: "str \<Rightarrow> envelope result" where
  "decode_text s = env_decode (utf8_encode s)"

section \<open>Inserting\<close>

text \<open>
  \<open>insert\<close>, for either table: the key and the text of a row, and how a new row is made. A text the cast or the
  checks refuse is a database error, which \<open>map\<close> classifies; a known identifier with equal
  content changes nothing and counts as one row, with other content it counts as none.
\<close>

definition insert_row :: "(str \<Rightarrow> 'j option) \<Rightarrow> ('r \<Rightarrow> id) \<Rightarrow> ('r \<Rightarrow> str) \<Rightarrow> (id \<Rightarrow> str \<Rightarrow> 'r) \<Rightarrow> envelope
    \<Rightarrow> 'r list \<Rightarrow> unit result \<times> 'r list" where
  "insert_row jsonb key envelope_of new_row e rows =
     (let text = env_text e in
      if jsonb text = None then (Inl (db_map (DbError (Some (lit ''22P02'')))), rows)
      else (case find (\<lambda>r. key r = en_id e) rows of
          None \<Rightarrow> (Inr (), rows @ [new_row (en_id e) text])
        | Some r \<Rightarrow> if jsonb (envelope_of r) = jsonb text then (Inr (), rows)
            else (Inl (conflict ''id_reused''), rows)))"

definition new_orow :: "int \<Rightarrow> id \<Rightarrow> str \<Rightarrow> orow" where
  "new_orow now i text = \<lparr>or_event = i, or_envelope = text, or_state = Pending, or_attempts = 0,
     or_available = now, or_lease = None, or_until = None\<rparr>"

definition enqueue :: "(str \<Rightarrow> 'j option) \<Rightarrow> int \<Rightarrow> envelope \<Rightarrow> orow list \<Rightarrow> unit result \<times> orow list" where
  "enqueue jsonb now = insert_row jsonb or_event or_envelope (new_orow now)"

section \<open>Claiming\<close>

record lease =
  le_event :: envelope
  le_token :: id
  le_attempt :: nat

definition expired :: "int \<Rightarrow> orow \<Rightarrow> bool" where
  "expired now r = (case or_until r of None \<Rightarrow> True | Some u \<Rightarrow> u \<le> now)"

text \<open>The first statement: five attempts without an acknowledgement are enough.\<close>

definition sweep :: "int \<Rightarrow> orow list \<Rightarrow> orow list" where
  "sweep now = update_rows (\<lambda>r. or_state r = Pending \<and> or_attempts r = 5 \<and> expired now r)
     (\<lambda>r. r\<lparr>or_state := Dead, or_lease := None, or_until := None\<rparr>)"

text \<open>The candidates in the order of the query, without the rows other transactions have locked.\<close>

definition candidates :: "int \<Rightarrow> id list \<Rightarrow> orow list \<Rightarrow> orow list" where
  "candidates now locked rows = sort_key (\<lambda>r. (or_available r, or_event r))
     (filter (\<lambda>r. or_state r = Pending \<and> or_attempts r < 5 \<and> or_available r \<le> now \<and> expired now r
        \<and> or_event r \<notin> set locked) rows)"

definition take_lease :: "int \<Rightarrow> id \<Rightarrow> id \<Rightarrow> orow list \<Rightarrow> orow list" where
  "take_lease now token i = update_rows (\<lambda>r. or_event r = i)
     (\<lambda>r. r\<lparr>or_lease := Some token, or_until := Some (now + 30000000), or_attempts := or_attempts r + 1\<rparr>)"

record claim_args =
  cl_call :: call
  cl_sweep :: int
  cl_select :: int
  cl_stamp :: int
  cl_locked :: "id list"

definition claim_tx :: "claim_args \<Rightarrow> id \<Rightarrow> orow list \<Rightarrow> lease option result \<times> orow list" where
  "claim_tx a token rows =
     (let rows1 = sweep (cl_sweep a) rows in
      case candidates (cl_select a) (cl_locked a) rows1 of
        [] \<Rightarrow> (Inr None, rows1)
      | r # _ \<Rightarrow>
          let rows2 = take_lease (cl_stamp a) (to_lower token) (or_event r) rows1 in
          (case decode_text (or_envelope r) of
             Inl e \<Rightarrow> (Inl e, rows2)
           | Inr ev \<Rightarrow> (Inr (Some \<lparr>le_event = ev, le_token = token, le_attempt = or_attempts r + 1\<rparr>), rows2)))"

definition claim :: "claim_args \<Rightarrow> id \<Rightarrow> orow list \<Rightarrow> lease option result \<times> orow list" where
  "claim a token rows = (case parse (Str token) of Inl e \<Rightarrow> (Inl e, rows)
     | Inr _ \<Rightarrow> db_transaction (cl_call a) (claim_tx a token) rows)"

section \<open>Finishing\<close>

definition held :: "int \<Rightarrow> id \<Rightarrow> id \<Rightarrow> orow \<Rightarrow> bool" where
  "held now i token r \<longleftrightarrow> or_event r = i \<and> or_lease r = Some token \<and> or_state r = Pending
     \<and> (case or_until r of None \<Rightarrow> False | Some u \<Rightarrow> now < u)"

definition finish_row :: "int \<Rightarrow> bool \<Rightarrow> orow \<Rightarrow> orow" where
  "finish_row now success r = r\<lparr>or_state := (if success then Sent else if 5 \<le> or_attempts r then Dead else Pending),
     or_lease := None, or_until := None, or_available := now + 100000\<rparr>"

definition finish_tx :: "int \<Rightarrow> lease \<Rightarrow> bool \<Rightarrow> orow list \<Rightarrow> unit result \<times> orow list" where
  "finish_tx now l success rows =
     (let p = held now (en_id (le_event l)) (to_lower (le_token l)) in
      (if length (filter p rows) = 1 then Inr () else Inl (conflict ''lease_lost''),
       update_rows p (finish_row now success) rows))"

definition finish :: "call \<Rightarrow> int \<Rightarrow> lease \<Rightarrow> bool \<Rightarrow> orow list \<Rightarrow> unit result \<times> orow list" where
  "finish c now l success = db_transaction c (finish_tx now l success)"

definition ack :: "call \<Rightarrow> int \<Rightarrow> lease \<Rightarrow> orow list \<Rightarrow> unit result \<times> orow list" where
  "ack c now l = finish c now l True"

definition release :: "call \<Rightarrow> int \<Rightarrow> lease \<Rightarrow> orow list \<Rightarrow> unit result \<times> orow list" where
  "release c now l = finish c now l False"

section \<open>Dispatching\<close>

record receipt =
  rc_eventId :: id
  rc_durable :: bool

type_synonym publisher = "envelope \<Rightarrow> db_error + receipt result"

definition receipt_of :: "publisher \<Rightarrow> envelope \<Rightarrow> receipt result" where
  "receipt_of publish e = (case publish e of Inl x \<Rightarrow> Inl (db_map x) | Inr r \<Rightarrow> r)"

definition good_receipt :: "receipt result \<Rightarrow> envelope \<Rightarrow> bool" where
  "good_receipt r e = (case r of Inr x \<Rightarrow> rc_durable x \<and> rc_eventId x = en_id e | Inl _ \<Rightarrow> False)"

text \<open>What other transactions do to the table while the event is published is \<open>others\<close>.\<close>

definition dispatch :: "bool \<Rightarrow> claim_args \<Rightarrow> id \<Rightarrow> publisher \<Rightarrow> (orow list \<Rightarrow> orow list) \<Rightarrow> call \<Rightarrow> int
    \<Rightarrow> orow list \<Rightarrow> bool result \<times> orow list" where
  "dispatch aborted a token publish others c now rows =
     (if aborted then (Inl (fail Canceled ''dispatch canceled'' []), rows)
      else case claim a token rows of
        (Inl e, rows1) \<Rightarrow> (Inl e, rows1)
      | (Inr None, rows1) \<Rightarrow> (Inr False, rows1)
      | (Inr (Some l), rows1) \<Rightarrow>
          let receipt = receipt_of publish (le_event l); rows2 = others rows1 in
          if good_receipt receipt (le_event l)
          then (case ack c now l rows2 of (Inl e, rows3) \<Rightarrow> (Inl e, rows3) | (Inr _, rows3) \<Rightarrow> (Inr True, rows3))
          else (case release c now l rows2 of
              (Inl e, rows3) \<Rightarrow> (Inl e, rows3)
            | (Inr _, rows3) \<Rightarrow>
                ((case receipt of Inl e \<Rightarrow> Inl e
                  | Inr _ \<Rightarrow> Inl (fail Unavailable ''publisher receipt invalid'' ''events.invalid_receipt'')), rows3)))"

section \<open>Histories\<close>

text \<open>What happens to an outbox: an event is recorded in the transaction that makes it, claimed, finished.\<close>

datatype ob_event = Enqueue call int envelope | Claim claim_args id | Finish call int lease bool

fun ob_apply :: "(str \<Rightarrow> 'j option) \<Rightarrow> ob_event \<Rightarrow> orow list \<Rightarrow> orow list" where
  "ob_apply jsonb (Enqueue c now e) rows = snd (db_transaction c (enqueue jsonb now e) rows)"
| "ob_apply jsonb (Claim a token) rows = snd (claim a token rows)"
| "ob_apply jsonb (Finish c now l success) rows = snd (finish c now l success rows)"

definition ob_run :: "(str \<Rightarrow> 'j option) \<Rightarrow> ob_event list \<Rightarrow> orow list \<Rightarrow> orow list" where
  "ob_run jsonb es rows = fold (ob_apply jsonb) es rows"

text \<open>An envelope that decodes from its own bytes to itself, as the ones created or decoded do.\<close>

definition env_stable :: "envelope \<Rightarrow> bool" where
  "env_stable e \<longleftrightarrow> env_decode (env_bytes e) = Inr e"

fun ob_stable :: "ob_event \<Rightarrow> bool" where
  "ob_stable (Enqueue c now e) = env_stable e"
| "ob_stable _ = True"

section \<open>Tables\<close>

definition row_at :: "('r \<Rightarrow> id) \<Rightarrow> 'r list \<Rightarrow> id \<Rightarrow> 'r option" where
  "row_at key rows i = find (\<lambda>r. key r = i) rows"

lemma row_at_simps [simp]:
  "row_at key [] i = None" "row_at key (r # rows) i = (if key r = i then Some r else row_at key rows i)"
  by (simp_all add: row_at_def)

lemma row_at_update:
  assumes "\<And>r. key (f r) = key r"
  shows "row_at key (update_rows p f rows) i = map_option (\<lambda>r. if p r then f r else r) (row_at key rows i)"
  using assms by (induction rows) (auto simp: update_rows_def)

lemma row_at_append: "row_at key (xs @ ys) i = (case row_at key xs i of None \<Rightarrow> row_at key ys i | Some r \<Rightarrow> Some r)"
  by (induction xs) auto

lemma row_at_key: "row_at key rows i = Some r \<Longrightarrow> key r = i \<and> r \<in> set rows"
  by (induction rows) (auto split: if_splits)

lemma row_at_mem: "distinct (map key rows) \<Longrightarrow> r \<in> set rows \<Longrightarrow> row_at key rows (key r) = Some r"
  by (induction rows) auto

lemma row_at_None: "row_at key rows i = None \<longleftrightarrow> i \<notin> key ` set rows"
  by (induction rows) auto

lemma update_keys_same: "(\<And>r. key (f r) = key r) \<Longrightarrow> map key (update_rows p f rows) = map key rows"
  by (induction rows) (auto simp: update_rows_def)

lemma update_all: "list_all P rows \<Longrightarrow> (\<And>r. P r \<Longrightarrow> p r \<Longrightarrow> P (f r)) \<Longrightarrow> list_all P (update_rows p f rows)"
  by (induction rows) (auto simp: update_rows_def)

lemma insert_row_cases:
  assumes "insert_row jsonb key envelope_of new_row e rows = (r, rows')"
  shows "rows' = rows \<or> r = Inr () \<and> row_at key rows (en_id e) = None \<and> rows' = rows @ [new_row (en_id e) (env_text e)]"
  using assms by (auto simp: insert_row_def Let_def row_at_def split: if_splits option.splits)

lemma env_stable_text:
  assumes "env_stable e" shows "decode_text (env_text e) = Inr e"
proof -
  obtain w where "env_read w = Some e" using assms by (auto simp: env_stable_def decode_Inr)
  then obtain j where "env_bytes e = utf8_encode (stringify j)"
    unfolding env_read_Some env_bytes_def by (auto simp del: stringify.simps)
  then show ?thesis using assms json_bytes[of j] by (simp add: env_stable_def decode_text_def env_text_def)
qed

section \<open>The invariant\<close>

text \<open>The checks of the table, and that only pending rows are leased, after at least one attempt.\<close>

definition row_ok :: "orow \<Rightarrow> bool" where
  "row_ok r \<longleftrightarrow> or_attempts r \<le> 5 \<and> (or_lease r = None \<longleftrightarrow> or_until r = None)
     \<and> (or_lease r \<noteq> None \<longrightarrow> or_state r = Pending \<and> 0 < or_attempts r)"

definition text_ok :: "orow \<Rightarrow> bool" where
  "text_ok r \<longleftrightarrow> (\<forall>e. decode_text (or_envelope r) = Inr e \<longrightarrow> en_id e = or_event r)"

definition ob_inv :: "orow list \<Rightarrow> bool" where
  "ob_inv rows \<longleftrightarrow> distinct (map or_event rows) \<and> list_all (\<lambda>r. row_ok r \<and> text_ok r) rows"

lemma ob_inv_update:
  assumes "ob_inv rows" "\<And>r. or_event (f r) = or_event r" "\<And>r. or_envelope (f r) = or_envelope r"
    "\<And>r. row_ok r \<Longrightarrow> p r \<Longrightarrow> row_ok (f r)"
  shows "ob_inv (update_rows p f rows)"
  unfolding ob_inv_def
proof
  show "distinct (map or_event (update_rows p f rows))"
    using assms(1) update_keys_same[of or_event f p rows] assms(2) by (simp add: ob_inv_def)
  show "list_all (\<lambda>r. row_ok r \<and> text_ok r) (update_rows p f rows)"
    using assms by (intro update_all) (auto simp: ob_inv_def text_ok_def)
qed

lemma sweep_inv: "ob_inv rows \<Longrightarrow> ob_inv (sweep now rows)"
  unfolding sweep_def by (rule ob_inv_update) (auto simp: row_ok_def)

lemma candidates_mem:
  "candidates now locked rows = r # rs \<Longrightarrow> r \<in> set rows \<and> or_state r = Pending \<and> or_attempts r < 5
     \<and> or_available r \<le> now \<and> expired now r \<and> or_event r \<notin> set locked"
proof -
  assume "candidates now locked rows = r # rs"
  then have "r \<in> set (candidates now locked rows)" by simp
  then show ?thesis by (simp add: candidates_def)
qed

lemma take_lease_inv:
  assumes "ob_inv rows" "r \<in> set rows" "or_state r = Pending" "or_attempts r < 5"
  shows "ob_inv (take_lease now token (or_event r) rows)"
proof -
  have "r' = r" if "r' \<in> set rows" "or_event r' = or_event r" for r'
  proof -
    have d: "distinct (map or_event rows)" using assms(1) by (simp add: ob_inv_def)
    have "Some r' = Some r"
      unfolding row_at_mem[OF d that(1), symmetric] row_at_mem[OF d assms(2), symmetric] that(2) ..
    then show ?thesis by simp
  qed
  then have e: "take_lease now token (or_event r) rows = update_rows (\<lambda>r'. r' = r)
      (\<lambda>r. r\<lparr>or_lease := Some token, or_until := Some (now + 30000000), or_attempts := or_attempts r + 1\<rparr>) rows"
    by (auto simp: take_lease_def update_rows_def)
  show ?thesis unfolding e by (rule ob_inv_update) (use assms in \<open>auto simp: row_ok_def\<close>)
qed

lemma claim_tx_inv: "ob_inv rows \<Longrightarrow> ob_inv (snd (claim_tx a token rows))"
  using sweep_inv[of rows "cl_sweep a"] candidates_mem take_lease_inv
  by (auto simp: claim_tx_def Let_def split: list.split sum.split)

lemma finish_tx_inv: "ob_inv rows \<Longrightarrow> ob_inv (snd (finish_tx now l success rows))"
  unfolding finish_tx_def Let_def snd_conv by (rule ob_inv_update) (auto simp: finish_row_def row_ok_def)

lemma enqueue_inv: "ob_inv rows \<Longrightarrow> env_stable e \<Longrightarrow> ob_inv (snd (enqueue jsonb now e rows))"
proof -
  assume a: "ob_inv rows" "env_stable e"
  obtain r rows' where e: "enqueue jsonb now e rows = (r, rows')" by fastforce
  from insert_row_cases[OF e[unfolded enqueue_def]] show ?thesis
    using a e env_stable_text[OF a(2)]
    by (auto simp: ob_inv_def row_at_None new_orow_def row_ok_def text_ok_def)
qed

lemma ob_apply_inv: "ob_inv rows \<Longrightarrow> ob_stable e \<Longrightarrow> ob_inv (ob_apply jsonb e rows)"
proof (cases e)
  case (Enqueue c now ev)
  assume "ob_inv rows" "ob_stable e"
  then show ?thesis
    using Enqueue db.run_keeps_snd[of ob_inv rows "enqueue jsonb now ev" c] enqueue_inv[of rows ev jsonb now] by simp
next
  case (Claim a token)
  assume "ob_inv rows"
  then show ?thesis
    using Claim db.run_keeps_snd[of ob_inv rows "claim_tx a token" "cl_call a"] claim_tx_inv[of rows a token]
    by (simp add: claim_def split: sum.split)
next
  case (Finish c now l success)
  assume "ob_inv rows"
  then show ?thesis
    using Finish db.run_keeps_snd[of ob_inv rows "finish_tx now l success" c] finish_tx_inv[of rows now l success]
    by (simp add: finish_def)
qed

lemma ob_run_inv: "ob_inv rows \<Longrightarrow> list_all ob_stable es \<Longrightarrow> ob_inv (ob_run jsonb es rows)"
  unfolding ob_run_def by (induction es arbitrary: rows) (auto simp: ob_apply_inv)

lemma ob_inv_Nil [simp]: "ob_inv []"
  by (simp add: ob_inv_def)

section \<open>Leases\<close>

text \<open>The rows of a table by their identifier.\<close>

abbreviation orow_at :: "orow list \<Rightarrow> id \<Rightarrow> orow option" where
  "orow_at \<equiv> row_at or_event"

lemma orow_unique: "ob_inv rows \<Longrightarrow> r \<in> set rows \<Longrightarrow> orow_at rows (or_event r) = Some r"
  by (rule row_at_mem) (simp_all add: ob_inv_def)

lemma orow_sweep: "orow_at (sweep now rows) i = map_option (\<lambda>r.
    if or_state r = Pending \<and> or_attempts r = 5 \<and> expired now r
    then r\<lparr>or_state := Dead, or_lease := None, or_until := None\<rparr> else r) (orow_at rows i)"
  unfolding sweep_def by (rule row_at_update) simp

lemma orow_lease: "orow_at (take_lease now token j rows) i = map_option (\<lambda>r. if or_event r = j
    then r\<lparr>or_lease := Some token, or_until := Some (now + 30000000), or_attempts := or_attempts r + 1\<rparr> else r)
    (orow_at rows i)"
  unfolding take_lease_def by (rule row_at_update) simp

lemma orow_finish: "orow_at (snd (finish_tx now l success rows)) i = map_option (\<lambda>r.
    if held now (en_id (le_event l)) (to_lower (le_token l)) r then finish_row now success r else r) (orow_at rows i)"
  unfolding finish_tx_def Let_def snd_conv by (rule row_at_update) (simp add: finish_row_def)

lemma orow_enqueue: "orow_at rows i = Some r \<Longrightarrow> orow_at (snd (enqueue jsonb now e rows)) i = Some r"
proof -
  assume a: "orow_at rows i = Some r"
  obtain x rows' where e: "enqueue jsonb now e rows = (x, rows')" by fastforce
  from insert_row_cases[OF e[unfolded enqueue_def]] show ?thesis
    using a e by (auto simp: row_at_append)
qed

text \<open>What the statement of a claim did: nothing but the sweep, or one candidate leased.\<close>

lemma claim_tx_cases:
  assumes "ob_inv rows"
  obtains "fst (claim_tx a token rows) = Inr None" "snd (claim_tx a token rows) = sweep (cl_sweep a) rows"
  | r where "orow_at (sweep (cl_sweep a) rows) (or_event r) = Some r" "or_state r = Pending" "or_attempts r < 5"
      "expired (cl_select a) r" "row_ok r" "text_ok r"
      "snd (claim_tx a token rows) = take_lease (cl_stamp a) (to_lower token) (or_event r) (sweep (cl_sweep a) rows)"
      "\<And>l. fst (claim_tx a token rows) = Inr (Some l) \<Longrightarrow> en_id (le_event l) = or_event r \<and> le_token l = token
         \<and> le_attempt l = or_attempts r + 1"
proof (cases "candidates (cl_select a) (cl_locked a) (sweep (cl_sweep a) rows)")
  case Nil
  then show ?thesis using that(1) by (simp add: claim_tx_def Let_def)
next
  case (Cons r rs)
  note inv = sweep_inv[OF assms, of "cl_sweep a"]
  note m = candidates_mem[OF Cons]
  have ok: "row_ok r" "text_ok r" using inv m by (auto simp: ob_inv_def list_all_iff)
  show ?thesis
  proof (rule that(2)[of r])
    show "orow_at (sweep (cl_sweep a) rows) (or_event r) = Some r" using orow_unique[OF inv] m by blast
    show "snd (claim_tx a token rows) = take_lease (cl_stamp a) (to_lower token) (or_event r) (sweep (cl_sweep a) rows)"
      using Cons by (simp add: claim_tx_def Let_def split: sum.split)
    show "en_id (le_event l) = or_event r \<and> le_token l = token \<and> le_attempt l = or_attempts r + 1"
      if "fst (claim_tx a token rows) = Inr (Some l)" for l
      using that Cons ok(2) by (auto simp: claim_tx_def Let_def text_ok_def split: sum.splits)
  qed (use m ok in auto)
qed

lemma claim_Some:
  assumes "claim a token rows = (Inr (Some l), rows')"
  shows "claim_tx a token rows = (Inr (Some l), rows')"
  using assms db.run_ok by (auto simp: claim_def split: sum.splits)

lemma claim_snd:
  assumes "P rows" "P (snd (claim_tx a token rows))" shows "P (snd (claim a token rows))"
  using assms db.run_keeps_snd[of P rows "claim_tx a token" "cl_call a"] by (simp add: claim_def split: sum.split)

definition leased :: "int \<Rightarrow> id \<Rightarrow> id \<Rightarrow> orow list \<Rightarrow> bool" where
  "leased until i token rows \<longleftrightarrow> (case orow_at rows i of None \<Rightarrow> False
     | Some r \<Rightarrow> or_state r = Pending \<and> or_lease r = Some token \<and> or_until r = Some until)"

text \<open>
  An event that leaves a lease alone: a claim that reads the clock before the lease ends, and a finish
  of another event or with another token.
\<close>

fun quiet :: "int \<Rightarrow> id \<Rightarrow> id \<Rightarrow> ob_event \<Rightarrow> bool" where
  "quiet until i token (Enqueue c now e) = True"
| "quiet until i token (Claim a token') = (cl_sweep a < until \<and> cl_select a < until)"
| "quiet until i token (Finish c now l success) = (\<not> (en_id (le_event l) = i \<and> to_lower (le_token l) = token))"

lemma leased_sweep: "leased until i token rows \<Longrightarrow> now < until \<Longrightarrow> leased until i token (sweep now rows)"
  by (auto simp: leased_def orow_sweep expired_def split: option.splits)

lemma claim_not_leased:
  assumes "ob_inv rows" "leased until i token rows" "cl_sweep a < until" "cl_select a < until"
    and "orow_at (sweep (cl_sweep a) rows) (or_event r) = Some r" "expired (cl_select a) r"
  shows "or_event r \<noteq> i"
  using leased_sweep[OF assms(2,3)] assms(4-6) by (auto simp: leased_def expired_def split: option.splits)

lemma leased_claim:
  assumes "ob_inv rows" "leased until i token rows" "cl_sweep a < until" "cl_select a < until"
  shows "leased until i token (snd (claim_tx a token' rows))"
  using assms(1)
proof (cases rule: claim_tx_cases[of rows a token'])
  case 1
  then show ?thesis using leased_sweep assms by simp
next
  case (2 r)
  have "or_event r \<noteq> i" by (rule claim_not_leased[OF assms 2(1,4)])
  then show ?thesis
    using leased_sweep[OF assms(2,3)] 2(7) by (auto simp: leased_def orow_lease dest: row_at_key split: option.splits)
qed

lemma leased_apply:
  assumes "ob_inv rows" "leased until i token rows" "quiet until i token e"
  shows "leased until i token (ob_apply jsonb e rows)"
proof (cases e)
  case (Enqueue c now ev)
  have "leased until i token (snd (enqueue jsonb now ev rows))"
    using assms(2) orow_enqueue[of rows i _ jsonb now ev] by (auto simp: leased_def split: option.splits)
  then show ?thesis using Enqueue db.run_keeps_snd[of "leased until i token" rows "enqueue jsonb now ev" c] assms(2) by simp
next
  case (Claim a token')
  then show ?thesis using claim_snd[of "leased until i token"] leased_claim assms by simp
next
  case (Finish c now l success)
  have "leased until i token (snd (finish_tx now l success rows))"
    using assms(2,3) Finish by (auto simp: leased_def orow_finish held_def split: option.splits dest: row_at_key)
  then show ?thesis using Finish db.run_keeps_snd[of "leased until i token" rows "finish_tx now l success" c] assms(2)
    by (simp add: finish_def)
qed

lemma leased_run:
  "ob_inv rows \<Longrightarrow> leased until i token rows \<Longrightarrow> list_all ob_stable es \<Longrightarrow> list_all (quiet until i token) es
    \<Longrightarrow> leased until i token (ob_run jsonb es rows)"
  unfolding ob_run_def by (induction es arbitrary: rows) (auto simp: ob_apply_inv leased_apply)

lemma claim_leases:
  assumes "ob_inv rows" "claim a token rows = (Inr (Some l), rows')"
  shows "leased (cl_stamp a + 30000000) (en_id (le_event l)) (to_lower token) rows' \<and> le_token l = token"
proof -
  have t: "claim_tx a token rows = (Inr (Some l), rows')" by (rule claim_Some[OF assms(2)])
  from assms(1) show ?thesis
  proof (cases rule: claim_tx_cases[of rows a token])
    case 1
    then show ?thesis using t by simp
  next
    case (2 r)
    then show ?thesis using t by (simp add: leased_def orow_lease)
  qed
qed

section \<open>Attempts\<close>

definition attempts_at :: "id \<Rightarrow> orow list \<Rightarrow> nat" where
  "attempts_at i rows = (case orow_at rows i of None \<Rightarrow> 0 | Some r \<Rightarrow> or_attempts r)"

text \<open>How many claims of a history were answered with the event \<open>i\<close>.\<close>

fun claim_answers :: "id \<Rightarrow> ob_event \<Rightarrow> orow list \<Rightarrow> nat" where
  "claim_answers i (Claim a token) rows = (case fst (claim a token rows) of
     Inr (Some l) \<Rightarrow> if en_id (le_event l) = i then 1 else 0 | _ \<Rightarrow> 0)"
| "claim_answers i e rows = 0"

fun claims_answered :: "(str \<Rightarrow> 'j option) \<Rightarrow> id \<Rightarrow> ob_event list \<Rightarrow> orow list \<Rightarrow> nat" where
  "claims_answered jsonb i [] rows = 0"
| "claims_answered jsonb i (e # es) rows = claim_answers i e rows + claims_answered jsonb i es (ob_apply jsonb e rows)"

lemma attempts_sweep [simp]: "attempts_at i (sweep now rows) = attempts_at i rows"
  by (auto simp: attempts_at_def orow_sweep split: option.split)

lemma attempts_claim_tx:
  assumes "ob_inv rows"
  shows "attempts_at i rows \<le> attempts_at i (snd (claim_tx a token rows))
    \<and> (\<forall>l. fst (claim_tx a token rows) = Inr (Some l) \<and> en_id (le_event l) = i
         \<longrightarrow> attempts_at i (snd (claim_tx a token rows)) = Suc (attempts_at i rows))"
  using assms
proof (cases rule: claim_tx_cases[of rows a token])
  case 1
  then show ?thesis by simp
next
  case (2 r)
  have m: "attempts_at i (snd (claim_tx a token rows)) = (if i = or_event r then Suc (attempts_at i rows) else attempts_at i rows)"
    using 2(1,7) attempts_sweep[of i "cl_sweep a" rows, symmetric]
    by (auto simp: attempts_at_def orow_lease split: option.split dest: row_at_key)
  then show ?thesis using 2(8) by auto
qed

lemma attempts_apply:
  assumes "ob_inv rows"
  shows "claim_answers i e rows + attempts_at i rows \<le> attempts_at i (ob_apply jsonb e rows)"
proof (cases e)
  case (Enqueue c now ev)
  have "attempts_at i rows \<le> attempts_at i (snd (enqueue jsonb now ev rows))"
    using orow_enqueue[of rows i _ jsonb now ev] by (auto simp: attempts_at_def split: option.split)
  then show ?thesis
    using Enqueue db.run_keeps_snd[of "\<lambda>x. attempts_at i rows \<le> attempts_at i x" rows "enqueue jsonb now ev" c] by simp
next
  case (Claim a token)
  note t = attempts_claim_tx[OF assms, of i a token]
  have m: "attempts_at i rows \<le> attempts_at i (snd (claim a token rows))"
    using claim_snd[of "\<lambda>x. attempts_at i rows \<le> attempts_at i x"] t by simp
  show ?thesis
  proof (cases "\<exists>l. fst (claim a token rows) = Inr (Some l) \<and> en_id (le_event l) = i")
    case True
    then obtain l rows' where l: "claim a token rows = (Inr (Some l), rows')" "en_id (le_event l) = i"
      by (metis fst_conv surj_pair)
    then show ?thesis using Claim t claim_Some[OF l(1)] by simp
  qed (use Claim m in \<open>auto split: sum.split option.split\<close>)
next
  case (Finish c now l success)
  have "attempts_at i rows = attempts_at i (snd (finish_tx now l success rows))"
    by (auto simp: attempts_at_def orow_finish finish_row_def split: option.split)
  then show ?thesis
    using Finish db.run_keeps_snd[of "\<lambda>x. attempts_at i rows \<le> attempts_at i x" rows "finish_tx now l success" c]
    by (simp add: finish_def)
qed

lemma attempts_run:
  "ob_inv rows \<Longrightarrow> list_all ob_stable es
    \<Longrightarrow> claims_answered jsonb i es rows + attempts_at i rows \<le> attempts_at i (ob_run jsonb es rows)"
proof (induction es arbitrary: rows)
  case (Cons e es)
  have "claims_answered jsonb i es (ob_apply jsonb e rows) + attempts_at i (ob_apply jsonb e rows)
      \<le> attempts_at i (ob_run jsonb (e # es) rows)"
    using Cons.IH[of "ob_apply jsonb e rows"] Cons.prems ob_apply_inv[of rows e jsonb] by (simp add: ob_run_def)
  then show ?case using attempts_apply[OF Cons.prems(1), of i e jsonb] by simp
qed (simp add: ob_run_def)

lemma attempts_le: "ob_inv rows \<Longrightarrow> attempts_at i rows \<le> 5"
  using row_at_key[of or_event rows i] by (auto simp: attempts_at_def ob_inv_def row_ok_def list_all_iff split: option.split)

section \<open>Sent rows\<close>

definition sent_at :: "id \<Rightarrow> orow list \<Rightarrow> bool" where
  "sent_at i rows \<longleftrightarrow> (case orow_at rows i of None \<Rightarrow> False | Some r \<Rightarrow> or_state r = Sent)"

lemma final_claim_tx:
  assumes "ob_inv rows" "orow_at rows i = Some x" "or_state x \<noteq> Pending"
  shows "orow_at (snd (claim_tx a token rows)) i = Some x"
  using assms(1)
proof (cases rule: claim_tx_cases[of rows a token])
  case (2 r)
  have "orow_at (sweep (cl_sweep a) rows) i = Some x" using assms by (simp add: orow_sweep)
  moreover from this have "or_event x \<noteq> or_event r" using 2(1,2) assms(3) row_at_key[of or_event _ i x] by auto
  ultimately show ?thesis using 2(7) by (simp add: orow_lease)
qed (use assms in \<open>simp add: orow_sweep\<close>)

lemma final_apply:
  assumes "ob_inv rows" "orow_at rows i = Some x" "or_state x \<noteq> Pending"
  shows "orow_at (ob_apply jsonb e rows) i = Some x"
proof (cases e)
  case (Enqueue c now ev)
  then show ?thesis
    using db.run_keeps_snd[of "\<lambda>t. orow_at t i = Some x" rows "enqueue jsonb now ev" c]
      orow_enqueue[OF assms(2), of jsonb now ev] assms(2) by simp
next
  case (Claim a token)
  then show ?thesis using claim_snd[of "\<lambda>t. orow_at t i = Some x"] final_claim_tx assms by simp
next
  case (Finish c now l success)
  have "orow_at (snd (finish_tx now l success rows)) i = Some x" using assms by (auto simp: orow_finish held_def)
  then show ?thesis
    using Finish db.run_keeps_snd[of "\<lambda>t. orow_at t i = Some x" rows "finish_tx now l success" c] assms(2)
    by (simp add: finish_def)
qed

lemma final_run:
  "ob_inv rows \<Longrightarrow> list_all ob_stable es \<Longrightarrow> orow_at rows i = Some x \<Longrightarrow> or_state x \<noteq> Pending
    \<Longrightarrow> orow_at (ob_run jsonb es rows) i = Some x"
  unfolding ob_run_def by (induction es arbitrary: rows) (auto simp: ob_apply_inv final_apply)

lemma sent_claim:
  assumes "ob_inv rows" "\<not> sent_at i rows" shows "\<not> sent_at i (snd (claim a token rows))"
proof (rule claim_snd[of "\<lambda>t. \<not> sent_at i t"])
  have s: "\<not> sent_at i (sweep (cl_sweep a) rows)"
    using assms(2) by (auto simp: sent_at_def orow_sweep split: option.splits)
  from assms(1) show "\<not> sent_at i (snd (claim_tx a token rows))"
  proof (cases rule: claim_tx_cases[of rows a token])
    case (2 r)
    then show ?thesis using s by (auto simp: sent_at_def orow_lease split: option.splits)
  qed (use s in simp)
qed (rule assms(2))

text \<open>Only an acknowledgement of the event makes its row sent.\<close>

fun acks :: "id \<Rightarrow> ob_event \<Rightarrow> bool" where
  "acks i (Finish c now l success) = (success \<and> en_id (le_event l) = i)"
| "acks i _ = False"

lemma sent_finish_tx:
  "\<not> sent_at i rows \<Longrightarrow> sent_at i (snd (finish_tx now l success rows)) \<Longrightarrow> success \<and> en_id (le_event l) = i"
  by (auto simp: sent_at_def orow_finish finish_row_def held_def split: option.splits if_splits dest: row_at_key)

lemma sent_apply:
  assumes "ob_inv rows" "\<not> sent_at i rows" "\<not> acks i e" shows "\<not> sent_at i (ob_apply jsonb e rows)"
proof (cases e)
  case (Enqueue c now ev)
  obtain x rows' where e: "enqueue jsonb now ev rows = (x, rows')" by fastforce
  have "\<not> sent_at i (snd (enqueue jsonb now ev rows))"
    using insert_row_cases[OF e[unfolded enqueue_def]] assms(2) e
    by (auto simp: sent_at_def row_at_append new_orow_def split: option.splits if_splits)
  then show ?thesis
    using Enqueue db.run_keeps_snd[of "\<lambda>t. \<not> sent_at i t" rows "enqueue jsonb now ev" c] assms(2) by simp
next
  case (Claim a token)
  then show ?thesis using sent_claim assms by simp
next
  case (Finish c now l success)
  have "\<not> sent_at i (snd (finish_tx now l success rows))" 
    using sent_finish_tx[OF assms(2), of now l success] assms(3) Finish by auto
  then show ?thesis
    using Finish db.run_keeps_snd[of "\<lambda>t. \<not> sent_at i t" rows "finish_tx now l success" c] assms(2)
    by (simp add: finish_def)
qed

lemma sent_run:
  "ob_inv rows \<Longrightarrow> list_all ob_stable es \<Longrightarrow> \<not> sent_at i rows \<Longrightarrow> list_all (\<lambda>e. \<not> acks i e) es
    \<Longrightarrow> \<not> sent_at i (ob_run jsonb es rows)"
  unfolding ob_run_def by (induction es arbitrary: rows) (auto simp: ob_apply_inv sent_apply)

lemma ack_sends:
  assumes "ob_inv rows" "ack c now l rows = (Inr u, rows')" shows "sent_at (en_id (le_event l)) rows'"
proof -
  have f: "finish_tx now l True rows = (Inr u, rows')" using assms(2) db.run_ok by (simp add: ack_def finish_def)
  define p where "p = held now (en_id (le_event l)) (to_lower (le_token l))"
  have "length (filter p rows) = 1" using f by (auto simp: finish_tx_def p_def Let_def split: if_splits)
  then have "filter p rows \<noteq> []" by auto
  then obtain r where "r \<in> set (filter p rows)" by (cases "filter p rows") auto
  then have r: "r \<in> set rows" "p r" by auto
  have "orow_at rows (en_id (le_event l)) = Some r"
    using orow_unique[OF assms(1) r(1)] r(2) by (simp add: p_def held_def)
  then show ?thesis
    using orow_finish[of now l True rows "en_id (le_event l)"] f r(2)
    by (simp add: sent_at_def p_def finish_row_def)
qed

section \<open>Properties\<close>

text \<open>
  After any history of recording, claiming, acknowledging and releasing, interrupted and uncertain
  transactions included, the outbox satisfies the checks of its table, leases only pending rows, and a row
  that is sent or dead never changes again.
\<close>

lemma outbox_sound:
  assumes "list_all ob_stable es" "list_all ob_stable es'"
  shows "ob_inv (ob_run jsonb es [])
    \<and> (\<forall>i r. orow_at (ob_run jsonb es []) i = Some r \<and> or_state r \<noteq> Pending
        \<longrightarrow> orow_at (ob_run jsonb es' (ob_run jsonb es [])) i = Some r)"
  using ob_run_inv[OF ob_inv_Nil assms(1), of jsonb] final_run[OF _ assms(2)] by blast

text \<open>
  C2: a lease excludes. Once a claim has answered with an event, no other claim answers with the same event
  while the lease lasts and its owner has not finished it, whatever else happens to the outbox.
\<close>

theorem lease_excludes:
  assumes "ob_inv rows" "claim a token rows = (Inr (Some l), rows1)"
    and "list_all ob_stable es" "list_all (quiet (cl_stamp a + 30000000) (en_id (le_event l)) (to_lower token)) es"
    and "claim a' token' (ob_run jsonb es rows1) = (Inr (Some l'), rows2)"
    and "cl_sweep a' < cl_stamp a + 30000000" "cl_select a' < cl_stamp a + 30000000"
  shows "en_id (le_event l') \<noteq> en_id (le_event l)"
proof -
  have i1: "ob_inv rows1" using ob_apply_inv[OF assms(1), of "Claim a token"] assms(2) by simp
  have i2: "ob_inv (ob_run jsonb es rows1)" by (rule ob_run_inv[OF i1 assms(3)])
  have le: "leased (cl_stamp a + 30000000) (en_id (le_event l)) (to_lower token) (ob_run jsonb es rows1)"
    by (rule leased_run[OF i1 conjunct1[OF claim_leases[OF assms(1,2)]] assms(3,4)])
  from i2 show ?thesis
  proof (cases rule: claim_tx_cases[of "ob_run jsonb es rows1" a' token'])
    case 1
    then show ?thesis using claim_Some[OF assms(5)] by simp
  next
    case (2 r)
    then show ?thesis using claim_Some[OF assms(5)] claim_not_leased[OF i2 le assms(6,7) 2(1,4)] by simp
  qed
qed

text \<open>
  C7: an event is given out at most five times in the whole life of the outbox, whatever happens to
  the transactions and to the leases.
\<close>

theorem at_most_five_claims:
  assumes "list_all ob_stable es" shows "claims_answered jsonb i es [] \<le> 5"
  using attempts_run[OF ob_inv_Nil assms, of jsonb i] attempts_le[OF ob_run_inv[OF ob_inv_Nil assms], of i jsonb]
  by linarith

lemma dispatch_receipt:
  assumes "ob_inv rows" "list_all ob_stable es"
    and "dispatch aborted a token publish (ob_run jsonb es) c now rows = (r, rows')"
  shows "(r = Inr True \<longrightarrow> (\<exists>e. sent_at (en_id e) rows' \<and> good_receipt (receipt_of publish e) e))
    \<and> (\<forall>i. sent_at i rows' \<and> \<not> sent_at i rows \<and> list_all (\<lambda>x. \<not> acks i x) es
        \<longrightarrow> (\<exists>e. en_id e = i \<and> good_receipt (receipt_of publish e) e))"
proof (cases "aborted \<or> (\<forall>l rows1. claim a token rows \<noteq> (Inr (Some l), rows1))")
  case True
  then have "r \<noteq> Inr True \<and> (rows' = rows \<or> rows' = snd (claim a token rows))"
    using assms(3) by (auto simp: dispatch_def split: if_splits sum.splits option.splits prod.splits)
  then show ?thesis using sent_claim[OF assms(1)] by auto
next
  case False
  then obtain l rows1 where c: "\<not> aborted" "claim a token rows = (Inr (Some l), rows1)" by blast
  define e where "e = le_event l"
  define rows2 where "rows2 = ob_run jsonb es rows1"
  have i1: "ob_inv rows1" using ob_apply_inv[OF assms(1), of "Claim a token"] c(2) by simp
  have i2: "ob_inv rows2" unfolding rows2_def by (rule ob_run_inv[OF i1 assms(2)])
  have n2: "\<not> sent_at i rows2" if "\<not> sent_at i rows" "list_all (\<lambda>x. \<not> acks i x) es" for i
    unfolding rows2_def
    by (rule sent_run[OF i1 assms(2) _ that(2)]) (use sent_claim[OF assms(1) that(1), of a token] c(2) in simp)
  show ?thesis
  proof (cases "good_receipt (receipt_of publish e) e")
    case True
    have d: "rows' = snd (ack c now l rows2) \<and> (r = Inr True \<longrightarrow> fst (ack c now l rows2) = Inr ())"
      using assms(3) c True by (auto simp: dispatch_def e_def rows2_def Let_def split: prod.splits sum.splits)
    have "i = en_id e" if "sent_at i rows'" "\<not> sent_at i rows2" for i
      using sent_apply[OF i2 that(2), of "Finish c now l True" jsonb] d that(1) by (auto simp: ack_def e_def)
    moreover have "sent_at (en_id e) rows'" if "r = Inr True"
      using ack_sends[OF i2, of c now l "()" rows'] d that by (auto simp: e_def prod_eq_iff)
    ultimately show ?thesis using n2 True by blast
  next
    case nr: False
    have d: "rows' = snd (release c now l rows2) \<and> r \<noteq> Inr True"
      using assms(3) c nr by (auto simp: dispatch_def e_def rows2_def Let_def split: prod.splits sum.splits)
    have "\<not> sent_at i rows'" if "\<not> sent_at i rows2" for i
      using sent_apply[OF i2 that, of "Finish c now l False" jsonb] d by (simp add: release_def)
    then show ?thesis using n2 d by blast
  qed
qed

text \<open>
  C6: dispatching is honest. It answers true only when the row of an event is sent and the publisher gave
  a durable receipt for that very event, and no row becomes sent during a dispatch without such a
  receipt or an acknowledgement by someone else.
\<close>

theorem dispatch_honest:
  assumes "ob_inv rows" "list_all ob_stable es"
    and "dispatch aborted a token publish (ob_run jsonb es) c now rows = (r, rows')"
  shows "(r = Inr True \<longrightarrow> (\<exists>e. sent_at (en_id e) rows' \<and> good_receipt (receipt_of publish e) e))
    \<and> (\<forall>i. sent_at i rows' \<and> \<not> sent_at i rows \<and> list_all (\<lambda>x. \<not> acks i x) es
        \<longrightarrow> (\<exists>e. en_id e = i \<and> good_receipt (receipt_of publish e) e))"
  by (rule dispatch_receipt[OF assms])

section \<open>Witnesses\<close>

text \<open>Two recorded events, and claims at given times on which nothing goes wrong.\<close>

definition claim_at :: "int \<Rightarrow> claim_args" where
  "claim_at t = \<lparr>cl_call = good_call, cl_sweep = t, cl_select = t, cl_stamp = t, cl_locked = []\<rparr>"

definition two_events :: "ob_event list" where
  "two_events = [Enqueue good_call 5 (sample_envelope 8), Enqueue good_call 6 (sample_envelope 9)]"

definition sample_rows :: "orow list" where
  "sample_rows = [new_orow 5 (sid 8) (env_text (sample_envelope 8)), new_orow 6 (sid 9) (env_text (sample_envelope 9))]"

lemma sample_stable: "k < 4096 \<Longrightarrow> env_stable (sample_envelope k)"
  using sample_decodes[of k] by (simp add: env_stable_def env_bytes_def sample_envelope_def)

lemma two_events_run: "ob_run Some two_events [] = sample_rows"
  by (simp add: ob_run_def two_events_def sample_rows_def good_call_runs enqueue_def insert_row_def Let_def
      sample_envelope_def new_orow_def sid_neq)

lemma two_events_stable: "list_all ob_stable two_events"
  by (simp add: two_events_def sample_stable)

lemma sample_rows_inv: "ob_inv sample_rows"
  using ob_run_inv[OF ob_inv_Nil two_events_stable, of Some] by (simp add: two_events_run)

lemma sid_lower: "k < 4096 \<Longrightarrow> to_lower (sid k) = sid k"
  using sid_valid[of k] by (simp add: validID_iff)

lemma sample_text: "k < 4096 \<Longrightarrow> decode_text (env_text (sample_envelope k)) = Inr (sample_envelope k)"
  by (rule env_stable_text[OF sample_stable])

definition rows_after :: "orow list" where
  "rows_after = take_lease 10 (sid 4) (sid 8) sample_rows"

lemma first_claim:
  "claim (claim_at 10) (sid 4) sample_rows
     = (Inr (Some \<lparr>le_event = sample_envelope 8, le_token = sid 4, le_attempt = 1\<rparr>), rows_after)"
  by (simp add: claim_def parse_validID sid_valid claim_at_def good_call_runs claim_tx_def Let_def sweep_def update_rows_def
      sample_rows_def new_orow_def candidates_def expired_def sid_lower sample_text rows_after_def)

lemma second_claim:
  "\<exists>rows. claim (claim_at 20) (sid 2) rows_after
     = (Inr (Some \<lparr>le_event = sample_envelope 9, le_token = sid 2, le_attempt = 1\<rparr>), rows)"
  by (simp add: claim_def parse_validID sid_valid claim_at_def good_call_runs claim_tx_def Let_def sweep_def update_rows_def
      sample_rows_def new_orow_def candidates_def expired_def sid_lower sample_text rows_after_def take_lease_def sid_neq)

lemma first_ack:
  "\<exists>rows. ack good_call 11 \<lparr>le_event = sample_envelope 8, le_token = sid 4, le_attempt = 1\<rparr> rows_after = (Inr (), rows)"
  by (simp add: ack_def finish_def good_call_runs finish_tx_def Let_def rows_after_def take_lease_def update_rows_def
      sample_rows_def new_orow_def held_def sid_lower sample_envelope_def sid_neq)

lemma outbox_sound_witness: "ob_inv sample_rows"
  using outbox_sound[OF two_events_stable, of "[]" Some] by (simp add: two_events_run)

theorem lease_excludes_witness:
  "en_id (sample_envelope 9) \<noteq> en_id (sample_envelope 8)"
proof -
  obtain rows where "claim (claim_at 20) (sid 2) (ob_run Some [] rows_after)
     = (Inr (Some \<lparr>le_event = sample_envelope 9, le_token = sid 2, le_attempt = 1\<rparr>), rows)"
    using second_claim by (auto simp: ob_run_def)
  from lease_excludes[OF sample_rows_inv first_claim _ _ this] show ?thesis
    by (simp add: claim_at_def)
qed

theorem at_most_five_claims_witness:
  "claims_answered Some (sid 8) (two_events @ [Claim (claim_at 10) (sid 4)]) [] \<le> 5"
  by (rule at_most_five_claims) (simp add: two_events_stable)

theorem dispatch_honest_witness:
  "\<exists>rows'. dispatch False (claim_at 10) (sid 4) (\<lambda>e. Inr (Inr \<lparr>rc_eventId = en_id e, rc_durable = True\<rparr>))
      (\<lambda>rows. rows) good_call 11 sample_rows = (Inr True, rows') \<and> (\<exists>e :: envelope. sent_at (en_id e) rows')"
proof -
  have r: "ob_run Some [] = (\<lambda>rows. rows)" by (rule ext) (simp add: ob_run_def)
  obtain rows' where k: "ack good_call 11 \<lparr>le_event = sample_envelope 8, le_token = sid 4, le_attempt = 1\<rparr> rows_after
      = (Inr (), rows')" using first_ack by blast
  have d: "dispatch False (claim_at 10) (sid 4) (\<lambda>e. Inr (Inr \<lparr>rc_eventId = en_id e, rc_durable = True\<rparr>))
      (ob_run Some []) good_call 11 sample_rows = (Inr True, rows')"
    by (simp add: dispatch_def first_claim receipt_of_def good_receipt_def k[simplified] r)
  from dispatch_honest[OF sample_rows_inv _ d] have "\<exists>e :: envelope. sent_at (en_id e) rows'" by auto
  with d show ?thesis by (auto simp: r)
qed

end
