(* ===== verification/Broker.thy ===== *)
theory Broker
  imports Outbox
begin

text \<open>
  \<open>src/shared/events/jetstream/broker.ts\<close>: the JetStream protocol over a NATS connection. The
  connection is a parameter: what a request is answered with, or that it is rejected, in a state of
  the outside world \<open>'w\<close>. Two conversions of the platform are parameters too: the forgiving UTF-8 decoder and
  the base64 decoder.
\<close>

section \<open>Configuration\<close>

definition jet_unavailable :: failure where
  "jet_unavailable = fail Unavailable ''JetStream operation incomplete'' ''events.jetstream_unavailable''"

definition jet_invalid :: failure where
  "jet_invalid = fail Invalid ''invalid JetStream configuration'' ''events.jetstream_config''"

definition jet_canceled :: failure where
  "jet_canceled = fail Canceled ''JetStream operation canceled'' []"

text \<open>A parsed URL, by its parts.\<close>

record jet_url =
  ju_protocol :: str
  ju_hostname :: str
  ju_others :: "str list"

record jet_config =
  jc_stream :: str
  jc_consumer :: str
  jc_timeoutMs :: number

definition jet_name :: "str \<Rightarrow> bool" where
  "jet_name s \<longleftrightarrow> matches (\<lambda>c. is_alnum c \<or> c = 95) 1 40 s"

text \<open>\<open>connected\<close>: whether the connection could be made. The user, password, query, fragment and path must be empty.\<close>

definition jet_open :: "jet_url option \<Rightarrow> jet_config \<Rightarrow> bool \<Rightarrow> jet_config result" where
  "jet_open url c connected = (case url of
     None \<Rightarrow> Inl jet_invalid
   | Some u \<Rightarrow>
       if ju_protocol u \<notin> set [lit ''nats:'', lit ''tls:''] \<or> ju_hostname u = [] \<or> list_ex (\<lambda>s. s \<noteq> []) (ju_others u)
         \<or> \<not> jet_name (jc_stream c) \<or> \<not> jet_name (jc_consumer c) \<or> \<not> int_in 1 5000 (jc_timeoutMs c)
       then Inl jet_invalid
       else if connected then Inr c else Inl jet_unavailable)"

definition jet_subject :: "jet_config \<Rightarrow> str" where
  "jet_subject c = lit ''n2f.events.'' @ jc_stream c"

section \<open>Operations that may throw\<close>

text \<open>What an operation throws: the carrier of a failure, or anything else.\<close>

datatype jet_exn = Carried failure | Anything

type_synonym ('w, 'a) io = "'w \<Rightarrow> (jet_exn + 'a) \<times> 'w"

definition io_return :: "'a \<Rightarrow> ('w, 'a) io" where
  "io_return x w = (Inr x, w)"

definition io_throw :: "jet_exn \<Rightarrow> ('w, 'a) io" where
  "io_throw e w = (Inl e, w)"

definition io_bind :: "('w, 'a) io \<Rightarrow> ('a \<Rightarrow> ('w, 'b) io) \<Rightarrow> ('w, 'b) io" where
  "io_bind m f w = (case m w of (Inl e, w1) \<Rightarrow> (Inl e, w1) | (Inr x, w1) \<Rightarrow> f x w1)"

definition io_check :: "bool \<Rightarrow> jet_exn \<Rightarrow> ('w, unit) io" where
  "io_check b e = (if b then io_return () else io_throw e)"

definition io_some :: "'a option \<Rightarrow> ('w, 'a) io" where
  "io_some x = (case x of Some y \<Rightarrow> io_return y | None \<Rightarrow> io_throw Anything)"

text \<open>\<open>value\<close>: the value of a result, or its failure in a carrier.\<close>

definition io_value :: "'a result \<Rightarrow> ('w, 'a) io" where
  "io_value r = (case r of Inr x \<Rightarrow> io_return x | Inl f \<Rightarrow> io_throw (Carried f))"

text \<open>\<open>operation\<close>; \<open>aborted\<close> is the caller's signal when it ends.\<close>

definition jet_operation :: "bool \<Rightarrow> ('w, 'a) io \<Rightarrow> 'w \<Rightarrow> 'a result \<times> 'w" where
  "jet_operation aborted m w = (case m w of
     (Inr x, w1) \<Rightarrow> (Inr x, w1)
   | (Inl e, w1) \<Rightarrow> (Inl (if aborted then jet_canceled
       else case e of Carried f \<Rightarrow> f | Anything \<Rightarrow> jet_unavailable), w1))"

section \<open>Requests\<close>

record msg =
  ms_data :: "byte list"
  ms_reply :: "str option"
  ms_code :: "int option"

record jet_request =
  jr_subject :: str
  jr_data :: "byte list"
  jr_headers :: "(str \<times> str) list"

text \<open>\<open>None\<close> is a request that is rejected: by its timeout, by the deadline or the caller, or by the connection.\<close>

type_synonym 'w nats = "jet_request \<Rightarrow> 'w \<Rightarrow> msg option \<times> 'w"

definition jet_ask :: "'w nats \<Rightarrow> str \<Rightarrow> byte list \<Rightarrow> (str \<times> str) list \<Rightarrow> ('w, msg) io" where
  "jet_ask nats subject data hdrs w =
     (case nats \<lparr>jr_subject = subject, jr_data = data, jr_headers = hdrs\<rparr> w of
        (None, w1) \<Rightarrow> (Inl Anything, w1)
      | (Some m, w1) \<Rightarrow> (if 131072 < length (ms_data m) then Inl (Carried jet_unavailable) else Inr m, w1))"

text \<open>Reading a property: \<open>null\<close> has none to read and throws; what is no object has no such property.\<close>

fun jprop :: "json \<Rightarrow> string \<Rightarrow> json option" where
  "jprop (JObj ms) k = map_of ms (lit k)"
| "jprop v k = None"

definition io_jprop :: "json \<Rightarrow> string \<Rightarrow> ('w, json option) io" where
  "io_jprop v k = (if v = JNull then io_throw Anything else io_return (jprop v k))"

text \<open>\<open>v?.k\<close>\<close>

definition opt_jprop :: "json option \<Rightarrow> string \<Rightarrow> json option" where
  "opt_jprop v k = (case v of None \<Rightarrow> None | Some j \<Rightarrow> jprop j k)"

fun truthy :: "json option \<Rightarrow> bool" where
  "truthy None = False"
| "truthy (Some JNull) = False"
| "truthy (Some (JBool b)) = b"
| "truthy (Some (JNum d)) = (dbl_number d \<noteq> Whole 0)"
| "truthy (Some (JStr s)) = (s \<noteq> [])"
| "truthy (Some _) = True"

fun is_object :: "json \<Rightarrow> bool" where
  "is_object (JObj ms) = True"
| "is_object (JArr xs) = True"
| "is_object v = False"

definition jet_api :: "'w nats \<Rightarrow> str \<Rightarrow> json \<Rightarrow> ('w, json) io" where
  "jet_api nats subject input =
     io_bind (jet_ask nats subject (utf8_encode (stringify input)) []) (\<lambda>m.
     io_bind (io_some (Option.bind (utf8_decode (ms_data m)) json_parse)) (\<lambda>out.
     io_bind (io_check (is_object out) (Carried jet_unavailable)) (\<lambda>_.
     io_return out)))"

text \<open>\<open>isDeepStrictEqual\<close> on parsed JSON: the order of keys does not count.\<close>

fun deep_equal :: "json \<Rightarrow> json \<Rightarrow> bool" where
  "deep_equal (JArr xs) (JArr ys) = list_all2 deep_equal xs ys"
| "deep_equal (JObj ms) (JObj ns) = (length ms = length ns
     \<and> list_all (\<lambda>(k, v). case map_of ns k of None \<Rightarrow> False | Some w \<Rightarrow> deep_equal v w) ms)"
| "deep_equal v w = (v = w)"

definition compatible :: "json option \<Rightarrow> (str \<times> json) list \<Rightarrow> bool" where
  "compatible got want \<longleftrightarrow> truthy got \<and> list_all (\<lambda>(k, expected).
     case got of Some (JObj ms) \<Rightarrow> (case map_of ms k of None \<Rightarrow> False | Some v \<Rightarrow> deep_equal v expected) | _ \<Rightarrow> False) want"

section \<open>Provisioning\<close>

definition stream_config :: "jet_config \<Rightarrow> (str \<times> json) list" where
  "stream_config c =
     [(lit ''name'', JStr (jc_stream c)), (lit ''subjects'', JArr [JStr (jet_subject c)]),
      (lit ''storage'', JStr (lit ''file'')), (lit ''num_replicas'', jint 1), (lit ''retention'', JStr (lit ''limits'')),
      (lit ''discard'', JStr (lit ''new'')), (lit ''max_bytes'', jint 67108864), (lit ''max_msg_size'', jint 131072),
      (lit ''duplicate_window'', jint 120000000000)]"

definition consumer_config :: "jet_config \<Rightarrow> (str \<times> json) list" where
  "consumer_config c =
     [(lit ''durable_name'', JStr (jc_consumer c)), (lit ''ack_policy'', JStr (lit ''explicit'')),
      (lit ''ack_wait'', jint 1000000000), (lit ''max_deliver'', jint 5), (lit ''max_ack_pending'', jint 1),
      (lit ''filter_subject'', JStr (jet_subject c)), (lit ''deliver_policy'', JStr (lit ''all'')),
      (lit ''replay_policy'', JStr (lit ''instant''))]"

text \<open>What is asked for, created when it is not there, and then compared with what is wanted.\<close>

definition not_there :: "json \<Rightarrow> bool" where
  "not_there info = (case opt_jprop (jprop info ''error'') ''code'' of
     Some (JNum d) \<Rightarrow> dbl_number d = Whole 404 | _ \<Rightarrow> False)"

definition provide :: "'w nats \<Rightarrow> str \<Rightarrow> str \<Rightarrow> json \<Rightarrow> (str \<times> json) list \<Rightarrow> ('w, unit) io" where
  "provide nats info_subject create_subject creation want =
     io_bind (jet_api nats info_subject (JObj [])) (\<lambda>info0.
     io_bind (if not_there info0 then jet_api nats create_subject creation else io_return info0) (\<lambda>info.
     io_bind (io_check (\<not> truthy (jprop info ''error'')) (Carried jet_unavailable)) (\<lambda>_.
     io_check (compatible (jprop info ''config'') want) (Carried jet_invalid))))"

definition provision :: "'w nats \<Rightarrow> jet_config \<Rightarrow> bool \<Rightarrow> 'w \<Rightarrow> unit result \<times> 'w" where
  "provision nats c aborted = jet_operation aborted
     (io_bind (provide nats (lit ''$JS.API.STREAM.INFO.'' @ jc_stream c) (lit ''$JS.API.STREAM.CREATE.'' @ jc_stream c)
        (JObj (stream_config c)) (stream_config c)) (\<lambda>_.
      provide nats (lit ''$JS.API.CONSUMER.INFO.'' @ jc_stream c @ [46] @ jc_consumer c)
        (lit ''$JS.API.CONSUMER.DURABLE.CREATE.'' @ jc_stream c @ [46] @ jc_consumer c)
        (JObj [(lit ''stream_name'', JStr (jc_stream c)), (lit ''config'', JObj (consumer_config c))])
        (consumer_config c)))"

section \<open>Publishing\<close>

record platform =
  pf_lossy :: "byte list \<Rightarrow> str"
  pf_base64 :: "str \<Rightarrow> byte list"

text \<open>An acknowledgement of the stream: on this stream, with a positive sequence number.\<close>

definition acked :: "jet_config \<Rightarrow> json \<Rightarrow> bool" where
  "acked c answer \<longleftrightarrow> \<not> truthy (jprop answer ''error'') \<and> jprop answer ''stream'' = Some (JStr (jc_stream c))
     \<and> (case jprop answer ''seq'' of Some (JNum d) \<Rightarrow> is_safe_integer (dbl_number d) \<and> num_gt (dbl_number d) 0 | _ \<Rightarrow> False)"

definition seq_json :: "json \<Rightarrow> json" where
  "seq_json answer = (case jprop answer ''seq'' of Some v \<Rightarrow> v | None \<Rightarrow> JNull)"

text \<open>What the stream holds under the sequence number of a duplicate must be the same event.\<close>

definition same_stored :: "platform \<Rightarrow> 'w nats \<Rightarrow> jet_config \<Rightarrow> envelope \<Rightarrow> json \<Rightarrow> ('w, unit) io" where
  "same_stored pf nats c e answer =
     io_bind (jet_api nats (lit ''$JS.API.STREAM.MSG.GET.'' @ jc_stream c) (JObj [(lit ''seq'', seq_json answer)])) (\<lambda>stored.
     (case opt_jprop (jprop stored ''message'') ''data'' of
        Some (JStr data) \<Rightarrow>
          io_bind (io_some (json_parse (pf_lossy pf (pf_base64 pf data)))) (\<lambda>original.
          io_bind (io_some (json_parse (pf_lossy pf (env_bytes e)))) (\<lambda>own.
          io_check (deep_equal original own) (Carried (conflict ''id_reused''))))
      | _ \<Rightarrow> io_throw (Carried jet_unavailable)))"

definition jet_publish :: "platform \<Rightarrow> 'w nats \<Rightarrow> jet_config \<Rightarrow> bool \<Rightarrow> envelope \<Rightarrow> 'w \<Rightarrow> receipt result \<times> 'w" where
  "jet_publish pf nats c aborted e = jet_operation aborted
     (io_bind (jet_ask nats (jet_subject c) (env_bytes e)
        [(lit ''Nats-Msg-Id'', en_id e), (lit ''Nats-Expected-Stream'', jc_stream c)]) (\<lambda>m.
      io_bind (io_some (json_parse (pf_lossy pf (ms_data m)))) (\<lambda>answer.
      io_bind (io_jprop answer ''error'') (\<lambda>_.
      io_bind (io_check (acked c answer) (Carried jet_unavailable)) (\<lambda>_.
      io_bind (if truthy (jprop answer ''duplicate'') then same_stored pf nats c e answer else io_return ()) (\<lambda>_.
      io_return \<lparr>rc_eventId = en_id e, rc_durable = True\<rparr>))))))"

section \<open>Transferring\<close>

text \<open>One message from the consumer into a sink, acknowledged when the sink holds it.\<close>

type_synonym 'w sink = "envelope \<Rightarrow> 'w \<Rightarrow> (jet_exn + receipt result) \<times> 'w"

definition no_message :: "msg \<Rightarrow> bool" where
  "no_message m \<longleftrightarrow> ms_code m = Some 404 \<or> ms_code m = Some 408"

definition deliver :: "'w nats \<Rightarrow> 'w sink \<Rightarrow> msg \<Rightarrow> str \<Rightarrow> ('w, bool) io" where
  "deliver nats sink m reply =
     io_bind (io_value (env_decode (ms_data m))) (\<lambda>e.
     io_bind (sink e) (\<lambda>r.
     io_bind (io_value r) (\<lambda>receipt.
     io_bind (io_check (rc_durable receipt \<and> rc_eventId receipt = en_id e) (Carried jet_unavailable)) (\<lambda>_.
     io_bind (jet_ask nats reply (utf8_encode (lit ''+ACK'')) []) (\<lambda>_.
     io_return True)))))"

definition transfer_body :: "'w nats \<Rightarrow> jet_config \<Rightarrow> 'w sink \<Rightarrow> ('w, bool) io" where
  "transfer_body nats c sink =
     io_bind (jet_ask nats (lit ''$JS.API.CONSUMER.MSG.NEXT.'' @ jc_stream c @ [46] @ jc_consumer c)
        (utf8_encode (lit ''{\"batch\":1,\"no_wait\":true}'')) []) (\<lambda>m.
      if no_message m then io_return False
      else
        (case ms_reply m of
           None \<Rightarrow> io_throw (Carried jet_unavailable)
         | Some reply \<Rightarrow> if reply = [] then io_throw (Carried jet_unavailable) else deliver nats sink m reply))"

definition transfer :: "'w nats \<Rightarrow> jet_config \<Rightarrow> bool \<Rightarrow> 'w sink \<Rightarrow> 'w \<Rightarrow> bool result \<times> 'w" where
  "transfer nats c aborted sink = jet_operation aborted (transfer_body nats c sink)"

section \<open>Recorded runs\<close>

text \<open>
  What a run does to the connection and the sink, in order: requests with what they are answered,
  deliveries with what the sink answers.
\<close>

datatype jet_entry = Asked jet_request "msg option" | Delivered envelope "jet_exn + receipt result"

definition log_nats :: "'w nats \<Rightarrow> ('w \<times> jet_entry list) nats" where
  "log_nats nats rq s = (case nats rq (fst s) of (a, w1) \<Rightarrow> (a, w1, snd s @ [Asked rq a]))"

definition log_sink :: "'w sink \<Rightarrow> ('w \<times> jet_entry list) sink" where
  "log_sink sink e s = (case sink e (fst s) of (r, w1) \<Rightarrow> (r, w1, snd s @ [Delivered e r]))"

lemmas io_simps = io_return_def io_throw_def io_bind_def io_check_def io_some_def io_value_def io_jprop_def

definition next_request :: "jet_config \<Rightarrow> jet_request" where
  "next_request c = \<lparr>jr_subject = lit ''$JS.API.CONSUMER.MSG.NEXT.'' @ jc_stream c @ [46] @ jc_consumer c,
     jr_data = utf8_encode (lit ''{\"batch\":1,\"no_wait\":true}''), jr_headers = []\<rparr>"

definition ack_request :: "str \<Rightarrow> jet_request" where
  "ack_request reply = \<lparr>jr_subject = reply, jr_data = utf8_encode (lit ''+ACK''), jr_headers = []\<rparr>"

definition publish_request :: "jet_config \<Rightarrow> envelope \<Rightarrow> jet_request" where
  "publish_request c e = \<lparr>jr_subject = jet_subject c, jr_data = env_bytes e,
     jr_headers = [(lit ''Nats-Msg-Id'', en_id e), (lit ''Nats-Expected-Stream'', jc_stream c)]\<rparr>"

definition get_request :: "jet_config \<Rightarrow> json \<Rightarrow> jet_request" where
  "get_request c answer = \<lparr>jr_subject = lit ''$JS.API.STREAM.MSG.GET.'' @ jc_stream c,
     jr_data = utf8_encode (stringify (JObj [(lit ''seq'', seq_json answer)])), jr_headers = []\<rparr>"

definition receipt_for :: "envelope \<Rightarrow> jet_exn + receipt result \<Rightarrow> bool" where
  "receipt_for e r \<longleftrightarrow> (case r of Inr x \<Rightarrow> good_receipt x e | Inl _ \<Rightarrow> False)"

lemma ask_logged:
  assumes "jet_ask (log_nats nats) subject data hdrs (w, l) = (x, w', l')"
  obtains a where "l' = l @ [Asked \<lparr>jr_subject = subject, jr_data = data, jr_headers = hdrs\<rparr> a]"
    "\<And>m. x = Inr m \<Longrightarrow> a = Some m"
  using assms by (auto simp: jet_ask_def log_nats_def split: prod.splits option.splits if_splits)

lemma sink_logged: "log_sink sink e (w, l) = (x, w', l') \<Longrightarrow> l' = l @ [Delivered e x]"
  by (auto simp: log_sink_def split: prod.splits)

lemma bindE:
  assumes "io_bind m f w = (r, w')"
  obtains (Thrown) e where "m w = (Inl e, w')" "r = Inl e"
    | (Went) x w1 where "m w = (Inr x, w1)" "f x w1 = (r, w')"
  using assms by (auto simp: io_bind_def split: prod.splits sum.splits)

text \<open>
  The possible records of a transfer: no message; nothing delivered; delivered but not held; held, and
  acknowledged or at least tried.
\<close>

inductive transfer_record :: "jet_config \<Rightarrow> jet_entry list \<Rightarrow> bool option \<Rightarrow> bool" for c where
  nothing: "no_message m \<Longrightarrow> transfer_record c [Asked (next_request c) (Some m)] (Some False)"
| broken: "transfer_record c [Asked (next_request c) a] None"
| refused: "\<not> no_message m \<Longrightarrow> env_decode (ms_data m) = Inr e \<Longrightarrow> \<not> receipt_for e r
    \<Longrightarrow> transfer_record c [Asked (next_request c) (Some m), Delivered e r] None"
| held: "\<not> no_message m \<Longrightarrow> env_decode (ms_data m) = Inr e \<Longrightarrow> receipt_for e r \<Longrightarrow> ms_reply m = Some reply
    \<Longrightarrow> res = None \<or> res = Some True \<and> b \<noteq> None
    \<Longrightarrow> transfer_record c [Asked (next_request c) (Some m), Delivered e r, Asked (ack_request reply) b] res"

definition answered :: "'e + 'a \<Rightarrow> 'a option" where
  "answered r = (case r of Inl _ \<Rightarrow> None | Inr x \<Rightarrow> Some x)"

lemma answered_simps [simp]: "answered (Inl e) = None" "answered (Inr x) = Some x"
  by (simp_all add: answered_def)

lemma jet_operation_answered:
  "jet_operation aborted m w = (r, w') \<Longrightarrow> \<exists>r0. m w = (r0, w') \<and> answered r = answered r0"
  by (auto simp: jet_operation_def split: prod.splits sum.splits)

lemma deliver_logged:
  assumes "deliver (log_nats nats) (log_sink sink) m reply (w, l) = (res, w', l')"
  shows "(l' = l \<and> answered res = None)
    \<or> (\<exists>e r. env_decode (ms_data m) = Inr e
        \<and> (l' = l @ [Delivered e r] \<and> \<not> receipt_for e r \<and> answered res = None
         \<or> (\<exists>b. l' = l @ [Delivered e r, Asked (ack_request reply) b] \<and> receipt_for e r
              \<and> (answered res = None \<or> answered res = Some True \<and> b \<noteq> None))))"
proof (cases "env_decode (ms_data m)")
  case (Inl f)
  then show ?thesis using assms by (auto simp: deliver_def io_simps)
next
  case (Inr e)
  obtain r w1 l1 where s: "log_sink sink e (w, l) = (r, w1, l1)" using prod_cases3 by blast
  note l1 = sink_logged[OF s]
  show ?thesis
  proof (cases "receipt_for e r")
    case False
    then have "l' = l1 \<and> answered res = None"
      using assms Inr s by (auto simp: deliver_def io_simps receipt_for_def good_receipt_def split: sum.splits if_splits)
    then show ?thesis using Inr False l1 by blast
  next
    case True
    then obtain x where x: "r = Inr (Inr x)" "rc_durable x \<and> rc_eventId x = en_id e"
      by (auto simp: receipt_for_def good_receipt_def split: sum.splits)
    obtain y w2 l2 where k: "jet_ask (log_nats nats) reply (utf8_encode (lit ''+ACK'')) [] (w1, l1) = (y, w2, l2)"
      using prod_cases3 by blast
    have "l' = l2 \<and> (answered res = None \<or> answered res = Some True \<and> is_ok y)"
      using assms Inr s x k by (auto simp: deliver_def io_simps split: sum.splits)
    moreover from k obtain a where "l2 = l1 @ [Asked (ack_request reply) a]" "is_ok y \<Longrightarrow> a \<noteq> None"
      by (rule ask_logged) (auto simp: ack_request_def)
    ultimately show ?thesis using Inr True l1 by auto
  qed
qed

text \<open>
  C11: no event is lost between the stream and a sink. A transfer asks for one message; the message is
  acknowledged only after the sink gave a durable receipt for the very event its bytes decode to,
  it is acknowledged at most once, as the last step, and the transfer answers true only then. It answers false only
  when there was no message, and then the sink saw nothing.
\<close>

theorem transfer_acks_after_receipt:
  assumes "transfer (log_nats nats) c aborted (log_sink sink) (w, []) = (res, w', l)"
  shows "transfer_record c l (answered res)"
proof -
  let ?ask = "jet_ask (log_nats nats) (lit ''$JS.API.CONSUMER.MSG.NEXT.'' @ jc_stream c @ [46] @ jc_consumer c)
    (utf8_encode (lit ''{\"batch\":1,\"no_wait\":true}'')) []"
  obtain r0 where b: "transfer_body (log_nats nats) c (log_sink sink) (w, []) = (r0, w', l)"
    and res: "answered res = answered r0"
    using jet_operation_answered[OF assms[unfolded transfer_def]] by auto
  obtain x w1 l1 where k: "?ask (w, []) = (x, w1, l1)" using prod_cases3 by blast
  then obtain a where l1: "l1 = [Asked (next_request c) a]" and a: "\<And>m. x = Inr m \<Longrightarrow> a = Some m"
    by (rule ask_logged) (auto simp: next_request_def)
  show ?thesis
  proof (cases x)
    case (Inl e)
    then show ?thesis using b k l1 res by (auto simp: transfer_body_def io_bind_def intro: transfer_record.intros)
  next
    case (Inr m)
    with a have a: "a = Some m" by simp
    show ?thesis
    proof (cases "no_message m \<or> ms_reply m \<in> {None, Some []}")
      case True
      then have "l = l1 \<and> answered r0 = (if no_message m then Some False else None)"
        using b k Inr by (auto simp: transfer_body_def io_simps split: if_splits)
      then show ?thesis using l1 res a by (cases "no_message m") (auto intro: transfer_record.intros)
    next
      case False
      then obtain reply where rep: "ms_reply m = Some reply" "reply \<noteq> []" "\<not> no_message m" by auto
      then have "deliver (log_nats nats) (log_sink sink) m reply (w1, l1) = (r0, w', l)"
        using b k Inr by (simp add: transfer_body_def io_bind_def)
      from deliver_logged[OF this] show ?thesis
        using rep l1 a res by (auto intro: transfer_record.intros)
    qed
  qed
qed


lemma api_logged:
  assumes "jet_api (log_nats nats) subject input (w, l) = (x, w', l')"
  obtains a where "l' = l @ [Asked \<lparr>jr_subject = subject, jr_data = utf8_encode (stringify input), jr_headers = []\<rparr> a]"
    "\<And>out. x = Inr out \<Longrightarrow> \<exists>m s. a = Some m \<and> utf8_decode (ms_data m) = Some s \<and> json_parse s = Some out \<and> is_object out"
proof -
  obtain y w1 l1 where k: "jet_ask (log_nats nats) subject (utf8_encode (stringify input)) [] (w, l) = (y, w1, l1)"
    using prod_cases3 by blast
  then obtain a where a: "l1 = l @ [Asked \<lparr>jr_subject = subject, jr_data = utf8_encode (stringify input), jr_headers = []\<rparr> a]"
    "\<And>m. y = Inr m \<Longrightarrow> a = Some m"
    by (rule ask_logged) blast
  show thesis
  proof (rule that)
    show "l' = l @ [Asked \<lparr>jr_subject = subject, jr_data = utf8_encode (stringify input), jr_headers = []\<rparr> a]"
      using assms k a(1) by (auto simp: jet_api_def io_simps split: sum.splits option.splits if_splits)
    show "\<exists>m s. a = Some m \<and> utf8_decode (ms_data m) = Some s \<and> json_parse s = Some out \<and> is_object out"
      if "x = Inr out" for out
      using assms k a(2) that
      by (auto simp: jet_api_def io_simps bind_eq_Some_conv split: sum.splits option.splits if_splits)
  qed
qed

text \<open>A stored event with the parsed content of \<open>e\<close>.\<close>

definition stored_equal :: "platform \<Rightarrow> envelope \<Rightarrow> json \<Rightarrow> bool" where
  "stored_equal pf e stored \<longleftrightarrow> (case opt_jprop (jprop stored ''message'') ''data'' of
     Some (JStr data) \<Rightarrow> (case (json_parse (pf_lossy pf (pf_base64 pf data)), json_parse (pf_lossy pf (env_bytes e))) of
         (Some x, Some y) \<Rightarrow> deep_equal x y | _ \<Rightarrow> False)
   | _ \<Rightarrow> False)"

lemma same_stored_logged:
  assumes "same_stored pf (log_nats nats) c e answer (w, l) = (Inr u, w', l')"
  shows "\<exists>m s stored. l' = l @ [Asked (get_request c answer) (Some m)] \<and> utf8_decode (ms_data m) = Some s
    \<and> json_parse s = Some stored \<and> stored_equal pf e stored"
proof -
  obtain stored w1 l1 where k: "jet_api (log_nats nats) (lit ''$JS.API.STREAM.MSG.GET.'' @ jc_stream c)
      (JObj [(lit ''seq'', seq_json answer)]) (w, l) = (Inr stored, w1, l1)"
    and r: "l' = l1" "stored_equal pf e stored"
    using assms by (auto simp: same_stored_def io_simps stored_equal_def
        split: prod.splits sum.splits option.splits json.splits if_splits)
  from k show ?thesis by (rule api_logged) (use r in \<open>auto simp: get_request_def\<close>)
qed

definition api_reads :: "msg \<Rightarrow> json \<Rightarrow> bool" where
  "api_reads m out \<longleftrightarrow> (\<exists>s. utf8_decode (ms_data m) = Some s \<and> json_parse s = Some out)"

lemma publish_receipt:
  assumes "jet_publish pf (log_nats nats) c aborted e (w, []) = (Inr r, w', l)"
  shows "good_receipt (Inr r) e \<and> (\<exists>m answer. json_parse (pf_lossy pf (ms_data m)) = Some answer \<and> acked c answer
    \<and> (if truthy (jprop answer ''duplicate'')
        then \<exists>m2 stored. l = [Asked (publish_request c e) (Some m), Asked (get_request c answer) (Some m2)]
          \<and> api_reads m2 stored \<and> stored_equal pf e stored
        else l = [Asked (publish_request c e) (Some m)]))"
proof -
  let ?ask = "jet_ask (log_nats nats) (jet_subject c) (env_bytes e)
    [(lit ''Nats-Msg-Id'', en_id e), (lit ''Nats-Expected-Stream'', jc_stream c)]"
  obtain m w1 l1 where k: "?ask (w, []) = (Inr m, w1, l1)"
    using assms by (cases "?ask (w, [])") (auto simp: jet_publish_def jet_operation_def io_bind_def split: sum.splits)
  then have l1: "l1 = [Asked (publish_request c e) (Some m)]"
    by (rule ask_logged) (auto simp: publish_request_def)
  obtain answer where a: "json_parse (pf_lossy pf (ms_data m)) = Some answer" "acked c answer"
    and rest: "(if truthy (jprop answer ''duplicate'') then same_stored pf (log_nats nats) c e answer else io_return ()) (w1, l1)
      = (Inr (), w', l)"
    and r: "r = \<lparr>rc_eventId = en_id e, rc_durable = True\<rparr>"
    using assms k by (auto simp: jet_publish_def jet_operation_def io_simps split: sum.splits option.splits if_splits prod.splits)
  show ?thesis
  proof (cases "truthy (jprop answer ''duplicate'')")
    case True
    with rest have "same_stored pf (log_nats nats) c e answer (w1, l1) = (Inr (), w', l)" by simp
    from same_stored_logged[OF this] show ?thesis
      using a r l1 True by (intro conjI exI[of _ m] exI[of _ answer]) (auto simp: good_receipt_def api_reads_def)
  next
    case False
    then show ?thesis using a r l1 rest by (auto simp: good_receipt_def io_return_def)
  qed
qed

text \<open>
  A publication is answered with a receipt only when the stream acknowledged this very event on the expected stream under a
  positive sequence number; when the stream calls it a duplicate, only after the stored event was read
  back and found equal in content. The receipt names the event and is durable.
\<close>

lemma publish_promises:
  assumes "jet_publish pf (log_nats nats) c aborted e (w, []) = (Inr r, w', l)"
  shows "good_receipt (Inr r) e \<and> (\<exists>m answer. json_parse (pf_lossy pf (ms_data m)) = Some answer \<and> acked c answer
    \<and> (if truthy (jprop answer ''duplicate'')
        then \<exists>m2 stored. l = [Asked (publish_request c e) (Some m), Asked (get_request c answer) (Some m2)]
          \<and> api_reads m2 stored \<and> stored_equal pf e stored
        else l = [Asked (publish_request c e) (Some m)]))"
  by (rule publish_receipt[OF assms])

text \<open>What a successful provision of one resource did.\<close>

definition info_request :: "str \<Rightarrow> json \<Rightarrow> jet_request" where
  "info_request subject input = \<lparr>jr_subject = subject, jr_data = utf8_encode (stringify input), jr_headers = []\<rparr>"

inductive provided :: "jet_request \<Rightarrow> jet_request \<Rightarrow> (str \<times> json) list \<Rightarrow> jet_entry list \<Rightarrow> bool"
  for info create want where
  found: "api_reads m out \<Longrightarrow> \<not> not_there out \<Longrightarrow> \<not> truthy (jprop out ''error'') \<Longrightarrow> compatible (jprop out ''config'') want
    \<Longrightarrow> provided info create want [Asked info (Some m)]"
| created: "api_reads m out \<Longrightarrow> not_there out \<Longrightarrow> api_reads m2 out2 \<Longrightarrow> \<not> truthy (jprop out2 ''error'')
    \<Longrightarrow> compatible (jprop out2 ''config'') want \<Longrightarrow> provided info create want [Asked info (Some m), Asked create (Some m2)]"

lemma provide_logged:
  assumes "provide (log_nats nats) i k creation want (w, l) = (Inr u, w', l')"
  shows "\<exists>l1. l' = l @ l1 \<and> provided (info_request i (JObj [])) (info_request k creation) want l1"
proof -
  obtain out w1 l1 where p: "jet_api (log_nats nats) i (JObj []) (w, l) = (Inr out, w1, l1)"
    using assms by (auto simp: provide_def io_bind_def split: prod.splits sum.splits)
  then obtain m where l1: "l1 = l @ [Asked (info_request i (JObj [])) (Some m)]" and m: "api_reads m out"
    by (rule api_logged) (auto simp: info_request_def api_reads_def)
  show ?thesis
  proof (cases "not_there out")
    case True
    obtain out2 w2 l2 where q: "jet_api (log_nats nats) k creation (w1, l1) = (Inr out2, w2, l2)"
      using assms p True by (auto simp: provide_def io_bind_def split: prod.splits sum.splits)
    then obtain m2 where l2: "l2 = l1 @ [Asked (info_request k creation) (Some m2)]" and m2: "api_reads m2 out2"
      by (rule api_logged) (auto simp: info_request_def api_reads_def)
    have "l' = l2 \<and> \<not> truthy (jprop out2 ''error'') \<and> compatible (jprop out2 ''config'') want"
      using assms p q True by (auto simp: provide_def io_simps split: if_splits)
    then show ?thesis using l1 l2 m m2 True by (auto intro: provided.created)
  next
    case False
    then have "l' = l1 \<and> \<not> truthy (jprop out ''error'') \<and> compatible (jprop out ''config'') want"
      using assms p by (auto simp: provide_def io_simps split: if_splits)
    then show ?thesis using l1 m False by (auto intro: provided.found)
  qed
qed

text \<open>
  C12: provisioning never adopts what it did not want. It succeeds only when the stream and then the
  consumer are found, or created after the server answered 404, with every wanted setting as wanted; a
  resource that is there is never created again, and nothing else is asked for.
\<close>

theorem provision_settles:
  assumes "provision (log_nats nats) c aborted (w, []) = (Inr u, w', l)"
  shows "\<exists>l1 l2. l = l1 @ l2
    \<and> provided (info_request (lit ''$JS.API.STREAM.INFO.'' @ jc_stream c) (JObj []))
        (info_request (lit ''$JS.API.STREAM.CREATE.'' @ jc_stream c) (JObj (stream_config c))) (stream_config c) l1
    \<and> provided (info_request (lit ''$JS.API.CONSUMER.INFO.'' @ jc_stream c @ [46] @ jc_consumer c) (JObj []))
        (info_request (lit ''$JS.API.CONSUMER.DURABLE.CREATE.'' @ jc_stream c @ [46] @ jc_consumer c)
          (JObj [(lit ''stream_name'', JStr (jc_stream c)), (lit ''config'', JObj (consumer_config c))]))
        (consumer_config c) l2"
proof -
  obtain w1 l1 where p: "provide (log_nats nats) (lit ''$JS.API.STREAM.INFO.'' @ jc_stream c)
      (lit ''$JS.API.STREAM.CREATE.'' @ jc_stream c) (JObj (stream_config c)) (stream_config c) (w, []) = (Inr (), w1, l1)"
    and q: "provide (log_nats nats) (lit ''$JS.API.CONSUMER.INFO.'' @ jc_stream c @ [46] @ jc_consumer c)
        (lit ''$JS.API.CONSUMER.DURABLE.CREATE.'' @ jc_stream c @ [46] @ jc_consumer c)
        (JObj [(lit ''stream_name'', JStr (jc_stream c)), (lit ''config'', JObj (consumer_config c))])
        (consumer_config c) (w1, l1) = (Inr (), w', l)"
    using assms by (auto simp: provision_def jet_operation_def io_bind_def split: prod.splits sum.splits)
  from provide_logged[OF p] provide_logged[OF q] show ?thesis by auto
qed

section \<open>Settings as wanted\<close>

lemma deep_equal_refl: "ordered v \<Longrightarrow> deep_equal v v"
proof (induction v)
  case (JArr xs)
  then show ?case by (simp add: list_all_iff list_all2_same)
next
  case (JObj ms)
  have "map_of ms k = Some v" if "(k, v) \<in> set ms" for k v using JObj.prems that by simp
  moreover have "deep_equal v v" if "(k, v) \<in> set ms" for k v
    using JObj that by (fastforce simp: list_all_iff)
  ultimately show ?case by (auto simp: list_all_iff)
qed simp_all

lemma compatible_own: "ordered (JObj want) \<Longrightarrow> compatible (Some (JObj want)) want"
  using deep_equal_refl[of "JObj want"] by (auto simp: compatible_def list_all_iff split: option.splits)

lemma stream_config_wf: "wf_json (JObj (stream_config c))"
proof -
  have "plain_keys (stream_config c)"
    by (rule plain_keys_lit[of "[''name'', ''subjects'', ''storage'', ''num_replicas'', ''retention'', ''discard'',
        ''max_bytes'', ''max_msg_size'', ''duplicate_window'']"]) (simp_all add: stream_config_def is_digit_def cu_of_def)
  then show ?thesis
    using wf_int[of 1] wf_int[of 67108864] wf_int[of 131072] wf_int[of 120000000000]
    by (simp add: own_order_plain plain_keys_def) (simp add: stream_config_def max_safe_def)
qed

lemma consumer_config_wf: "wf_json (JObj (consumer_config c))"
proof -
  have "plain_keys (consumer_config c)"
    by (rule plain_keys_lit[of "[''durable_name'', ''ack_policy'', ''ack_wait'', ''max_deliver'', ''max_ack_pending'',
        ''filter_subject'', ''deliver_policy'', ''replay_policy'']"]) (simp_all add: consumer_config_def is_digit_def cu_of_def)
  then show ?thesis
    using wf_int[of 1] wf_int[of 5] wf_int[of 1000000000]
    by (simp add: own_order_plain plain_keys_def) (simp add: consumer_config_def max_safe_def)
qed

text \<open>A message with a value printed as its data, and one with a configuration.\<close>

definition json_msg :: "json \<Rightarrow> msg" where
  "json_msg v = \<lparr>ms_data = utf8_encode (stringify v), ms_reply = None, ms_code = None\<rparr>"

definition config_json :: "(str \<times> json) list \<Rightarrow> json" where
  "config_json want = JObj [(lit ''config'', JObj want)]"

lemma config_json_wf: "wf_json (JObj want) \<Longrightarrow> wf_json (config_json want)"
  using own_order_plain[OF plain_keys_lit[of "[''config'']"], of "[(lit ''config'', JObj want)]"]
  by (simp add: config_json_def is_digit_def cu_of_def)

lemma api_json:
  assumes "nats (info_request subject input) w = (Some (json_msg v), w1)" "wf_json v" "is_object v"
    "length (utf8_encode (stringify v)) \<le> 131072"
  shows "jet_api nats subject input w = (Inr v, w1)"
  using assms(1,3,4)
  by (simp add: jet_api_def jet_ask_def io_simps info_request_def json_msg_def json_bytes json_round_trip[OF assms(2)]
      del: stringify.simps)

section \<open>Witnesses\<close>

definition sample_jet :: jet_config where
  "sample_jet = \<lparr>jc_stream = lit ''events'', jc_consumer = lit ''worker'', jc_timeoutMs = Whole 1000\<rparr>"

text \<open>
  A server that has the stream and the consumer as wanted, acknowledges every publication, has one event
  for the consumer and takes its acknowledgement.
\<close>

definition sample_ack :: json where
  "sample_ack = JObj [(lit ''stream'', JStr (lit ''events'')), (lit ''seq'', jint 7)]"

definition sample_nats :: "unit nats" where
  "sample_nats rq w = (map_of
     [(info_request (lit ''$JS.API.STREAM.INFO.events'') (JObj []), json_msg (config_json (stream_config sample_jet))),
      (info_request (lit ''$JS.API.CONSUMER.INFO.events.worker'') (JObj []), json_msg (config_json (consumer_config sample_jet))),
      (publish_request sample_jet (sample_envelope 8), json_msg sample_ack),
      (next_request sample_jet, \<lparr>ms_data = sample_event 8, ms_reply = Some (lit ''reply''), ms_code = None\<rparr>),
      (ack_request (lit ''reply''), \<lparr>ms_data = [], ms_reply = None, ms_code = None\<rparr>)] rq, w)"

definition sample_platform :: platform where
  "sample_platform = \<lparr>pf_lossy = (\<lambda>bs. case utf8_decode bs of Some s \<Rightarrow> s | None \<Rightarrow> []), pf_base64 = (\<lambda>s. [])\<rparr>"

definition sample_sink :: "unit sink" where
  "sample_sink e w = (Inr (Inr \<lparr>rc_eventId = en_id e, rc_durable = True\<rparr>), w)"

lemma sample_subjects:
  "jr_subject (info_request s v) = s" "jr_subject (publish_request sample_jet e) = lit ''n2f.events.events''"
  "jr_subject (next_request sample_jet) = lit ''$JS.API.CONSUMER.MSG.NEXT.events.worker''" "jr_subject (ack_request s) = s"
  by (simp_all add: info_request_def publish_request_def next_request_def ack_request_def jet_subject_def sample_jet_def
      lit_def cu_of_def)

lemma sample_distinct: "jr_subject a \<noteq> jr_subject b \<Longrightarrow> a \<noteq> b"
  by auto

lemma sample_answers:
  "sample_nats (info_request (lit ''$JS.API.STREAM.INFO.events'') (JObj [])) w
     = (Some (json_msg (config_json (stream_config sample_jet))), w)"
  "sample_nats (info_request (lit ''$JS.API.CONSUMER.INFO.events.worker'') (JObj [])) w
     = (Some (json_msg (config_json (consumer_config sample_jet))), w)"
  "sample_nats (publish_request sample_jet (sample_envelope 8)) w = (Some (json_msg sample_ack), w)"
  "sample_nats (next_request sample_jet) w
     = (Some \<lparr>ms_data = sample_event 8, ms_reply = Some (lit ''reply''), ms_code = None\<rparr>, w)"
  "sample_nats (ack_request (lit ''reply'')) w = (Some \<lparr>ms_data = [], ms_reply = None, ms_code = None\<rparr>, w)"
  by (simp_all add: sample_nats_def sample_distinct sample_subjects)

lemma int_size: "\<bar>i\<bar> \<le> max_safe \<Longrightarrow> 0 \<le> i \<Longrightarrow> nat i < 10 ^ Suc w \<Longrightarrow> json_size (jint i) \<le> Suc w"
  using show_dbl_int[of i] length_show_base_10[of "nat i" w] show_int_nat[of "nat i"]
    hd_show_base_10[of "nat i"]
  by (cases "dbl_of_int i") (auto simp: jint_def lit_def cu_of_def is_digit_def split: if_splits
      dest!: sym[of "_ # _"] sym[of _ "show_base 10 (nat i)"])

lemma sample_sizes:
  "length (utf8_encode (stringify (config_json (stream_config sample_jet)))) \<le> 131072"
  "length (utf8_encode (stringify (config_json (consumer_config sample_jet)))) \<le> 131072"
  "length (utf8_encode (stringify sample_ack)) \<le> 131072"
proof -
  have i: "json_size (jint 1) \<le> 16" "json_size (jint 5) \<le> 16" "json_size (jint 7) \<le> 16" "json_size (jint 67108864) \<le> 16"
    "json_size (jint 131072) \<le> 16" "json_size (jint 120000000000) \<le> 16" "json_size (jint 1000000000) \<le> 16"
    using int_size[of 1 15] int_size[of 5 15] int_size[of 7 15] int_size[of 67108864 15] int_size[of 131072 15]
      int_size[of 120000000000 15] int_size[of 1000000000 15] by (simp_all add: max_safe_def)
  show "length (utf8_encode (stringify (config_json (stream_config sample_jet)))) \<le> 131072"
    by (rule event_size)
      (use i in \<open>simp add: config_json_def stream_config_def sample_jet_def jet_subject_def\<close>)
  show "length (utf8_encode (stringify (config_json (consumer_config sample_jet)))) \<le> 131072"
    by (rule event_size)
      (use i in \<open>simp add: config_json_def consumer_config_def sample_jet_def jet_subject_def\<close>)
  show "length (utf8_encode (stringify sample_ack)) \<le> 131072"
    by (rule event_size) (use i in \<open>simp add: sample_ack_def\<close>)
qed


lemma sample_ack_wf: "wf_json sample_ack"
  using own_order_plain[OF plain_keys_lit[of "[''stream'', ''seq'']"], of "[(lit ''stream'', JStr (lit ''events'')), (lit ''seq'', jint 7)]"]
    wf_int[of 7] by (simp add: sample_ack_def is_digit_def cu_of_def max_safe_def)

lemma provide_sample:
  assumes "\<And>w. nats (info_request i (JObj [])) w = (Some (json_msg (config_json want)), w)" "wf_json (JObj want)"
    "length (utf8_encode (stringify (config_json want))) \<le> 131072"
  shows "provide (log_nats nats) i k creation want (w, l) = (Inr (), w, l @ [Asked (info_request i (JObj [])) (Some (json_msg (config_json want)))])"
proof -
  have "log_nats nats (info_request i (JObj [])) (w, l)
      = (Some (json_msg (config_json want)), w, l @ [Asked (info_request i (JObj [])) (Some (json_msg (config_json want)))])"
    using assms(1) by (simp add: log_nats_def)
  then have "jet_api (log_nats nats) i (JObj []) (w, l) = (Inr (config_json want), w,
      l @ [Asked (info_request i (JObj [])) (Some (json_msg (config_json want)))])"
    by (rule api_json) (use config_json_wf[OF assms(2)] assms(3) in \<open>auto simp: config_json_def\<close>)
  then show ?thesis
    using compatible_own[of want] assms(2)
    by (simp add: provide_def io_simps config_json_def not_there_def opt_jprop_def wf_json_iff)
qed

theorem provision_settles_witness:
  "\<exists>l. provision (log_nats sample_nats) sample_jet False ((), []) = (Inr (), (), l) \<and> l \<noteq> []"
proof -
  have n: "lit ''$JS.API.STREAM.INFO.'' @ jc_stream sample_jet = lit ''$JS.API.STREAM.INFO.events''"
    "lit ''$JS.API.CONSUMER.INFO.'' @ jc_stream sample_jet @ [46] @ jc_consumer sample_jet
      = lit ''$JS.API.CONSUMER.INFO.events.worker''"
    by (simp_all add: sample_jet_def lit_def cu_of_def)
  obtain l where l: "provision (log_nats sample_nats) sample_jet False ((), []) = (Inr (), (), l)"
    using provide_sample[of sample_nats _ "stream_config sample_jet", OF sample_answers(1) stream_config_wf sample_sizes(1)]
      provide_sample[of sample_nats _ "consumer_config sample_jet", OF sample_answers(2) consumer_config_wf sample_sizes(2)]
    unfolding provision_def jet_operation_def io_bind_def n by simp
  from provision_settles[OF l] show ?thesis using l by (auto elim: provided.cases)
qed

lemma sample_published:
  "\<exists>l. jet_publish sample_platform (log_nats sample_nats) sample_jet False (sample_envelope 8) ((), [])
     = (Inr \<lparr>rc_eventId = sid 8, rc_durable = True\<rparr>, (), l)"
proof -
  have k: "jet_ask (log_nats sample_nats) (jet_subject sample_jet) (env_bytes (sample_envelope 8))
      [(lit ''Nats-Msg-Id'', en_id (sample_envelope 8)), (lit ''Nats-Expected-Stream'', jc_stream sample_jet)] ((), [])
    = (Inr (json_msg sample_ack), (), [Asked (publish_request sample_jet (sample_envelope 8)) (Some (json_msg sample_ack))])"
    using sample_answers(3)[of "()"] sample_sizes(3)
    by (simp add: jet_ask_def log_nats_def publish_request_def json_msg_def del: stringify.simps)
  have p: "json_parse (pf_lossy sample_platform (ms_data (json_msg sample_ack))) = Some sample_ack"
    by (simp add: sample_platform_def json_msg_def json_bytes json_round_trip[OF sample_ack_wf])
  have a: "acked sample_jet sample_ack" "sample_ack \<noteq> JNull" "\<not> truthy (jprop sample_ack ''duplicate'')"
    "en_id (sample_envelope 8) = sid 8"
    by (simp_all add: acked_def sample_ack_def sample_jet_def jint_def dbl_number_int max_safe_def sample_envelope_def)
  show ?thesis
    unfolding jet_publish_def jet_operation_def io_bind_def k using p a by (simp add: io_simps)
qed

lemma publish_promises_witness:
  "\<exists>l. jet_publish sample_platform (log_nats sample_nats) sample_jet False (sample_envelope 8) ((), [])
     = (Inr \<lparr>rc_eventId = sid 8, rc_durable = True\<rparr>, (), l)
     \<and> (\<exists>m. hd l = Asked (publish_request sample_jet (sample_envelope 8)) (Some m))"
  using sample_published publish_promises[of sample_platform sample_nats sample_jet False "sample_envelope 8" "()"]
  by (fastforce split: if_splits)

theorem transfer_acks_after_receipt_witness:
  "\<exists>l. transfer (log_nats sample_nats) sample_jet False (log_sink sample_sink) ((), []) = (Inr True, (), l)
     \<and> transfer_record sample_jet l (Some True)"
proof -
  define m where "m = \<lparr>ms_data = sample_event 8, ms_reply = Some (lit ''reply''), ms_code = None\<rparr>"
  have n: "jet_ask (log_nats sample_nats) (lit ''$JS.API.CONSUMER.MSG.NEXT.'' @ jc_stream sample_jet @ [46] @ jc_consumer sample_jet)
      (utf8_encode (lit ''{\"batch\":1,\"no_wait\":true}'')) [] (w, l) = (Inr m, w, l @ [Asked (next_request sample_jet) (Some m)])" for w l
    using sample_answers(4)[of w] sample_event_size[of 8] unfolding jet_ask_def log_nats_def next_request_def m_def by simp
  have a: "\<exists>b. jet_ask (log_nats sample_nats) (lit ''reply'') (utf8_encode (lit ''+ACK'')) [] (w, l)
      = (Inr b, w, l @ [Asked (ack_request (lit ''reply'')) (Some b)])" for w l
    using sample_answers(5)[of w] unfolding jet_ask_def log_nats_def ack_request_def by simp
  have "\<exists>l. deliver (log_nats sample_nats) (log_sink sample_sink) m (lit ''reply'') ((), l0) = (Inr True, (), l)" for l0
    using a[of "()" "l0 @ [Delivered (sample_envelope 8) (Inr (Inr \<lparr>rc_eventId = sid 8, rc_durable = True\<rparr>))]"] sample_decodes[of 8]
    by (auto simp: deliver_def io_simps m_def log_sink_def sample_sink_def sample_envelope_def)
  then obtain l where d: "deliver (log_nats sample_nats) (log_sink sample_sink) m (lit ''reply'')
      ((), [] @ [Asked (next_request sample_jet) (Some m)]) = (Inr True, (), l)" by blast
  have r: "ms_reply m = Some (lit ''reply'')" "\<not> no_message m" by (simp_all add: m_def no_message_def)
  have l: "transfer (log_nats sample_nats) sample_jet False (log_sink sample_sink) ((), []) = (Inr True, (), l)"
    unfolding transfer_def jet_operation_def transfer_body_def io_bind_def n using d r by simp
  from transfer_acks_after_receipt[OF l] show ?thesis using l by auto
qed

end
