(* ===== verification/Mailbox.thy ===== *)
theory Mailbox
  imports Outbox
begin

text \<open>
  The \<open>Mailbox\<close> of \<open>src/shared/events/postgres/store.ts\<close> with its table \<open>n2f_mailbox\<close>: publishing into
  it, and consuming one event with the effects of its consumer in the same transaction, under a
  savepoint.
\<close>

section \<open>Operations\<close>

datatype mail_state = MPending | Processed | MDead

record mrow =
  mr_event :: id
  mr_envelope :: str
  mr_state :: mail_state
  mr_attempts :: nat
  mr_available :: int

definition new_mrow :: "int \<Rightarrow> id \<Rightarrow> str \<Rightarrow> mrow" where
  "new_mrow now i text = \<lparr>mr_event = i, mr_envelope = text, mr_state = MPending, mr_attempts = 0, mr_available = now\<rparr>"

definition mail_insert :: "(str \<Rightarrow> 'j option) \<Rightarrow> int \<Rightarrow> envelope \<Rightarrow> mrow list \<Rightarrow> unit result \<times> mrow list" where
  "mail_insert jsonb now = insert_row jsonb mr_event mr_envelope (new_mrow now)"

definition mail_publish :: "(str \<Rightarrow> 'j option) \<Rightarrow> call \<Rightarrow> int \<Rightarrow> envelope \<Rightarrow> mrow list \<Rightarrow> receipt result \<times> mrow list" where
  "mail_publish jsonb c now e rows = (case db_transaction c (mail_insert jsonb now e) rows of
     (Inl f, rows1) \<Rightarrow> (Inl f, rows1)
   | (Inr _, rows1) \<Rightarrow> (Inr \<lparr>rc_eventId = en_id e, rc_durable = True\<rparr>, rows1))"

definition mail_candidates :: "int \<Rightarrow> id list \<Rightarrow> mrow list \<Rightarrow> mrow list" where
  "mail_candidates now locked rows = sort_key (\<lambda>r. (mr_available r, mr_event r))
     (filter (\<lambda>r. mr_state r = MPending \<and> mr_attempts r < 5 \<and> mr_available r \<le> now \<and> mr_event r \<notin> set locked) rows)"

text \<open>A consumer works on the data of the same database; it answers, or throws.\<close>

type_synonym 'u consumer = "envelope \<Rightarrow> 'u \<Rightarrow> (db_error + unit result) \<times> 'u"

text \<open>
  The callback's transaction: whether there was an event, and the failure of its consumer. The savepoint
  undoes the effects of a consumer that refused.
\<close>

definition handled_of :: "db_error + unit result \<Rightarrow> unit result" where
  "handled_of x = (case x of Inl e \<Rightarrow> Inl (db_map e) | Inr r \<Rightarrow> r)"

definition mark_row :: "int \<Rightarrow> id \<Rightarrow> mail_state \<Rightarrow> mrow list \<Rightarrow> mrow list" where
  "mark_row now i s = update_rows (\<lambda>r. mr_event r = i)
     (\<lambda>r. r\<lparr>mr_state := s, mr_attempts := mr_attempts r + 1, mr_available := now + 100000\<rparr>)"

record consume_args =
  co_call :: call
  co_select :: int
  co_update :: int
  co_locked :: "id list"

definition consume_tx :: "consume_args \<Rightarrow> 'u consumer \<Rightarrow> mrow list \<times> 'u \<Rightarrow> (bool \<times> failure option) result \<times> (mrow list \<times> 'u)" where
  "consume_tx a fn s = (case s of (rows, u) \<Rightarrow>
     (case mail_candidates (co_select a) (co_locked a) rows of
        [] \<Rightarrow> (Inr (False, None), (rows, u))
      | r # _ \<Rightarrow>
          (case decode_text (mr_envelope r) of
             Inl e \<Rightarrow> (Inl e, (rows, u))
           | Inr ev \<Rightarrow>
               (case fn ev u of (x, u') \<Rightarrow>
                  let rejected = (case handled_of x of Inl f \<Rightarrow> Some f | Inr _ \<Rightarrow> None);
                      st = (if rejected = None then Processed else if 5 \<le> mr_attempts r + 1 then MDead else MPending)
                  in (Inr (True, rejected),
                      (mark_row (co_update a) (en_id ev) st rows, if rejected = None then u' else u))))))"

definition consume :: "consume_args \<Rightarrow> 'u consumer \<Rightarrow> mrow list \<times> 'u \<Rightarrow> bool result \<times> (mrow list \<times> 'u)" where
  "consume a fn s = (case db_transaction (co_call a) (consume_tx a fn) s of
     (Inl f, s') \<Rightarrow> (Inl f, s')
   | (Inr (found, rejected), s') \<Rightarrow> ((case rejected of Some f \<Rightarrow> Inl f | None \<Rightarrow> Inr found), s'))"

section \<open>Histories\<close>

text \<open>
  Publishing, and consuming with a consumer that answers as the history says. What a consumer stores is
  a log of the events it was given: whatever it does to its data stands or falls with its entry.
\<close>

datatype mb_event = Publish call int envelope | Consume consume_args "db_error + unit result"

definition logging :: "db_error + unit result \<Rightarrow> id list consumer" where
  "logging x ev log = (x, log @ [en_id ev])"

fun mb_apply :: "(str \<Rightarrow> 'j option) \<Rightarrow> mb_event \<Rightarrow> mrow list \<times> id list \<Rightarrow> mrow list \<times> id list" where
  "mb_apply jsonb (Publish c now e) s = (snd (mail_publish jsonb c now e (fst s)), snd s)"
| "mb_apply jsonb (Consume a x) s = snd (consume a (logging x) s)"

definition mb_run :: "(str \<Rightarrow> 'j option) \<Rightarrow> mb_event list \<Rightarrow> mrow list \<times> id list \<Rightarrow> mrow list \<times> id list" where
  "mb_run jsonb es s = fold (mb_apply jsonb) es s"

fun mb_stable :: "mb_event \<Rightarrow> bool" where
  "mb_stable (Publish c now e) = env_stable e"
| "mb_stable _ = True"

section \<open>The invariant\<close>

abbreviation mrow_at :: "mrow list \<Rightarrow> id \<Rightarrow> mrow option" where
  "mrow_at \<equiv> row_at mr_event"

definition processed_at :: "mrow list \<Rightarrow> id \<Rightarrow> bool" where
  "processed_at rows i \<longleftrightarrow> (case mrow_at rows i of None \<Rightarrow> False | Some r \<Rightarrow> mr_state r = Processed)"

definition mrow_ok :: "mrow \<Rightarrow> bool" where
  "mrow_ok r \<longleftrightarrow> mr_attempts r \<le> 5 \<and> (\<forall>e. decode_text (mr_envelope r) = Inr e \<longrightarrow> en_id e = mr_event r)"

definition mb_inv :: "mrow list \<times> id list \<Rightarrow> bool" where
  "mb_inv s \<longleftrightarrow> distinct (map mr_event (fst s)) \<and> list_all mrow_ok (fst s)
     \<and> distinct (snd s) \<and> (\<forall>i. i \<in> set (snd s) \<longleftrightarrow> processed_at (fst s) i)"

lemma mrow_mark: "mrow_at (mark_row now j st rows) i = map_option (\<lambda>r. if mr_event r = j
    then r\<lparr>mr_state := st, mr_attempts := mr_attempts r + 1, mr_available := now + 100000\<rparr> else r) (mrow_at rows i)"
  unfolding mark_row_def by (rule row_at_update) simp

lemma mail_insert_inv:
  assumes "mb_inv s" "env_stable e" shows "mb_inv (snd (mail_insert jsonb now e (fst s)), snd s)"
proof -
  obtain x rows' where m: "mail_insert jsonb now e (fst s) = (x, rows')" by fastforce
  have c: "rows' = fst s \<or> mrow_at (fst s) (en_id e) = None \<and> rows' = fst s @ [new_mrow now (en_id e) (env_text e)]"
    using insert_row_cases[OF m[unfolded mail_insert_def]] by auto
  then have "processed_at rows' i = processed_at (fst s) i" for i
    by (auto simp: processed_at_def row_at_append new_mrow_def split: option.split if_splits)
  moreover have "distinct (map mr_event rows')" "list_all mrow_ok rows'"
    using c assms(1) env_stable_text[OF assms(2)]
    by (auto simp: mb_inv_def row_at_None new_mrow_def mrow_ok_def)
  ultimately show ?thesis using assms(1) m by (simp add: mb_inv_def)
qed

lemma mail_candidate:
  assumes "mb_inv (rows, log)" "mail_candidates now locked rows = r # rs"
  shows "mrow_at rows (mr_event r) = Some r \<and> mr_state r = MPending \<and> mr_attempts r < 5 \<and> mrow_ok r"
proof -
  have "r \<in> set (mail_candidates now locked rows)" using assms(2) by simp
  then have "r \<in> set rows" "mr_state r = MPending" "mr_attempts r < 5" by (simp_all add: mail_candidates_def)
  then show ?thesis using assms(1) row_at_mem[of mr_event rows r] by (auto simp: mb_inv_def list_all_iff)
qed

text \<open>Marking one pending row, with or without an entry in the log.\<close>

lemma mark_inv:
  assumes "mb_inv (rows, log)" "mrow_at rows i = Some r" "mr_state r = MPending" "mr_attempts r < 5"
  shows "st \<noteq> Processed \<Longrightarrow> mb_inv (mark_row now i st rows, log)"
    and "mb_inv (mark_row now i Processed rows, log @ [i])"
proof -
  have k: "distinct (map mr_event (mark_row now i st rows))" for st
    using assms(1) unfolding mark_row_def by (subst update_keys_same) (simp_all add: mb_inv_def)
  have u: "r' = r" if "r' \<in> set rows" "mr_event r' = i" for r'
    using row_at_mem[of mr_event rows r'] that assms(1,2) by (simp add: mb_inv_def)
  have o: "list_all mrow_ok (mark_row now i st rows)" for st
    unfolding mark_row_def list_all_iff
  proof
    fix r' assume "r' \<in> set (update_rows (\<lambda>r. mr_event r = i)
      (\<lambda>r. r\<lparr>mr_state := st, mr_attempts := mr_attempts r + 1, mr_available := now + 100000\<rparr>) rows)"
    then obtain q where q: "q \<in> set rows" "r' = (if mr_event q = i
        then q\<lparr>mr_state := st, mr_attempts := mr_attempts q + 1, mr_available := now + 100000\<rparr> else q)"
      by (auto simp: update_rows_def)
    then have "mrow_ok q" using assms(1) by (auto simp: mb_inv_def list_all_iff)
    then show "mrow_ok r'" using q u[OF q(1)] assms(4) by (auto simp: mrow_ok_def)
  qed
  have p: "processed_at (mark_row now i st rows) j = (if j = i then st = Processed else processed_at rows j)" for st j
    using assms(2) by (auto simp: processed_at_def mrow_mark split: option.split dest: row_at_key)
  have n: "i \<notin> set log" using assms(1-3) by (simp add: mb_inv_def processed_at_def)
  show "st \<noteq> Processed \<Longrightarrow> mb_inv (mark_row now i st rows, log)"
    using k o p n assms(1) by (auto simp: mb_inv_def)
  show "mb_inv (mark_row now i Processed rows, log @ [i])"
    using k o p n assms(1) by (auto simp: mb_inv_def)
qed

lemma consume_tx_inv:
  assumes "mb_inv s" shows "mb_inv (snd (consume_tx a (logging x) s))"
proof -
  obtain rows log where s: "s = (rows, log)" by (cases s)
  show ?thesis
  proof (cases "mail_candidates (co_select a) (co_locked a) rows")
    case Nil
    then show ?thesis using assms s by (simp add: consume_tx_def)
  next
    case (Cons r rs)
    note m = mail_candidate[OF assms[unfolded s] Cons]
    show ?thesis
    proof (cases "decode_text (mr_envelope r)")
      case (Inl e)
      then show ?thesis using assms s Cons by (simp add: consume_tx_def)
    next
      case (Inr ev)
      then have "en_id ev = mr_event r" using m by (auto simp: mrow_ok_def)
      then show ?thesis
        using s Cons Inr m mark_inv[OF assms[unfolded s], of "mr_event r" r]
        by (auto simp: consume_tx_def logging_def Let_def split: sum.split)
    qed
  qed
qed

lemma consume_snd: "snd (consume a fn s) = snd (db_transaction (co_call a) (consume_tx a fn) s)"
  by (simp add: consume_def split: prod.split sum.split)

lemma mail_publish_snd: "snd (mail_publish jsonb c now e rows) = snd (db_transaction c (mail_insert jsonb now e) rows)"
  by (simp add: mail_publish_def split: prod.split sum.split)

lemma mb_apply_inv: "mb_inv s \<Longrightarrow> mb_stable e \<Longrightarrow> mb_inv (mb_apply jsonb e s)"
proof (cases e)
  case (Publish c now ev)
  assume "mb_inv s" "mb_stable e"
  then show ?thesis
    using Publish mail_insert_inv[of s ev jsonb now]
      db.run_keeps_snd[of "\<lambda>rows. mb_inv (rows, snd s)" "fst s" "mail_insert jsonb now ev" c]
    by (simp add: mail_publish_snd)
next
  case (Consume a x)
  assume "mb_inv s"
  then show ?thesis
    using Consume consume_tx_inv[of s a x] db.run_keeps_snd[of mb_inv s "consume_tx a (logging x)" "co_call a"]
    by (simp add: consume_snd)
qed

lemma mb_run_inv: "mb_inv s \<Longrightarrow> list_all mb_stable es \<Longrightarrow> mb_inv (mb_run jsonb es s)"
  unfolding mb_run_def by (induction es arbitrary: s) (auto simp: mb_apply_inv)

section \<open>Properties\<close>

text \<open>
  C3: each event takes effect exactly once. After any history of publications, duplicates included, and of consumers that
  answer, refuse or throw in transactions that commit, fail or stay uncertain, the effects stored
  are those of the events marked processed, each exactly once.
\<close>

theorem consumed_exactly_once:
  assumes "list_all mb_stable es" "mb_run jsonb es ([], []) = (rows, log)"
  shows "distinct log \<and> (\<forall>i. i \<in> set log \<longleftrightarrow> processed_at rows i) \<and> list_all (\<lambda>r. mr_attempts r \<le> 5) rows"
proof -
  have "mb_inv ([], [])" by (simp add: mb_inv_def processed_at_def)
  from mb_run_inv[OF this assms(1), of jsonb] show ?thesis
    using assms(2) by (auto simp: mb_inv_def mrow_ok_def list_all_iff)
qed

definition sample_mail :: "mb_event list" where
  "sample_mail = [Publish good_call 5 (sample_envelope 8), Publish good_call 6 (sample_envelope 8),
     Consume \<lparr>co_call = good_call, co_select = 7, co_update = 7, co_locked = []\<rparr> (Inr (Inr ())),
     Consume \<lparr>co_call = good_call, co_select = 9, co_update = 9, co_locked = []\<rparr> (Inr (Inr ()))]"

theorem consumed_exactly_once_witness:
  "\<exists>rows. mb_run Some sample_mail ([], []) = (rows, [sid 8]) \<and> processed_at rows (sid 8)"
proof -
  obtain rows where r: "mb_run Some sample_mail ([], []) = (rows, [sid 8])"
    by (simp add: mb_run_def sample_mail_def mail_publish_def good_call_runs mail_insert_def insert_row_def Let_def
        new_mrow_def consume_def consume_tx_def mail_candidates_def sample_text logging_def handled_of_def mark_row_def
        update_rows_def sample_envelope_def[THEN arg_cong, of en_id])
  have "list_all mb_stable sample_mail" by (simp add: sample_mail_def sample_stable)
  from consumed_exactly_once[OF this r] r show ?thesis by auto
qed

end
