(* ===== verification/Pipeline.thy ===== *)
theory Pipeline
  imports Broker Mailbox
begin

text \<open>
  How the durable parts are put together: an outbox that publishes to the stream, and a transfer from the
  stream whose sink is a mailbox. The connection acts on its own state \<open>'w\<close>, beside the mailbox's table.
\<close>

definition stream_publisher :: "platform \<Rightarrow> 'w nats \<Rightarrow> jet_config \<Rightarrow> bool \<Rightarrow> 'w \<Rightarrow> publisher" where
  "stream_publisher pf nats c aborted w e = Inr (fst (jet_publish pf nats c aborted e w))"

definition beside :: "'w nats \<Rightarrow> ('w \<times> 'r) nats" where
  "beside nats rq s = (case nats rq (fst s) of (a, w1) \<Rightarrow> (a, w1, snd s))"

definition mailbox_sink :: "(str \<Rightarrow> 'j option) \<Rightarrow> call \<Rightarrow> int \<Rightarrow> ('w \<times> mrow list) sink" where
  "mailbox_sink jsonb c now e s = (case mail_publish jsonb c now e (snd s) of (r, rows1) \<Rightarrow> (Inr r, fst s, rows1))"


text \<open>The stream holds an event: a publication of its bytes was acknowledged.\<close>

definition stream_took :: "platform \<Rightarrow> jet_config \<Rightarrow> envelope \<Rightarrow> jet_entry list \<Rightarrow> bool" where
  "stream_took pf c e l \<longleftrightarrow> (\<exists>m answer l'. l = Asked (publish_request c e) (Some m) # l'
     \<and> json_parse (pf_lossy pf (ms_data m)) = Some answer \<and> acked c answer)"


lemma publish_took:
  assumes "good_receipt (receipt_of (stream_publisher pf (log_nats nats) c aborted (w, [])) e) e"
  shows "stream_took pf c e (snd (snd (jet_publish pf (log_nats nats) c aborted e (w, []))))"
proof -
  obtain r w' l where p: "jet_publish pf (log_nats nats) c aborted e (w, []) = (Inr r, w', l)"
    using assms by (cases "jet_publish pf (log_nats nats) c aborted e (w, [])")
      (auto simp: receipt_of_def stream_publisher_def good_receipt_def split: sum.splits)
  from publish_receipt[OF p] show ?thesis using p by (auto simp: stream_took_def split: if_splits)
qed






text \<open>What a transfer leaves in the mailbox: the rows as they were, or with the event of the message it was handed out.\<close>

lemma ask_beside:
  assumes "jet_ask (beside nats) subject data hdrs (w, rows) = (x, s')"
  obtains a w1 where "nats \<lparr>jr_subject = subject, jr_data = data, jr_headers = hdrs\<rparr> w = (a, w1)" "s' = (w1, rows)"
    "\<And>m. x = Inr m \<Longrightarrow> a = Some m"
  using assms by (auto simp: jet_ask_def beside_def split: prod.splits option.splits if_splits)

lemma deliver_rows:
  assumes "deliver (beside nats) (mailbox_sink jsonb cl now) m reply (w, rows) = (r, w', rows')"
  shows "rows' = rows \<or> (\<exists>e. env_decode (ms_data m) = Inr e \<and> rows' = snd (mail_publish jsonb cl now e rows))"
proof (cases "env_decode (ms_data m)")
  case (Inl f)
  then show ?thesis using assms by (simp add: deliver_def io_simps)
next
  case (Inr e)
  obtain rc rows1 where p: "mail_publish jsonb cl now e rows = (rc, rows1)" by fastforce
  obtain y w1 rows2 where q: "jet_ask (beside nats) reply (utf8_encode (lit ''+ACK'')) [] (w, rows1) = (y, w1, rows2)"
    using prod_cases3 by blast
  then have "rows2 = rows1" by (rule ask_beside) simp
  then have "rows' = rows1" using assms Inr p q by (auto simp: deliver_def io_simps mailbox_sink_def split: sum.splits if_splits)
  then show ?thesis using Inr p by simp
qed

lemma transfer_rows:
  assumes "transfer (beside nats) c aborted (mailbox_sink jsonb cl now) (w, rows) = (r, w', rows')"
  shows "rows' = rows \<or> (\<exists>m w1 e. nats (next_request c) w = (Some m, w1) \<and> env_decode (ms_data m) = Inr e
    \<and> rows' = snd (mail_publish jsonb cl now e rows))"
proof -
  let ?ask = "jet_ask (beside nats) (lit ''$JS.API.CONSUMER.MSG.NEXT.'' @ jc_stream c @ [46] @ jc_consumer c)
    (utf8_encode (lit ''{\"batch\":1,\"no_wait\":true}'')) []"
  obtain r0 where b: "transfer_body (beside nats) c (mailbox_sink jsonb cl now) (w, rows) = (r0, w', rows')"
    using assms by (auto simp: transfer_def jet_operation_def split: prod.splits sum.splits)
  obtain x s1 where k: "?ask (w, rows) = (x, s1)" by (cases "?ask (w, rows)")
  then obtain a w1 where n: "nats (next_request c) w = (a, w1)" "s1 = (w1, rows)" "\<And>m. x = Inr m \<Longrightarrow> a = Some m"
    by (rule ask_beside) (simp_all add: next_request_def)
  have t: "(case x of Inl e \<Rightarrow> (Inl e, s1) | Inr m \<Rightarrow> (if no_message m then io_return False
      else (case ms_reply m of None \<Rightarrow> io_throw (Carried jet_unavailable)
        | Some reply \<Rightarrow> if reply = [] then io_throw (Carried jet_unavailable)
            else deliver (beside nats) (mailbox_sink jsonb cl now) m reply)) s1) = (r0, w', rows')"
    using b k by (simp add: transfer_body_def io_bind_def)
  show ?thesis
  proof (cases x)
    case (Inr m)
    show ?thesis
    proof (cases "no_message m \<or> ms_reply m \<in> {None, Some []}")
      case True
      with t Inr n(2) show ?thesis by (auto simp: io_return_def io_throw_def split: if_splits)
    next
      case False
      then obtain reply where "deliver (beside nats) (mailbox_sink jsonb cl now) m reply (w1, rows) = (r0, w', rows')"
        using t Inr n(2) by auto
      from deliver_rows[OF this] n(1) n(3)[OF Inr] show ?thesis by auto
    qed
  qed (use t n(2) in auto)
qed

section \<open>Properties\<close>

text \<open>
  C13: what the outbox marks as sent is in the stream. Whatever a dispatch into the stream answers, and whatever
  others do to the outbox between its claim and its acknowledgement, every row that became sent meanwhile, and that
  nobody else acknowledged, is the row of an event whose bytes the stream took: it acknowledged their publication. And when
  the dispatch answers true there is such a row.
\<close>

theorem outbox_to_stream:
  assumes "ob_inv rows" "list_all ob_stable es"
    and "dispatch stopped a token (stream_publisher pf (log_nats nats) c aborted (w, [])) (ob_run jsonb es) cl now rows
      = (r, rows')"
  shows "(\<forall>i. sent_at i rows' \<and> \<not> sent_at i rows \<and> list_all (\<lambda>x. \<not> acks i x) es
      \<longrightarrow> (\<exists>e. en_id e = i \<and> stream_took pf c e (snd (snd (jet_publish pf (log_nats nats) c aborted e (w, []))))))
    \<and> (r = Inr True \<longrightarrow> (\<exists>e. sent_at (en_id e) rows'
        \<and> stream_took pf c e (snd (snd (jet_publish pf (log_nats nats) c aborted e (w, []))))))"
  using dispatch_receipt[OF assms] publish_took[of pf nats c aborted w] by blast


section \<open>Witnesses\<close>

theorem outbox_to_stream_witness:
  "\<exists>rows'. dispatch False (claim_at 10) (sid 4) (stream_publisher sample_platform (log_nats sample_nats) sample_jet False ((), []))
      (\<lambda>rows. rows) good_call 11 sample_rows = (Inr True, rows') \<and> (\<exists>e :: envelope. sent_at (en_id e) rows')"
proof -
  have r: "ob_run Some [] = (\<lambda>rows. rows)" by (rule ext) (simp add: ob_run_def)
  obtain rows' where k: "ack good_call 11 \<lparr>le_event = sample_envelope 8, le_token = sid 4, le_attempt = 1\<rparr> rows_after
      = (Inr (), rows')" using first_ack by blast
  have g: "good_receipt (receipt_of (stream_publisher sample_platform (log_nats sample_nats) sample_jet False ((), []))
      (sample_envelope 8)) (sample_envelope 8)"
    using sample_published by (auto simp: receipt_of_def stream_publisher_def good_receipt_def sample_envelope_def)
  have d: "dispatch False (claim_at 10) (sid 4) (stream_publisher sample_platform (log_nats sample_nats) sample_jet False ((), []))
      (ob_run Some []) good_call 11 sample_rows = (Inr True, rows')"
    using g by (simp add: dispatch_def first_claim k[simplified] r)
  from outbox_to_stream[OF sample_rows_inv _ d] have "\<exists>e :: envelope. sent_at (en_id e) rows'" by auto
  with d show ?thesis by (auto simp: r)
qed


end
