(* ===== verification/Delivery.thy ===== *)
theory Delivery
  imports Codec
begin

text \<open>
  \<open>src/shared/logger/delivery.ts\<close>: the bounded queue between the loggers and the sink. One pump
  writes line by line; the writes, the answers of the sink, and the calls of \<open>close\<close> interleave in any order.
\<close>

section \<open>State and steps\<close>

datatype flush_state = NotFlushed | Flushing | Flushed bool

text \<open>
  \<open>dl_writing\<close> is the line the pump awaits. Two fields record history: the lines
  accepted and the lines handed to the sink, each in order.
\<close>

record delivery =
  dl_accepted :: nat
  dl_written :: nat
  dl_dropped :: nat
  dl_failed :: nat
  dl_closed :: bool
  dl_queue :: "str list"
  dl_running :: bool
  dl_writing :: "str option"
  dl_flush :: flush_state
  dl_capacity :: nat
  dl_maxBytes :: nat
  dl_noop :: bool
  dl_canFlush :: bool
  dl_lines :: "str list"
  dl_handed :: "str list"

definition delivery_new :: "nat \<Rightarrow> nat \<Rightarrow> bool \<Rightarrow> bool \<Rightarrow> delivery" where
  "delivery_new capacity maxBytes noop canFlush =
     \<lparr>dl_accepted = 0, dl_written = 0, dl_dropped = 0, dl_failed = 0, dl_closed = False, dl_queue = [],
      dl_running = False, dl_writing = None, dl_flush = NotFlushed, dl_capacity = capacity,
      dl_maxBytes = maxBytes, dl_noop = noop, dl_canFlush = canFlush, dl_lines = [], dl_handed = []\<rparr>"

text \<open>\<open>#flush\<close>: nothing to await for a no-op delivery or a sink without \<open>flush\<close>.\<close>

definition start_flush :: "delivery \<Rightarrow> delivery" where
  "start_flush d = d\<lparr>dl_flush := (if dl_noop d \<or> \<not> dl_canFlush d then Flushed True else Flushing)\<rparr>"

text \<open>The head of the pump's loop.\<close>

definition pump_next :: "delivery \<Rightarrow> delivery" where
  "pump_next d = (case dl_queue d of
     line # q \<Rightarrow> d\<lparr>dl_queue := q, dl_writing := Some line, dl_handed := dl_handed d @ [line]\<rparr>
   | [] \<Rightarrow>
       let d' = d\<lparr>dl_running := False, dl_writing := None\<rparr> in
       if dl_closed d then start_flush d' else d')"

definition pump :: "delivery \<Rightarrow> delivery" where
  "pump d = pump_next (d\<lparr>dl_running := True\<rparr>)"

definition delivery_write :: "str \<Rightarrow> delivery \<Rightarrow> delivery" where
  "delivery_write line d =
     (if dl_closed d \<or> byteLength line > dl_maxBytes d
        \<or> (dl_running d \<and> length (dl_queue d) \<ge> dl_capacity d)
      then d\<lparr>dl_dropped := dl_dropped d + 1\<rparr>
      else let d' = d\<lparr>dl_accepted := dl_accepted d + 1, dl_queue := dl_queue d @ [line],
                     dl_lines := dl_lines d @ [line]\<rparr>
           in if \<not> dl_running d then pump d' else d')"

text \<open>The awaited write is fulfilled, or it threw.\<close>

definition sink_answers :: "bool \<Rightarrow> delivery \<Rightarrow> delivery" where
  "sink_answers ok d = (case dl_writing d of None \<Rightarrow> d
     | Some _ \<Rightarrow> pump_next (if ok then d\<lparr>dl_written := dl_written d + 1\<rparr> else d\<lparr>dl_failed := dl_failed d + 1\<rparr>))"

definition flush_answers :: "bool \<Rightarrow> delivery \<Rightarrow> delivery" where
  "flush_answers ok d = (if dl_flush d = Flushing
     then d\<lparr>dl_flush := Flushed ok, dl_failed := dl_failed d + (if ok then 0 else 1)\<rparr> else d)"

definition invalid_deadline :: failure where
  "invalid_deadline = fail Invalid ''invalid flush deadline'' ''logger.invalid_configuration''"

text \<open>The call of \<open>close\<close>, up to its race: a refusal, or the delivery closed.\<close>

definition close_call :: "number \<Rightarrow> delivery \<Rightarrow> failure option \<times> delivery" where
  "close_call timeoutMs d =
     (if \<not> is_finite timeoutMs \<or> num_lt timeoutMs 0 then (Some invalid_deadline, d)
      else if dl_closed d then (None, d)
      else let d' = d\<lparr>dl_closed := True\<rparr> in (None, if \<not> dl_running d then start_flush d' else d'))"

text \<open>Its answer, once the delivery is finished or the deadline has passed.\<close>

definition close_answer :: "bool \<Rightarrow> delivery \<Rightarrow> unit result" where
  "close_answer timedOut d =
     (if timedOut then Inl (fail Timeout ''log flush deadline exceeded'' ''logger.flush_timeout'')
      else if dl_failed d \<noteq> 0 then Inl (fail Unavailable ''log sink failed'' ''logger.sink'')
      else Inr ())"

datatype delivery_event = Write str | SinkAnswers bool | FlushAnswers bool | Close number

fun delivery_apply :: "delivery_event \<Rightarrow> delivery \<Rightarrow> delivery" where
  "delivery_apply (Write line) d = delivery_write line d"
| "delivery_apply (SinkAnswers ok) d = sink_answers ok d"
| "delivery_apply (FlushAnswers ok) d = flush_answers ok d"
| "delivery_apply (Close t) d = snd (close_call t d)"

definition delivery_run :: "delivery_event list \<Rightarrow> delivery \<Rightarrow> delivery" where
  "delivery_run evs d = fold delivery_apply evs d"

inductive delivery_step :: "delivery \<Rightarrow> delivery \<Rightarrow> bool" where
  "delivery_step d (delivery_apply e d)"

inductive_cases delivery_stepE: "delivery_step d d'"

section \<open>The invariant\<close>

definition pending :: "delivery \<Rightarrow> nat" where
  "pending d = length (dl_queue d) + (case dl_writing d of None \<Rightarrow> 0 | Some _ \<Rightarrow> 1)"

definition flush_failures :: "delivery \<Rightarrow> nat" where
  "flush_failures d = (if dl_flush d = Flushed False then 1 else 0)"

definition delivery_inv :: "delivery \<Rightarrow> bool" where
  "delivery_inv d \<longleftrightarrow> dl_running d = (dl_writing d \<noteq> None)
     \<and> (\<not> dl_running d \<longrightarrow> dl_queue d = [])
     \<and> length (dl_queue d) \<le> dl_capacity d
     \<and> dl_accepted d + flush_failures d = dl_written d + dl_failed d + pending d
     \<and> flush_failures d \<le> dl_failed d
     \<and> dl_accepted d = length (dl_lines d) \<and> dl_lines d = dl_handed d @ dl_queue d
     \<and> (dl_flush d = NotFlushed) = (\<not> dl_closed d \<or> dl_running d)
     \<and> list_all (\<lambda>l. byteLength l \<le> dl_maxBytes d) (dl_lines d)"

lemmas delivery_defs = delivery_inv_def pending_def flush_failures_def pump_def pump_next_def start_flush_def

lemma delivery_new_inv [simp]: "delivery_inv (delivery_new c m n f)"
  by (simp add: delivery_new_def delivery_defs)

lemma delivery_write_inv: "delivery_inv d \<Longrightarrow> delivery_inv (delivery_write line d)"
  by (cases "dl_running d") (auto simp: delivery_write_def delivery_defs Let_def split: list.splits option.splits)

lemma sink_answers_inv: "delivery_inv d \<Longrightarrow> delivery_inv (sink_answers ok d)"
  by (cases "dl_writing d"; cases "dl_queue d"; cases ok)
    (auto simp: sink_answers_def delivery_defs Let_def)

lemma flush_answers_inv: "delivery_inv d \<Longrightarrow> delivery_inv (flush_answers ok d)"
  by (cases ok) (auto simp: flush_answers_def delivery_defs)

lemma close_call_inv: "delivery_inv d \<Longrightarrow> delivery_inv (snd (close_call t d))"
  by (cases "dl_running d") (auto simp: close_call_def delivery_defs Let_def)

lemma delivery_apply_inv: "delivery_inv d \<Longrightarrow> delivery_inv (delivery_apply e d)"
  by (cases e) (simp_all add: delivery_write_inv sink_answers_inv flush_answers_inv close_call_inv)

interpretation delivery: step_invariant delivery_step delivery_inv
  by unfold_locales (auto elim!: delivery_stepE simp: delivery_apply_inv)

lemma delivery_run_steps: "delivery_step\<^sup>*\<^sup>* d (delivery_run evs d)"
proof (induction evs arbitrary: d)
  case (Cons e evs)
  have "delivery_step d (delivery_apply e d)" by (rule delivery_step.intros)
  with Cons[of "delivery_apply e d"] show ?case
    by (simp add: delivery_run_def converse_rtranclp_into_rtranclp)
qed (simp add: delivery_run_def)

lemma delivery_run_inv: "delivery_inv d \<Longrightarrow> delivery_inv (delivery_run evs d)"
  by (rule delivery.steps_inv[OF delivery_run_steps])

text \<open>What closing leaves to happen: every answer of the sink takes one pending line away.\<close>

lemma sink_answers_pending:
  assumes "delivery_inv d" "dl_closed d" "pending d = Suc n"
  shows "pending (sink_answers ok d) = n \<and> dl_closed (sink_answers ok d)"
  using assms
  by (cases "dl_writing d"; cases "dl_queue d"; cases ok)
    (auto simp: sink_answers_def delivery_defs Let_def)

lemma sink_answers_all:
  "delivery_inv d \<Longrightarrow> dl_closed d \<Longrightarrow> pending d = length oks \<Longrightarrow>
     pending (fold sink_answers oks d) = 0 \<and> dl_closed (fold sink_answers oks d) \<and> delivery_inv (fold sink_answers oks d)"
proof (induction oks arbitrary: d)
  case (Cons ok oks)
  have "pending (sink_answers ok d) = length oks" "dl_closed (sink_answers ok d)"
    using sink_answers_pending[OF Cons.prems(1,2), of "length oks" ok] Cons.prems(3) by simp_all
  with Cons.IH[OF sink_answers_inv[OF Cons.prems(1)]] show ?case by simp
qed simp

section \<open>Properties\<close>

text \<open>
  C38: under any interleaving of writes, sink answers, flush answers and closes, every line is accounted
  for: each accepted line is written, failed, being written or queued; the queue respects the capacity; the sink
  is handed the accepted lines in order, none twice and none invented; none exceeds the byte limit.
\<close>

theorem delivery_accounts:
  "let d = delivery_run evs (delivery_new capacity maxBytes noop canFlush) in
     dl_accepted d + flush_failures d = dl_written d + dl_failed d + pending d
   \<and> length (dl_queue d) \<le> dl_capacity d
   \<and> dl_handed d @ dl_queue d = dl_lines d \<and> length (dl_lines d) = dl_accepted d
   \<and> list_all (\<lambda>l. byteLength l \<le> dl_maxBytes d) (dl_lines d)"
  using delivery_run_inv[OF delivery_new_inv, of evs capacity maxBytes noop canFlush]
  unfolding delivery_inv_def Let_def by (intro conjI) (blast | metis)+

text \<open>
  After a close the delivery finishes whatever the sink does: once it has answered for the pending
  lines and the flush, nothing is pending, the flush is over, and closing reports success exactly
  when neither a write nor the flush failed.
\<close>

lemma close_drains:
  assumes "d = delivery_run evs (delivery_new capacity maxBytes noop canFlush)"
    and "dl_closed d" "length oks = pending d"
  shows "let e = flush_answers fok (fold sink_answers oks d) in
     pending e = 0 \<and> (\<exists>b. dl_flush e = Flushed b)
     \<and> dl_written e + dl_failed e = dl_accepted e + flush_failures e
     \<and> (close_answer False e = Inr ()) = (dl_written e = dl_accepted e \<and> flush_failures e = 0)"
proof -
  have inv: "delivery_inv d" using delivery_run_inv[OF delivery_new_inv] by (simp add: assms(1))
  define f where "f = fold sink_answers oks d"
  have f: "pending f = 0" "dl_closed f" "delivery_inv f"
    using sink_answers_all[OF inv assms(2)] assms(3) by (simp_all add: f_def)
  then have "dl_flush f \<noteq> NotFlushed"
    by (auto simp: delivery_inv_def pending_def split: option.splits)
  then have "\<exists>b. dl_flush (flush_answers fok f) = Flushed b"
    by (cases "dl_flush f") (auto simp: flush_answers_def)
  moreover have "pending (flush_answers fok f) = 0" using f(1) by (simp add: flush_answers_def pending_def)
  moreover have "delivery_inv (flush_answers fok f)" by (rule flush_answers_inv[OF f(3)])
  ultimately show ?thesis
    by (auto simp: f_def[symmetric] Let_def close_answer_def delivery_inv_def flush_failures_def split: if_splits)
qed

lemma close_drains_witness:
  "close_answer False (flush_answers True (fold sink_answers [True, True]
     (delivery_run [Write [97], Write [98], Close (Whole 5)] (delivery_new 4 10 False True)))) = Inr ()"
proof -
  define d where "d = delivery_run [Write [97], Write [98], Close (Whole 5)] (delivery_new 4 10 False True)"
  have b: "byteLength [97] \<le> 10" "byteLength [98] \<le> 10"
    by (simp_all add: byteLength_def utf8_encode_def points_def char_point_def utf8_point_def is_surrogate_def)
  have d: "dl_closed d" "dl_queue d = [[98]]" "dl_writing d = Some [97]" "dl_written d = 0" "dl_failed d = 0"
    "dl_accepted d = 2" "dl_flush d = NotFlushed" "dl_noop d = False" "dl_canFlush d"
    using b by (simp_all add: d_def delivery_run_def delivery_new_def delivery_write_def pump_def pump_next_def
        close_call_def Let_def)
  have "length [True, True] = pending d" using d by (simp add: pending_def)
  from close_drains[OF d_def d(1) this, of True] d show ?thesis
    by (simp add: d_def[symmetric] Let_def sink_answers_def pump_next_def start_flush_def flush_answers_def
        flush_failures_def)
qed

end
