(* ===== verification/Http.thy ===== *)
theory Http
  imports Provenance
begin

text \<open>
  The transport-neutral part of HTTP: trace references and outcomes
  (\<open>src/shared/telemetry/index.ts\<close>), the classification of completions
  (\<open>src/shared/http/policy.ts\<close>), problem documents (\<open>problem.ts\<close>) and the observation of one
  request (\<open>lifecycle.ts\<close>).
\<close>

section \<open>Telemetry values\<close>

record trace_data =
  tr_traceId :: str
  tr_spanId :: str
  tr_sampled :: bool

definition trace_id_valid :: "jsval \<Rightarrow> nat \<Rightarrow> bool" where
  "trace_id_valid v n = (case v of
     Str s \<Rightarrow> length s = n \<and> s \<noteq> [] \<and> list_all is_lhex s \<and> list_ex (\<lambda>c. is_lhex c \<and> c \<noteq> 48) s
   | _ \<Rightarrow> False)"

definition traceRef :: "jsval \<Rightarrow> jsval \<Rightarrow> jsval \<Rightarrow> trace_data brand result" where
  "traceRef traceId spanId sampled = (case (traceId, spanId, sampled) of
     (Str t, Str s, Bool b) \<Rightarrow>
       if \<not> trace_id_valid traceId 32 \<or> \<not> trace_id_valid spanId 16
       then Inl (fail Invalid ''invalid telemetry context'' ''telemetry.invalid_context'')
       else Inr (Made \<lparr>tr_traceId = t, tr_spanId = s, tr_sampled = b\<rparr>)
   | _ \<Rightarrow> Inl (fail Invalid ''invalid telemetry context'' ''telemetry.invalid_context''))"

fun trace_snapshot :: "trace_data brand \<Rightarrow> exn + trace_data" where
  "trace_snapshot (Made t) = Inr t"
| "trace_snapshot Forged = Inl (TypeError (lit ''expected a TraceRef constructed by this module''))"

datatype outcome = Success | Refused | Failed | CanceledOutcome | TimedOut

fun outcome_name :: "outcome \<Rightarrow> str" where
  "outcome_name Success = lit ''success''"
| "outcome_name Refused = lit ''refused''"
| "outcome_name Failed = lit ''failed''"
| "outcome_name CanceledOutcome = lit ''canceled''"
| "outcome_name TimedOut = lit ''timed_out''"

definition OUTCOMES :: "outcome list" where
  "OUTCOMES = [Success, Refused, Failed, CanceledOutcome, TimedOut]"

definition parseOutcome :: "jsval \<Rightarrow> outcome result" where
  "parseOutcome v = (case (case v of Str s \<Rightarrow> find (\<lambda>x. outcome_name x = s) OUTCOMES | _ \<Rightarrow> None) of
     None \<Rightarrow> Inl (fail Invalid ''invalid telemetry outcome'' ''telemetry.invalid_outcome'')
   | Some x \<Rightarrow> Inr x)"

section \<open>Classification\<close>

definition methods :: "str list" where
  "methods = [lit ''GET'', lit ''HEAD'', lit ''POST'', lit ''PUT'', lit ''DELETE'', lit ''CONNECT'',
     lit ''OPTIONS'', lit ''TRACE'', lit ''PATCH'']"

definition normalizeMethod :: "str \<Rightarrow> str" where
  "normalizeMethod v = (if v \<in> set methods then v else lit ''_OTHER'')"

text \<open>The facts may come from untyped code: the termination is any text, the kind any value.\<close>

record facts =
  ft_status :: "number option"
  ft_failureKind :: jsval
  ft_termination :: str

record classification =
  cl_outcome :: outcome
  cl_spanError :: bool
  cl_errorType :: "str option"

definition invalid_completion :: "classification result" where
  "invalid_completion = Inl (fail Invalid ''invalid HTTP completion'' ''http.invalid_completion'')"

definition completed_outcome :: "kind option \<Rightarrow> int \<Rightarrow> outcome \<times> str option" where
  "completed_outcome k status = (case k of
     Some Timeout \<Rightarrow> (TimedOut, Some (lit ''timeout''))
   | Some Canceled \<Rightarrow> (CanceledOutcome, Some (lit ''canceled''))
   | Some Internal \<Rightarrow> (Failed, None)
   | Some Unavailable \<Rightarrow> (Failed, None)
   | Some _ \<Rightarrow> (Refused, None)
   | None \<Rightarrow> (if status \<ge> 500 then Failed else if status \<ge> 400 then Refused else Success, None))"

text \<open>The \<open>switch\<close>; \<open>None\<close> is its default branch.\<close>

definition terminated :: "str \<Rightarrow> kind option \<Rightarrow> int \<Rightarrow> (outcome \<times> str option) option" where
  "terminated t k status =
     (if t = lit ''peer_closed'' then Some (CanceledOutcome, Some (lit ''canceled''))
      else if t = lit ''deadline'' then Some (TimedOut, Some (lit ''timeout''))
      else if t \<in> set [lit ''handler_error'', lit ''write_error'', lit ''abandoned''] then Some (Failed, Some t)
      else if t = lit ''response_completed'' then Some (completed_outcome k status)
      else None)"

definition status_value :: "number option \<Rightarrow> int" where
  "status_value s = (case s of Some (Whole n) \<Rightarrow> n | _ \<Rightarrow> 0)"

definition classifyCompletion :: "facts option \<Rightarrow> classification result" where
  "classifyCompletion fo = (case fo of None \<Rightarrow> invalid_completion | Some f \<Rightarrow>
     if (case ft_status f of None \<Rightarrow> False | Some s \<Rightarrow> \<not> int_in 200 599 s) then invalid_completion
     else if ft_failureKind f \<noteq> Undefined \<and> parseKind (ft_failureKind f) = None then invalid_completion
     else if ft_termination f = lit ''response_completed'' \<and> ft_status f = None then invalid_completion
     else (case terminated (ft_termination f) (parseKind (ft_failureKind f)) (status_value (ft_status f)) of
         None \<Rightarrow> invalid_completion
       | Some (outcome, errorType) \<Rightarrow>
           let spanError = (ft_termination f \<noteq> lit ''response_completed''
                 \<or> status_value (ft_status f) \<ge> 500
                 \<or> outcome \<in> set [Failed, CanceledOutcome, TimedOut]);
               errorType' = (if errorType = None \<and> spanError
                 then Some (if status_value (ft_status f) \<ge> 500 then show_int (status_value (ft_status f))
                            else lit ''handler_error'')
                 else errorType)
           in Inr \<lparr>cl_outcome = outcome, cl_spanError = spanError, cl_errorType = errorType'\<rparr>))"

section \<open>Problems\<close>

record problem_doc =
  pb_type :: str
  pb_title :: str
  pb_detail :: str
  pb_kind :: kind
  pb_status :: int
  pb_code :: "str option"
  pb_fields :: "str obj option"

fun kind_status :: "kind \<Rightarrow> int" where
  "kind_status Invalid = 400"
| "kind_status Not_found = 404"
| "kind_status Conflict = 409"
| "kind_status Unauthenticated = 401"
| "kind_status Forbidden = 403"
| "kind_status Rate_limited = 429"
| "kind_status Unavailable = 503"
| "kind_status Timeout = 503"
| "kind_status Canceled = 503"
| "kind_status Internal = 500"

definition status_titles :: "(int \<times> str) list" where
  "status_titles = [(400, lit ''Bad Request''), (401, lit ''Unauthorized''), (403, lit ''Forbidden''),
     (404, lit ''Not Found''), (409, lit ''Conflict''), (429, lit ''Too Many Requests''),
     (503, lit ''Service Unavailable''), (500, lit ''Internal Server Error'')]"

definition problemOf :: "jsval + 'a \<Rightarrow> problem_doc option" where
  "problemOf r = (case r of Inr _ \<Rightarrow> None
     | Inl e \<Rightarrow>
         let info = publicInfo e; status = kind_status (pi_kind info) in
         Some \<lparr>pb_type = lit ''urn:n2f:problem:'' @ kind_name (pi_kind info),
           pb_title = the (map_of status_titles status), pb_detail = pi_message info,
           pb_kind = pi_kind info, pb_status = status, pb_code = nonempty (pi_type info),
           pb_fields = (case pi_fields info of
               Some fs \<Rightarrow> if length (keys_of fs) \<noteq> 0 then Some (spread [] fs) else None
             | None \<Rightarrow> None)\<rparr>)"

section \<open>The observation of one request\<close>

record completion =
  co_facts :: facts
  co_classification :: classification
  co_elapsedNs :: int

text \<open>
  An output is asked whether it throws on a completion. \<open>finish\<close> takes the reading of the clock
  it would make and also answers the calls it makes to the outputs, in their order.
\<close>

record active =
  av_started :: int
  av_outputs :: "(completion \<Rightarrow> bool) list"
  av_done :: bool
  av_failed :: nat

definition active_new :: "int \<Rightarrow> (completion \<Rightarrow> bool) list \<Rightarrow> active" where
  "active_new now outputs = \<lparr>av_started = now, av_outputs = outputs, av_done = False, av_failed = 0\<rparr>"

definition active_finish :: "facts option \<Rightarrow> int \<Rightarrow> active \<Rightarrow> bool result \<times> (nat \<times> completion) list \<times> active" where
  "active_finish fo now a =
     (case classifyCompletion fo of
        Inl e \<Rightarrow> (Inl e, [], a)
      | Inr c \<Rightarrow>
          if av_done a then (Inr False, [], a)
          else let elapsed = now - av_started a in
            if elapsed < 0
            then (Inl (fail Invalid ''invalid observation duration'' ''telemetry.invalid_duration''), [], a)
            else let comp = \<lparr>co_facts = the fo, co_classification = c, co_elapsedNs = elapsed\<rparr> in
              (Inr True, map (\<lambda>i. (i, comp)) [0..<length (av_outputs a)],
               a\<lparr>av_done := True, av_failed := av_failed a + length (filter (\<lambda>out. out comp) (av_outputs a))\<rparr>))"

fun active_run :: "(facts option \<times> int) list \<Rightarrow> active \<Rightarrow> bool result list \<times> (nat \<times> completion) list \<times> active" where
  "active_run [] a = ([], [], a)"
| "active_run ((fo, now) # xs) a = (case active_finish fo now a of (r, calls, a1) \<Rightarrow>
     (case active_run xs a1 of (rs, rest, a2) \<Rightarrow> (r # rs, calls @ rest, a2)))"

section \<open>Lemmas\<close>

lemma classify_cases:
  assumes "classifyCompletion (Some f) = Inr c"
  obtains x e where "terminated (ft_termination f) (parseKind (ft_failureKind f)) (status_value (ft_status f)) = Some (x, e)"
    "cl_outcome c = x"
    "cl_spanError c = (ft_termination f \<noteq> lit ''response_completed'' \<or> status_value (ft_status f) \<ge> 500
       \<or> x \<in> {Failed, CanceledOutcome, TimedOut})"
    "cl_errorType c = (if e = None \<and> cl_spanError c
       then Some (if status_value (ft_status f) \<ge> 500 then show_int (status_value (ft_status f)) else lit ''handler_error'')
       else e)"
    "ft_termination f = lit ''response_completed'' \<Longrightarrow> ft_status f = Some (Whole (status_value (ft_status f)))
       \<and> 200 \<le> status_value (ft_status f)"
  using assms
  by (auto simp: classifyCompletion_def invalid_completion_def Let_def status_value_def int_in_iff
      split: if_splits option.splits prod.splits)

lemma classify_completed:
  assumes "200 \<le> s" "s \<le> 599"
  shows "\<exists>c. classifyCompletion (Some \<lparr>ft_status = Some (Whole s), ft_failureKind = Str (kind_name k),
        ft_termination = lit ''response_completed''\<rparr>) = Inr c
      \<and> cl_outcome c = fst (completed_outcome (Some k) s)
      \<and> cl_spanError c = (s \<ge> 500 \<or> cl_outcome c \<in> {Failed, CanceledOutcome, TimedOut})"
  using assms
  by (cases "completed_outcome (Some k) s")
    (simp add: classifyCompletion_def terminated_def status_value_def Let_def)

lemma completed_outcome_success: "fst (completed_outcome k s) = Success \<longleftrightarrow> k = None \<and> s < 400"
  by (auto simp: completed_outcome_def split: option.split kind.split)

lemma completed_outcome_error:
  "fst (completed_outcome k s) \<in> {Success, Refused} \<Longrightarrow> snd (completed_outcome k s) = None"
  by (auto simp: completed_outcome_def split: option.splits kind.splits if_splits)

lemma active_finish_done: "av_done a \<Longrightarrow> \<exists>r. active_finish fo now a = (r, [], a) \<and> r \<noteq> Inr True"
  by (auto simp: active_finish_def split: sum.split)

lemma active_run_done: "av_done a \<Longrightarrow> active_run xs a = (rs, calls, a') \<Longrightarrow>
    calls = [] \<and> a' = a \<and> Inr True \<notin> set rs"
proof (induction xs arbitrary: rs calls a')
  case (Cons x xs)
  obtain fo now where x: "x = (fo, now)" by (cases x)
  obtain r where r: "active_finish fo now a = (r, [], a)" "r \<noteq> Inr True"
    using active_finish_done[OF Cons.prems(1)] by blast
  obtain rs1 calls1 a1 where run: "active_run xs a = (rs1, calls1, a1)" by (metis prod_cases3)
  then have "rs = r # rs1" "calls = calls1" "a' = a1" using Cons.prems(2) x r(1) by simp_all
  with Cons.IH[OF Cons.prems(1) run] r(2) show ?case by auto
qed simp

section \<open>Properties\<close>

text \<open>
  A classification is coherent: an error type is given exactly when the span is an error,
  the outcome is a success exactly for a completed response below 400 without a failure
  kind, and a span that is not an error is a success or a refusal below 500.
\<close>

lemma classification_coherent:
  assumes "classifyCompletion (Some f) = Inr c"
  shows "(cl_errorType c \<noteq> None) = cl_spanError c
    \<and> (cl_outcome c = Success) = (ft_termination f = lit ''response_completed''
         \<and> parseKind (ft_failureKind f) = None \<and> status_value (ft_status f) < 400)
    \<and> (cl_spanError c \<or> cl_outcome c \<in> {Success, Refused} \<and> status_value (ft_status f) < 500)"
  using assms
proof (rule classify_cases)
  fix x e
  assume t: "terminated (ft_termination f) (parseKind (ft_failureKind f)) (status_value (ft_status f)) = Some (x, e)"
    and c: "cl_outcome c = x"
    "cl_spanError c = (ft_termination f \<noteq> lit ''response_completed'' \<or> status_value (ft_status f) \<ge> 500
       \<or> x \<in> {Failed, CanceledOutcome, TimedOut})"
    "cl_errorType c = (if e = None \<and> cl_spanError c
       then Some (if status_value (ft_status f) \<ge> 500 then show_int (status_value (ft_status f)) else lit ''handler_error'')
       else e)"
  show ?thesis
  proof (cases "ft_termination f = lit ''response_completed''")
    case True
    then have x: "(x, e) = completed_outcome (parseKind (ft_failureKind f)) (status_value (ft_status f))"
      using t by (simp add: terminated_def)
    note s = completed_outcome_success[of "parseKind (ft_failureKind f)" "status_value (ft_status f)"]
      completed_outcome_error[of "parseKind (ft_failureKind f)" "status_value (ft_status f)"]
    have ex: "x = fst (completed_outcome (parseKind (ft_failureKind f)) (status_value (ft_status f)))"
      "e = snd (completed_outcome (parseKind (ft_failureKind f)) (status_value (ft_status f)))"
      using x by (metis fst_conv) (metis x snd_conv)
    have en: "x \<in> {Success, Refused} \<Longrightarrow> e = None" using s(2) ex by simp
    have xs: "x = Success \<longleftrightarrow> parseKind (ft_failureKind f) = None \<and> status_value (ft_status f) < 400"
      using s(1) ex(1) by simp
    have "cl_errorType c \<noteq> None \<longleftrightarrow> cl_spanError c" using c en by (cases x) auto
    moreover have "cl_spanError c \<or> x \<in> {Success, Refused} \<and> status_value (ft_status f) < 500"
      using c(2) by (cases x) auto
    ultimately show ?thesis using c(1) xs True by simp
  next
    case False
    then show ?thesis using t c by (auto simp: terminated_def split: if_splits)
  qed
qed

lemma classification_coherent_witness:
  "\<exists>c. classifyCompletion (Some \<lparr>ft_status = Some (Whole 503), ft_failureKind = Str (lit ''timeout''),
      ft_termination = lit ''response_completed''\<rparr>) = Inr c \<and> cl_errorType c = Some (lit ''timeout'')
      \<and> cl_spanError c"
proof -
  define f where "f = \<lparr>ft_status = Some (Whole 503), ft_failureKind = Str (lit ''timeout''),
      ft_termination = lit ''response_completed''\<rparr>"
  have k: "parseKind (Str (lit ''timeout'')) = Some Timeout" using parseKind_name[of Timeout] by simp
  obtain c where c: "classifyCompletion (Some f) = Inr c" "cl_errorType c = Some (lit ''timeout'')"
    by (simp add: classifyCompletion_def f_def k terminated_def completed_outcome_def status_value_def Let_def)
  from classification_coherent[OF c(1)] c show ?thesis by (simp add: f_def)
qed

text \<open>
  The problem document of any refusal and the classification of the response that carries
  it agree: the document has the status of its kind and that status's title, the response is never
  a success, and its span is an error exactly for a status of 500 or more.
\<close>

lemma problem_and_classification_agree:
  "\<exists>p c. problemOf (Inl e :: jsval + unit) = Some p
     \<and> classifyCompletion (Some \<lparr>ft_status = Some (Whole (pb_status p)),
          ft_failureKind = Str (kind_name (pb_kind p)), ft_termination = lit ''response_completed''\<rparr>) = Inr c
     \<and> pb_status p = kind_status (pb_kind p) \<and> map_of status_titles (pb_status p) = Some (pb_title p)
     \<and> cl_outcome c \<noteq> Success \<and> cl_spanError c = (pb_status p \<ge> 500)"
proof -
  define k where "k = pi_kind (publicInfo e)"
  obtain p where p: "problemOf (Inl e :: jsval + unit) = Some p" "pb_kind p = k" "pb_status p = kind_status k"
    "pb_title p = the (map_of status_titles (kind_status k))"
    by (simp add: problemOf_def Let_def k_def)
  have "map_of status_titles (kind_status k) = Some (pb_title p)"
    using p(4) by (cases k) (simp_all add: status_titles_def)
  have "\<exists>c. classifyCompletion (Some \<lparr>ft_status = Some (Whole (kind_status k)),
          ft_failureKind = Str (kind_name k), ft_termination = lit ''response_completed''\<rparr>) = Inr c
     \<and> cl_outcome c \<noteq> Success \<and> cl_spanError c = (kind_status k \<ge> 500)"
  proof -
    have r: "200 \<le> kind_status k" "kind_status k \<le> 599" by (cases k; simp)+
    obtain c where c: "classifyCompletion (Some \<lparr>ft_status = Some (Whole (kind_status k)),
        ft_failureKind = Str (kind_name k), ft_termination = lit ''response_completed''\<rparr>) = Inr c"
      "cl_outcome c = fst (completed_outcome (Some k) (kind_status k))"
      "cl_spanError c = (kind_status k \<ge> 500 \<or> cl_outcome c \<in> {Failed, CanceledOutcome, TimedOut})"
      using classify_completed[OF r, of k] by blast
    have "cl_outcome c \<noteq> Success \<and> (cl_outcome c \<in> {Failed, CanceledOutcome, TimedOut} \<longrightarrow> kind_status k \<ge> 500)"
      unfolding c(2) by (cases k) (simp_all add: completed_outcome_def)
    then show ?thesis using c(1,3) by blast
  qed
  then obtain c where "classifyCompletion (Some \<lparr>ft_status = Some (Whole (kind_status k)),
          ft_failureKind = Str (kind_name k), ft_termination = lit ''response_completed''\<rparr>) = Inr c"
     "cl_outcome c \<noteq> Success" "cl_spanError c = (kind_status k \<ge> 500)" by blast
  then show ?thesis
    using p \<open>map_of status_titles (kind_status k) = Some (pb_title p)\<close>
    by (intro exI[of _ p] exI[of _ c]) simp
qed

text \<open>
  A value that is not a failure of this code base, and any internal failure, become one and
  the same problem document, so nothing private reaches the response.
\<close>

lemma internal_problems_uniform:
  assumes "trusted e = None \<or> kindOf e = Some Internal"
  shows "problemOf (Inl e :: jsval + unit) = problemOf (Inl Undefined :: jsval + unit)
    \<and> map_option pb_detail (problemOf (Inl e :: jsval + unit)) = Some (lit ''internal error'')"
  using assms by (auto simp: problemOf_def publicInfo_def kindOf_def Let_def)

lemma internal_problems_uniform_witness:
  "problemOf (Inl (Str (lit ''secret'')) :: jsval + unit)
   = problemOf (Inl (FailureV (fail Internal ''db down'' ''db.down'')) :: jsval + unit)"
  using internal_problems_uniform[of "Str (lit ''secret'')"]
    internal_problems_uniform[of "FailureV (fail Internal ''db down'' ''db.down'')"]
  by (simp add: kindOf_def)

text \<open>
  However often and in whatever way a request is reported finished, at most one report
  counts: each output is called at most once, all with the same completion of a duration that
  is not negative, and the failed attempts are the outputs that threw on it.
\<close>

lemma request_observed_once:
  "case active_run xs (active_new start outs) of (rs, calls, a) \<Rightarrow>
     if av_done a
     then \<exists>comp. calls = map (\<lambda>i. (i, comp)) [0..<length outs] \<and> 0 \<le> co_elapsedNs comp
       \<and> av_failed a = length (filter (\<lambda>out. out comp) outs)
       \<and> length (filter (\<lambda>r. r = Inr True) rs) = 1
     else calls = [] \<and> av_failed a = 0 \<and> Inr True \<notin> set rs"
proof (induction xs)
  case Nil
  then show ?case by (simp add: active_new_def)
next
  case (Cons x xs)
  obtain fo now where x: "x = (fo, now)" by (cases x)
  define a0 where "a0 = active_new start outs"
  obtain r calls a1 where f: "active_finish fo now a0 = (r, calls, a1)" by (metis prod_cases3)
  obtain rs rest a2 where run: "active_run xs a1 = (rs, rest, a2)" by (metis prod_cases3)
  show ?case
  proof (cases "r = Inr True")
    case False
    then have "a1 = a0" "calls = []"
      using f by (auto simp: active_finish_def Let_def split: sum.splits if_splits)
    then show ?thesis using Cons.IH f run False by (auto simp: x a0_def)
  next
    case True
    then obtain cl where cl: "classifyCompletion fo = Inr cl"
      using f by (auto simp: active_finish_def split: sum.splits)
    define comp where "comp = \<lparr>co_facts = the fo, co_classification = cl, co_elapsedNs = now - start\<rparr>"
    have c: "calls = map (\<lambda>i. (i, comp)) [0..<length outs]" "0 \<le> co_elapsedNs comp"
      "a1 = a0\<lparr>av_done := True, av_failed := length (filter (\<lambda>out. out comp) outs)\<rparr>"
      using f True cl
      by (auto simp: active_finish_def active_new_def a0_def comp_def Let_def split: if_splits)
    have "rest = [] \<and> a2 = a1 \<and> Inr True \<notin> set rs"
      by (rule active_run_done[OF _ run]) (simp add: c(3))
    then have e: "active_run (x # xs) (active_new start outs) = (Inr True # rs, calls, a1)" and rs: "Inr True \<notin> set rs"
      using f run True by (simp_all add: x a0_def)
    have "length (filter (\<lambda>r. r = Inr True) (Inr True # rs)) = 1"
      using rs by (simp add: filter_empty_conv) metis
    with c have "\<exists>comp. calls = map (\<lambda>i. (i, comp)) [0..<length outs] \<and> 0 \<le> co_elapsedNs comp
       \<and> av_failed a1 = length (filter (\<lambda>out. out comp) outs)
       \<and> length (filter (\<lambda>r. r = Inr True) (Inr True # rs)) = 1"
      by (intro exI[of _ comp]) simp
    then show ?thesis unfolding e by (simp add: c(3))
  qed
qed

end
