(* ===== verification/Logger.thy ===== *)
theory Logger
  imports Delivery Projection Factory Http
begin

text \<open>
  \<open>src/shared/logger\<close>: levels and colours (\<open>config.ts\<close>), the snapshot of log fields
  (\<open>fields.ts\<close>), the projections of errors and scopes (\<open>projection.ts\<close>), and the logger
  and its runtime (\<open>runtime.ts\<close>). The JSON encoder of the library the code uses for the json format
  is a parameter.
\<close>

section \<open>Configuration\<close>

datatype level = Debug | Info | Warn | Error

fun rank :: "level \<Rightarrow> nat" where
  "rank Debug = 10"
| "rank Info = 20"
| "rank Warn = 30"
| "rank Error = 40"

fun level_name :: "level \<Rightarrow> str" where
  "level_name Debug = lit ''debug''"
| "level_name Info = lit ''info''"
| "level_name Warn = lit ''warn''"
| "level_name Error = lit ''error''"

definition log_invalid :: failure where
  "log_invalid = fail Invalid ''invalid logger configuration'' ''logger.invalid_configuration''"

definition parseLevel :: "str \<Rightarrow> level result" where
  "parseLevel s = (case find (\<lambda>l. level_name l = s) [Debug, Info, Warn, Error] of
     Some l \<Rightarrow> Inr l | None \<Rightarrow> Inl log_invalid)"

definition colorEnabled :: "str \<Rightarrow> bool \<Rightarrow> bool \<Rightarrow> bool result" where
  "colorEnabled mode terminal noColor =
     (if mode = lit ''auto'' then Inr (terminal \<and> \<not> noColor)
      else if mode = lit ''always'' then Inr True
      else if mode = lit ''never'' then Inr False
      else Inl log_invalid)"

section \<open>Fields\<close>

text \<open>
  A field value as a walk from the root sees it: \<open>LBack\<close> is an edge back to an enclosing
  object, \<open>LOther\<close> any value without a JSON form (undefined, a function, a symbol, a bigint, a
  number that is not finite). An array slot is \<open>None\<close> when it is a hole or an accessor; a
  member of an object has its enumerability and \<open>None\<close> for an accessor. \<open>LForeign\<close> is an object
  with a prototype of its own.
\<close>

datatype lval = LNull | LBool bool | LNum dbl | LStr str | LSecret str | LOther | LBack | LForeign
  | LArr "lval option list" | LObj "(str \<times> bool \<times> lval option) list"

text \<open>All results, or none when one is missing.\<close>

fun all_some :: "'a option list \<Rightarrow> 'a list option" where
  "all_some [] = Some []"
| "all_some (None # xs) = None"
| "all_some (Some x # xs) = map_option (Cons x) (all_some xs)"

text \<open>\<open>None\<close> is the thrown \<open>TypeError\<close>.\<close>

fun log_snapshot :: "lval \<Rightarrow> json option" where
  "log_snapshot LNull = Some JNull"
| "log_snapshot (LBool b) = Some (JBool b)"
| "log_snapshot (LNum d) = (case d of Inf _ \<Rightarrow> None | _ \<Rightarrow> Some (JNum d))"
| "log_snapshot (LStr s) = Some (JStr s)"
| "log_snapshot (LSecret s) = Some (JStr redacted)"
| "log_snapshot LOther = None"
| "log_snapshot LBack = None"
| "log_snapshot LForeign = None"
| "log_snapshot (LArr xs) = map_option JArr
     (all_some (map (\<lambda>x. case x of None \<Rightarrow> None | Some v \<Rightarrow> log_snapshot v) xs))"
| "log_snapshot (LObj ms) = map_option make_object
     (all_some (map (\<lambda>m. case m of (k, _, x) \<Rightarrow>
        map_option (Pair k) (case x of None \<Rightarrow> None | Some v \<Rightarrow> log_snapshot v))
       (filter (\<lambda>m. fst (snd m)) ms)))"

section \<open>Projections\<close>

definition public_json :: "public_info \<Rightarrow> json" where
  "public_json i = jobject
     [(lit ''kind'', Some (JStr (kind_name (pi_kind i)))),
      (lit ''message'', Some (JStr (pi_message i))),
      (lit ''type'', map_option JStr (pi_type i)),
      (lit ''fields'', map_option (\<lambda>fs. make_object (map (\<lambda>(k, v). (k, JStr v)) fs)) (pi_fields i))]"

definition errorProjection :: "jsval \<Rightarrow> json option" where
  "errorProjection e =
     (if e = Undefined \<or> e = Null then None
      else let kind = kindOf e;
               selected = (if kind = None then None else Some (fromCaught e))
           in Some (jobject
             [(lit ''classified'', Some (JBool (kind \<noteq> None))),
              (lit ''kind'', Some (JStr (kind_name (case kind of None \<Rightarrow> Internal | Some k \<Rightarrow> k)))),
              (lit ''type'', map_option JStr (case selected of None \<Rightarrow> None | Some f \<Rightarrow> nonempty (f_type f))),
              (lit ''public'', Some (public_json (publicInfo e))),
              (lit ''has_cause'', Some (JBool (causeOf e \<noteq> Undefined)))]))"

definition scopeProjection :: "scope brand \<Rightarrow> json result" where
  "scopeProjection sb = (case sb of Forged \<Rightarrow> Inl log_invalid
     | Made s \<Rightarrow>
         let w = sp_work s; a = made (wk_attribution w) in
         Inr (jobject
           [(lit ''scope_id'', Some (JStr (sp_scopeId s))),
            (lit ''work_id'', map_option JStr (wk_workId w)),
            (lit ''correlation_id'', map_option JStr (wk_correlationId w)),
            (lit ''correlation_source'', Some (JStr (wk_correlationSource w))),
            (lit ''operation'', Some (JStr (wk_operation w))),
            (lit ''started_at_ms'', Some (jint (sp_started s))),
            (lit ''executor'', Some (actor_json (sp_executor s))),
            (lit ''attempt'', Some (jint (sp_attempt s))),
            (lit ''attribution'', Some (jobject
              [(lit ''initiator'', map_option actor_json (at_initiator a)),
               (lit ''on_behalf_of'', map_option actor_json (at_onBehalfOf a)),
               (lit ''tenant'', map_option JStr (nonempty (at_tenant a)))])),
            (lit ''origin'', map_option JStr (wk_origin w)),
            (lit ''depth'', Option.bind (wk_depth w) depth_json),
            (lit ''causation'', map_option reference_json (wk_causation w)),
            (lit ''previous_attempt'', map_option JStr (sp_previousAttempt s)),
            (lit ''replay'', map_option (\<lambda>(run, src). jobject
               [(lit ''run_id'', map_option JStr run), (lit ''source'', Some (reference_json src))]) (wk_replay w))]))"

section \<open>Loggers\<close>

record logger =
  lg_fields :: "(str \<times> json) list"
  lg_scope :: "json option"
  lg_error :: "json option"
  lg_bad :: bool
  lg_trace :: "json option"

definition logger_new :: logger where
  "logger_new = \<lparr>lg_fields = [], lg_scope = None, lg_error = None, lg_bad = False, lg_trace = None\<rparr>"

text \<open>The members of a snapshot of fields, which are an object.\<close>

definition members :: "json \<Rightarrow> (str \<times> json) list" where
  "members j = (case j of JObj ms \<Rightarrow> ms | _ \<Rightarrow> [])"

definition merge_fields :: "(str \<times> json) list \<Rightarrow> (str \<times> json) list \<Rightarrow> (str \<times> json) list" where
  "merge_fields a b = own_order (spread a b)"

definition log_with :: "lval \<Rightarrow> logger \<Rightarrow> logger" where
  "log_with fs l = (case log_snapshot fs of
     Some j \<Rightarrow> l\<lparr>lg_fields := merge_fields (lg_fields l) (members j)\<rparr>
   | None \<Rightarrow> l\<lparr>lg_bad := True\<rparr>)"

definition log_withScope :: "scope brand \<Rightarrow> logger \<Rightarrow> logger result" where
  "log_withScope sb l = (case scopeProjection sb of Inl e \<Rightarrow> Inl e | Inr j \<Rightarrow> Inr (l\<lparr>lg_scope := Some j\<rparr>))"

definition log_withTrace :: "trace_data brand \<Rightarrow> logger \<Rightarrow> logger result" where
  "log_withTrace ref l = (case trace_snapshot ref of
     Inl _ \<Rightarrow> Inl (fail Invalid ''invalid telemetry context'' ''telemetry.invalid_context'')
   | Inr s \<Rightarrow> Inr (l\<lparr>lg_trace := Some (jobject [(lit ''trace_id'', Some (JStr (tr_traceId s))),
       (lit ''span_id'', Some (JStr (tr_spanId s))), (lit ''sampled'', Some (JBool (tr_sampled s)))])\<rparr>))"

definition log_withError :: "jsval \<Rightarrow> logger \<Rightarrow> logger" where
  "log_withError e l = l\<lparr>lg_error := errorProjection e\<rparr>"

section \<open>Lines\<close>

definition is_control :: "cu \<Rightarrow> bool" where
  "is_control c \<longleftrightarrow> (0x7F \<le> c \<and> c \<le> 0x9F) \<or> c = 0x2028 \<or> c = 0x2029"

definition consoleControls :: "str \<Rightarrow> str" where
  "consoleControls s = concat (map (\<lambda>c. if is_control c
     then [92, 117] @ pad_start 4 (show_base 16 (unat c)) else [c]) s)"

definition log_escape :: "str \<Rightarrow> str" where
  "log_escape s = consoleControls (butlast (tl (quote s)))"

definition pad2 :: "nat \<Rightarrow> nat \<Rightarrow> str" where
  "pad2 w n = pad_start w (show_base 10 n)"

definition utcTime :: "nat \<Rightarrow> str" where
  "utcTime ms = pad2 2 (ms div 3600000 mod 24) @ [58] @ pad2 2 (ms div 60000 mod 60) @ [58]
     @ pad2 2 (ms div 1000 mod 60) @ [46] @ pad2 3 (ms mod 1000)"

record log_record =
  lr_timestamp_ms :: nat
  lr_level :: level
  lr_message :: str
  lr_service :: json
  lr_fields :: "(str \<times> json) list"
  lr_scope :: "json option"
  lr_error :: "json option"
  lr_trace :: "json option"

fun upper_level :: "level \<Rightarrow> str" where
  "upper_level Debug = lit ''DEBUG''"
| "upper_level Info = lit ''INFO''"
| "upper_level Warn = lit ''WARN''"
| "upper_level Error = lit ''ERROR''"

definition severity_text :: "level \<Rightarrow> bool \<Rightarrow> str" where
  "severity_text l color = (if color
     then [27, 91] @ (case l of Error \<Rightarrow> lit ''31'' | Warn \<Rightarrow> lit ''33'' | _ \<Rightarrow> lit ''36'') @ [109]
       @ upper_level l @ [27, 91, 48, 109]
     else upper_level l)"

definition service_name :: "json \<Rightarrow> str" where
  "service_name j = (case map_of (members j) (lit ''name'') of Some (JStr s) \<Rightarrow> s | _ \<Rightarrow> [])"

definition consoleLine :: "log_record \<Rightarrow> bool \<Rightarrow> str" where
  "consoleLine r color =
     utcTime (lr_timestamp_ms r) @ [32] @ severity_text (lr_level r) color @ [32]
     @ log_escape (service_name (lr_service r)) @ [32] @ log_escape (lr_message r) @ [32]
     @ consoleControls (stringify (jobject
         [(lit ''fields'', Some (JObj (lr_fields r))), (lit ''scope'', lr_scope r),
          (lit ''error'', lr_error r), (lit ''trace'', lr_trace r)]))
     @ [10]"

section \<open>The runtime\<close>

record log_config =
  lc_format :: "str option"
  lc_level :: "str option"
  lc_color :: "str option"
  lc_terminal :: "bool option"
  lc_noColor :: "bool option"
  lc_clockOk :: bool
  lc_sinkOk :: bool
  lc_canFlush :: bool
  lc_resource :: lval
  lc_capacity :: "number option"
  lc_maxRecordBytes :: "number option"

record runtime =
  rt_format :: str
  rt_level :: level
  rt_color :: bool
  rt_resource :: json
  rt_output :: delivery

definition or_else :: "'a option \<Rightarrow> 'a \<Rightarrow> 'a" where
  "or_else x d = (case x of Some y \<Rightarrow> y | None \<Rightarrow> d)"

text \<open>\<open>config.resource?.name\<close> is truthy: the resource has a non-empty name.\<close>

definition has_name :: "lval \<Rightarrow> bool" where
  "has_name r = (case r of
     LObj ms \<Rightarrow> (case map_of ms (lit ''name'') of Some (_, Some (LStr n)) \<Rightarrow> n \<noteq> [] | _ \<Rightarrow> False)
   | _ \<Rightarrow> False)"

definition log_create :: "log_config \<Rightarrow> runtime result" where
  "log_create c =
     (let format = or_else (lc_format c) (lit ''console'');
          level = parseLevel (or_else (lc_level c) (lit ''info''));
          color = colorEnabled (or_else (lc_color c) (lit ''auto'')) (or_else (lc_terminal c) False)
            (or_else (lc_noColor c) False);
          capacity = or_else (lc_capacity c) (Whole 256);
          max = or_else (lc_maxRecordBytes c) (Whole 65536)
      in case (level, color, capacity, max) of
           (Inr lv, Inr col, Whole cap, Whole mx) \<Rightarrow>
             if format \<notin> set [lit ''console'', lit ''json'', lit ''none'']
               \<or> \<not> is_safe_integer capacity \<or> cap < 1 \<or> \<not> is_safe_integer max \<or> mx < 1
               \<or> \<not> lc_clockOk c \<or> \<not> lc_sinkOk c \<or> \<not> has_name (lc_resource c)
             then Inl log_invalid
             else (case log_snapshot (lc_resource c) of
                 None \<Rightarrow> Inl log_invalid
               | Some j \<Rightarrow> Inr \<lparr>rt_format = format, rt_level = lv, rt_color = col, rt_resource = j,
                   rt_output = delivery_new (nat cap) (nat mx) (format = lit ''none'') (lc_canFlush c)\<rparr>)
         | _ \<Rightarrow> Inl log_invalid)"

definition count_failed :: "runtime \<Rightarrow> runtime" where
  "count_failed rt = rt\<lparr>rt_output := (rt_output rt)\<lparr>dl_failed := dl_failed (rt_output rt) + 1\<rparr>\<rparr>"

text \<open>
  One record: what the logger holds, the message and the extra fields. \<open>pino\<close> is the JSON encoder of
  the library: the line for a level, a body and a message.
\<close>

definition log_record_of :: "runtime \<Rightarrow> level \<Rightarrow> str \<Rightarrow> nat \<Rightarrow> (str \<times> json) list \<Rightarrow> logger \<Rightarrow> log_record" where
  "log_record_of rt l message ms extra lg =
     \<lparr>lr_timestamp_ms = ms, lr_level = l, lr_message = message, lr_service = rt_resource rt,
      lr_fields = merge_fields (lg_fields lg) extra, lr_scope = lg_scope lg, lr_error = lg_error lg,
      lr_trace = lg_trace lg\<rparr>"

definition record_body :: "log_record \<Rightarrow> json" where
  "record_body r = jobject
     [(lit ''timestamp_ms'', Some (jint (int (lr_timestamp_ms r)))), (lit ''service'', Some (lr_service r)),
      (lit ''fields'', Some (JObj (lr_fields r))), (lit ''scope'', lr_scope r), (lit ''error'', lr_error r),
      (lit ''trace'', lr_trace r)]"

definition log_emit :: "(level \<Rightarrow> json \<Rightarrow> str \<Rightarrow> str) \<Rightarrow> date \<Rightarrow> level \<Rightarrow> str \<Rightarrow> lval \<Rightarrow> logger \<Rightarrow> runtime \<Rightarrow> runtime" where
  "log_emit pino now severity message extra lg rt =
     (if rt_format rt = lit ''none'' \<or> rank severity < rank (rt_level rt) then rt
      else if dl_closed (rt_output rt)
      then rt\<lparr>rt_output := (rt_output rt)\<lparr>dl_dropped := dl_dropped (rt_output rt) + 1\<rparr>\<rparr>
      else if lg_bad lg then count_failed rt
      else (case normalizedTime now of None \<Rightarrow> count_failed rt
        | Some ms \<Rightarrow> (case log_snapshot extra of None \<Rightarrow> count_failed rt
            | Some j \<Rightarrow>
                let r = log_record_of rt severity message (nat ms) (members j) lg;
                    line = (if rt_format rt = lit ''json'' then pino severity (record_body r) message
                            else consoleLine r (rt_color rt))
                in rt\<lparr>rt_output := delivery_write line (rt_output rt)\<rparr>)))"

text \<open>The four methods of a logger, and the two of a runtime beside its logger.\<close>

definition log_debug :: "(level \<Rightarrow> json \<Rightarrow> str \<Rightarrow> str) \<Rightarrow> date \<Rightarrow> str \<Rightarrow> lval \<Rightarrow> logger \<Rightarrow> runtime \<Rightarrow> runtime" where
  "log_debug pino now message extra = log_emit pino now Debug message extra"

definition log_info :: "(level \<Rightarrow> json \<Rightarrow> str \<Rightarrow> str) \<Rightarrow> date \<Rightarrow> str \<Rightarrow> lval \<Rightarrow> logger \<Rightarrow> runtime \<Rightarrow> runtime" where
  "log_info pino now message extra = log_emit pino now Info message extra"

definition log_warn :: "(level \<Rightarrow> json \<Rightarrow> str \<Rightarrow> str) \<Rightarrow> date \<Rightarrow> str \<Rightarrow> lval \<Rightarrow> logger \<Rightarrow> runtime \<Rightarrow> runtime" where
  "log_warn pino now message extra = log_emit pino now Warn message extra"

definition log_error :: "(level \<Rightarrow> json \<Rightarrow> str \<Rightarrow> str) \<Rightarrow> date \<Rightarrow> str \<Rightarrow> lval \<Rightarrow> logger \<Rightarrow> runtime \<Rightarrow> runtime" where
  "log_error pino now message extra = log_emit pino now Error message extra"

definition log_stats :: "runtime \<Rightarrow> nat \<times> nat \<times> nat \<times> nat" where
  "log_stats rt = (dl_accepted (rt_output rt), dl_written (rt_output rt), dl_dropped (rt_output rt), dl_failed (rt_output rt))"

definition log_close :: "number \<Rightarrow> runtime \<Rightarrow> failure option \<times> runtime" where
  "log_close ms rt = (let (refusal, d) = close_call ms (rt_output rt) in (refusal, rt\<lparr>rt_output := d\<rparr>))"

section \<open>Lemmas on printed text\<close>

text \<open>What a console line may consist of before its end.\<close>

definition printable :: "cu \<Rightarrow> bool" where
  "printable c \<longleftrightarrow> graphic c \<and> \<not> is_control c"

lemma lhex_printable: "is_lhex c \<Longrightarrow> printable c"
  by (auto simp: printable_def graphic_def is_control_def str_simps word_le_nat_alt)

lemma consoleControls_printable: "list_all graphic s \<Longrightarrow> list_all printable (consoleControls s)"
proof (induction s)
  case (Cons c s)
  have "list_all printable (pad_start 4 (show_base 16 (unat c)))"
    using show_base_16_lhex[of "unat c"] lhex_printable
    by (auto simp: pad_start_def list_all_iff printable_def graphic_def is_control_def)
  moreover have "printable 92" "printable 117" by (simp_all add: printable_def graphic_def is_control_def)
  moreover have "list_all printable (consoleControls s)" using Cons by simp
  moreover have "\<not> is_control c \<Longrightarrow> printable c" using Cons by (simp add: printable_def)
  ultimately show ?case by (simp add: consoleControls_def)
qed (simp add: consoleControls_def)

lemma set_tl_subset: "x \<in> set (tl xs) \<Longrightarrow> x \<in> set xs"
  by (cases xs) simp_all

lemma escape_printable: "list_all printable (log_escape s)"
proof -
  have "set (butlast (tl (quote s))) \<subseteq> set (quote s)"
    by (meson in_set_butlastD list.set_sel(2) subsetI tl_Nil set_tl_subset)
  then show ?thesis
    unfolding log_escape_def by (intro consoleControls_printable list_all_sub[OF graphic_quote])
qed

section \<open>Properties\<close>

lemma digits_printable: "list_all is_digit s \<Longrightarrow> list_all printable s"
  by (auto simp: list_all_iff printable_def is_control_def graphic_digits str_simps word_le_nat_alt)

lemma pad2_printable: "list_all printable (pad2 w n)"
  by (rule digits_printable) (auto simp: pad2_def pad_start_def list_all_iff is_digit_def
      dest: show_base_10_digits[unfolded list_all_iff, rule_format])

lemma marks_printable: "printable 32" "printable 46" "printable 58"
  by (simp_all add: printable_def graphic_def is_control_def)

lemma upper_level_printable: "list_all printable (upper_level l)"
  by (cases l) (simp_all add: str_simps printable_def graphic_def is_control_def)

text \<open>
  Whatever a caller logs, a console record is one line: between its time and its final newline
  there is no line break, terminal escape or other control character but those of the
  severity's own colour, and without colour there is none at all.
\<close>

lemma console_single_line:
  "\<exists>before after. consoleLine r color = before @ severity_text (lr_level r) color @ after @ [10]
     \<and> list_all printable before \<and> list_all printable after
     \<and> list_all printable (severity_text (lr_level r) False)"
proof -
  define body where "body = consoleControls (stringify (jobject
         [(lit ''fields'', Some (JObj (lr_fields r))), (lit ''scope'', lr_scope r),
          (lit ''error'', lr_error r), (lit ''trace'', lr_trace r)]))"
  have b: "list_all printable body"
    unfolding body_def by (intro consoleControls_printable graphic_stringify)
  define after where "after = [32] @ log_escape (service_name (lr_service r)) @ [32]
     @ log_escape (lr_message r) @ [32] @ body"
  have "list_all printable after"
    using b escape_printable by (simp add: after_def marks_printable)
  moreover have "list_all printable (utcTime (lr_timestamp_ms r) @ [32])"
    by (simp add: utcTime_def pad2_printable marks_printable)
  moreover have "consoleLine r color
      = (utcTime (lr_timestamp_ms r) @ [32]) @ severity_text (lr_level r) color @ after @ [10]"
    by (simp add: consoleLine_def after_def body_def)
  moreover have "list_all printable (severity_text (lr_level r) False)"
    by (simp add: severity_text_def upper_level_printable)
  ultimately show ?thesis by blast
qed

text \<open>The same value with the text of every secret erased.\<close>

fun erase_secrets :: "lval \<Rightarrow> lval" where
  "erase_secrets (LSecret s) = LSecret []"
| "erase_secrets (LArr xs) = LArr (map (map_option erase_secrets) xs)"
| "erase_secrets (LObj ms) = LObj (map (\<lambda>m. case m of (k, e, x) \<Rightarrow> (k, e, map_option erase_secrets x)) ms)"
| "erase_secrets v = v"

lemma snapshot_erased: "log_snapshot (erase_secrets v) = log_snapshot v"
proof (induction v rule: erase_secrets.induct)
  case (2 xs)
  have "case_option None log_snapshot (map_option erase_secrets x) = case_option None log_snapshot x"
    if "x \<in> set xs" for x
    using 2 that by (cases x) auto
  then have "map (\<lambda>x. case_option None log_snapshot (map_option erase_secrets x)) xs = map (case_option None log_snapshot) xs"
    by (intro map_cong) auto
  then show ?case unfolding erase_secrets.simps log_snapshot.simps map_map comp_def by (simp only:)
next
  case (3 ms)
  define er :: "str \<times> bool \<times> lval option \<Rightarrow> str \<times> bool \<times> lval option"
    where "er = (\<lambda>m. case m of (k, e, x) \<Rightarrow> (k, e, map_option erase_secrets x))"
  define sn :: "str \<times> bool \<times> lval option \<Rightarrow> (str \<times> json) option"
    where "sn = (\<lambda>m. case m of (k, _, x) \<Rightarrow> map_option (Pair k) (case x of None \<Rightarrow> None | Some v \<Rightarrow> log_snapshot v))"
  have "sn (er m) = sn m" if "m \<in> set ms" for m
  proof (cases m)
    case (fields k e x)
    have "log_snapshot (erase_secrets v) = log_snapshot v" if "x = Some v" for v
      using 3[OF \<open>m \<in> set ms\<close>] fields that by fastforce
    then show ?thesis by (cases x) (simp_all add: sn_def er_def fields)
  qed
  then have "map sn (map er (filter (\<lambda>m. fst (snd m)) ms)) = map sn (filter (\<lambda>m. fst (snd m)) ms)" by auto
  moreover have "filter (\<lambda>m. fst (snd m)) (map er ms) = map er (filter (\<lambda>m. fst (snd m)) ms)"
    by (induction ms) (auto simp: er_def)
  ultimately have "map sn (filter (\<lambda>m. fst (snd m)) (map er ms)) = map sn (filter (\<lambda>m. fst (snd m)) ms)" by simp
  then show ?case by (simp add: sn_def er_def)
qed simp_all

text \<open>
  C39: the text of a secret in log fields reaches no record: erasing every secret in the fields a
  logger is bound with and in those of one call changes neither the logger, nor the line, nor the counts.
\<close>

theorem secrets_never_logged:
  "log_with (erase_secrets fs) lg = log_with fs lg
   \<and> log_emit pino now severity message (erase_secrets fs) lg rt = log_emit pino now severity message fs lg rt"
  unfolding log_with_def log_emit_def snapshot_erased by simp

definition log_total :: "runtime \<Rightarrow> nat" where
  "log_total rt = dl_accepted (rt_output rt) + dl_dropped (rt_output rt) + dl_failed (rt_output rt)"

text \<open>
  No record is lost silently: a call below the level or with format none changes nothing, and any
  other call is counted exactly once, as accepted, dropped or failed.
\<close>

lemma log_calls_counted:
  "if rt_format rt = lit ''none'' \<or> rank severity < rank (rt_level rt)
   then log_emit pino now severity message fs lg rt = rt
   else log_total (log_emit pino now severity message fs lg rt) = Suc (log_total rt)"
proof -
  have w: "dl_accepted (delivery_write line d) + dl_dropped (delivery_write line d) + dl_failed (delivery_write line d)
      = Suc (dl_accepted d + dl_dropped d + dl_failed d)" for line d
    by (cases "dl_queue d") (auto simp: delivery_write_def pump_def pump_next_def start_flush_def Let_def split: list.split)
  show ?thesis
    by (auto simp: log_emit_def log_total_def count_failed_def Let_def w split: option.split)
qed

end
