(* ===== verification/Env.thy ===== *)
theory Env
  imports Validation Clock
begin

text \<open>
  \<open>src/shared/env\<close>: the captured environment (\<open>lookup.ts\<close>, \<open>os.ts\<close>), the integer
  syntax (\<open>parse.ts\<close>) and the reader that collects problems instead of stopping at the
  first one (\<open>reader.ts\<close>). A look-up may return any value: the reader checks its type.
\<close>

section \<open>Look-ups\<close>

type_synonym lookup = "str \<Rightarrow> jsval"

definition env_map :: "str obj \<Rightarrow> lookup" where
  "env_map values = (\<lambda>key. case map_of values key of Some v \<Rightarrow> Str v | None \<Rightarrow> Undefined)"

text \<open>
  \<open>os()\<close> over the entries of \<open>process.env\<close>: an undefined value is skipped, and
  \<open>encodeURIComponent\<close> throws on a lone surrogate in a key or a value.
\<close>

fun env_capture :: "(str \<times> str option) list \<Rightarrow> str obj \<Rightarrow> str obj option" where
  "env_capture [] acc = Some acc"
| "env_capture ((k, None) # es) acc = env_capture es acc"
| "env_capture ((k, Some v) # es) acc =
     (if lone_surrogate k \<or> lone_surrogate v then None else env_capture es (AList.update k v acc))"

definition os :: "(str \<times> str option) list \<Rightarrow> lookup result" where
  "os env = (case env_capture env [] of
     Some values \<Rightarrow> Inr (env_map values)
   | None \<Rightarrow> Inl (fail Invalid ''invalid environment source'' ''env.source''))"

section \<open>Syntax\<close>

definition key_tail :: "cu \<Rightarrow> bool" where
  "key_tail c \<longleftrightarrow> is_upper c \<or> is_digit c \<or> c = 95"

definition validKey :: "str \<Rightarrow> bool" where
  "validKey s = (case s of [] \<Rightarrow> False | c # cs \<Rightarrow> is_upper c \<and> list_all key_tail cs)"

text \<open>
  \<open>Number(text)\<close> rounds a long digit string, but never across the bound of the safe
  integers, so the exact value decides \<open>isSafeInteger\<close>.
\<close>

definition integer :: "str \<Rightarrow> int option" where
  "integer s = (if \<not> is_signed_decimal s then None
     else if is_safe_integer (Whole (val_int s)) then Some (val_int s) else None)"

section \<open>The reader\<close>

datatype source = Environment | Default

record var =
  v_key :: str
  v_value :: str
  v_source :: source
  v_secret :: bool

record reader =
  rd_seen :: "str list"
  rd_problems :: "str obj"
  rd_resolved :: "var list"

definition reader_new :: reader where
  "reader_new = \<lparr>rd_seen = [], rd_problems = [], rd_resolved = []\<rparr>"

definition problem :: "str \<Rightarrow> string \<Rightarrow> reader \<Rightarrow> reader" where
  "problem key why r = r\<lparr>rd_problems :=
     AList.update (if validKey key then key else lit ''<key>'') (lit why) (rd_problems r)\<rparr>"

text \<open>\<open>None\<close> is \<open>{ valid: false }\<close>; \<open>Some None\<close> is a valid read of an absent variable.\<close>

definition reader_read :: "lookup \<Rightarrow> str \<Rightarrow> reader \<Rightarrow> str option option \<times> reader" where
  "reader_read lk key r =
     (if \<not> validKey key then (None, problem key ''invalid_key'' r)
      else if List.member (rd_seen r) key then (None, problem key ''duplicate_key'' r)
      else let r' = r\<lparr>rd_seen := key # rd_seen r\<rparr> in
        (case lk key of
           Undefined \<Rightarrow> (Some None, r')
         | Str s \<Rightarrow> (Some (Some s), r')
         | _ \<Rightarrow> (None, problem key ''invalid_source'' r')))"

definition reader_record :: "str \<Rightarrow> str \<Rightarrow> bool \<Rightarrow> bool \<Rightarrow> reader \<Rightarrow> reader" where
  "reader_record key v present is_secret r = r\<lparr>rd_resolved := rd_resolved r @
     [\<lparr>v_key = key, v_value = (if is_secret then redacted else v),
       v_source = (if present then Environment else Default), v_secret = is_secret\<rparr>]\<rparr>"

definition reader_string :: "lookup \<Rightarrow> str \<Rightarrow> str \<Rightarrow> reader \<Rightarrow> str \<times> reader" where
  "reader_string lk key fallback r =
     (case reader_read lk key r of
        (None, r') \<Rightarrow> ([], r')
      | (Some rv, r') \<Rightarrow>
          let v = (case rv of None \<Rightarrow> fallback | Some s \<Rightarrow> s) in
          (v, reader_record key v (rv \<noteq> None) False r'))"

definition reader_required :: "lookup \<Rightarrow> str \<Rightarrow> reader \<Rightarrow> str \<times> reader" where
  "reader_required lk key r =
     (case reader_read lk key r of
        (None, r') \<Rightarrow> ([], r')
      | (Some rv, r') \<Rightarrow>
          (case nonempty rv of
             None \<Rightarrow> ([], problem key ''required'' r')
           | Some s \<Rightarrow> (s, reader_record key s True False r')))"

definition reader_secret :: "lookup \<Rightarrow> str \<Rightarrow> reader \<Rightarrow> secret \<times> reader" where
  "reader_secret lk key r =
     (case reader_read lk key r of
        (None, r') \<Rightarrow> (Secret [], r')
      | (Some rv, r') \<Rightarrow>
          (case nonempty rv of
             None \<Rightarrow> (Secret [], problem key ''required'' r')
           | Some s \<Rightarrow> (Secret s, reader_record key s True True r')))"

definition reader_int :: "lookup \<Rightarrow> str \<Rightarrow> number \<Rightarrow> number \<Rightarrow> number \<Rightarrow> reader \<Rightarrow> int \<times> reader" where
  "reader_int lk key fallback lo hi r =
     (case (fallback, lo, hi) of
        (Whole fb, Whole mn, Whole mx) \<Rightarrow>
          if \<not> list_all is_safe_integer [fallback, lo, hi] \<or> mn > mx \<or> fb < mn \<or> fb > mx
          then (0, problem key ''invalid_definition'' r)
          else (case reader_read lk key r of
              (None, r') \<Rightarrow> (0, r')
            | (Some rv, r') \<Rightarrow>
                (case (case rv of None \<Rightarrow> Some fb | Some s \<Rightarrow> integer s) of
                   None \<Rightarrow> (0, problem key ''invalid_integer'' r')
                 | Some v \<Rightarrow>
                     if v < mn \<or> v > mx then (0, problem key ''out_of_range'' r')
                     else (v, reader_record key (show_int v) (rv \<noteq> None) False r')))
      | _ \<Rightarrow> (0, problem key ''invalid_definition'' r))"

definition show_bool :: "bool \<Rightarrow> str" where
  "show_bool b = (if b then lit ''true'' else lit ''false'')"

definition reader_boolean :: "lookup \<Rightarrow> str \<Rightarrow> bool \<Rightarrow> reader \<Rightarrow> bool \<times> reader" where
  "reader_boolean lk key fallback r =
     (case reader_read lk key r of
        (None, r') \<Rightarrow> (False, r')
      | (Some None, r') \<Rightarrow> (fallback, reader_record key (show_bool fallback) False False r')
      | (Some (Some s), r') \<Rightarrow>
          if s \<noteq> lit ''true'' \<and> s \<noteq> lit ''false'' then (False, problem key ''invalid_boolean'' r')
          else let v = (s = lit ''true'') in (v, reader_record key (show_bool v) True False r'))"

definition reader_enumeration :: "lookup \<Rightarrow> str \<Rightarrow> str \<Rightarrow> str list \<Rightarrow> reader \<Rightarrow> str \<times> reader" where
  "reader_enumeration lk key fallback allowed r =
     (if \<not> distinct allowed \<or> List.member allowed [] \<or> \<not> List.member allowed fallback
      then ([], problem key ''invalid_definition'' r)
      else (case reader_read lk key r of
          (None, r') \<Rightarrow> ([], r')
        | (Some rv, r') \<Rightarrow>
            let v = (case rv of None \<Rightarrow> fallback | Some s \<Rightarrow> s) in
            if \<not> List.member allowed v then ([], problem key ''invalid_choice'' r')
            else (v, reader_record key v (rv \<noteq> None) False r')))"

definition reader_check :: "reader \<Rightarrow> unit result" where
  "reader_check r = (if rd_problems r \<noteq> []
     then Inl (failure Invalid (lit ''invalid configuration'')
       (no_options\<lparr>o_type := Some (lit ''env.invalid''), o_fields := Some (rd_problems r)\<rparr>))
     else Inr ())"

definition reader_manifest :: "reader \<Rightarrow> var list result" where
  "reader_manifest r = (case reader_check r of Inl e \<Rightarrow> Inl e
     | Inr _ \<Rightarrow> Inr (sort_key v_key (rd_resolved r)))"

section \<open>Invariants\<close>

text \<open>
  A resolved key has been read and is valid, no key resolves twice, and a secret is
  recorded by the redaction marker only.
\<close>

definition reader_inv :: "reader \<Rightarrow> bool" where
  "reader_inv r \<longleftrightarrow>
     (\<forall>v \<in> set (rd_resolved r). v_key v \<in> set (rd_seen r) \<and> validKey (v_key v)
        \<and> (v_secret v \<longrightarrow> v_value v = redacted))
     \<and> distinct (map v_key (rd_resolved r)) \<and> wf_obj (rd_problems r)"

lemma reader_inv_new [simp]: "reader_inv reader_new"
  by (simp add: reader_inv_def reader_new_def)

lemma problem_inv [intro]: "reader_inv r \<Longrightarrow> reader_inv (problem key why r)"
  by (auto simp: reader_inv_def problem_def)

lemma problem_fails [simp]: "rd_problems (problem key why r) \<noteq> []"
  by (simp add: problem_def)

text \<open>What a read leaves: nothing new resolved, and the key fresh when it succeeds.\<close>

lemma reader_read_cases:
  assumes "reader_read lk key r = (res, r')" "reader_inv r"
  shows "reader_inv r'" "rd_resolved r' = rd_resolved r"
    "res = None \<Longrightarrow> rd_problems r' \<noteq> []"
    "res = Some rv \<Longrightarrow> rd_problems r' = rd_problems r \<and> validKey key
       \<and> key \<notin> v_key ` set (rd_resolved r) \<and> key \<in> set (rd_seen r')
       \<and> lk key = (case rv of None \<Rightarrow> Undefined | Some s \<Rightarrow> Str s)"
proof -
  have inv': "reader_inv (r\<lparr>rd_seen := key # rd_seen r\<rparr>)"
    using assms(2) by (auto simp: reader_inv_def)
  show "reader_inv r'" "rd_resolved r' = rd_resolved r"
    "res = None \<Longrightarrow> rd_problems r' \<noteq> []"
    "res = Some rv \<Longrightarrow> rd_problems r' = rd_problems r \<and> validKey key
       \<and> key \<notin> v_key ` set (rd_resolved r) \<and> key \<in> set (rd_seen r')
       \<and> lk key = (case rv of None \<Rightarrow> Undefined | Some s \<Rightarrow> Str s)"
    using assms inv'
    by (auto simp: reader_read_def Let_def reader_inv_def problem_def
        split: if_splits jsval.splits)
qed

lemma reader_record_inv:
  assumes "reader_inv r" "validKey key" "key \<notin> v_key ` set (rd_resolved r)" "key \<in> set (rd_seen r)"
  shows "reader_inv (reader_record key v present sec r)"
  using assms by (auto simp: reader_inv_def reader_record_def)

lemma reader_record_problems [simp]:
  "rd_problems (reader_record key v present sec r) = rd_problems r"
  by (simp add: reader_record_def)

section \<open>Runs of a reader\<close>

datatype read_op = ReadString str str | ReadRequired str | ReadSecret str
  | ReadInt str number number number | ReadBoolean str bool | ReadEnum str str "str list"

fun op_key :: "read_op \<Rightarrow> str" where
  "op_key (ReadString k _) = k"
| "op_key (ReadRequired k) = k"
| "op_key (ReadSecret k) = k"
| "op_key (ReadInt k _ _ _) = k"
| "op_key (ReadBoolean k _) = k"
| "op_key (ReadEnum k _ _) = k"

fun is_secret_op :: "read_op \<Rightarrow> bool" where
  "is_secret_op (ReadSecret _) = True"
| "is_secret_op _ = False"

fun reader_apply :: "lookup \<Rightarrow> read_op \<Rightarrow> reader \<Rightarrow> reader" where
  "reader_apply lk (ReadString k fb) r = snd (reader_string lk k fb r)"
| "reader_apply lk (ReadRequired k) r = snd (reader_required lk k r)"
| "reader_apply lk (ReadSecret k) r = snd (reader_secret lk k r)"
| "reader_apply lk (ReadInt k fb lo hi) r = snd (reader_int lk k fb lo hi r)"
| "reader_apply lk (ReadBoolean k fb) r = snd (reader_boolean lk k fb r)"
| "reader_apply lk (ReadEnum k fb allowed) r = snd (reader_enumeration lk k fb allowed r)"

definition reader_run :: "lookup \<Rightarrow> read_op list \<Rightarrow> reader \<Rightarrow> reader" where
  "reader_run lk ops r = fold (reader_apply lk) ops r"

text \<open>
  The shapes of an operation's final state: a refused definition, a refused read, a read
  followed by a problem, or a read followed by a record of the key it read.
\<close>

inductive read_effect :: "lookup \<Rightarrow> str \<Rightarrow> reader \<Rightarrow> reader \<Rightarrow> bool" for lk key r where
  bad_definition: "read_effect lk key r (problem key why r)"
| refused: "reader_read lk key r = (None, r1) \<Longrightarrow> read_effect lk key r r1"
| rejected: "reader_read lk key r = (Some rv, r1) \<Longrightarrow> read_effect lk key r (problem key why r1)"
| recorded: "reader_read lk key r = (Some rv, r1)
    \<Longrightarrow> read_effect lk key r (reader_record key v present sec r1)"

lemmas reader_op_defs = reader_string_def reader_required_def reader_secret_def reader_int_def
  reader_boolean_def reader_enumeration_def

lemma reader_apply_effect: "read_effect lk (op_key x) r (reader_apply lk x r)"
proof -
  obtain res r1 where read: "reader_read lk (op_key x) r = (res, r1)" by fastforce
  show ?thesis
  proof (cases res)
    case None
    then show ?thesis using read
      by (cases x) (auto simp: reader_op_defs intro: read_effect.intros split: number.split)
  next
    case (Some rv)
    then show ?thesis using read
      by (cases x; cases rv)
        (auto simp: reader_op_defs Let_def intro: read_effect.intros
          split: number.split option.split)
  qed
qed

lemma read_effect_inv: "read_effect lk key r r' \<Longrightarrow> reader_inv r \<Longrightarrow> reader_inv r'"
proof (induction rule: read_effect.induct)
  case (recorded rv r1 v present sec)
  then show ?case using reader_read_cases[OF recorded(1)] by (auto intro!: reader_record_inv)
qed (auto dest: reader_read_cases)

text \<open>Problems are never withdrawn.\<close>

lemma read_effect_problems:
  "read_effect lk key r r' \<Longrightarrow> reader_inv r \<Longrightarrow> rd_problems r \<noteq> [] \<Longrightarrow> rd_problems r' \<noteq> []"
  by (induction rule: read_effect.induct) (auto dest: reader_read_cases)

lemma reader_run_Cons: "reader_run lk (x # xs) r = reader_run lk xs (reader_apply lk x r)"
  by (simp add: reader_run_def)

lemma reader_run_inv: "reader_inv r \<Longrightarrow> reader_inv (reader_run lk ops r)"
proof (induction ops arbitrary: r)
  case (Cons x ops)
  then show ?case using read_effect_inv[OF reader_apply_effect] by (simp add: reader_run_Cons)
qed (simp add: reader_run_def)

lemma reader_run_problems:
  "reader_inv r \<Longrightarrow> rd_problems r \<noteq> [] \<Longrightarrow> rd_problems (reader_run lk ops r) \<noteq> []"
proof (induction ops arbitrary: r)
  case (Cons x ops)
  then show ?case
    using read_effect_inv[OF reader_apply_effect] read_effect_problems[OF reader_apply_effect]
    by (simp add: reader_run_Cons)
qed (simp add: reader_run_def)

text \<open>A value no check refused is in the declared range.\<close>

lemma reader_int_range:
  assumes "reader_int lk key fb lo hi r = (v, r')" "rd_problems r' = []" "reader_inv r"
  shows "\<exists>mn mx. lo = Whole mn \<and> hi = Whole mx \<and> mn \<le> v \<and> v \<le> mx \<and> \<bar>v\<bar> \<le> max_safe"
proof -
  obtain res r1 where read: "reader_read lk key r = (res, r1)" by fastforce
  obtain f mn mx where w: "fb = Whole f" "lo = Whole mn" "hi = Whole mx"
    "\<bar>mn\<bar> \<le> max_safe" "\<bar>mx\<bar> \<le> max_safe"
    using assms(1,2) by (auto simp: reader_int_def split: number.splits if_splits)
  obtain rv where rv: "res = Some rv"
    using assms read reader_read_cases[OF read assms(3)] w
    by (cases res) (auto simp: reader_int_def split: if_splits)
  then have "mn \<le> v \<and> v \<le> mx"
    using assms(1,2) read w
    by (auto simp: reader_int_def split: if_splits option.splits)
  then show ?thesis using w by auto
qed

lemma reader_enumeration_range:
  assumes "reader_enumeration lk key fb allowed r = (v, r')" "rd_problems r' = []" "reader_inv r"
  shows "v \<in> set allowed"
proof -
  obtain res r1 where read: "reader_read lk key r = (res, r1)" by fastforce
  then show ?thesis
    using assms reader_read_cases[OF read assms(3)]
    by (cases res) (auto simp: reader_enumeration_def Let_def split: if_splits)
qed

text \<open>Nothing an operation leaves in the reader depends on the text of a secret.\<close>

lemma reader_read_other: "lk key = lk' key \<Longrightarrow> reader_read lk key r = reader_read lk' key r"
  by (simp add: reader_read_def)

lemma reader_apply_other:
  "lk (op_key x) = lk' (op_key x) \<Longrightarrow> reader_apply lk x r = reader_apply lk' x r"
  using reader_read_other[of lk "op_key x" lk']
  by (cases x) (simp_all add: reader_op_defs split: number.split)

lemma reader_secret_text:
  assumes "lk key = Str s" "lk' key = Str s'" "s \<noteq> []" "s' \<noteq> []"
  shows "snd (reader_secret lk key r) = snd (reader_secret lk' key r)"
  using assms by (auto simp: reader_secret_def reader_read_def reader_record_def nonempty_def Let_def)

lemma reader_run_secret_text:
  assumes "\<And>k. k \<noteq> key \<Longrightarrow> lk k = lk' k" "lk key = Str s" "lk' key = Str s'" "s \<noteq> []" "s' \<noteq> []"
    and "\<forall>x \<in> set ops. op_key x = key \<longrightarrow> is_secret_op x"
  shows "reader_run lk ops r = reader_run lk' ops r"
  using assms(6)
proof (induction ops arbitrary: r)
  case (Cons x ops)
  have "reader_apply lk x r = reader_apply lk' x r"
  proof (cases "op_key x = key")
    case True
    then have "x = ReadSecret key" using Cons.prems by (cases x) auto
    then show ?thesis
      using reader_secret_text[where lk = lk and lk' = lk' and key = key and s = s and s' = s' and r = r]
        assms(2-5) by (simp only: reader_apply.simps simp_thms)
  next
    case False
    show ?thesis by (rule reader_apply_other, rule assms(1), rule False)
  qed
  moreover have "reader_run lk ops (reader_apply lk' x r) = reader_run lk' ops (reader_apply lk' x r)"
    by (rule Cons.IH) (use Cons.prems in auto)
  ultimately show ?case by (simp only: reader_run_Cons)
qed (simp add: reader_run_def)

lemma integer_iff: "integer s = Some v \<longleftrightarrow> \<bar>v\<bar> \<le> max_safe \<and> (s = show_int v \<or> s = [45, 48] \<and> v = 0)"
  using signed_decimal_iff[of s v] by (auto simp: integer_def)

section \<open>Properties\<close>

text \<open>
  The integer syntax accepts exactly the decimal spellings of safe integers, and
  additionally the negative zero, read as zero.
\<close>

lemma integer_exact:
  "integer s = Some v \<longleftrightarrow> \<bar>v\<bar> \<le> max_safe \<and> (s = show_int v \<or> s = [45, 48] \<and> v = 0)"
  by (rule integer_iff)

text \<open>
  Whatever is read, in whatever order, a manifest is sorted by key without repetition,
  names only valid keys, and shows a secret only as the redaction marker; problems
  are sticky, so a manifest exists exactly when no read of the run had a problem.
\<close>

lemma manifest_sound:
  "case reader_manifest (reader_run lk ops reader_new) of
     Inr m \<Rightarrow> sorted (map v_key m) \<and> distinct (map v_key m)
       \<and> list_all (\<lambda>v. validKey (v_key v) \<and> (if v_secret v then v_value v = redacted else True)) m
       \<and> rd_problems (reader_run lk ops reader_new) = []
   | Inl e \<Rightarrow> f_fields e \<noteq> None \<and> rd_problems (reader_run lk ops reader_new) \<noteq> []"
proof -
  have inv: "reader_inv (reader_run lk ops reader_new)" by (rule reader_run_inv) simp
  have d: "distinct (map v_key (sort_key v_key rs)) = distinct (map v_key rs)" for rs :: "var list"
    by (metis distinct_map distinct_sort set_sort)
  show ?thesis
    using inv by (auto simp: reader_manifest_def reader_check_def reader_inv_def d list_all_iff failure_def)
qed

text \<open>
  The text of a secret never reaches the reader's state: two environments that differ only in
  the non-empty text of a key that is read as a secret lead to the same problems, the same
  resolved variables and the same manifest.
\<close>

lemma secret_text_hidden:
  assumes "\<And>k. k \<noteq> key \<Longrightarrow> lk k = lk' k" "lk key = Str s" "lk' key = Str s'" "s \<noteq> []" "s' \<noteq> []"
    and "\<forall>x \<in> set ops. op_key x = key \<longrightarrow> is_secret_op x"
  shows "reader_run lk ops reader_new = reader_run lk' ops reader_new"
  using assms by (rule reader_run_secret_text)

lemma secret_text_hidden_witness:
  "reader_run (\<lambda>k. Str (lit ''hunter2'')) [ReadSecret (lit ''K'')] reader_new
   = reader_run (\<lambda>k. if k = lit ''K'' then Str (lit ''other'') else Str (lit ''hunter2''))
       [ReadSecret (lit ''K'')] reader_new"
  by (rule secret_text_hidden[of "lit ''K''" _ _ "lit ''hunter2''" "lit ''other''"])
    (simp_all add: lit_def)

end
