(* ===== verification/Config.thy ===== *)
theory Config
  imports Env Provenance "HOL-Library.Multiset"
begin

text \<open>
  \<open>src/root/config.ts\<close>: the configuration of the process, read with one reader; all
  problems are reported together, and the service name must also be an actor identity.
\<close>

section \<open>The configuration\<close>

record log_resource =
  rc_name :: str
  rc_namespace :: str
  rc_version :: str
  rc_environment :: str

record config =
  cf_resource :: log_resource
  cf_format :: str
  cf_level :: str
  cf_color :: str
  cf_capacity :: int
  cf_maxBytes :: int
  cf_flushMs :: int
  cf_verbose :: bool
  cf_noColor :: bool
  cf_token :: secret
  cf_manifest :: "var list"

definition environments :: "str list" where
  "environments = [lit ''development'', lit ''test'', lit ''production'']"

definition formats :: "str list" where
  "formats = [lit ''console'', lit ''json'', lit ''none'']"

definition levels :: "str list" where
  "levels = [lit ''debug'', lit ''info'', lit ''warn'', lit ''error'']"

definition colors :: "str list" where
  "colors = [lit ''auto'', lit ''always'', lit ''never'']"

text \<open>
  The reads, in the order of the code; the last component is what the reader has collected.
  The manifest of the record is filled in by \<open>loadConfig\<close>.
\<close>

definition config_reads :: "lookup \<Rightarrow> config \<times> reader" where
  "config_reads lk =
     (case reader_string lk (lit ''SERVICE_NAME'') (lit ''n2f-foundations'') reader_new of (name, r) \<Rightarrow>
      case reader_string lk (lit ''SERVICE_NAMESPACE'') (lit ''n2f'') r of (nspace, r) \<Rightarrow>
      case reader_string lk (lit ''SERVICE_VERSION'') (lit ''dev'') r of (ver, r) \<Rightarrow>
      case reader_enumeration lk (lit ''APP_ENV'') (lit ''development'') environments r of (env, r) \<Rightarrow>
      case reader_enumeration lk (lit ''LOG_FORMAT'') (lit ''console'') formats r of (format, r) \<Rightarrow>
      case reader_enumeration lk (lit ''LOG_LEVEL'') (lit ''info'') levels r of (level, r) \<Rightarrow>
      case reader_enumeration lk (lit ''LOG_COLOR'') (lit ''auto'') colors r of (color, r) \<Rightarrow>
      case reader_int lk (lit ''LOG_CAPACITY'') (Whole 256) (Whole 1) (Whole 65536) r of (capacity, r) \<Rightarrow>
      case reader_int lk (lit ''LOG_MAX_BYTES'') (Whole 65536) (Whole 256) (Whole 1048576) r of (maxBytes, r) \<Rightarrow>
      case reader_int lk (lit ''LOG_FLUSH_MS'') (Whole 1000) (Whole 1) (Whole 10000) r of (flushMs, r) \<Rightarrow>
      case reader_boolean lk (lit ''DEMO_VERBOSE'') False r of (verbose, r) \<Rightarrow>
      case reader_string lk (lit ''NO_COLOR'') [] r of (noColor, r) \<Rightarrow>
      case reader_secret lk (lit ''DEMO_TOKEN'') r of (token, r) \<Rightarrow>
        (\<lparr>cf_resource = \<lparr>rc_name = name, rc_namespace = nspace, rc_version = ver, rc_environment = env\<rparr>,
          cf_format = format, cf_level = level, cf_color = color, cf_capacity = capacity,
          cf_maxBytes = maxBytes, cf_flushMs = flushMs, cf_verbose = verbose,
          cf_noColor = (noColor \<noteq> []), cf_token = token, cf_manifest = []\<rparr>, r))"

definition config_problems :: "config \<Rightarrow> reader \<Rightarrow> str obj" where
  "config_problems c r =
     (let problems = (case reader_check r of Inr _ \<Rightarrow> []
        | Inl e \<Rightarrow> spread [] (case f_fields e of None \<Rightarrow> [] | Some fs \<Rightarrow> fs))
      in if is_ok (actor (lit ''service'') (rc_name (cf_resource c))) then problems
         else AList.update (lit ''SERVICE_NAME'') (lit ''invalid_identity'') problems)"

definition loadConfig :: "lookup \<Rightarrow> config result" where
  "loadConfig lk =
     (case config_reads lk of (c, r) \<Rightarrow>
        let problems = config_problems c r in
        if problems \<noteq> [] then Inl (failure Invalid (lit ''invalid configuration'')
          (no_options\<lparr>o_type := Some (lit ''env.invalid''), o_fields := Some problems\<rparr>))
        else (case reader_manifest r of Inl e \<Rightarrow> Inl e | Inr m \<Rightarrow> Inr (c\<lparr>cf_manifest := m\<rparr>)))"

section \<open>The reads as a run of the reader\<close>

text \<open>What the thirteen reads are, as a list of reader operations.\<close>

definition config_ops :: "read_op list" where
  "config_ops =
     [ReadString (lit ''SERVICE_NAME'') (lit ''n2f-foundations''),
      ReadString (lit ''SERVICE_NAMESPACE'') (lit ''n2f''),
      ReadString (lit ''SERVICE_VERSION'') (lit ''dev''),
      ReadEnum (lit ''APP_ENV'') (lit ''development'') environments,
      ReadEnum (lit ''LOG_FORMAT'') (lit ''console'') formats,
      ReadEnum (lit ''LOG_LEVEL'') (lit ''info'') levels,
      ReadEnum (lit ''LOG_COLOR'') (lit ''auto'') colors,
      ReadInt (lit ''LOG_CAPACITY'') (Whole 256) (Whole 1) (Whole 65536),
      ReadInt (lit ''LOG_MAX_BYTES'') (Whole 65536) (Whole 256) (Whole 1048576),
      ReadInt (lit ''LOG_FLUSH_MS'') (Whole 1000) (Whole 1) (Whole 10000),
      ReadBoolean (lit ''DEMO_VERBOSE'') False,
      ReadString (lit ''NO_COLOR'') [],
      ReadSecret (lit ''DEMO_TOKEN'')]"

lemma config_reads_run: "snd (config_reads lk) = reader_run lk config_ops reader_new"
  by (simp add: config_reads_def config_ops_def reader_run_def split: prod.split)

section \<open>A successful load\<close>

text \<open>A run that ends without problems has recorded the key of every operation, in order.\<close>

lemma read_effect_clean:
  "read_effect lk key r r' \<Longrightarrow> reader_inv r \<Longrightarrow> rd_problems r' = [] \<Longrightarrow>
     rd_problems r = [] \<and> map v_key (rd_resolved r') = map v_key (rd_resolved r) @ [key]"
proof (induction rule: read_effect.induct)
  case (recorded rv r1 v present sec)
  then show ?case using reader_read_cases[OF recorded(1)] by (simp add: reader_record_def)
qed (auto dest: reader_read_cases)

lemma reader_apply_clean:
  "reader_inv r \<Longrightarrow> rd_problems (reader_apply lk x r) = [] \<Longrightarrow>
     rd_problems r = [] \<and> map v_key (rd_resolved (reader_apply lk x r)) = map v_key (rd_resolved r) @ [op_key x]"
  using read_effect_clean[OF reader_apply_effect] by blast

lemma reader_run_keys:
  "reader_inv r \<Longrightarrow> rd_problems (reader_run lk ops r) = [] \<Longrightarrow>
     map v_key (rd_resolved (reader_run lk ops r)) = map v_key (rd_resolved r) @ map op_key ops"
proof (induction ops arbitrary: r)
  case (Cons x ops)
  have inv: "reader_inv (reader_apply lk x r)"
    using read_effect_inv[OF reader_apply_effect] Cons.prems(1) by blast
  have "rd_problems (reader_apply lk x r) = []"
    using reader_run_problems[OF inv] Cons.prems(2) by (metis reader_run_Cons)
  with Cons.IH[OF inv] Cons.prems reader_apply_clean[OF Cons.prems(1)] show ?case
    by (simp add: reader_run_Cons)
qed (simp add: reader_run_def)

lemma loadConfig_Inr:
  assumes "loadConfig lk = Inr c"
  obtains c' r where "config_reads lk = (c', r)" "rd_problems r = []" "reader_inv r"
    "c = c'\<lparr>cf_manifest := sort_key v_key (rd_resolved r)\<rparr>"
    "is_ok (actor (lit ''service'') (rc_name (cf_resource c')))"
proof -
  obtain c' r where c': "config_reads lk = (c', r)" by fastforce
  have inv: "reader_inv r"
    using reader_run_inv[OF reader_inv_new, of lk config_ops] config_reads_run[of lk] c' by simp
  show thesis
    using that[OF c' _ inv] assms c'
    by (auto simp: loadConfig_def config_problems_def reader_manifest_def reader_check_def Let_def
        failure_def spread_def split: if_splits)
qed

text \<open>Each read of a clean run returns a value of its declared range.\<close>

lemma clean_step:
  assumes "reader_apply lk x r = r'" "reader_inv r"
  shows "reader_inv r' \<and> (rd_problems r' = [] \<longrightarrow> rd_problems r = [])"
  using assms read_effect_inv[OF reader_apply_effect] reader_apply_clean by blast

lemma clean_reads:
  "reader_string lk k fb r = (v, r') \<Longrightarrow> reader_inv r \<Longrightarrow> reader_inv r' \<and> (rd_problems r' = [] \<longrightarrow> rd_problems r = [])"
  "reader_enumeration lk k fb al r = (v, r') \<Longrightarrow> reader_inv r \<Longrightarrow> reader_inv r' \<and> (rd_problems r' = [] \<longrightarrow> rd_problems r = [])"
  "reader_int lk k f lo hi r = (n, r') \<Longrightarrow> reader_inv r \<Longrightarrow> reader_inv r' \<and> (rd_problems r' = [] \<longrightarrow> rd_problems r = [])"
  "reader_boolean lk k b r = (b', r') \<Longrightarrow> reader_inv r \<Longrightarrow> reader_inv r' \<and> (rd_problems r' = [] \<longrightarrow> rd_problems r = [])"
  "reader_secret lk k r = (t, r') \<Longrightarrow> reader_inv r \<Longrightarrow> reader_inv r' \<and> (rd_problems r' = [] \<longrightarrow> rd_problems r = [])"
  using clean_step[of lk "ReadString k fb" r r'] clean_step[of lk "ReadEnum k fb al" r r']
    clean_step[of lk "ReadInt k f lo hi" r r'] clean_step[of lk "ReadBoolean k b" r r']
    clean_step[of lk "ReadSecret k" r r'] by simp_all

text \<open>A secret that was read cleanly holds exactly the non-empty text of the environment.\<close>

lemma reader_secret_value:
  "reader_secret lk key r = (t, r') \<Longrightarrow> rd_problems r' = [] \<Longrightarrow> reader_inv r \<Longrightarrow>
     lk key = Str (hidden t) \<and> hidden t \<noteq> []"
  using reader_read_cases[of lk key r]
  by (auto simp: reader_secret_def nonempty_def split: prod.splits option.splits if_splits)

definition config_in_range :: "config \<Rightarrow> bool" where
  "config_in_range c \<longleftrightarrow> rc_environment (cf_resource c) \<in> set environments
     \<and> cf_format c \<in> set formats \<and> cf_level c \<in> set levels \<and> cf_color c \<in> set colors
     \<and> 1 \<le> cf_capacity c \<and> cf_capacity c \<le> 65536
     \<and> 256 \<le> cf_maxBytes c \<and> cf_maxBytes c \<le> 1048576
     \<and> 1 \<le> cf_flushMs c \<and> cf_flushMs c \<le> 10000"

lemma config_reads_clean:
  assumes "config_reads lk = (c, r)" "rd_problems r = []"
  shows "config_in_range c" "lk (lit ''DEMO_TOKEN'') = Str (hidden (cf_token c))"
    "hidden (cf_token c) \<noteq> []" "cf_manifest c = []"
proof -
  obtain s1 s2 s3 s4 s5 s6 s7 n8 n9 n10 b11 s12 t13 r1 r2 r3 r4 r5 r6 r7 r8 r9 r10 r11 r12 where
    e1: "reader_string lk (lit ''SERVICE_NAME'') (lit ''n2f-foundations'') reader_new = (s1, r1)"
    and e2: "reader_string lk (lit ''SERVICE_NAMESPACE'') (lit ''n2f'') r1 = (s2, r2)"
    and e3: "reader_string lk (lit ''SERVICE_VERSION'') (lit ''dev'') r2 = (s3, r3)"
    and e4: "reader_enumeration lk (lit ''APP_ENV'') (lit ''development'') environments r3 = (s4, r4)"
    and e5: "reader_enumeration lk (lit ''LOG_FORMAT'') (lit ''console'') formats r4 = (s5, r5)"
    and e6: "reader_enumeration lk (lit ''LOG_LEVEL'') (lit ''info'') levels r5 = (s6, r6)"
    and e7: "reader_enumeration lk (lit ''LOG_COLOR'') (lit ''auto'') colors r6 = (s7, r7)"
    and e8: "reader_int lk (lit ''LOG_CAPACITY'') (Whole 256) (Whole 1) (Whole 65536) r7 = (n8, r8)"
    and e9: "reader_int lk (lit ''LOG_MAX_BYTES'') (Whole 65536) (Whole 256) (Whole 1048576) r8 = (n9, r9)"
    and e10: "reader_int lk (lit ''LOG_FLUSH_MS'') (Whole 1000) (Whole 1) (Whole 10000) r9 = (n10, r10)"
    and e11: "reader_boolean lk (lit ''DEMO_VERBOSE'') False r10 = (b11, r11)"
    and e12: "reader_string lk (lit ''NO_COLOR'') [] r11 = (s12, r12)"
    and e13: "reader_secret lk (lit ''DEMO_TOKEN'') r12 = (t13, r)"
    and c: "c = \<lparr>cf_resource = \<lparr>rc_name = s1, rc_namespace = s2, rc_version = s3, rc_environment = s4\<rparr>,
      cf_format = s5, cf_level = s6, cf_color = s7, cf_capacity = n8, cf_maxBytes = n9,
      cf_flushMs = n10, cf_verbose = b11, cf_noColor = (s12 \<noteq> []), cf_token = t13, cf_manifest = []\<rparr>"
    using assms(1) unfolding config_reads_def by (auto split: prod.splits)
  note k1 = clean_reads(1)[OF e1 reader_inv_new]
  note k2 = clean_reads(1)[OF e2 k1[THEN conjunct1]]
  note k3 = clean_reads(1)[OF e3 k2[THEN conjunct1]]
  note k4 = clean_reads(2)[OF e4 k3[THEN conjunct1]]
  note k5 = clean_reads(2)[OF e5 k4[THEN conjunct1]]
  note k6 = clean_reads(2)[OF e6 k5[THEN conjunct1]]
  note k7 = clean_reads(2)[OF e7 k6[THEN conjunct1]]
  note k8 = clean_reads(3)[OF e8 k7[THEN conjunct1]]
  note k9 = clean_reads(3)[OF e9 k8[THEN conjunct1]]
  note k10 = clean_reads(3)[OF e10 k9[THEN conjunct1]]
  note k11 = clean_reads(4)[OF e11 k10[THEN conjunct1]]
  note k12 = clean_reads(1)[OF e12 k11[THEN conjunct1]]
  note k13 = clean_reads(5)[OF e13 k12[THEN conjunct1]]
  note ps = assms(2) k4 k5 k6 k7 k8 k9 k10 k11 k12 k13
  note ints = reader_int_range[OF e8] reader_int_range[OF e9] reader_int_range[OF e10]
  note enums = reader_enumeration_range[OF e4] reader_enumeration_range[OF e5]
    reader_enumeration_range[OF e6] reader_enumeration_range[OF e7]
  show "config_in_range c"
    using ps ints enums k3 by (auto simp: config_in_range_def c)
  show "lk (lit ''DEMO_TOKEN'') = Str (hidden (cf_token c))" "hidden (cf_token c) \<noteq> []"
    using reader_secret_value[OF e13 assms(2)] k12 by (simp_all add: c)
  show "cf_manifest c = []" by (simp add: c)
qed

text \<open>A configuration record with another token.\<close>

lemma config_reads_token:
  assumes "\<And>k. k \<noteq> lit ''DEMO_TOKEN'' \<Longrightarrow> lk k = lk' k"
    and "lk (lit ''DEMO_TOKEN'') = Str s" "lk' (lit ''DEMO_TOKEN'') = Str s'" "s \<noteq> []" "s' \<noteq> []"
  shows "\<exists>c r t t'. config_reads lk = (c\<lparr>cf_token := t\<rparr>, r) \<and> config_reads lk' = (c\<lparr>cf_token := t'\<rparr>, r)"
proof -
  have other: "reader_read lk k r = reader_read lk' k r" if "k \<noteq> lit ''DEMO_TOKEN''" for k r
    using reader_read_other[of lk k lk'] assms(1)[OF that] by simp
  have ops: "reader_string lk k fb r = reader_string lk' k fb r"
    "reader_enumeration lk k fb al r = reader_enumeration lk' k fb al r"
    "reader_int lk k f lo hi r = reader_int lk' k f lo hi r"
    "reader_boolean lk k b r = reader_boolean lk' k b r"
    if "k \<noteq> lit ''DEMO_TOKEN''" for k fb al f lo hi b r
    using other[OF that] by (simp_all add: reader_op_defs split: number.split)
  have sec: "snd (reader_secret lk (lit ''DEMO_TOKEN'') r) = snd (reader_secret lk' (lit ''DEMO_TOKEN'') r)" for r
    using reader_secret_text[of lk "lit ''DEMO_TOKEN''" s lk' s' r] assms by simp
  show ?thesis
    unfolding config_reads_def
    by (simp add: ops split: prod.split)
      (metis (no_types, lifting) sec snd_conv config.update_convs(10))
qed

section \<open>Properties\<close>

text \<open>
  A configuration that loads has every setting in its declared range, a service name that
  is an actor identity, the token of the environment, and a manifest that is sorted and names
  each of the thirteen variables exactly once.
\<close>

lemma config_complete:
  assumes "loadConfig lk = Inr c"
  shows "config_in_range c \<and> is_ok (actor (lit ''service'') (rc_name (cf_resource c)))
    \<and> lk (lit ''DEMO_TOKEN'') = Str (hidden (cf_token c)) \<and> hidden (cf_token c) \<noteq> []
    \<and> map v_key (cf_manifest c) = sort (map op_key config_ops)"
proof -
  obtain c' r where c: "config_reads lk = (c', r)" "rd_problems r = []"
    "c = c'\<lparr>cf_manifest := sort_key v_key (rd_resolved r)\<rparr>"
    "is_ok (actor (lit ''service'') (rc_name (cf_resource c')))"
    using loadConfig_Inr[OF assms] by metis
  have r: "r = reader_run lk config_ops reader_new" using config_reads_run[of lk] c(1) by simp
  have "map v_key (rd_resolved r) = map op_key config_ops"
    using reader_run_keys[OF reader_inv_new] c(2) by (simp add: r reader_new_def)
  then have "mset (map v_key (sort_key v_key (rd_resolved r))) = mset (map op_key config_ops)"
    by (metis mset_map mset_sort)
  then have "map v_key (cf_manifest c) = sort (map op_key config_ops)"
    using properties_for_sort[of "map v_key (sort_key v_key (rd_resolved r))"] c(3) by simp
  with config_reads_clean[OF c(1,2)] c(3,4) show ?thesis by (simp add: config_in_range_def)
qed

text \<open>The environment that sets the token only.\<close>

definition sample_env :: "str \<Rightarrow> lookup" where
  "sample_env t = (\<lambda>k. if k = lit ''DEMO_TOKEN'' then Str t else Undefined)"

lemma config_keys_valid:
  "validKey (lit ''SERVICE_NAME'')" "validKey (lit ''SERVICE_NAMESPACE'')" "validKey (lit ''SERVICE_VERSION'')"
  "validKey (lit ''APP_ENV'')" "validKey (lit ''LOG_FORMAT'')" "validKey (lit ''LOG_LEVEL'')"
  "validKey (lit ''LOG_COLOR'')" "validKey (lit ''LOG_CAPACITY'')" "validKey (lit ''LOG_MAX_BYTES'')"
  "validKey (lit ''LOG_FLUSH_MS'')" "validKey (lit ''DEMO_VERBOSE'')" "validKey (lit ''NO_COLOR'')"
  "validKey (lit ''DEMO_TOKEN'')"
  by (simp_all add: validKey_def key_tail_def str_simps)

lemma sample_env_reads:
  assumes "t \<noteq> []"
  obtains c where "loadConfig (sample_env t) = Inr c" "cf_capacity c = 256"
proof -
  have a: "is_ok (actor (lit ''service'') (lit ''n2f-foundations''))"
    by (simp add: actor_def identityValid_def matches_def identity_unit_def str_simps)
  have ne: "lit ''x'' \<noteq> []" for x by (simp add: lit_def)
  show thesis
    using that assms a
    by (simp add: loadConfig_def config_reads_def reader_op_defs reader_read_def reader_record_def reader_new_def
        sample_env_def config_keys_valid environments_def formats_def levels_def colors_def nonempty_def
        config_problems_def reader_manifest_def reader_check_def max_safe_def Let_def)
qed

lemma config_complete_witness:
  "\<exists>c. loadConfig (sample_env (lit ''t'')) = Inr c \<and> config_in_range c \<and> hidden (cf_token c) = lit ''t''"
proof -
  have "lit ''t'' \<noteq> []" by (simp add: lit_def)
  then obtain c where c: "loadConfig (sample_env (lit ''t'')) = Inr c"
    using sample_env_reads by blast
  from config_complete[OF c] c show ?thesis by (auto simp: sample_env_def)
qed

text \<open>
  The text of the token decides nothing: two environments that differ only in the
  non-empty token are both refused with the same problems or both accepted with
  configurations that agree in everything but the token itself.
\<close>

lemma config_token_hidden:
  assumes "\<And>k. k \<noteq> lit ''DEMO_TOKEN'' \<Longrightarrow> lk k = lk' k"
    and "lk (lit ''DEMO_TOKEN'') = Str s" "lk' (lit ''DEMO_TOKEN'') = Str s'" "s \<noteq> []" "s' \<noteq> []"
  shows "case loadConfig lk of Inl e \<Rightarrow> loadConfig lk' = Inl e
    | Inr c \<Rightarrow> loadConfig lk' = Inr (c\<lparr>cf_token := Secret s'\<rparr>)"
proof -
  obtain c r t t' where c: "config_reads lk = (c\<lparr>cf_token := t\<rparr>, r)" "config_reads lk' = (c\<lparr>cf_token := t'\<rparr>, r)"
    using config_reads_token[where lk = lk and lk' = lk'] assms by blast
  have p: "config_problems (c\<lparr>cf_token := t\<rparr>) r = config_problems (c\<lparr>cf_token := t'\<rparr>) r"
    by (simp add: config_problems_def)
  show ?thesis
  proof (cases "config_problems (c\<lparr>cf_token := t\<rparr>) r = []")
    case False
    then show ?thesis using c p by (simp add: loadConfig_def Let_def)
  next
    case True
    then have "rd_problems r = []"
      using True by (auto simp: config_problems_def reader_check_def failure_def Let_def split: if_splits)
    moreover from this have "t' = Secret s'"
      using config_reads_clean(2)[OF c(2)] assms(3) by (cases t') simp
    ultimately show ?thesis using c p True by (simp add: loadConfig_def Let_def reader_manifest_def reader_check_def)
  qed
qed

lemma config_token_hidden_witness:
  "\<exists>c. loadConfig (sample_env (lit ''t'')) = Inr c
     \<and> loadConfig (sample_env (lit ''u'')) = Inr (c\<lparr>cf_token := Secret (lit ''u'')\<rparr>)"
proof -
  have "lit ''t'' \<noteq> []" by (simp add: lit_def)
  then obtain c where c: "loadConfig (sample_env (lit ''t'')) = Inr c"
    using sample_env_reads by blast
  have "case loadConfig (sample_env (lit ''t'')) of Inl e \<Rightarrow> loadConfig (sample_env (lit ''u'')) = Inl e
    | Inr c \<Rightarrow> loadConfig (sample_env (lit ''u'')) = Inr (c\<lparr>cf_token := Secret (lit ''u'')\<rparr>)"
    by (rule config_token_hidden[where s = "lit ''t''"]) (simp_all add: sample_env_def lit_def)
  with c show ?thesis by simp
qed

end
