(* ===== verification/Actions.thy ===== *)
theory Actions
  imports Logger Config Factory
begin

text \<open>
  Sequences of effects that an exception cuts short, for the composition roots: an action takes a state and answers
  what it returns or throws, with the state it leaves; and \<open>src/root/logging.ts\<close> with \<open>src/root/logger.adapter.ts\<close>.
\<close>

section \<open>Actions\<close>

type_synonym ('s, 'a) act = "'s \<Rightarrow> (exn + 'a) \<times> 's"

definition act_return :: "'a \<Rightarrow> ('s, 'a) act" where
  "act_return x s = (Inr x, s)"

definition act_throw :: "exn \<Rightarrow> ('s, 'a) act" where
  "act_throw e s = (Inl e, s)"

definition act_bind :: "('s, 'a) act \<Rightarrow> ('a \<Rightarrow> ('s, 'b) act) \<Rightarrow> ('s, 'b) act" where
  "act_bind m f s = (case m s of (Inl e, s1) \<Rightarrow> (Inl e, s1) | (Inr x, s1) \<Rightarrow> f x s1)"

definition act_do :: "('s \<Rightarrow> 's) \<Rightarrow> ('s, unit) act" where
  "act_do f s = (Inr (), f s)"

text \<open>\<open>value(r)\<close>, on a result at hand and on the result of a call.\<close>

definition act_value :: "'a result \<Rightarrow> ('s, 'a) act" where
  "act_value r s = (unwrap r, s)"

definition act_call :: "('s \<Rightarrow> 'a result \<times> 's) \<Rightarrow> ('s, 'a) act" where
  "act_call m s = (case m s of (r, s1) \<Rightarrow> (unwrap r, s1))"

lemma act_bind_Inr: "act_bind m f s = (Inr y, s') \<longleftrightarrow> (\<exists>x s1. m s = (Inr x, s1) \<and> f x s1 = (Inr y, s'))"
  by (auto simp: act_bind_def split: prod.splits sum.splits)

lemma act_bind_Inl: "act_bind m f s = (Inl e, s') \<longleftrightarrow> m s = (Inl e, s') \<or> (\<exists>x s1. m s = (Inr x, s1) \<and> f x s1 = (Inl e, s'))"
  by (auto simp: act_bind_def split: prod.splits sum.splits)

lemma act_simps [simp]:
  "act_return x s = (Inr y, s') \<longleftrightarrow> x = y \<and> s = s'" "act_return x s \<noteq> (Inl e, s')"
  "act_do f s = (Inr u, s') \<longleftrightarrow> s' = f s" "act_do f s \<noteq> (Inl e, s')"
  "act_value r s = (Inr y, s') \<longleftrightarrow> r = Inr y \<and> s = s'" "act_throw e s \<noteq> (Inr y, s')"
  "act_call m s = (Inr y, s') \<longleftrightarrow> m s = (Inr y, s')"
  by (auto simp: act_return_def act_do_def act_value_def act_throw_def act_call_def split: prod.splits)

text \<open>
  Two actions that cannot be told apart up to a relation of their states: from related states they answer alike and
  end in related states. What the relation forgets, the answers do not depend on.
\<close>

definition alike :: "('s \<Rightarrow> 's \<Rightarrow> bool) \<Rightarrow> ('s, 'a) act \<Rightarrow> ('s, 'a) act \<Rightarrow> bool" where
  "alike R m n \<longleftrightarrow> (\<forall>s t. R s t \<longrightarrow> fst (m s) = fst (n t) \<and> R (snd (m s)) (snd (n t)))"

lemma alike_intros:
  "alike R (act_return x) (act_return x)" "alike R (act_throw e) (act_throw e)" "alike R (act_value r) (act_value r)"
  by (simp_all add: alike_def act_return_def act_throw_def act_value_def)

lemma alike_bind:
  assumes "alike R m n" "\<And>x. alike R (f x) (g x)"
  shows "alike R (act_bind m f) (act_bind n g)"
  unfolding alike_def
proof (intro allI impI)
  fix s t assume r: "R s t"
  obtain a s1 b t1 where ms: "m s = (a, s1)" "n t = (b, t1)" by fastforce
  then have "a = b" "R s1 t1" using assms(1) r by (auto simp: alike_def dest!: spec)
  then show "fst (act_bind m f s) = fst (act_bind n g t) \<and> R (snd (act_bind m f s)) (snd (act_bind n g t))"
    using ms assms(2) by (cases b) (auto simp: act_bind_def alike_def)
qed

lemma alike_do: "(\<And>s t. R s t \<Longrightarrow> R (f s) (g t)) \<Longrightarrow> alike R (act_do f) (act_do g)"
  by (simp add: alike_def act_do_def)

lemma alike_call:
  "(\<And>s t. R s t \<Longrightarrow> fst (m s) = fst (n t) \<and> R (snd (m s)) (snd (n t))) \<Longrightarrow> alike R (act_call m) (act_call n)"
  by (simp add: alike_def act_call_def split: prod.splits) (metis fst_conv snd_conv)

text \<open>An action returns, and what it returns with the state it leaves satisfies \<open>Q\<close>.\<close>

definition yields :: "('s, 'a) act \<Rightarrow> 's \<Rightarrow> ('a \<Rightarrow> 's \<Rightarrow> bool) \<Rightarrow> bool" where
  "yields m s Q \<longleftrightarrow> (\<exists>x s'. m s = (Inr x, s') \<and> Q x s')"

lemma yields_bind: "yields m s (\<lambda>x t. yields (f x) t Q) \<Longrightarrow> yields (act_bind m f) s Q"
  by (auto simp: yields_def act_bind_def)

lemma yields_value: "r = Inr x \<Longrightarrow> Q x s \<Longrightarrow> yields (act_value r) s Q"
  by (simp add: yields_def act_value_def unwrap_def)

lemma yields_return: "Q x s \<Longrightarrow> yields (act_return x) s Q"
  by (simp add: yields_def act_return_def)

lemma yields_do: "Q () (f s) \<Longrightarrow> yields (act_do f) s Q"
  by (simp add: yields_def act_do_def)

lemma yields_call: "m s = (Inr x, t) \<Longrightarrow> Q x t \<Longrightarrow> yields (act_call m) s Q"
  by (simp add: yields_def act_call_def unwrap_def)

section \<open>Identifiers that do not run out\<close>

text \<open>A world whose clock and entropy answer, and whose counter has room for \<open>n\<close> more identifiers within one millisecond.\<close>

definition steady :: "nat \<Rightarrow> v7_world \<Rightarrow> bool" where
  "steady n w \<longleftrightarrow> (\<forall>k. \<exists>t. vw_clock w k = Date t \<and> 0 \<le> t \<and> t \<le> 281474976710655)
     \<and> (\<forall>k. \<exists>bs. vw_entropy w k = Inr bs) \<and> v7_inv (vw_gen w) \<and> n \<le> 2048 \<and> v7_counter (vw_gen w) + n \<le> 4095"

abbreviation spent_in :: "v7_world \<Rightarrow> id set" where
  "spent_in w \<equiv> v7_spent (vw_gen w)"

lemma fresh_counter_le: "fresh_counter bs \<le> 2047"
proof -
  have "(x AND 0x07ff) \<le> (0x07ff :: 32 word)" for x by (rule word_and_le1)
  then have "unat (x AND 0x07ff) \<le> unat (0x07ff :: 32 word)" for x :: "32 word" by (simp add: word_le_nat_alt)
  then show ?thesis unfolding fresh_counter_def by simp
qed

lemma steady_now:
  assumes "steady n w"
  obtains t w' where "v7w_now w = (Date t, w')" "0 \<le> t" "t \<le> 281474976710655" "steady n w'" "vw_gen w' = vw_gen w"
  using assms by (fastforce simp: v7w_now_def steady_def)

lemma steady_newId:
  assumes "steady (Suc n) w"
  obtains i w' where "v7w_newId w = (Inr i, w')" "validID i" "i \<notin> spent_in w" "insert i (spent_in w) \<subseteq> spent_in w'" "steady n w'"
proof -
  obtain t bs where t: "vw_clock w (vw_calls w) = Date t" "0 \<le> t" "t \<le> 281474976710655" "vw_entropy w (vw_calls w) = Inr bs"
    using assms by (meson steady_def)
  define fresh where "fresh = (case v7_last (vw_gen w) of None \<Rightarrow> True | Some l \<Rightarrow> nat t > l)"
  have room: "v7_counter (vw_gen w) \<noteq> 4095" using assms by (simp add: steady_def)
  define g where "g = (vw_gen w)\<lparr>v7_last := Some (if fresh then nat t else the (v7_last (vw_gen w))),
    v7_counter := (if fresh then fresh_counter (filled bs) else v7_counter (vw_gen w) + 1)\<rparr>"
  define i where "i = encodeV7 (if fresh then nat t else the (v7_last (vw_gen w)))
    (if fresh then fresh_counter (filled bs) else v7_counter (vw_gen w) + 1) (drop 2 (filled bs))"
  have "v7_newId (Date t) (Inr bs) (vw_gen w) = (Inr i, g)"
    unfolding v7_newId_def Let_def g_def i_def fresh_def using t(2,3) room by (simp add: max_safe_def)
  moreover have "v7_counter g \<le> 2047 \<or> v7_counter g = v7_counter (vw_gen w) + 1" using fresh_counter_le[of "filled bs"] by (simp add: g_def)
  ultimately have g: "v7_newId (Date t) (Inr bs) (vw_gen w) = (Inr i, g)" "v7_counter g \<le> 2047 \<or> v7_counter g = v7_counter (vw_gen w) + 1" .
  define w' where "w' = w\<lparr>vw_calls := Suc (vw_calls w), vw_gen := g\<rparr>"
  have n: "v7w_newId w = (Inr i, w')" using t g(1) by (simp add: v7w_newId_def w'_def)
  have "v7_inv (vw_gen w)" using assms by (simp add: steady_def)
  from v7w.newId_ok[OF this n] g(2) assms show thesis
    by (intro that[OF n]) (auto simp: steady_def w'_def)
qed

lemma validateWork_defaults: "validateWork w False = None \<Longrightarrow> validateWork w True = None"
  by (auto simp: validateWork_def bad_id_def check_replay_def first_failure_None split: if_splits option.splits prod.splits)

lemma emit_succeeds:
  assumes "steady (Suc n) w" "namedActor ex" "ex = Made ac" "1 \<le> att" "att \<le> max_u32" "validateWork wk True = None"
    and fw: "\<And>i. validID i \<Longrightarrow> i \<notin> spent_in w \<Longrightarrow> validateWork (fill_work wk i) False = None \<and> \<not> caused_by_scope (fill_work wk i) i"
    and "set forb \<subseteq> spent_in w" and pr: "\<And>p. prev = Some p \<Longrightarrow> validID p \<and> p \<in> spent_in w \<and> att \<noteq> 1"
  obtains sc w' where "emit v7w_factory wk ex (Whole att) prev forb w = (Inr sc, w')" "steady n w'"
    "insert (sp_scopeId sc) (spent_in w) \<subseteq> spent_in w'"
proof -
  obtain t w1 where t: "v7w_now w = (Date t, w1)" "0 \<le> t" "t \<le> 281474976710655" "steady (Suc n) w1" "vw_gen w1 = vw_gen w"
    using steady_now[OF assms(1)] by metis
  obtain i w2 where i: "v7w_newId w1 = (Inr i, w2)" "validID i" "i \<notin> spent_in w1" "insert i (spent_in w1) \<subseteq> spent_in w2" "steady n w2"
    using steady_newId[OF t(4)] by metis
  define sc where "sc = \<lparr>sp_work = fill_work wk i, sp_scopeId = i, sp_executor = ac, sp_attempt = att, sp_previousAttempt = prev, sp_started = t\<rparr>"
  have f: "validateWork (fill_work wk i) False = None" "\<not> caused_by_scope (fill_work wk i) i" using fw[OF i(2)] i(3) t(5) by auto
  have "restoreScope \<lparr>sn_work = fill_work wk i, sn_scopeId = i, sn_startedAt = new_Date t, sn_executor = ex,
      sn_attempt = Whole att, sn_previousAttempt = prev\<rparr> = Inr sc"
    using i(2,3) f assms(2-5) t(2,3,5) pr
    by (auto simp: restoreScope_Inr sc_def new_Date_in_range normalizedTime_Some)
  moreover have "normalizedTime (Date t) = Some t" using t(2,3) by (simp add: normalizedTime_Some)
  moreover have "\<not> List.member forb i" using assms(8) i(3) t(5) by auto
  ultimately have "emit v7w_factory wk ex (Whole att) prev forb w = (Inr sc, w2)"
    using assms(2,4-6) i(1,2) t(1) by (simp add: emit_def v7w_factory_def)
  with that[of sc w2] i(4,5) t(5) show thesis by (simp add: sc_def)
qed

text \<open>No hints came in: \<open>inspectIncoming({})\<close>.\<close>

definition fresh_hints :: incoming_hints where
  "fresh_hints = \<lparr>ih_correlation = None, ih_causation = None\<rparr>"

section \<open>The process log\<close>

text \<open>The resource of the configuration, and the instance identifier the root spreads into it.\<close>

definition log_member :: "string \<Rightarrow> lval \<Rightarrow> str \<times> bool \<times> lval option" where
  "log_member k v = (lit k, True, Some v)"

definition resource_lval :: "config \<Rightarrow> id \<Rightarrow> lval" where
  "resource_lval c i = (let r = cf_resource c in
     LObj [log_member ''name'' (LStr (rc_name r)), log_member ''namespace'' (LStr (rc_namespace r)),
       log_member ''version'' (LStr (rc_version r)), log_member ''environment'' (LStr (rc_environment r)),
       log_member ''instance_id'' (LStr i)])"

definition logging :: "config \<Rightarrow> id \<Rightarrow> bool \<Rightarrow> bool \<Rightarrow> runtime result" where
  "logging c i canFlush terminal = log_create
     \<lparr>lc_format = Some (cf_format c), lc_level = Some (cf_level c), lc_color = Some (cf_color c),
      lc_terminal = Some terminal, lc_noColor = Some (cf_noColor c), lc_clockOk = True, lc_sinkOk = True,
      lc_canFlush = canFlush, lc_resource = resource_lval c i, lc_capacity = Some (Whole (cf_capacity c)),
      lc_maxRecordBytes = Some (Whole (cf_maxBytes c))\<rparr>"

text \<open>A configuration that was loaded always gives a log.\<close>

lemma logging_succeeds:
  assumes "config_in_range c" "rc_name (cf_resource c) \<noteq> []"
  shows "is_ok (logging c i canFlush terminal)"
proof -
  have lv: "\<exists>lv. parseLevel (cf_level c) = Inr lv"
    using assms(1) by (auto simp: config_in_range_def levels_def parseLevel_def)
  have col: "\<exists>col. colorEnabled (cf_color c) terminal (cf_noColor c) = Inr col"
    using assms(1) by (auto simp: config_in_range_def colors_def colorEnabled_def)
  have f: "cf_format c \<in> set [lit ''console'', lit ''json'', lit ''none'']"
    using assms(1) by (auto simp: config_in_range_def formats_def)
  have b: "1 \<le> cf_capacity c" "is_safe_integer (Whole (cf_capacity c))" "1 \<le> cf_maxBytes c" "is_safe_integer (Whole (cf_maxBytes c))"
    using assms(1) by (auto simp: config_in_range_def max_safe_def)
  have "has_name (resource_lval c i)" using assms(2) by (simp add: has_name_def resource_lval_def log_member_def Let_def)
  moreover have "\<exists>j. log_snapshot (resource_lval c i) = Some j" by (simp add: resource_lval_def log_member_def Let_def)
  ultimately show ?thesis using lv col f b
    by (auto simp: logging_def log_create_def or_else_def simp del: is_safe_integer.simps)
qed

lemma log_scope_succeeds: "\<exists>l. log_withScope (Made sc) lg = Inr l"
  by (simp add: log_withScope_def scopeProjection_def Let_def)

lemma loaded_config:
  assumes "loadConfig lk = Inr c"
  shows "is_ok (logging c i canFlush terminal)" "is_ok (actor (lit ''service'') (rc_name (cf_resource c)))"
proof -
  obtain b r where b: "config_reads lk = (b, r)" "rd_problems r = []" "c = b\<lparr>cf_manifest := sort_key v_key (rd_resolved r)\<rparr>"
    "is_ok (actor (lit ''service'') (rc_name (cf_resource b)))" using loadConfig_Inr[OF assms] by metis
  then show a: "is_ok (actor (lit ''service'') (rc_name (cf_resource c)))" by simp
  have "rc_name (cf_resource c) \<noteq> []"
    using a by (auto simp: actor_def identityValid_def matches_def split: if_splits)
  moreover have "config_in_range c" using config_reads_clean(1)[OF b(1,2)] by (simp add: b(3) config_in_range_def)
  ultimately show "is_ok (logging c i canFlush terminal)" by (rule logging_succeeds[rotated])
qed

section \<open>The bridge for the framework\<close>

datatype nest_method = NestLog | NestDebug | NestVerbose | NestWarn | NestError | NestFatal

fun nest_level :: "nest_method \<Rightarrow> level" where
  "nest_level NestLog = Info"
| "nest_level NestDebug = Debug"
| "nest_level NestVerbose = Debug"
| "nest_level NestWarn = Warn"
| "nest_level NestError = Error"
| "nest_level NestFatal = Error"

definition nest_write :: "(level \<Rightarrow> json \<Rightarrow> str \<Rightarrow> str) \<Rightarrow> date \<Rightarrow> level \<Rightarrow> jsval \<Rightarrow> jsval list \<Rightarrow> logger \<Rightarrow> runtime \<Rightarrow> runtime" where
  "nest_write pino now lv message params lg rt =
     (let fields = (case (if params = [] then Undefined else last params) of
          Str s \<Rightarrow> LObj [log_member ''context'' (LStr s)] | _ \<Rightarrow> LObj [])
      in case message of
          Str s \<Rightarrow> log_emit pino now lv s fields lg rt
        | v \<Rightarrow> log_emit pino now lv (lit ''framework event'') fields (log_withError v lg) rt)"

definition nest_call :: "nest_method \<Rightarrow> (level \<Rightarrow> json \<Rightarrow> str \<Rightarrow> str) \<Rightarrow> date \<Rightarrow> jsval \<Rightarrow> jsval list \<Rightarrow> logger \<Rightarrow> runtime \<Rightarrow> runtime" where
  "nest_call m pino now message params = nest_write pino now (nest_level m) message
     (if m = NestError then (if length params > 1 then [last params] else []) else params)"

text \<open>What may be seen of a message: a text as it is, a failure by its kind, type and public part, anything else not at all.\<close>

definition veil :: "jsval \<Rightarrow> jsval" where
  "veil v = (case v of Str s \<Rightarrow> Str s | Undefined \<Rightarrow> Undefined | Null \<Rightarrow> Null
     | _ \<Rightarrow> (case trusted v of None \<Rightarrow> Foreign 0
         | Some f \<Rightarrow> FailureV (Failure (f_kind f) (if f_kind f = Internal then [] else f_message f) (f_type f)
             (if f_kind f = Internal then None else f_fields f) (if f_cause f = Undefined then Undefined else Null) [])))"

lemma errorProjection_veil: "errorProjection (veil v) = errorProjection v"
  by (cases v) (simp_all add: veil_def errorProjection_def publicInfo_def kindOf_def fromCaught_def causeOf_def Let_def)

text \<open>Of a stack and other diagnostic parameters only the last one may be kept, as the context.\<close>

definition kept_params :: "nest_method \<Rightarrow> jsval list \<Rightarrow> jsval list" where
  "kept_params m ps = (if ps = [] \<or> m = NestError \<and> length ps = 1 then [] else [Undefined, last ps])"


section \<open>Properties\<close>

text \<open>
  The bridge for the framework logs nothing it should not. Of a message that is no text only its veiled
  form counts (the kind, type and public part of a failure, and of any other value only
  that it is one), and of the further parameters at most the last, none at all for an error with one.
\<close>

lemma nest_messages_veiled:
  "nest_call m pino now message params lg rt = nest_call m pino now (veil message) (kept_params m params) lg rt"
proof -
  have v: "log_withError (veil v) lg = log_withError v lg" for v
    by (simp add: log_withError_def errorProjection_veil)
  have w: "nest_write pino now lv (veil v) ps lg rt = nest_write pino now lv v ps lg rt" for lv v ps
    using v[of v] by (cases v) (simp_all add: nest_write_def veil_def Let_def split: jsval.splits)
  have l: "(if ps = [] then Undefined else last ps) = (if qs = [] then Undefined else last qs) \<Longrightarrow>
      nest_write pino now lv v ps lg rt = nest_write pino now lv v qs lg rt" for lv v ps qs
    by (simp add: nest_write_def)
  show ?thesis unfolding nest_call_def w
    by (rule l) (cases params; cases "tl params"; auto simp: kept_params_def)
qed

end
