(* ===== verification/Telemetry.thy ===== *)
theory Telemetry
  imports Http
begin

text \<open>
  \<open>src/shared/telemetry/otel/runtime.ts\<close>: the validated settings of the exporters, the providers a runtime
  owns and the flush that closes it. The OpenTelemetry SDK is the environment: the result of an export and the
  settling of a shutdown are events. The URL parser is a parameter.
\<close>

section \<open>Settings\<close>

record tel_url =
  tu_protocol :: str
  tu_username :: str
  tu_password :: str
  tu_search :: str
  tu_hash :: str

record tel_config =
  tc_mode :: str
  tc_endpoint :: str
  tc_sampling :: str
  tc_resource :: "str obj"
  tc_queue :: number
  tc_batch :: number
  tc_timeoutMs :: number
  tc_intervalMs :: number

definition tel_refused :: failure where
  "tel_refused = fail Invalid ''invalid telemetry configuration'' ''env.invalid''"

text \<open>\<open>!resource[key]\<close>: absent or empty.\<close>

definition lacks :: "str obj \<Rightarrow> string \<Rightarrow> bool" where
  "lacks o1 key \<longleftrightarrow> nonempty (map_of o1 (lit key)) = None"

text \<open>\<open>c.batch > c.queue\<close> is only asked once the queue is known to be an integer.\<close>

definition batch_fits :: "number \<Rightarrow> number \<Rightarrow> bool" where
  "batch_fits batch queue \<longleftrightarrow> (case queue of Whole q \<Rightarrow> int_in 1 q batch | _ \<Rightarrow> False)"

definition tel_validate :: "(str \<Rightarrow> tel_url option) \<Rightarrow> tel_config \<Rightarrow> unit result" where
  "tel_validate url_of c = (case url_of (tc_endpoint c) of
     None \<Rightarrow> Inl tel_refused
   | Some u \<Rightarrow>
       if tc_mode c \<notin> set [lit ''none'', lit ''otlp''] \<or> tc_sampling c \<notin> set [lit ''all'', lit ''none'']
         \<or> tu_protocol u \<notin> set [lit ''http:'', lit ''https:'']
         \<or> tu_username u \<noteq> [] \<or> tu_password u \<noteq> [] \<or> tu_search u \<noteq> [] \<or> tu_hash u \<noteq> []
         \<or> lacks (tc_resource c) ''service.name'' \<or> lacks (tc_resource c) ''service.instance.id''
         \<or> \<not> int_in 1 65536 (tc_queue c) \<or> \<not> batch_fits (tc_batch c) (tc_queue c)
         \<or> \<not> int_in 1 10000 (tc_timeoutMs c) \<or> \<not> int_in 100 60000 (tc_intervalMs c)
       then Inl tel_refused else Inr ())"

section \<open>The runtime\<close>

record exporter =
  ex_url :: str
  ex_timeoutMs :: number

record batching =
  ba_maxQueue :: number
  ba_maxBatch :: number
  ba_delayMs :: number
  ba_timeoutMs :: number

record trace_provider =
  tp_resource :: "str obj"
  tp_always :: bool
  tp_exporter :: exporter
  tp_batch :: batching

record metric_provider =
  mp_resource :: "str obj"
  mp_exporter :: exporter
  mp_intervalMs :: number
  mp_timeoutMs :: number

record log_provider =
  lp_resource :: "str obj"
  lp_exporter :: exporter
  lp_batch :: batching

text \<open>
  The flush: the delay of its timer, whether the timer is armed, what each of the three shutdowns has settled
  to (\<open>True\<close> for fulfilled), and the answer of the promise.
\<close>

record flush =
  fl_delay :: int
  fl_armed :: bool
  fl_settled :: "bool option list"
  fl_answer :: "unit result option"

record otel_runtime =
  or_traces :: "trace_provider option"
  or_metrics :: "metric_provider option"
  or_logs :: "log_provider option"
  or_failed :: nat
  or_closing :: "flush option"

definition strip_slash :: "str \<Rightarrow> str" where
  "strip_slash s = (if s \<noteq> [] \<and> last s = 47 then butlast s else s)"

fun min_number :: "number \<Rightarrow> number \<Rightarrow> number" where
  "min_number (Whole i) (Whole j) = Whole (min i j)"
| "min_number _ _ = NaN"

definition signal_exporter :: "tel_config \<Rightarrow> string \<Rightarrow> exporter" where
  "signal_exporter c path = \<lparr>ex_url = strip_slash (tc_endpoint c) @ lit path, ex_timeoutMs = tc_timeoutMs c\<rparr>"

definition signal_batch :: "tel_config \<Rightarrow> batching" where
  "signal_batch c = \<lparr>ba_maxQueue = tc_queue c, ba_maxBatch = tc_batch c, ba_delayMs = tc_intervalMs c,
     ba_timeoutMs = tc_timeoutMs c\<rparr>"

definition otel_new :: "(str \<Rightarrow> tel_url option) \<Rightarrow> tel_config \<Rightarrow> exn + otel_runtime" where
  "otel_new url_of c = (case tel_validate url_of c of
     Inl _ \<Rightarrow> Inl (Thrown (Foreign 0))
   | Inr _ \<Rightarrow> Inr (if tc_mode c = lit ''none''
       then \<lparr>or_traces = None, or_metrics = None, or_logs = None, or_failed = 0, or_closing = None\<rparr>
       else \<lparr>or_traces = Some \<lparr>tp_resource = tc_resource c, tp_always = (tc_sampling c = lit ''all''),
                tp_exporter = signal_exporter c ''/v1/traces'', tp_batch = signal_batch c\<rparr>,
              or_metrics = Some \<lparr>mp_resource = tc_resource c, mp_exporter = signal_exporter c ''/v1/metrics'',
                mp_intervalMs = tc_intervalMs c, mp_timeoutMs = min_number (tc_intervalMs c) (tc_timeoutMs c)\<rparr>,
              or_logs = Some \<lparr>lp_resource = tc_resource c, lp_exporter = signal_exporter c ''/v1/logs'',
                lp_batch = signal_batch c\<rparr>,
              or_failed = 0, or_closing = None\<rparr>))"

text \<open>\<open>observed\<close>: the result an exporter hands to its callback is counted first.\<close>

definition export_result :: "bool \<Rightarrow> otel_runtime \<Rightarrow> otel_runtime" where
  "export_result success r = (if success then r else r\<lparr>or_failed := or_failed r + 1\<rparr>)"

text \<open>The shutdown of a provider that does not exist is settled at once.\<close>

definition not_awaited :: "'a option \<Rightarrow> bool option" where
  "not_awaited p = (case p of None \<Rightarrow> Some True | Some _ \<Rightarrow> None)"

definition otel_close :: "int \<Rightarrow> otel_runtime \<Rightarrow> otel_runtime" where
  "otel_close remainingMs r = (case or_closing r of
     Some _ \<Rightarrow> r
   | None \<Rightarrow> r\<lparr>or_closing := Some \<lparr>fl_delay = max 0 remainingMs, fl_armed = True,
       fl_settled = [not_awaited (or_traces r), not_awaited (or_metrics r), not_awaited (or_logs r)],
       fl_answer = None\<rparr>\<rparr>)"

definition fl_resolve :: "unit result \<Rightarrow> flush \<Rightarrow> flush" where
  "fl_resolve x f = (case fl_answer f of None \<Rightarrow> f\<lparr>fl_answer := Some x\<rparr> | Some _ \<Rightarrow> f)"

definition flush_timeout :: failure where
  "flush_timeout = fail Timeout ''telemetry flush timed out'' ''telemetry.flush_timeout''"

definition export_unavailable :: failure where
  "export_unavailable = fail Unavailable ''telemetry export unavailable'' ''telemetry.export''"

definition on_flush :: "(flush \<Rightarrow> flush) \<Rightarrow> otel_runtime \<Rightarrow> otel_runtime" where
  "on_flush f r = r\<lparr>or_closing := map_option f (or_closing r)\<rparr>"

definition flush_timer :: "flush \<Rightarrow> flush" where
  "flush_timer f = (if fl_armed f then fl_resolve (Inl flush_timeout) (f\<lparr>fl_armed := False\<rparr>) else f)"

definition shutdown_settles :: "nat \<Rightarrow> bool \<Rightarrow> flush \<Rightarrow> flush" where
  "shutdown_settles i good f = (if i < length (fl_settled f) \<and> fl_settled f ! i = None
     then f\<lparr>fl_settled := (fl_settled f)[i := Some good]\<rparr> else f)"

text \<open>The continuation of \<open>allSettled\<close>.\<close>

definition all_settled :: "nat \<Rightarrow> flush \<Rightarrow> flush" where
  "all_settled failed f = (if None \<in> set (fl_settled f) then f
     else fl_resolve (if failed > 0 \<or> Some False \<in> set (fl_settled f) then Inl export_unavailable else Inr ())
       (f\<lparr>fl_armed := False\<rparr>))"

datatype otel_event = Export bool | CloseWithin int | FlushTimer | ShutdownSettles nat bool | Continue

fun otel_apply :: "otel_event \<Rightarrow> otel_runtime \<Rightarrow> otel_runtime" where
  "otel_apply (Export success) r = export_result success r"
| "otel_apply (CloseWithin ms) r = otel_close ms r"
| "otel_apply FlushTimer r = on_flush flush_timer r"
| "otel_apply (ShutdownSettles i good) r = on_flush (shutdown_settles i good) r"
| "otel_apply Continue r = on_flush (all_settled (or_failed r)) r"

definition otel_run :: "otel_event list \<Rightarrow> otel_runtime \<Rightarrow> otel_runtime" where
  "otel_run es r = fold otel_apply es r"

definition otel_answer :: "otel_runtime \<Rightarrow> unit result option" where
  "otel_answer r = (case or_closing r of None \<Rightarrow> None | Some f \<Rightarrow> fl_answer f)"

section \<open>The flush\<close>

lemma otel_run_snoc: "otel_run (es @ [e]) r = otel_apply e (otel_run es r)"
  by (simp add: otel_run_def)

lemma otel_run_append: "otel_run (es @ fs) r = otel_run fs (otel_run es r)"
  by (simp add: otel_run_def)

lemma fl_resolve_simps [simp]:
  "fl_answer (fl_resolve x f) = (case fl_answer f of None \<Rightarrow> Some x | Some y \<Rightarrow> Some y)"
  "fl_settled (fl_resolve x f) = fl_settled f" "fl_armed (fl_resolve x f) = fl_armed f" "fl_delay (fl_resolve x f) = fl_delay f"
  by (simp_all add: fl_resolve_def split: option.split)

lemma on_flush_simps [simp]:
  "or_closing (on_flush g r) = map_option g (or_closing r)" "or_failed (on_flush g r) = or_failed r"
  by (simp_all add: on_flush_def)

text \<open>Every failed export is counted, and nothing else is.\<close>

lemma otel_failed: "or_failed (otel_run es r) = or_failed r + length (filter (\<lambda>e. e = Export False) es)"
proof (induction es rule: rev_induct)
  case (snoc e es)
  then show ?case by (cases e) (auto simp: otel_run_snoc export_result_def otel_close_def split: option.split)
qed (simp add: otel_run_def)

text \<open>A flush that has been answered keeps its answer.\<close>

lemma otel_answer_step: "otel_answer r = Some x \<Longrightarrow> otel_answer (otel_apply e r) = Some x"
  by (cases e) (auto simp: otel_answer_def export_result_def otel_close_def flush_timer_def shutdown_settles_def
      all_settled_def split: option.splits)

lemma otel_answer_stays: "otel_answer r = Some x \<Longrightarrow> otel_answer (otel_run es r) = Some x"
  by (induction es rule: rev_induct) (simp_all add: otel_run_snoc otel_answer_step, simp add: otel_run_def)

text \<open>The step at which the answer comes.\<close>

lemma otel_answered_by:
  assumes "otel_answer r = None" "otel_answer (otel_run es r) = Some x"
  obtains as e bs where "es = as @ e # bs" "otel_answer (otel_run as r) = None"
    "otel_answer (otel_apply e (otel_run as r)) = Some x"
  using assms
proof (induction es arbitrary: thesis x rule: rev_induct)
  case Nil
  then show ?case by (simp add: otel_run_def)
next
  case (snoc e es)
  show ?case
  proof (cases "otel_answer (otel_run es r)")
    case None
    then show ?thesis using snoc.prems(1)[of es e "[]"] snoc.prems(3) by (simp add: otel_run_snoc)
  next
    case (Some y)
    with otel_answer_step[OF Some, of e] snoc.prems(3) have xy: "y = x" by (simp add: otel_run_snoc)
    from snoc.IH[OF _ assms(1)] Some xy obtain as d bs where
      "es = as @ d # bs" "otel_answer (otel_run as r) = None" "otel_answer (otel_apply d (otel_run as r)) = Some x"
      by blast
    then show ?thesis using snoc.prems(1)[of as d "bs @ [e]"] by simp
  qed
qed

lemma otel_answering_step:
  assumes "otel_answer r = None" "otel_answer (otel_apply e r) = Some x"
  shows "e = FlushTimer \<and> x = Inl flush_timeout
    \<or> e = Continue \<and> (\<exists>f. or_closing r = Some f \<and> None \<notin> set (fl_settled f)
        \<and> x = (if or_failed r > 0 \<or> Some False \<in> set (fl_settled f) then Inl export_unavailable else Inr ()))"
  using assms
  by (cases e) (auto simp: otel_answer_def export_result_def otel_close_def flush_timer_def shutdown_settles_def
      all_settled_def split: option.splits if_splits)

lemma otel_new_idle: "otel_new url_of c = Inr r \<Longrightarrow> or_failed r = 0 \<and> or_closing r = None"
  by (auto simp: otel_new_def split: sum.splits)

text \<open>The timer of a flush is armed exactly until it has been answered.\<close>

definition flush_inv :: "otel_runtime \<Rightarrow> bool" where
  "flush_inv r \<longleftrightarrow> (case or_closing r of None \<Rightarrow> True | Some f \<Rightarrow> fl_armed f = (fl_answer f = None))"

definition otel_step :: "otel_runtime \<Rightarrow> otel_runtime \<Rightarrow> bool" where
  "otel_step r s \<longleftrightarrow> (\<exists>e. s = otel_apply e r)"

lemma otel_apply_inv: "flush_inv r \<Longrightarrow> flush_inv (otel_apply e r)"
  by (cases e) (auto simp: flush_inv_def export_result_def otel_close_def flush_timer_def shutdown_settles_def
      all_settled_def split: option.splits)

interpretation flushes: step_invariant otel_step flush_inv
  by unfold_locales (auto simp: otel_step_def otel_apply_inv)

lemma otel_run_steps: "otel_step\<^sup>*\<^sup>* r (otel_run es r)"
proof (induction es rule: rev_induct)
  case (snoc e es)
  have "otel_step (otel_run es r) (otel_run (es @ [e]) r)" by (auto simp: otel_step_def otel_run_snoc)
  with snoc show ?case by (rule rtranclp.rtrancl_into_rtrancl)
qed (simp add: otel_run_def)

lemma otel_run_inv: "flush_inv r \<Longrightarrow> flush_inv (otel_run es r)"
  by (rule flushes.steps_inv[OF otel_run_steps])

text \<open>A flush that has begun stays, with the delay it began with.\<close>

lemma otel_closing_stays:
  assumes "or_closing r = Some f"
  shows "\<exists>g. or_closing (otel_run es r) = Some g \<and> fl_delay g = fl_delay f"
proof (induction es rule: rev_induct)
  case (snoc e es)
  then obtain g where g: "or_closing (otel_run es r) = Some g" "fl_delay g = fl_delay f" by blast
  then show ?case
    by (cases e) (auto simp: otel_run_snoc export_result_def otel_close_def flush_timer_def shutdown_settles_def all_settled_def)
qed (use assms in \<open>simp add: otel_run_def\<close>)

lemma otel_close_begins: "\<exists>f. or_closing (otel_close ms r) = Some f"
  by (auto simp: otel_close_def split: option.split)

lemma timer_answers: "flush_inv r \<Longrightarrow> or_closing r = Some f \<Longrightarrow> otel_answer (otel_apply FlushTimer r) \<noteq> None"
  by (auto simp: flush_inv_def otel_answer_def flush_timer_def split: option.splits)

section \<open>Properties\<close>

text \<open>
  C24: a flush answers once and honestly. It answers with a timeout only when its timer fired first; otherwise
  it answers when all three shutdowns have settled, and then with success exactly if none of them was rejected and
  no export had failed until then. No later event changes the answer.
\<close>

theorem flush_honest:
  assumes "otel_new url_of c = Inr r" "otel_answer (otel_run es r) = Some x"
  shows "(\<exists>as e bs. es = as @ e # bs
      \<and> (e = FlushTimer \<and> x = Inl flush_timeout
         \<or> e = Continue \<and> (\<exists>f. or_closing (otel_run as r) = Some f \<and> None \<notin> set (fl_settled f)
             \<and> x = (if Export False \<in> set as \<or> Some False \<in> set (fl_settled f) then Inl export_unavailable else Inr ()))))
    \<and> otel_answer (otel_run (es @ fs) r) = Some x"
proof -
  note idle = otel_new_idle[OF assms(1)]
  then have "otel_answer r = None" by (simp add: otel_answer_def)
  from otel_answered_by[OF this assms(2)] obtain as e bs where
    es: "es = as @ e # bs" "otel_answer (otel_run as r) = None" "otel_answer (otel_apply e (otel_run as r)) = Some x"
    by blast
  have "or_failed (otel_run as r) > 0 \<longleftrightarrow> Export False \<in> set as"
    using idle by (auto simp: otel_failed filter_empty_conv)
  with otel_answering_step[OF es(2,3)] have "e = FlushTimer \<and> x = Inl flush_timeout
    \<or> e = Continue \<and> (\<exists>f. or_closing (otel_run as r) = Some f \<and> None \<notin> set (fl_settled f)
        \<and> x = (if Export False \<in> set as \<or> Some False \<in> set (fl_settled f) then Inl export_unavailable else Inr ()))"
    by simp
  moreover have "otel_answer (otel_run (es @ fs) r) = Some x"
    unfolding otel_run_append by (rule otel_answer_stays[OF assms(2)])
  ultimately show ?thesis using es(1) by blast
qed

text \<open>
  A flush ends within the remaining budget. The first call of \<open>close\<close> arms a timer that is never negative,
  later calls neither re-arm nor restart it, and once it has fired the promise has an answer, whatever the exporters do.
\<close>

lemma flush_ends:
  assumes "otel_new url_of c = Inr r" "\<forall>ms. CloseWithin ms \<notin> set es"
  shows "(\<exists>f. or_closing (otel_run (es @ CloseWithin n # fs) r) = Some f \<and> fl_delay f = max 0 n)
    \<and> otel_answer (otel_run (es @ CloseWithin n # fs @ [FlushTimer]) r) \<noteq> None"
proof -
  note idle = otel_new_idle[OF assms(1)]
  have "or_closing (otel_run es r) = None"
    using assms(2)
  proof (induction es rule: rev_induct)
    case (snoc e es)
    then show ?case by (cases e) (auto simp: otel_run_snoc export_result_def)
  qed (use idle in \<open>simp add: otel_run_def\<close>)
  then have "\<exists>f. or_closing (otel_close n (otel_run es r)) = Some f \<and> fl_delay f = max 0 n"
    by (simp add: otel_close_def)
  moreover have run: "otel_run (es @ CloseWithin n # gs) r = otel_run gs (otel_close n (otel_run es r))" for gs
    by (simp add: otel_run_def)
  ultimately obtain f where f: "or_closing (otel_run (es @ CloseWithin n # fs) r) = Some f" "fl_delay f = max 0 n"
    using otel_closing_stays by metis
  have "flush_inv (otel_run (es @ CloseWithin n # fs) r)"
    using idle by (intro otel_run_inv) (simp add: flush_inv_def)
  from timer_answers[OF this f(1)] f show ?thesis by (simp add: otel_run_def)
qed

section \<open>Witnesses\<close>

definition sample_tel_url :: "str \<Rightarrow> tel_url option" where
  "sample_tel_url s = Some \<lparr>tu_protocol = lit ''http:'', tu_username = [], tu_password = [], tu_search = [], tu_hash = []\<rparr>"

definition sample_tel_config :: tel_config where
  "sample_tel_config = \<lparr>tc_mode = lit ''otlp'', tc_endpoint = lit ''http://a/'', tc_sampling = lit ''all'',
     tc_resource = [(lit ''service.name'', lit ''n''), (lit ''service.instance.id'', lit ''i'')],
     tc_queue = Whole 256, tc_batch = Whole 64, tc_timeoutMs = Whole 500, tc_intervalMs = Whole 500\<rparr>"

lemma sample_tel_valid: "tel_validate sample_tel_url sample_tel_config = Inr ()"
  by (simp add: tel_validate_def sample_tel_url_def sample_tel_config_def lacks_def nonempty_def batch_fits_def)

definition sample_otel :: otel_runtime where
  "sample_otel = (case otel_new sample_tel_url sample_tel_config of Inr r \<Rightarrow> r | Inl _ \<Rightarrow> undefined)"

lemma sample_otel: "otel_new sample_tel_url sample_tel_config = Inr sample_otel"
  "or_closing sample_otel = None" "or_failed sample_otel = 0" "or_traces sample_otel \<noteq> None"
  "or_metrics sample_otel \<noteq> None" "or_logs sample_otel \<noteq> None"
  by (simp_all add: sample_otel_def otel_new_def sample_tel_valid) (simp_all add: sample_tel_config_def)

definition sample_flush :: "otel_event list" where
  "sample_flush = [CloseWithin 5, ShutdownSettles 0 True, ShutdownSettles 1 True, ShutdownSettles 2 True, Continue]"

lemma sample_flush: "otel_answer (otel_run sample_flush sample_otel) = Some (Inr ())"
  using sample_otel
  by (auto simp: sample_flush_def otel_run_def otel_close_def not_awaited_def shutdown_settles_def all_settled_def
      otel_answer_def on_flush_def fl_resolve_def)

theorem flush_honest_witness:
  "otel_answer (otel_run (sample_flush @ [FlushTimer]) sample_otel) = Some (Inr ())"
  using flush_honest[OF sample_otel(1) sample_flush, of "[FlushTimer]"] by blast

lemma flush_ends_witness:
  "otel_answer (otel_run ([Export False] @ CloseWithin (- 3) # [] @ [FlushTimer]) sample_otel) \<noteq> None"
  using flush_ends[OF sample_otel(1), of "[Export False]" "- 3" "[]"] by simp

end
