(* ===== verification/Texts.thy ===== *)
theory Texts
  imports Ids
begin

text \<open>Operations on texts the servers share: splitting, trimming, and reading raw header pairs.\<close>

definition js_space :: "cu \<Rightarrow> bool" where
  "js_space c \<longleftrightarrow> 9 \<le> c \<and> c \<le> 13 \<or> c = 32 \<or> c = 0xA0 \<or> c = 0x1680 \<or> 0x2000 \<le> c \<and> c \<le> 0x200A
     \<or> c \<in> {0x2028, 0x2029, 0x202F, 0x205F, 0x3000, 0xFEFF}"

definition js_trim :: "str \<Rightarrow> str" where
  "js_trim s = rev (dropWhile js_space (rev (dropWhile js_space s)))"

fun split_on :: "cu \<Rightarrow> str \<Rightarrow> str list" where
  "split_on d [] = [[]]"
| "split_on d (c # s) = (if c = d then [] # split_on d s
     else (case split_on d s of [] \<Rightarrow> [[c]] | t # ts \<Rightarrow> (c # t) # ts))"

text \<open>Names and values alternate in \<open>rawHeaders\<close>; names are compared without case.\<close>

fun raw_values :: "string \<Rightarrow> str list \<Rightarrow> str list" where
  "raw_values name (n # v # rest) = (if to_lower n = lit name then [v] else []) @ raw_values name rest"
| "raw_values name _ = []"

lemma split_on_nonempty [simp]: "split_on d s \<noteq> []"
  by (cases s) (auto split: list.split)

lemma js_trim_plain: "\<not> js_space c \<Longrightarrow> s = [] \<or> \<not> js_space (last s) \<Longrightarrow> js_trim (c # s) = c # s"
  by (cases s rule: rev_cases) (auto simp: js_trim_def)

end
