(* ===== verification/Settings.thy ===== *)
theory Settings
  imports Config Telemetry Texts
begin

text \<open>
  The settings of the HTTP process (\<open>loadHTTPConfig\<close> in \<open>src/root/http.ts\<close>) and of the event process (the reads of
  \<open>runEvents\<close> in \<open>src/root/events.ts\<close>), read from the environment after the shared configuration.
\<close>

section \<open>Addresses\<close>

text \<open>\<open>net.isIP\<close>: dotted decimals without leading zeros, and the groups of RFC 4291 with an optional zone.\<close>

definition v4_part :: "str \<Rightarrow> bool" where
  "v4_part s \<longleftrightarrow> matches is_digit 1 3 s \<and> (hd s = 48 \<longrightarrow> length s = 1) \<and> val_base 10 s \<le> 255"

definition is_ipv4 :: "str \<Rightarrow> bool" where
  "is_ipv4 s \<longleftrightarrow> length (split_on 46 s) = 4 \<and> list_all v4_part (split_on 46 s)"

definition zone_unit :: "cu \<Rightarrow> bool" where
  "zone_unit c \<longleftrightarrow> is_alnum c \<or> c = 45 \<or> c = 46 \<or> c = 58"

text \<open>The number of 16-bit groups of a part, when it is one: a dotted address counts for two and comes last.\<close>

fun v6_weight :: "str list \<Rightarrow> nat option" where
  "v6_weight [] = Some 0"
| "v6_weight [s] = (if matches is_hex 1 4 s then Some 1 else if is_ipv4 s then Some 2 else None)"
| "v6_weight (s # ss) = (if matches is_hex 1 4 s then map_option Suc (v6_weight ss) else None)"

definition v6_side :: "str \<Rightarrow> nat option" where
  "v6_side s = (if s = [] then Some 0 else v6_weight (split_on 58 s))"

text \<open>The text before and after the first \<open>::\<close>.\<close>

fun split_gap :: "str \<Rightarrow> (str \<times> str) option" where
  "split_gap (c # d # s) = (if c = 58 \<and> d = 58 then Some ([], s)
     else map_option (\<lambda>(a, b). (c # a, b)) (split_gap (d # s)))"
| "split_gap _ = None"

definition is_ipv6 :: "str \<Rightarrow> bool" where
  "is_ipv6 s = (let addr = takeWhile (\<lambda>c. c \<noteq> 37) s; zone = dropWhile (\<lambda>c. c \<noteq> 37) s in
     (zone = [] \<or> tl zone \<noteq> [] \<and> list_all zone_unit (tl zone))
     \<and> (case split_gap addr of
         None \<Rightarrow> v6_weight (split_on 58 addr) = Some 8
       | Some (l, r) \<Rightarrow> (case (v6_side l, v6_side r) of
           (Some m, Some n) \<Rightarrow> m + n \<le> 7 \<and> list_all (\<lambda>g. \<not> is_ipv4 g) (split_on 58 l) | _ \<Rightarrow> False)))"

definition isIP :: "str \<Rightarrow> nat" where
  "isIP s = (if is_ipv4 s then 4 else if is_ipv6 s then 6 else 0)"

section \<open>The HTTP process\<close>

record db_settings =
  ds_url :: secret
  ds_maxConnections :: int
  ds_timeoutMs :: int

record http_settings =
  ht_socketOrigin :: str
  ht_outboundOrigin :: str
  ht_database :: "db_settings option"
  ht_testRoutes :: bool
  ht_base :: config
  ht_host :: str
  ht_port :: int
  ht_timeoutMs :: int
  ht_shutdownMs :: int
  ht_telemetry :: tel_config

definition tel_modes :: "str list" where
  "tel_modes = [lit ''none'', lit ''otlp'']"

definition samplings :: "str list" where
  "samplings = [lit ''all'', lit ''none'']"

definition tel_reads :: "lookup \<Rightarrow> str \<Rightarrow> reader \<Rightarrow> tel_config \<times> reader" where
  "tel_reads lk service r =
     (case reader_enumeration lk (lit ''TELEMETRY_MODE'') (lit ''none'') tel_modes r of (mode, r) \<Rightarrow>
      case reader_string lk (lit ''TELEMETRY_ENDPOINT'') (lit ''http://127.0.0.1:7342'') r of (endpoint, r) \<Rightarrow>
      case reader_enumeration lk (lit ''TELEMETRY_SAMPLING'') (lit ''all'') samplings r of (sampling, r) \<Rightarrow>
      case reader_int lk (lit ''TELEMETRY_QUEUE'') (Whole 256) (Whole 1) (Whole 65536) r of (queue, r) \<Rightarrow>
      case reader_int lk (lit ''TELEMETRY_BATCH'') (Whole 64) (Whole 1) (Whole 65536) r of (batch, r) \<Rightarrow>
      case reader_int lk (lit ''TELEMETRY_TIMEOUT_MS'') (Whole 500) (Whole 1) (Whole 10000) r of (tmo, r) \<Rightarrow>
      case reader_int lk (lit ''TELEMETRY_INTERVAL_MS'') (Whole 500) (Whole 100) (Whole 60000) r of (ivl, r) \<Rightarrow>
        (\<lparr>tc_mode = mode, tc_endpoint = endpoint, tc_sampling = sampling,
          tc_resource = [(lit ''service.name'', service), (lit ''service.instance.id'', lit ''validation'')],
          tc_queue = Whole queue, tc_batch = Whole batch, tc_timeoutMs = Whole tmo, tc_intervalMs = Whole ivl\<rparr>, r))"

text \<open>The three settings of the database are read by both processes.\<close>

definition db_reads :: "lookup \<Rightarrow> reader \<Rightarrow> db_settings \<times> reader" where
  "db_reads lk r =
     (case reader_secret lk (lit ''DATABASE_URL'') r of (url, r) \<Rightarrow>
      case reader_int lk (lit ''DATABASE_MAX_CONNECTIONS'') (Whole 8) (Whole 1) (Whole 64) r of (conns, r) \<Rightarrow>
      case reader_int lk (lit ''DATABASE_TIMEOUT_MS'') (Whole 1000) (Whole 1) (Whole 30000) r of (tmo, r) \<Rightarrow>
        (\<lparr>ds_url = url, ds_maxConnections = conns, ds_timeoutMs = tmo\<rparr>, r))"

definition http_reads :: "lookup \<Rightarrow> config \<Rightarrow> http_settings \<times> reader" where
  "http_reads lk base =
     (case reader_string lk (lit ''WS_ORIGIN'') (lit ''http://localhost:3000'') reader_new of (ws, r) \<Rightarrow>
      case reader_string lk (lit ''OUTBOUND_ORIGIN'') [] r of (outb, r) \<Rightarrow>
      case reader_boolean lk (lit ''HTTP_TEST_ROUTES'') False r of (test, r) \<Rightarrow>
      case reader_string lk (lit ''HTTP_HOST'') (lit ''127.0.0.1'') r of (host, r) \<Rightarrow>
      case reader_int lk (lit ''HTTP_PORT'') (Whole 7300) (Whole 0) (Whole 65535) r of (port, r) \<Rightarrow>
      case reader_int lk (lit ''HTTP_TIMEOUT_MS'') (Whole 1000) (Whole 1) (Whole 30000) r of (tmo, r) \<Rightarrow>
      case reader_int lk (lit ''SHUTDOWN_MS'') (Whole 3000) (Whole 1) (Whole 30000) r of (stop, r) \<Rightarrow>
      case tel_reads lk (rc_name (cf_resource base)) r of (tel, r) \<Rightarrow>
      case reader_boolean lk (lit ''DATABASE_ENABLED'') False r of (enabled, r) \<Rightarrow>
      case (if enabled then (case db_reads lk r of (d, r) \<Rightarrow> (Some d, r)) else (None, r)) of (db, r) \<Rightarrow>
        (\<lparr>ht_socketOrigin = ws, ht_outboundOrigin = outb, ht_database = db, ht_testRoutes = test, ht_base = base,
          ht_host = host, ht_port = port, ht_timeoutMs = tmo, ht_shutdownMs = stop, ht_telemetry = tel\<rparr>, r))"

definition loadHTTPConfig :: "(str \<Rightarrow> tel_url option) \<Rightarrow> lookup \<Rightarrow> http_settings result" where
  "loadHTTPConfig url_of lk = (case loadConfig lk of
     Inl e \<Rightarrow> Inl e
   | Inr base \<Rightarrow> (case http_reads lk base of (c, r) \<Rightarrow>
       (case reader_check r of Inl e \<Rightarrow> Inl e
        | Inr _ \<Rightarrow>
            if isIP (ht_host c) = 0 then Inl (fail Invalid ''invalid HTTP host'' ''env.invalid'')
            else (case tel_validate url_of (ht_telemetry c) of Inl e \<Rightarrow> Inl e | Inr _ \<Rightarrow> Inr c))))"

section \<open>The event process\<close>

record broker_settings =
  bs_url :: secret
  bs_stream :: str
  bs_consumer :: str
  bs_timeoutMs :: int

record event_settings =
  es_base :: config
  es_database :: db_settings
  es_transport :: str
  es_broker :: "broker_settings option"

definition broker_reads :: "lookup \<Rightarrow> reader \<Rightarrow> broker_settings \<times> reader" where
  "broker_reads lk r =
     (case reader_secret lk (lit ''NATS_URL'') r of (url, r) \<Rightarrow>
      case reader_string lk (lit ''NATS_STREAM'') (lit ''N2F_EVENTS'') r of (stream, r) \<Rightarrow>
      case reader_string lk (lit ''NATS_CONSUMER'') (lit ''mailbox'') r of (consumer, r) \<Rightarrow>
      case reader_int lk (lit ''NATS_TIMEOUT_MS'') (Whole 1000) (Whole 1) (Whole 5000) r of (tmo, r) \<Rightarrow>
        (\<lparr>bs_url = url, bs_stream = stream, bs_consumer = consumer, bs_timeoutMs = tmo\<rparr>, r))"

text \<open>What \<open>runEvents\<close> reads; a refusal is thrown, and an unknown transport is the exit code 2.\<close>

definition event_reads :: "lookup \<Rightarrow> config \<Rightarrow> event_settings \<times> reader" where
  "event_reads lk base =
     (case db_reads lk reader_new of (db, r) \<Rightarrow>
      case reader_string lk (lit ''EVENTS_TRANSPORT'') (lit ''postgres'') r of (transport, r) \<Rightarrow>
      case (if transport = lit ''jetstream'' then (case broker_reads lk r of (b, r) \<Rightarrow> (Some b, r)) else (None, r)) of (br, r) \<Rightarrow>
        (\<lparr>es_base = base, es_database = db, es_transport = transport, es_broker = br\<rparr>, r))"

definition load_events :: "lookup \<Rightarrow> exn + event_settings option" where
  "load_events lk = (case unwrap (loadConfig lk) of
     Inl e \<Rightarrow> Inl e
   | Inr base \<Rightarrow> (case event_reads lk base of (c, r) \<Rightarrow>
       (case unwrap (reader_check r) of Inl e \<Rightarrow> Inl e
        | Inr _ \<Rightarrow> Inr (if es_transport c \<in> set [lit ''postgres'', lit ''jetstream''] then Some c else None))))"

section \<open>Clean reads\<close>

text \<open>From \<open>r\<close> to \<open>s\<close> the reader keeps its invariant, loses no problem, and a clean end has established \<open>P\<close>.\<close>

definition reads :: "reader \<Rightarrow> reader \<Rightarrow> bool \<Rightarrow> bool" where
  "reads r s P \<longleftrightarrow> (reader_inv r \<longrightarrow> reader_inv s \<and> (rd_problems s = [] \<longrightarrow> rd_problems r = [] \<and> P))"

lemma reads_refl: "reads r r True"
  by (simp add: reads_def)

lemma reads_trans: "reads r s P \<Longrightarrow> reads s t Q \<Longrightarrow> reads r t (P \<and> Q)"
  by (auto simp: reads_def)

lemma reads_weaken: "reads r s P \<Longrightarrow> (P \<Longrightarrow> Q) \<Longrightarrow> reads r s Q"
  by (auto simp: reads_def)

lemma reads_string: "reader_string lk k fb r = (v, s) \<Longrightarrow> reads r s True"
  using clean_reads(1) by (simp add: reads_def)

lemma reads_boolean: "reader_boolean lk k fb r = (v, s) \<Longrightarrow> reads r s True"
  using clean_reads(4) by (simp add: reads_def)

lemma reads_enum: "reader_enumeration lk k fb allowed r = (v, s) \<Longrightarrow> reads r s (v \<in> set allowed)"
  using clean_reads(2) reader_enumeration_range unfolding reads_def by blast

lemma reads_int:
  assumes "reader_int lk k fb (Whole lo) (Whole hi) r = (v, s)"
  shows "reads r s (lo \<le> v \<and> v \<le> hi)"
  using clean_reads(3)[OF assms] reader_int_range[OF assms] unfolding reads_def by auto

lemma reads_secret:
  assumes "reader_secret lk k r = (v, s)"
  shows "reads r s (lk k = Str (hidden v) \<and> hidden v \<noteq> [])"
  using clean_reads(5)[OF assms] reader_secret_value[OF assms] unfolding reads_def by auto

definition tel_in_range :: "tel_config \<Rightarrow> bool" where
  "tel_in_range c \<longleftrightarrow> tc_mode c \<in> set tel_modes \<and> tc_sampling c \<in> set samplings
     \<and> int_in 1 65536 (tc_queue c) \<and> int_in 1 65536 (tc_batch c) \<and> int_in 1 10000 (tc_timeoutMs c)
     \<and> int_in 100 60000 (tc_intervalMs c)"

definition db_in_range :: "lookup \<Rightarrow> db_settings \<Rightarrow> bool" where
  "db_in_range lk d \<longleftrightarrow> lk (lit ''DATABASE_URL'') = Str (hidden (ds_url d)) \<and> hidden (ds_url d) \<noteq> []
     \<and> 1 \<le> ds_maxConnections d \<and> ds_maxConnections d \<le> 64 \<and> 1 \<le> ds_timeoutMs d \<and> ds_timeoutMs d \<le> 30000"

definition broker_in_range :: "lookup \<Rightarrow> broker_settings \<Rightarrow> bool" where
  "broker_in_range lk b \<longleftrightarrow> lk (lit ''NATS_URL'') = Str (hidden (bs_url b)) \<and> hidden (bs_url b) \<noteq> []
     \<and> 1 \<le> bs_timeoutMs b \<and> bs_timeoutMs b \<le> 5000"

lemma reads_tel:
  assumes "tel_reads lk service r = (c, s)"
  shows "reads r s (tel_in_range c \<and> tc_resource c = [(lit ''service.name'', service), (lit ''service.instance.id'', lit ''validation'')])"
proof -
  obtain mode endpoint sampling queue batch tmo ivl r1 r2 r3 r4 r5 r6 where
    e1: "reader_enumeration lk (lit ''TELEMETRY_MODE'') (lit ''none'') tel_modes r = (mode, r1)"
    and e2: "reader_string lk (lit ''TELEMETRY_ENDPOINT'') (lit ''http://127.0.0.1:7342'') r1 = (endpoint, r2)"
    and e3: "reader_enumeration lk (lit ''TELEMETRY_SAMPLING'') (lit ''all'') samplings r2 = (sampling, r3)"
    and e4: "reader_int lk (lit ''TELEMETRY_QUEUE'') (Whole 256) (Whole 1) (Whole 65536) r3 = (queue, r4)"
    and e5: "reader_int lk (lit ''TELEMETRY_BATCH'') (Whole 64) (Whole 1) (Whole 65536) r4 = (batch, r5)"
    and e6: "reader_int lk (lit ''TELEMETRY_TIMEOUT_MS'') (Whole 500) (Whole 1) (Whole 10000) r5 = (tmo, r6)"
    and e7: "reader_int lk (lit ''TELEMETRY_INTERVAL_MS'') (Whole 500) (Whole 100) (Whole 60000) r6 = (ivl, s)"
    and c: "c = \<lparr>tc_mode = mode, tc_endpoint = endpoint, tc_sampling = sampling,
          tc_resource = [(lit ''service.name'', service), (lit ''service.instance.id'', lit ''validation'')],
          tc_queue = Whole queue, tc_batch = Whole batch, tc_timeoutMs = Whole tmo, tc_intervalMs = Whole ivl\<rparr>"
    using assms unfolding tel_reads_def by (auto split: prod.splits)
  note chain = reads_trans[OF reads_enum[OF e1] reads_trans[OF reads_string[OF e2] reads_trans[OF reads_enum[OF e3]
    reads_trans[OF reads_int[OF e4] reads_trans[OF reads_int[OF e5] reads_trans[OF reads_int[OF e6] reads_int[OF e7]]]]]]]
  show ?thesis by (rule reads_weaken[OF chain]) (simp add: c tel_in_range_def)
qed

lemma reads_db:
  assumes "db_reads lk r = (d, s)"
  shows "reads r s (db_in_range lk d)"
proof -
  obtain url conns tmo r1 r2 where
    e1: "reader_secret lk (lit ''DATABASE_URL'') r = (url, r1)"
    and e2: "reader_int lk (lit ''DATABASE_MAX_CONNECTIONS'') (Whole 8) (Whole 1) (Whole 64) r1 = (conns, r2)"
    and e3: "reader_int lk (lit ''DATABASE_TIMEOUT_MS'') (Whole 1000) (Whole 1) (Whole 30000) r2 = (tmo, s)"
    and d: "d = \<lparr>ds_url = url, ds_maxConnections = conns, ds_timeoutMs = tmo\<rparr>"
    using assms unfolding db_reads_def by (auto split: prod.splits)
  note chain = reads_trans[OF reads_secret[OF e1] reads_trans[OF reads_int[OF e2] reads_int[OF e3]]]
  show ?thesis by (rule reads_weaken[OF chain]) (simp add: d db_in_range_def)
qed

lemma reads_broker:
  assumes "broker_reads lk r = (b, s)"
  shows "reads r s (broker_in_range lk b)"
proof -
  obtain url stream consumer tmo r1 r2 r3 where
    e1: "reader_secret lk (lit ''NATS_URL'') r = (url, r1)"
    and e2: "reader_string lk (lit ''NATS_STREAM'') (lit ''N2F_EVENTS'') r1 = (stream, r2)"
    and e3: "reader_string lk (lit ''NATS_CONSUMER'') (lit ''mailbox'') r2 = (consumer, r3)"
    and e4: "reader_int lk (lit ''NATS_TIMEOUT_MS'') (Whole 1000) (Whole 1) (Whole 5000) r3 = (tmo, s)"
    and b: "b = \<lparr>bs_url = url, bs_stream = stream, bs_consumer = consumer, bs_timeoutMs = tmo\<rparr>"
    using assms unfolding broker_reads_def by (auto split: prod.splits)
  note chain = reads_trans[OF reads_secret[OF e1] reads_trans[OF reads_string[OF e2] reads_trans[OF reads_string[OF e3] reads_int[OF e4]]]]
  show ?thesis by (rule reads_weaken[OF chain]) (simp add: b broker_in_range_def)
qed

text \<open>What a loaded configuration of the HTTP process satisfies.\<close>

definition http_in_range :: "lookup \<Rightarrow> http_settings \<Rightarrow> bool" where
  "http_in_range lk c \<longleftrightarrow> 0 \<le> ht_port c \<and> ht_port c \<le> 65535 \<and> 1 \<le> ht_timeoutMs c \<and> ht_timeoutMs c \<le> 30000
     \<and> 1 \<le> ht_shutdownMs c \<and> ht_shutdownMs c \<le> 30000 \<and> tel_in_range (ht_telemetry c)
     \<and> (case ht_database c of None \<Rightarrow> True | Some d \<Rightarrow> db_in_range lk d)"

lemma reads_http:
  assumes "http_reads lk base = (c, s)"
  shows "reads reader_new s (http_in_range lk c) \<and> ht_base c = base"
proof -
  obtain ws outb test host port tmo stop tel enabled db r1 r2 r3 r4 r5 r6 r7 r8 r9 where
    e1: "reader_string lk (lit ''WS_ORIGIN'') (lit ''http://localhost:3000'') reader_new = (ws, r1)"
    and e2: "reader_string lk (lit ''OUTBOUND_ORIGIN'') [] r1 = (outb, r2)"
    and e3: "reader_boolean lk (lit ''HTTP_TEST_ROUTES'') False r2 = (test, r3)"
    and e4: "reader_string lk (lit ''HTTP_HOST'') (lit ''127.0.0.1'') r3 = (host, r4)"
    and e5: "reader_int lk (lit ''HTTP_PORT'') (Whole 7300) (Whole 0) (Whole 65535) r4 = (port, r5)"
    and e6: "reader_int lk (lit ''HTTP_TIMEOUT_MS'') (Whole 1000) (Whole 1) (Whole 30000) r5 = (tmo, r6)"
    and e7: "reader_int lk (lit ''SHUTDOWN_MS'') (Whole 3000) (Whole 1) (Whole 30000) r6 = (stop, r7)"
    and e8: "tel_reads lk (rc_name (cf_resource base)) r7 = (tel, r8)"
    and e9: "reader_boolean lk (lit ''DATABASE_ENABLED'') False r8 = (enabled, r9)"
    and e10: "(if enabled then (case db_reads lk r9 of (d, r) \<Rightarrow> (Some d, r)) else (None, r9)) = (db, s)"
    and c: "c = \<lparr>ht_socketOrigin = ws, ht_outboundOrigin = outb, ht_database = db, ht_testRoutes = test, ht_base = base,
          ht_host = host, ht_port = port, ht_timeoutMs = tmo, ht_shutdownMs = stop, ht_telemetry = tel\<rparr>"
    using assms unfolding http_reads_def by (auto split: prod.splits)
  have d: "reads r9 s (case db of None \<Rightarrow> True | Some d \<Rightarrow> db_in_range lk d)"
    using e10 reads_db[of lk r9] reads_refl[of r9] by (auto split: if_splits prod.splits)
  note chain = reads_trans[OF reads_string[OF e1] reads_trans[OF reads_string[OF e2] reads_trans[OF reads_boolean[OF e3]
    reads_trans[OF reads_string[OF e4] reads_trans[OF reads_int[OF e5] reads_trans[OF reads_int[OF e6] reads_trans[OF reads_int[OF e7]
    reads_trans[OF reads_tel[OF e8] reads_trans[OF reads_boolean[OF e9] d]]]]]]]]]
  show ?thesis by (rule conjI[OF reads_weaken[OF chain]]) (simp_all add: c http_in_range_def)
qed

lemma check_Inr: "reader_check r = Inr () \<longleftrightarrow> rd_problems r = []"
  by (simp add: reader_check_def)

lemma check_Inl: "reader_check r = Inl e \<Longrightarrow> f_kind e = Invalid \<and> f_type e = Some (lit ''env.invalid'')"
  by (auto simp: reader_check_def nonempty_def split: if_splits)

lemma loadConfig_Inl: "loadConfig lk = Inl e \<Longrightarrow> f_kind e = Invalid \<and> f_type e = Some (lit ''env.invalid'')"
  by (auto simp: loadConfig_def reader_manifest_def Let_def nonempty_def dest!: check_Inl split: prod.splits if_splits sum.splits)

lemma loadHTTPConfig_Inr:
  assumes "loadHTTPConfig url_of lk = Inr c"
  obtains r where "loadConfig lk = Inr (ht_base c)" "http_reads lk (ht_base c) = (c, r)" "rd_problems r = []"
    "isIP (ht_host c) \<noteq> 0" "tel_validate url_of (ht_telemetry c) = Inr ()"
proof -
  obtain base where b: "loadConfig lk = Inr base"
    using assms by (auto simp: loadHTTPConfig_def split: sum.splits)
  obtain d r where d: "http_reads lk base = (d, r)" by fastforce
  have "d = c" "rd_problems r = []" "isIP (ht_host c) \<noteq> 0" "tel_validate url_of (ht_telemetry c) = Inr ()"
    using assms b d by (auto simp: loadHTTPConfig_def check_Inr split: sum.splits if_splits)
  with that[of r] reads_http[OF d] b d show thesis by simp
qed

text \<open>The resource the process is known by, once it has an instance identifier.\<close>

definition service_resource :: "config \<Rightarrow> id \<Rightarrow> str obj" where
  "service_resource base i =
     [(lit ''service.name'', rc_name (cf_resource base)), (lit ''service.namespace'', rc_namespace (cf_resource base)),
      (lit ''service.version'', rc_version (cf_resource base)), (lit ''service.instance.id'', i),
      (lit ''deployment.environment.name'', rc_environment (cf_resource base))]"

lemma actor_name_nonempty: "is_ok (actor (lit ''service'') n) \<Longrightarrow> n \<noteq> []"
  by (auto simp: actor_def identityValid_def matches_def split: if_splits)

lemma service_resource_valid:
  assumes "tel_validate url_of c = Inr ()" "rc_name (cf_resource base) \<noteq> []" "i \<noteq> []"
  shows "tel_validate url_of (c\<lparr>tc_resource := service_resource base i\<rparr>) = Inr ()"
  using assms
  by (auto simp: tel_validate_def service_resource_def lacks_def nonempty_def split: option.splits if_splits)

lemma http_settings_range:
  assumes "loadHTTPConfig url_of lk = Inr c"
  shows "http_in_range lk c"
proof -
  from loadHTTPConfig_Inr[OF assms] obtain r where "http_reads lk (ht_base c) = (c, r)" "rd_problems r = []" by blast
  then show ?thesis using reads_http[of lk "ht_base c" c r] reader_inv_new by (auto simp: reads_def)
qed

section \<open>Properties\<close>

text \<open>
  C23: the settings of the HTTP process are valid before anything is started. A load either refuses, always as
  invalid with the code env.invalid, or gives settings all in their declared ranges: a literal address to listen
  on, a batch that fits the queue, and a telemetry configuration which the exporters accept with the identity the process
  takes on later.
\<close>

theorem http_settings_valid:
  "case loadHTTPConfig url_of lk of
     Inl e \<Rightarrow> f_kind e = Invalid \<and> f_type e = Some (lit ''env.invalid'')
   | Inr c \<Rightarrow> loadConfig lk = Inr (ht_base c) \<and> config_in_range (ht_base c) \<and> http_in_range lk c
       \<and> isIP (ht_host c) \<in> {4, 6} \<and> batch_fits (tc_batch (ht_telemetry c)) (tc_queue (ht_telemetry c))
       \<and> (\<forall>i. i \<noteq> [] \<longrightarrow> is_ok (otel_new url_of ((ht_telemetry c)\<lparr>tc_resource := service_resource (ht_base c) i\<rparr>)))"
proof (cases "loadHTTPConfig url_of lk")
  case (Inl e)
  then have "f_kind e = Invalid \<and> f_type e = Some (lit ''env.invalid'')"
    by (auto simp: loadHTTPConfig_def tel_validate_def tel_refused_def dest: loadConfig_Inl check_Inl
        split: sum.splits prod.splits if_splits option.splits)
  with Inl show ?thesis by simp
next
  case (Inr c)
  from loadHTTPConfig_Inr[OF Inr] obtain r where c: "loadConfig lk = Inr (ht_base c)" "http_reads lk (ht_base c) = (c, r)"
    "rd_problems r = []" "isIP (ht_host c) \<noteq> 0" "tel_validate url_of (ht_telemetry c) = Inr ()" by blast
  from loadConfig_Inr[OF c(1)] obtain b q where b: "config_reads lk = (b, q)" "rd_problems q = []"
    "ht_base c = b\<lparr>cf_manifest := sort_key v_key (rd_resolved q)\<rparr>"
    "is_ok (actor (lit ''service'') (rc_name (cf_resource b)))" by metis
  have "config_in_range (ht_base c)"
    using config_reads_clean(1)[OF b(1,2)] by (simp add: b(3) config_in_range_def)
  moreover have "rc_name (cf_resource (ht_base c)) \<noteq> []"
    using actor_name_nonempty[OF b(4)] by (simp add: b(3))
  moreover have "http_in_range lk c" by (rule http_settings_range[OF Inr])
  moreover have "batch_fits (tc_batch (ht_telemetry c)) (tc_queue (ht_telemetry c))"
    using c(5) by (auto simp: tel_validate_def split: option.splits if_splits)
  moreover have "is_ok (otel_new url_of ((ht_telemetry c)\<lparr>tc_resource := service_resource (ht_base c) i\<rparr>))" if "i \<noteq> []" for i
    using service_resource_valid[OF c(5) calculation(2) that] by (simp add: otel_new_def)
  moreover have "isIP (ht_host c) \<in> {4, 6}" using c(4) by (simp add: isIP_def split: if_splits)
  ultimately show ?thesis using Inr c(1) by simp
qed

section \<open>Witness\<close>

lemma http_keys_valid:
  "validKey (lit ''WS_ORIGIN'')" "validKey (lit ''OUTBOUND_ORIGIN'')" "validKey (lit ''HTTP_TEST_ROUTES'')"
  "validKey (lit ''HTTP_HOST'')" "validKey (lit ''HTTP_PORT'')" "validKey (lit ''HTTP_TIMEOUT_MS'')"
  "validKey (lit ''SHUTDOWN_MS'')" "validKey (lit ''TELEMETRY_MODE'')" "validKey (lit ''TELEMETRY_ENDPOINT'')"
  "validKey (lit ''TELEMETRY_SAMPLING'')" "validKey (lit ''TELEMETRY_QUEUE'')" "validKey (lit ''TELEMETRY_BATCH'')"
  "validKey (lit ''TELEMETRY_TIMEOUT_MS'')" "validKey (lit ''TELEMETRY_INTERVAL_MS'')" "validKey (lit ''DATABASE_ENABLED'')"
  by (simp_all add: validKey_def key_tail_def str_simps)

lemma http_env_reads:
  assumes "loadConfig lk = Inr base" "rc_name (cf_resource base) \<noteq> []" "\<And>k. lk k = (if k = lit ''DEMO_TOKEN'' then Str t else Undefined)"
  shows "\<exists>c. loadHTTPConfig sample_tel_url lk = Inr c \<and> ht_port c = 7300 \<and> ht_base c = base \<and> ht_database c = None
    \<and> ht_outboundOrigin c = [] \<and> ht_shutdownMs c = 3000 \<and> tc_mode (ht_telemetry c) = lit ''none''"
proof -
  have ip: "isIP (lit ''127.0.0.1'') = 4"
    by (simp add: isIP_def is_ipv4_def v4_part_def matches_def val_base_def digit_val_def str_simps)
  show ?thesis
    using assms
    by (simp add: loadHTTPConfig_def http_reads_def tel_reads_def reader_op_defs reader_read_def reader_record_def reader_new_def
        http_keys_valid tel_modes_def samplings_def reader_check_def max_safe_def ip tel_validate_def sample_tel_url_def
        lacks_def nonempty_def batch_fits_def Let_def)
qed

theorem http_settings_valid_witness:
  "\<exists>c. loadHTTPConfig sample_tel_url (sample_env (lit ''t'')) = Inr c \<and> http_in_range (sample_env (lit ''t'')) c
     \<and> is_ok (otel_new sample_tel_url ((ht_telemetry c)\<lparr>tc_resource := service_resource (ht_base c) (lit ''i'')\<rparr>))"
proof -
  have "lit ''t'' \<noteq> []" by (simp add: lit_def)
  then obtain b where b: "loadConfig (sample_env (lit ''t'')) = Inr b" using sample_env_reads by blast
  obtain c' r where "config_reads (sample_env (lit ''t'')) = (c', r)" "b = c'\<lparr>cf_manifest := sort_key v_key (rd_resolved r)\<rparr>"
    "is_ok (actor (lit ''service'') (rc_name (cf_resource c')))"
    using loadConfig_Inr[OF b] by metis
  then have "rc_name (cf_resource b) \<noteq> []" using actor_name_nonempty by simp
  from http_env_reads[OF b this, of "lit ''t''"] obtain c where
    c: "loadHTTPConfig sample_tel_url (sample_env (lit ''t'')) = Inr c" by (auto simp: sample_env_def)
  have "lit ''i'' \<noteq> []" by (simp add: lit_def)
  with http_settings_valid[where url_of = sample_tel_url and lk = "sample_env (lit ''t'')"] c show ?thesis by simp
qed

end
