(* ===== verification/EventsRoot.thy ===== *)
theory EventsRoot
  imports Actions Settings Envelope
begin

text \<open>
  \<open>src/root/events.ts\<close>: the finite diagnostic delivery. The modules it composes appear as the answers of their
  operations on a state \<open>'w\<close> of the outside (the database with its tables, the broker, the clock, the signal); what the
  root itself decides is modelled: the order of its calls, the loop, the handler, the resources it owns and the exit code.
\<close>

section \<open>The outside\<close>

record 'w services =
  sv_brokerOpen :: "broker_settings \<Rightarrow> 'w \<Rightarrow> unit result \<times> 'w"
  sv_provision :: "'w \<Rightarrow> unit result \<times> 'w"
  sv_databaseOpen :: "db_settings \<Rightarrow> 'w \<Rightarrow> unit result \<times> 'w"
  sv_migrate :: "'w \<Rightarrow> unit result \<times> 'w"
  sv_enqueue :: "envelope \<Rightarrow> 'w \<Rightarrow> unit result \<times> 'w"
  sv_dispatch :: "bool \<Rightarrow> id \<Rightarrow> 'w \<Rightarrow> bool result \<times> 'w"
  sv_transfer :: "'w \<Rightarrow> bool result \<times> 'w"
  sv_consume :: "'w \<Rightarrow> (bool result \<times> id list) \<times> 'w"
  sv_aborted :: "'w \<Rightarrow> bool \<times> 'w"
  sv_elapsed :: "'w \<Rightarrow> int \<times> 'w"
  sv_instant :: "'w \<Rightarrow> int \<times> 'w"

datatype ev_part = BrokerPart | DatabasePart | LogPart

text \<open>What the root does, in order: resources, calls that matter to the properties, and its log lines.\<close>

datatype ev_step = Opened ev_part | Closed ev_part | Enqueued envelope | Dispatched id | Transferred
  | Received "id list" | Logged level string

record 'w ev_world =
  ew_out :: 'w
  ew_ids :: v7_world
  ew_steps :: "ev_step list"

definition mark :: "ev_step \<Rightarrow> 'w ev_world \<Rightarrow> 'w ev_world" where
  "mark x s = s\<lparr>ew_steps := ew_steps s @ [x]\<rparr>"

definition outside :: "('w \<Rightarrow> 'a \<times> 'w) \<Rightarrow> 'w ev_world \<Rightarrow> 'a \<times> 'w ev_world" where
  "outside m s = (case m (ew_out s) of (r, w) \<Rightarrow> (r, s\<lparr>ew_out := w\<rparr>))"

definition with_ids :: "(v7_world \<Rightarrow> 'a \<times> v7_world) \<Rightarrow> 'w ev_world \<Rightarrow> 'a \<times> 'w ev_world" where
  "with_ids m s = (case m (ew_ids s) of (r, w) \<Rightarrow> (r, s\<lparr>ew_ids := w\<rparr>))"

text \<open>A call whose answer is a plain value, not a result.\<close>

definition act_read :: "('s \<Rightarrow> 'a \<times> 's) \<Rightarrow> ('s, 'a) act" where
  "act_read m s = (case m s of (x, s1) \<Rightarrow> (Inr x, s1))"

definition log_line :: "level \<Rightarrow> string \<Rightarrow> ('w ev_world, unit) act" where
  "log_line lv message = act_do (mark (Logged lv message))"

section \<open>The loop\<close>

text \<open>
  One round: a claim under a new token, a transfer when there is a broker, and one consumption whose handler
  looks for the event. It answers whether the handler has seen it.
\<close>

definition abort_check :: "bool \<Rightarrow> ('w ev_world, unit) act" where
  "abort_check aborted = (if aborted
     then act_throw (Thrown (AppErrorV (failure Canceled (lit ''event example canceled'') no_options))) else act_return ())"

definition transfer_step :: "'w services \<Rightarrow> bool \<Rightarrow> ('w ev_world, unit) act" where
  "transfer_step sv broker = (if broker
     then act_bind (act_do (mark Transferred)) (\<lambda>_.
       act_bind (act_call (outside (sv_transfer sv))) (\<lambda>_. log_line Info ''events.transfer.completed''))
     else act_return ())"

definition event_round :: "'w services \<Rightarrow> bool \<Rightarrow> id \<Rightarrow> ('w ev_world, bool) act" where
  "event_round sv broker eventId =
     act_bind (act_read (outside (sv_aborted sv))) (\<lambda>aborted.
     act_bind (abort_check aborted) (\<lambda>_.
     act_bind (act_call (with_ids v7w_newId)) (\<lambda>token.
     act_bind (act_do (mark (Dispatched token))) (\<lambda>_.
     act_bind (act_call (outside (sv_dispatch sv broker token))) (\<lambda>found.
     act_bind (log_line Info ''events.dispatch.completed'') (\<lambda>_.
     act_bind (transfer_step sv broker) (\<lambda>_.
     act_bind (act_read (outside (sv_consume sv))) (\<lambda>(consumed, received).
     act_bind (act_do (mark (Received received))) (\<lambda>_.
     act_bind (act_value consumed) (\<lambda>_.
     act_bind (log_line Info ''events.consume.completed'') (\<lambda>_.
     if List.member received eventId
     then act_bind (log_line Info ''events.example.completed'') (\<lambda>_. act_return True)
     else act_return False)))))))))))"

text \<open>\<open>n\<close> rounds are left; without a return the budget is exhausted.\<close>

fun event_loop :: "'w services \<Rightarrow> bool \<Rightarrow> id \<Rightarrow> int \<Rightarrow> nat \<Rightarrow> ('w ev_world, nat) act" where
  "event_loop sv broker eventId deadline 0 =
     act_throw (Thrown (AppErrorV (failure Timeout (lit ''diagnostic delivery budget exhausted'') no_options)))"
| "event_loop sv broker eventId deadline (Suc n) =
     act_bind (act_read (outside (sv_elapsed sv))) (\<lambda>now.
     if now < deadline
     then act_bind (event_round sv broker eventId) (\<lambda>seen.
       if seen then act_return 0 else event_loop sv broker eventId deadline n)
     else act_throw (Thrown (AppErrorV (failure Timeout (lit ''diagnostic delivery budget exhausted'') no_options))))"

section \<open>The process\<close>

definition open_part :: "ev_part \<Rightarrow> ('w \<Rightarrow> unit result \<times> 'w) \<Rightarrow> ('w ev_world, unit) act" where
  "open_part p m = act_bind (act_call (outside m)) (\<lambda>_. act_do (mark (Opened p)))"

text \<open>The body of \<open>try\<close>.\<close>

definition events_body :: "'w services \<Rightarrow> event_settings \<Rightarrow> ('w ev_world, nat) act" where
  "events_body sv c =
     act_bind (case es_broker c of None \<Rightarrow> act_return ()
       | Some b \<Rightarrow> act_bind (open_part BrokerPart (sv_brokerOpen sv b)) (\<lambda>_. act_call (outside (sv_provision sv)))) (\<lambda>_.
     act_bind (open_part DatabasePart (sv_databaseOpen sv (es_database c))) (\<lambda>_.
     act_bind (act_call (outside (sv_migrate sv))) (\<lambda>_.
     act_bind (act_value (actor (lit ''service'') (rc_name (cf_resource (es_base c))))) (\<lambda>ex.
     act_bind (act_value (operation (lit ''events.example''))) (\<lambda>oper.
     act_bind (act_value (attribution no_attribution)) (\<lambda>at.
     act_bind (act_call (with_ids (factory_enter v7w_factory \<lparr>rs_workId = None, rs_origin = lit ''startup'', rs_operation = oper,
        rs_attribution = Made at, rs_executor = Made ex\<rparr> (Made (inspectIncoming fresh_hints))))) (\<lambda>scope.
     act_bind (act_value (log_withScope (Made scope) logger_new)) (\<lambda>_.
     act_bind (act_call (with_ids v7w_newId)) (\<lambda>eventId.
     act_bind (act_read (outside (sv_instant sv))) (\<lambda>now.
     act_bind (act_value (env_create eventId (lit ''diagnostic.created.v1'') (dbl_of_int now) (Made (sp_work scope))
        (JObj [(lit ''example'', JBool True)]))) (\<lambda>event.
     act_bind (act_call (outside (sv_enqueue sv event))) (\<lambda>_.
     act_bind (act_do (mark (Enqueued event))) (\<lambda>_.
     act_bind (log_line Info ''events.enqueued'') (\<lambda>_.
     act_bind (log_line Info ''events.transport.selected'') (\<lambda>_.
     act_bind (act_read (outside (sv_elapsed sv))) (\<lambda>start.
     event_loop sv (es_broker c \<noteq> None) eventId (start + 10000) 32))))))))))))))))"

text \<open>
  \<open>finally\<close>: what has been opened is closed, the log last. Closing the connection of the broker is taken to succeed, as the
  client of NATS documents of \<open>close\<close>; were it rejected, the database and the log would not be closed.
\<close>

definition is_open :: "ev_part \<Rightarrow> ev_step list \<Rightarrow> bool" where
  "is_open p xs \<longleftrightarrow> Opened p \<in> set xs"

definition events_close :: "'w ev_world \<Rightarrow> 'w ev_world" where
  "events_close s = s\<lparr>ew_steps := ew_steps s
     @ (if is_open BrokerPart (ew_steps s) then [Closed BrokerPart] else [])
     @ (if is_open DatabasePart (ew_steps s) then [Closed DatabasePart] else []) @ [Closed LogPart]\<rparr>"

definition run_events :: "'w services \<Rightarrow> bool \<Rightarrow> lookup \<Rightarrow> ('w ev_world, nat) act" where
  "run_events sv canFlush lk s =
     (case load_events lk of
        Inl e \<Rightarrow> (Inl e, s)
      | Inr None \<Rightarrow> (Inr 2, s)
      | Inr (Some c) \<Rightarrow>
          (case act_call (with_ids v7w_newId) s of
             (Inl e, s1) \<Rightarrow> (Inl e, s1)
           | (Inr i, s1) \<Rightarrow> (case unwrap (Actions.logging (es_base c) i canFlush False) of
                Inl e \<Rightarrow> (Inl e, s1)
              | Inr rt \<Rightarrow> (case events_body sv c (mark (Opened LogPart) s1) of
                    (Inr code, s2) \<Rightarrow> (Inr code, events_close s2)
                  | (Inl e, s2) \<Rightarrow> (Inr 1, events_close (mark (Logged Error ''events.example.failed'') s2))))))"

section \<open>Traces\<close>

text \<open>An action appends to the steps, and what it answers and appends satisfies \<open>Q\<close>.\<close>

definition traced :: "('w ev_world, 'a) act \<Rightarrow> (exn + 'a \<Rightarrow> ev_step list \<Rightarrow> bool) \<Rightarrow> bool" where
  "traced m Q \<longleftrightarrow> (\<forall>s r s'. m s = (r, s') \<longrightarrow> (\<exists>xs. ew_steps s' = ew_steps s @ xs \<and> Q r xs))"

definition silent :: "('w ev_world, 'a) act \<Rightarrow> bool" where
  "silent m \<longleftrightarrow> traced m (\<lambda>r xs. xs = [])"

lemma silent_calls [simp]:
  "silent (act_call (outside m))" "silent (act_read (outside k))" "silent (act_call (with_ids l))"
  by (auto simp: silent_def traced_def act_call_def act_read_def outside_def with_ids_def split: prod.splits)

lemma traced_return: "Q (Inr x) [] \<Longrightarrow> traced (act_return x) Q"
  by (auto simp: traced_def act_return_def)

lemma traced_throw: "Q (Inl e) [] \<Longrightarrow> traced (act_throw e) Q"
  by (auto simp: traced_def act_throw_def)

lemma traced_bind:
  assumes "traced m P" "\<And>x xs. P (Inr x) xs \<Longrightarrow> traced (f x) (\<lambda>r ys. Q r (xs @ ys))" "\<And>e xs. P (Inl e) xs \<Longrightarrow> Q (Inl e) xs"
  shows "traced (act_bind m f) Q"
  unfolding traced_def
proof (intro allI impI)
  fix s r s' assume b: "act_bind m f s = (r, s')"
  obtain a s1 where a: "m s = (a, s1)" by fastforce
  then obtain xs where xs: "ew_steps s1 = ew_steps s @ xs" "P a xs" using assms(1) unfolding traced_def by blast
  show "\<exists>xs. ew_steps s' = ew_steps s @ xs \<and> Q r xs"
  proof (cases a)
    case (Inl e)
    with a b xs assms(3) show ?thesis by (auto simp: act_bind_def)
  next
    case (Inr x)
    then have "f x s1 = (r, s')" using a b by (simp add: act_bind_def)
    then obtain ys where "ew_steps s' = ew_steps s1 @ ys" "Q r (xs @ ys)"
      using assms(2)[of x xs] xs(2) Inr unfolding traced_def by blast
    then show ?thesis using xs(1) by auto
  qed
qed

lemma traced_silent:
  assumes "silent m" "\<And>x. traced (f x) Q" "\<And>e. Q (Inl e) []"
  shows "traced (act_bind m f) Q"
  by (rule traced_bind[OF assms(1)[unfolded silent_def]]) (use assms(2,3) in auto)

lemma traced_value:
  assumes "\<And>x. v = Inr x \<Longrightarrow> traced (f x) Q" "\<And>e. Q (Inl e) []"
  shows "traced (act_bind (act_value v) f) Q"
  by (rule traced_bind[where P = "\<lambda>r xs. xs = [] \<and> (\<forall>x. r = Inr x \<longrightarrow> v = Inr x)"])
    (use assms in \<open>auto simp: traced_def act_value_def unwrap_def split: sum.splits\<close>)

lemma traced_mark:
  assumes "traced (f ()) (\<lambda>r ys. Q r (x # ys))"
  shows "traced (act_bind (act_do (mark x)) f) Q"
  by (rule traced_bind[where P = "\<lambda>r xs. r = Inr () \<and> xs = [x]"])
    (use assms in \<open>auto simp: traced_def act_do_def mark_def\<close>)

lemma traced_line:
  assumes "traced (f ()) (\<lambda>r ys. Q r (Logged lv message # ys))"
  shows "traced (act_bind (log_line lv message) f) Q"
  unfolding log_line_def by (rule traced_mark) (rule assms)

lemma traced_mono: "traced m P \<Longrightarrow> (\<And>r xs. P r xs \<Longrightarrow> Q r xs) \<Longrightarrow> traced m Q"
  unfolding traced_def by blast

lemma bind_assoc: "act_bind (act_bind m f) g = act_bind m (\<lambda>x. act_bind (f x) g)"
  by (rule ext) (simp add: act_bind_def split: prod.split sum.split)

lemma bind_return: "act_bind (act_return x) f = f x"
  by (rule ext) (simp add: act_bind_def act_return_def)

lemma bind_throw: "act_bind (act_throw e) f = act_throw e"
  by (rule ext) (simp add: act_bind_def act_throw_def)

text \<open>The tokens under which a claim was made.\<close>

definition tokens :: "ev_step list \<Rightarrow> id list" where
  "tokens xs = concat (map (\<lambda>x. case x of Dispatched t \<Rightarrow> [t] | _ \<Rightarrow> []) xs)"

lemma tokens_simps [simp]:
  "tokens [] = []" "tokens (Dispatched t # xs) = t # tokens xs" "tokens (xs @ ys) = tokens xs @ tokens ys"
  "tokens (Opened p # xs) = tokens xs" "tokens (Closed p # xs) = tokens xs" "tokens (Enqueued e # xs) = tokens xs"
  "tokens (Transferred # xs) = tokens xs" "tokens (Received is # xs) = tokens xs" "tokens (Logged lv m # xs) = tokens xs"
  by (simp_all add: tokens_def)

text \<open>What a part of the body may append: it owns nothing and claims at most \<open>n\<close> times.\<close>

definition plain_steps :: "nat \<Rightarrow> ev_step list \<Rightarrow> bool" where
  "plain_steps n xs \<longleftrightarrow> (\<forall>p. Opened p \<notin> set xs \<and> Closed p \<notin> set xs) \<and> length (tokens xs) \<le> n
     \<and> Logged Error ''events.example.failed'' \<notin> set xs \<and> (\<forall>e. Enqueued e \<notin> set xs)"

definition seen_in :: "ev_step list \<Rightarrow> id \<Rightarrow> bool" where
  "seen_in xs i \<longleftrightarrow> (\<exists>rc. Received rc \<in> set xs \<and> i \<in> set rc)"

lemma silent_check [simp]: "silent (abort_check b)"
  by (auto simp: abort_check_def silent_def intro: traced_return traced_throw)

lemma traced_last: "Q (Inr ()) [Logged lv message] \<Longrightarrow> traced (log_line lv message) Q"
  by (auto simp: traced_def log_line_def act_do_def mark_def)

lemma transfer_traced:
  "traced (transfer_step sv broker) (\<lambda>r xs. xs \<in> {[], [Transferred], [Transferred, Logged Info ''events.transfer.completed'']})"
  by (cases broker) (auto simp: transfer_step_def intro!: traced_mark traced_silent traced_return traced_last)

lemma traced_if: "(b \<Longrightarrow> traced m Q) \<Longrightarrow> (\<not> b \<Longrightarrow> traced n Q) \<Longrightarrow> traced (if b then m else n) Q"
  by simp

lemma traced_prod: "(\<And>a b. traced (f a b) Q) \<Longrightarrow> traced (case x of (a, b) \<Rightarrow> f a b) Q"
  by (simp split: prod.split)

lemma silent_bind_calls:
  "(\<And>x. traced (f x) Q) \<Longrightarrow> (\<And>e. Q (Inl e) []) \<Longrightarrow> traced (act_bind (act_call (outside m)) f) Q"
  "(\<And>x. traced (g x) Q) \<Longrightarrow> (\<And>e. Q (Inl e) []) \<Longrightarrow> traced (act_bind (act_read (outside k)) g) Q"
  "(\<And>x. traced (h x) Q) \<Longrightarrow> (\<And>e. Q (Inl e) []) \<Longrightarrow> traced (act_bind (act_call (with_ids l)) h) Q"
  "(\<And>x. traced (j x) Q) \<Longrightarrow> (\<And>e. Q (Inl e) []) \<Longrightarrow> traced (act_bind (abort_check b) j) Q"
  by (blast intro: traced_silent silent_calls silent_check)+

lemmas traced_rules = silent_bind_calls traced_mark traced_line traced_value traced_if traced_prod traced_return traced_throw

lemma round_traced:
  "traced (event_round sv broker eventId) (\<lambda>r xs. plain_steps 1 xs \<and> (r = Inr True \<longrightarrow> seen_in xs eventId))"
  unfolding event_round_def
  by (intro traced_rules traced_bind[OF transfer_traced]) (auto simp: plain_steps_def seen_in_def)

lemma plain_append: "plain_steps m xs \<Longrightarrow> plain_steps n ys \<Longrightarrow> plain_steps (m + n) (xs @ ys)"
  by (auto simp: plain_steps_def)

lemma seen_append: "seen_in xs i \<Longrightarrow> seen_in (xs @ ys) i" "seen_in ys i \<Longrightarrow> seen_in (xs @ ys) i"
  by (auto simp: seen_in_def)

lemma plain_mono: "plain_steps m xs \<Longrightarrow> m \<le> n \<Longrightarrow> plain_steps n xs"
  by (auto simp: plain_steps_def)

lemma loop_traced:
  "traced (event_loop sv broker eventId deadline n)
     (\<lambda>r xs. plain_steps n xs \<and> (\<forall>k. r = Inr k \<longrightarrow> k = 0 \<and> seen_in xs eventId))"
proof (induction n)
  case 0
  show ?case by (auto simp: plain_steps_def intro!: traced_throw)
next
  case (Suc n)
  have "traced (if seen then act_return 0 else event_loop sv broker eventId deadline n)
      (\<lambda>r ys. plain_steps (Suc n) (xs @ ys) \<and> (\<forall>k. r = Inr k \<longrightarrow> k = 0 \<and> seen_in (xs @ ys) eventId))"
    if "plain_steps 1 xs" "seen \<longrightarrow> seen_in xs eventId" for seen xs
  proof (rule traced_if)
    assume seen
    with that show "traced (act_return 0) (\<lambda>r ys. plain_steps (Suc n) (xs @ ys) \<and> (\<forall>k. r = Inr k \<longrightarrow> k = 0 \<and> seen_in (xs @ ys) eventId))"
      by (intro traced_return) (auto intro: plain_mono)
  next
    show "traced (event_loop sv broker eventId deadline n)
        (\<lambda>r ys. plain_steps (Suc n) (xs @ ys) \<and> (\<forall>k. r = Inr k \<longrightarrow> k = 0 \<and> seen_in (xs @ ys) eventId))"
      by (rule traced_mono[OF Suc.IH]) (use that(1) plain_append[of 1 xs n] seen_append(2) in auto)
  qed
  note step = this
  show ?case
    unfolding event_loop.simps
  proof (rule silent_bind_calls(2), rule traced_if)
    show "traced (act_bind (event_round sv broker eventId) (\<lambda>seen. if seen then act_return 0 else event_loop sv broker eventId deadline n))
        (\<lambda>r xs. plain_steps (Suc n) xs \<and> (\<forall>k. r = Inr k \<longrightarrow> k = 0 \<and> seen_in xs eventId))"
      by (rule traced_bind[OF round_traced step]) (auto intro: plain_mono)
  qed (auto simp: plain_steps_def intro!: traced_throw)
qed

text \<open>What the body appends: at most the broker and the database are opened, in this order, and nothing is closed.\<close>

definition opened_of :: "ev_step list \<Rightarrow> ev_part list" where
  "opened_of xs = concat (map (\<lambda>x. case x of Opened p \<Rightarrow> [p] | _ \<Rightarrow> []) xs)"

definition closed_of :: "ev_step list \<Rightarrow> ev_part list" where
  "closed_of xs = concat (map (\<lambda>x. case x of Closed p \<Rightarrow> [p] | _ \<Rightarrow> []) xs)"

lemma parts_simps [simp]:
  "opened_of [] = []" "opened_of (xs @ ys) = opened_of xs @ opened_of ys" "opened_of (Opened p # xs) = p # opened_of xs"
  "opened_of (Closed p # xs) = opened_of xs" "opened_of (Enqueued e # xs) = opened_of xs" "opened_of (Dispatched t # xs) = opened_of xs"
  "opened_of (Transferred # xs) = opened_of xs" "opened_of (Received is # xs) = opened_of xs" "opened_of (Logged lv m # xs) = opened_of xs"
  "closed_of [] = []" "closed_of (xs @ ys) = closed_of xs @ closed_of ys" "closed_of (Opened p # xs) = closed_of xs"
  "closed_of (Closed p # xs) = p # closed_of xs" "closed_of (Enqueued e # xs) = closed_of xs" "closed_of (Dispatched t # xs) = closed_of xs"
  "closed_of (Transferred # xs) = closed_of xs" "closed_of (Received is # xs) = closed_of xs" "closed_of (Logged lv m # xs) = closed_of xs"
  by (simp_all add: opened_of_def closed_of_def)

lemma plain_parts: "plain_steps n xs \<Longrightarrow> opened_of xs = [] \<and> closed_of xs = []"
  by (auto simp: plain_steps_def opened_of_def closed_of_def concat_eq_Nil_conv split: ev_step.splits)

lemma in_opened: "Opened p \<in> set xs \<longleftrightarrow> p \<in> set (opened_of xs)"
  by (induction xs) (auto simp: opened_of_def split: ev_step.splits)

definition body_ok :: "exn + nat \<Rightarrow> ev_step list \<Rightarrow> bool" where
  "body_ok r xs \<longleftrightarrow> opened_of xs \<in> {[], [BrokerPart], [DatabasePart], [BrokerPart, DatabasePart]} \<and> closed_of xs = []
     \<and> length (tokens xs) \<le> 32 \<and> Logged Error ''events.example.failed'' \<notin> set xs
     \<and> (\<forall>k. r = Inr k \<longrightarrow> k = 0)"

lemma traced_open:
  assumes "traced (f ()) (\<lambda>r ys. Q r (Opened p # ys))" "\<And>e. Q (Inl e) []"
  shows "traced (act_bind (open_part p m) f) Q"
  unfolding open_part_def bind_assoc
  by (rule silent_bind_calls(1)) (auto intro!: traced_mark assms)

lemma body_traced: "traced (events_body sv c) body_ok"
proof (cases "es_broker c")
  case None
  show ?thesis
    unfolding events_body_def None option.case bind_return
    by (intro traced_open traced_rules; (rule traced_mono[OF loop_traced])?)
      (auto simp: body_ok_def plain_parts plain_steps_def)
next
  case (Some b)
  show ?thesis
    unfolding events_body_def Some option.case bind_assoc
    by (intro traced_open traced_rules; (rule traced_mono[OF loop_traced])?)
      (auto simp: body_ok_def plain_parts plain_steps_def)
qed

text \<open>Claims are made under fresh tokens: an invariant of the whole world.\<close>

definition token_inv :: "'w ev_world \<Rightarrow> bool" where
  "token_inv s \<longleftrightarrow> v7_inv (vw_gen (ew_ids s)) \<and> distinct (tokens (ew_steps s))
     \<and> set (tokens (ew_steps s)) \<subseteq> v7_spent (vw_gen (ew_ids s))"

definition keeps :: "('w ev_world, 'a) act \<Rightarrow> bool" where
  "keeps m \<longleftrightarrow> (\<forall>s r s'. token_inv s \<longrightarrow> m s = (r, s') \<longrightarrow> token_inv s')"

lemma keeps_bind:
  assumes "keeps m" "\<And>x. keeps (f x)"
  shows "keeps (act_bind m f)"
  unfolding keeps_def
proof (intro allI impI)
  fix s r s' assume b: "token_inv s" "act_bind m f s = (r, s')"
  obtain a s1 where a: "m s = (a, s1)" by fastforce
  then have "token_inv s1" using assms(1) b(1) unfolding keeps_def by blast
  then show "token_inv s'"
    using b(2) a assms(2) unfolding keeps_def by (cases a) (auto simp: act_bind_def)
qed

lemma keeps_plain: "keeps (act_return x)" "keeps (act_throw e)" "keeps (act_value v)"
  "keeps (act_call (outside m))" "keeps (act_read (outside k))"
  by (auto simp: keeps_def token_inv_def act_return_def act_throw_def act_value_def act_call_def act_read_def outside_def split: prod.splits)

lemma keeps_mark: "tokens [x] = [] \<Longrightarrow> keeps (act_do (mark x))"
  by (simp add: keeps_def token_inv_def act_do_def mark_def)

lemma keeps_ids:
  assumes "\<And>w r w'. v7_inv (vw_gen w) \<Longrightarrow> m w = (r, w') \<Longrightarrow> v7_spent (vw_gen w) \<subseteq> v7_spent (vw_gen w') \<and> v7_inv (vw_gen w')"
  shows "keeps (act_call (with_ids m))"
  using assms by (fastforce simp: keeps_def token_inv_def act_call_def with_ids_def split: prod.splits)

lemma keeps_newId: "keeps (act_call (with_ids v7w_newId))"
  by (rule keeps_ids) (rule v7w.newId_mono)

lemma keeps_enter: "keeps (act_call (with_ids (factory_enter v7w_factory sp i)))"
  by (rule keeps_ids) (use v7w.apply_mono[of _ "Enter sp i"] in \<open>auto simp: v7w_factory_def\<close>)

lemma keeps_dispatched:
  assumes "\<And>t. keeps (f t)"
  shows "keeps (act_bind (act_call (with_ids v7w_newId)) (\<lambda>t. act_bind (act_do (mark (Dispatched t))) (\<lambda>_. f t)))"
  unfolding keeps_def
proof (intro allI impI)
  fix s r s'
  assume inv: "token_inv s" and run: "act_bind (act_call (with_ids v7w_newId)) (\<lambda>t. act_bind (act_do (mark (Dispatched t))) (\<lambda>_. f t)) s = (r, s')"
  obtain i w where n: "v7w_newId (ew_ids s) = (i, w)" by fastforce
  show "token_inv s'"
  proof (cases i)
    case (Inl e)
    then have "s' = s\<lparr>ew_ids := w\<rparr>" using run n by (auto simp: act_bind_def act_call_def with_ids_def unwrap_def)
    then show ?thesis using inv v7w.newId_mono[OF _ n] by (auto simp: token_inv_def)
  next
    case (Inr t)
    let ?s = "mark (Dispatched t) (s\<lparr>ew_ids := w\<rparr>)"
    have "f t ?s = (r, s')" using run n Inr by (simp add: act_bind_def act_call_def with_ids_def unwrap_def act_do_def)
    moreover have "token_inv ?s"
      using inv v7w.newId_ok[of "ew_ids s" t w] n Inr by (auto simp: token_inv_def mark_def)
    ultimately show ?thesis using assms[of t] unfolding keeps_def by blast
  qed
qed

lemma keeps_round: "keeps (event_round sv broker eventId)"
proof -
  have c: "keeps (abort_check b)" for b by (simp add: abort_check_def keeps_plain)
  have l: "keeps (log_line lv m)" for lv m by (simp add: log_line_def keeps_mark)
  have t: "keeps (transfer_step sv broker)" by (simp add: transfer_step_def keeps_plain keeps_bind keeps_mark l)
  have w: "keeps (act_bind (act_read (outside (sv_consume sv))) (\<lambda>(consumed, received).
     act_bind (act_do (mark (Received received))) (\<lambda>_.
     act_bind (act_value consumed) (\<lambda>_.
     act_bind (log_line Info ''events.consume.completed'') (\<lambda>_.
     if List.member received eventId
     then act_bind (log_line Info ''events.example.completed'') (\<lambda>_. act_return True) else act_return False)))))"
    by (intro keeps_bind keeps_plain) (auto split: prod.split intro!: keeps_bind keeps_plain keeps_mark l)
  show ?thesis
    unfolding event_round_def
    by (rule keeps_bind[OF keeps_plain(5)], rule keeps_bind[OF c], rule keeps_dispatched) (intro keeps_bind keeps_plain l t w)
qed

lemma keeps_loop: "keeps (event_loop sv broker eventId deadline n)"
  by (induction n) (auto intro!: keeps_bind keeps_plain keeps_round)

lemma keeps_open: "keeps (open_part p m)"
  by (simp add: open_part_def keeps_bind keeps_plain keeps_mark)

lemma keeps_body: "keeps (events_body sv c)"
proof -
  have b: "keeps (case es_broker c of None \<Rightarrow> act_return ()
       | Some b \<Rightarrow> act_bind (open_part BrokerPart (sv_brokerOpen sv b)) (\<lambda>_. act_call (outside (sv_provision sv))))"
    by (cases "es_broker c") (simp_all add: keeps_plain keeps_bind keeps_open)
  show ?thesis
    unfolding events_body_def log_line_def
    by (intro keeps_bind b keeps_open keeps_plain keeps_enter keeps_newId keeps_loop keeps_mark) simp_all
qed

section \<open>Delivery\<close>

text \<open>A body that returns has enqueued an event under the identifier its handler has then seen.\<close>

definition delivered :: "ev_step list \<Rightarrow> bool" where
  "delivered xs \<longleftrightarrow> (\<exists>i t w e. env_create i (lit ''diagnostic.created.v1'') t (Made w) (JObj [(lit ''example'', JBool True)]) = Inr e
     \<and> Enqueued e \<in> set xs \<and> seen_in xs i)"

lemma delivered_more: "delivered xs \<Longrightarrow> delivered (xs @ ys)"
  unfolding delivered_def seen_in_def by auto blast

lemma seen_more: "seen_in xs i \<Longrightarrow> seen_in (x # xs) i"
  by (auto simp: seen_in_def)

lemma body_delivers: "traced (events_body sv c) (\<lambda>r xs. \<forall>k. r = Inr k \<longrightarrow> delivered xs)"
proof -
  have d: "delivered xs"
    if "env_create i (lit ''diagnostic.created.v1'') t (Made w) (JObj [(lit ''example'', JBool True)]) = Inr e"
      "Enqueued e \<in> set xs" "seen_in xs i" for i t w e xs
    using that unfolding delivered_def by blast
  show ?thesis
  proof (cases "es_broker c")
    case None
    show ?thesis
      unfolding events_body_def None option.case bind_return
      by (intro traced_open traced_rules; (rule traced_mono[OF loop_traced])?) (auto intro!: seen_more elim!: d)
  next
    case (Some b)
    show ?thesis
      unfolding events_body_def Some option.case bind_assoc
      by (intro traced_open traced_rules; (rule traced_mono[OF loop_traced])?) (auto intro!: seen_more elim!: d)
  qed
qed

lemma traced_run: "traced m Q \<Longrightarrow> m s = (r, s') \<Longrightarrow> \<exists>xs. ew_steps s' = ew_steps s @ xs \<and> Q r xs"
  unfolding traced_def by blast

text \<open>What a run leaves behind, from a world without steps.\<close>

definition start_world :: "(nat \<Rightarrow> date) \<Rightarrow> (nat \<Rightarrow> entropy) \<Rightarrow> 'w \<Rightarrow> 'w ev_world" where
  "start_world clk ent w = \<lparr>ew_out = w, ew_ids = \<lparr>vw_clock = clk, vw_entropy = ent, vw_calls = 0, vw_gen = v7_new\<rparr>, ew_steps = []\<rparr>"

lemma run_cases:
  assumes "run_events sv canFlush lk (start_world clk ent w) = (r, s')"
  obtains (refused) e where "r = Inl e" "ew_steps s' = []"
  | (usage) "r = Inr 2" "ew_steps s' = []"
  | (ran) c s1 q s2 xs where "tokens (ew_steps s1) = []" "token_inv s1" "ew_steps s1 = [Opened LogPart]"
      "events_body sv c s1 = (q, s2)" "ew_steps s2 = Opened LogPart # xs" "body_ok q xs"
      "case q of Inr code \<Rightarrow> r = Inr code \<and> s' = events_close s2
        | Inl e \<Rightarrow> r = Inr 1 \<and> s' = events_close (mark (Logged Error ''events.example.failed'') s2)"
proof -
  let ?s = "start_world clk ent w"
  have i0: "token_inv ?s" "ew_steps ?s = []" by (simp_all add: token_inv_def start_world_def v7_inv_def v7_new_def)
  show thesis
  proof (cases "load_events lk")
    case (Inl e)
    then show thesis using refused assms i0(2) by (auto simp: run_events_def)
  next
    case (Inr o1)
    show thesis
    proof (cases o1)
      case None
      then show thesis using usage assms i0(2) Inr by (auto simp: run_events_def)
    next
      case (Some c)
      obtain x s1 where x: "act_call (with_ids v7w_newId) ?s = (x, s1)" by fastforce
      have s1: "token_inv s1" using keeps_newId i0(1) x unfolding keeps_def by blast
      have s1': "ew_steps s1 = []" using traced_run[OF silent_calls(3)[unfolded silent_def] x] i0(2) by simp
      note s1 = s1 s1'
      consider (stop) "r = Inl (projl x)" "s' = s1" "\<exists>e. x = Inl e" | (unlogged) i e where "x = Inr i" "unwrap (Actions.logging (es_base c) i canFlush False) = Inl e" "r = Inl e" "s' = s1"
        | (on) i rt where "x = Inr i" "unwrap (Actions.logging (es_base c) i canFlush False) = Inr rt"
        using assms Inr Some x by (cases x) (auto simp: run_events_def split: sum.splits)
      then show thesis
      proof cases
        case stop
        with refused s1(2) show thesis by blast
      next
        case unlogged
        with refused s1(2) show thesis by blast
      next
        case on
        obtain q s2 where q: "events_body sv c (mark (Opened LogPart) s1) = (q, s2)" by fastforce
        obtain xs where xs: "ew_steps s2 = ew_steps (mark (Opened LogPart) s1) @ xs" "body_ok q xs"
          using traced_run[OF body_traced q] by blast
        have "case q of Inr code \<Rightarrow> r = Inr code \<and> s' = events_close s2
          | Inl e \<Rightarrow> r = Inr 1 \<and> s' = events_close (mark (Logged Error ''events.example.failed'') s2)"
          using assms Inr Some x on q by (cases q) (auto simp: run_events_def)
        moreover have "token_inv (mark (Opened LogPart) s1)" using s1(1) by (simp add: token_inv_def mark_def)
        ultimately show thesis using ran[OF _ _ _ q _ xs(2)] xs(1) s1(2) by (simp add: mark_def)
      qed
    qed
  qed
qed

section \<open>Properties\<close>

text \<open>
  C22: a run of the event process owns its resources and ends. It opens the log, then at most the broker
  and the database, and closes exactly what it opened, the log last; it claims at most 32 times, never twice under one
  token; it throws or exits with 2 before it has opened anything, with 1 exactly when it has logged the failure, and
  otherwise with 0.
\<close>

theorem events_owned:
  "(let (r, s') = run_events sv canFlush lk (start_world clk ent w); xs = ew_steps s' in
     mset (opened_of xs) = mset (closed_of xs) \<and> distinct (opened_of xs)
     \<and> (xs = [] \<or> hd xs = Opened LogPart \<and> last xs = Closed LogPart)
     \<and> length (tokens xs) \<le> 32 \<and> distinct (tokens xs)
     \<and> (case r of Inl e \<Rightarrow> xs = []
        | Inr n \<Rightarrow> n \<in> {0, 1, 2} \<and> (n = 2) = (xs = []) \<and> (n = 1) = (Logged Error ''events.example.failed'' \<in> set xs)))"
proof -
  obtain r s' where run: "run_events sv canFlush lk (start_world clk ent w) = (r, s')" by fastforce
  from run show ?thesis
  proof (cases rule: run_cases)
    case (ran c s1 q s2 xs)
    have t: "distinct (tokens xs)"
      using keeps_body ran(2,4,5) unfolding keeps_def token_inv_def by fastforce
    note b = ran(6)[unfolded body_ok_def]
    show ?thesis
      unfolding run Let_def prod.case
      using b t ran(5,7) by (cases q) (auto simp: events_close_def mark_def is_open_def in_opened)
  qed (simp_all add: run)
qed

text \<open>
  A run that exits with 0 has created and enqueued an event, and a
  consumption of the mailbox has handed the identifier of that event to the handler.
\<close>

lemma events_delivered:
  assumes "run_events sv canFlush lk (start_world clk ent w) = (Inr 0, s')"
  shows "delivered (ew_steps s')"
  using assms
proof (cases rule: run_cases)
  case (ran c s1 q s2 xs)
  obtain code where q: "q = Inr code" using ran(7) by (cases q) auto
  obtain ys where ys: "ew_steps s2 = ew_steps s1 @ ys" "delivered ys"
    using traced_run[OF body_delivers ran(4)] q by blast
  have "ew_steps s2 = Opened LogPart # ys" using ys(1) ran(3) by simp
  then have "delivered (ew_steps s2)" using ys(2) unfolding delivered_def seen_in_def by auto
  then show ?thesis using ran(7) q by (auto simp: events_close_def intro: delivered_more)
qed simp_all

section \<open>Settings and scopes that succeed\<close>

text \<open>An environment with a database.\<close>

definition events_env :: lookup where
  "events_env = (\<lambda>k. if k = lit ''DEMO_TOKEN'' then Str (lit ''t'') else if k = lit ''DATABASE_URL'' then Str (lit ''u'') else Undefined)"

lemma events_loads:
  obtains c where "load_events events_env = Inr (Some c)" "es_broker c = None" "is_ok (Actions.logging (es_base c) i f t)"
    "is_ok (actor (lit ''service'') (rc_name (cf_resource (es_base c))))"
proof -
  have a: "is_ok (actor (lit ''service'') (lit ''n2f-foundations''))"
    by (simp add: actor_def identityValid_def matches_def identity_unit_def str_simps)
  have ne: "lit ''x'' \<noteq> []" for x by (simp add: lit_def)
  have "\<exists>c. loadConfig events_env = Inr c"
    using a ne
    by (simp add: loadConfig_def config_reads_def reader_op_defs reader_read_def reader_record_def reader_new_def
        events_env_def config_keys_valid environments_def formats_def levels_def colors_def nonempty_def
        config_problems_def reader_manifest_def reader_check_def max_safe_def Let_def)
  then obtain b where b: "loadConfig events_env = Inr b" by blast
  have k: "validKey (lit ''DATABASE_URL'')" "validKey (lit ''DATABASE_MAX_CONNECTIONS'')" "validKey (lit ''DATABASE_TIMEOUT_MS'')"
    "validKey (lit ''EVENTS_TRANSPORT'')"
    by (simp_all add: validKey_def key_tail_def str_simps)
  have "\<exists>c. load_events events_env = Inr (Some c) \<and> es_broker c = None \<and> es_base c = b"
    using b by (simp add: load_events_def unwrap_def event_reads_def db_reads_def reader_op_defs reader_read_def reader_record_def
        reader_new_def events_env_def k nonempty_def reader_check_def max_safe_def Let_def)
  then show thesis using that loaded_config[OF b] by blast
qed

lemma enter_succeeds:
  assumes "steady (Suc n) w" "actor (lit ''service'') name = Inr ex" "attribution no_attribution = Inr at"
  obtains sc w' where "factory_enter v7w_factory \<lparr>rs_workId = None, rs_origin = lit ''startup'', rs_operation = lit ''events.example'',
        rs_attribution = Made at, rs_executor = Made ex\<rparr> (Made (inspectIncoming fresh_hints)) w = (Inr sc, w')" "steady n w'"
    "sp_work sc = \<lparr>wk_workId = Some (sp_scopeId sc), wk_correlationId = Some (sp_scopeId sc), wk_correlationSource = lit ''local'',
      wk_causation = None, wk_origin = Some (lit ''startup''), wk_operation = lit ''events.example'', wk_attribution = Made at,
      wk_depth = Some (Whole 0), wk_replay = None\<rparr>" "validID (sp_scopeId sc)" "validateWork (sp_work sc) False = None"
proof -
  let ?rw = "\<lparr>wk_workId = None, wk_correlationId = None, wk_correlationSource = lit ''local'',
      wk_causation = None, wk_origin = Some (lit ''startup''), wk_operation = lit ''events.example'', wk_attribution = Made at,
      wk_depth = Some (Whole 0), wk_replay = None\<rparr>"
  have o: "validOperation (lit ''events.example'')" by (simp add: validOperation_def matches_def operation_unit_def str_simps)
  have nm: "namedActor (Made ex)" using assms(2) by (auto simp: actor_def split: if_splits)
  have v: "validateWork ?rw True = None"
    by (simp add: validateWork_def bad_id_def o validOrigin_def origins_def check_causation_def check_depth_def check_replay_def max_u32_def)
  have v2: "validateWork (fill_work ?rw i) False = None \<and> \<not> caused_by_scope (fill_work ?rw i) i" if "validID i" for i
    using that by (simp add: validateWork_def bad_id_def o validOrigin_def origins_def fill_work_def
        or_id_def check_causation_def check_depth_def check_replay_def max_u32_def caused_by_scope_def)
  obtain sc w' where e: "emit v7w_factory ?rw (Made ex) (Whole 1) None [] w = (Inr sc, w')" "steady n w'"
    by (rule emit_succeeds[where att = 1 and prev = None and forb = "[]", OF assms(1) nm refl _ _ v v2]) (auto simp: max_u32_def)
  note d = emit_InrD[OF e(1)]
  have "sp_work sc = fill_work ?rw (sp_scopeId sc)" by (rule d(2))
  moreover have "factory_enter v7w_factory \<lparr>rs_workId = None, rs_origin = lit ''startup'', rs_operation = lit ''events.example'',
        rs_attribution = Made at, rs_executor = Made ex\<rparr> (Made (inspectIncoming fresh_hints)) w = (Inr sc, w')"
    using e(1) by (simp add: factory_enter_def rootWork_def validOrigin_def origins_def inspectIncoming_def fresh_hints_def)
  ultimately show thesis using that e(2) sound_scopeD(1,2)[OF d(6)] by (simp add: fill_work_def or_id_def)
qed

lemmas act_eval = act_bind_def act_read_def outside_def act_call_def with_ids_def unwrap_def act_do_def act_return_def
  act_value_def mark_def log_line_def open_part_def

end
