(* ===== verification/EventsTables.thy ===== *)
theory EventsTables
  imports EventsRoot Pipeline
begin

text \<open>
  The event process on the tables: \<open>src/root/events.ts\<close> over both transports, with the outbox, the mailbox and the transactions
  of \<open>src/shared/events/postgres/store.ts\<close> and \<open>src/shared/postgres/index.ts\<close>, and the broker of
  \<open>src/shared/events/jetstream/broker.ts\<close>, as the outside of the run. Every transaction may go any way the database
  allows, and the connection of the broker may answer anything.
\<close>

section \<open>The outside\<close>

text \<open>
  The two tables, the identifiers the handler was given in consumptions that were stored, how often the outside was asked,
  the broker when it is open, and the state of its connection.
\<close>

record 'n tables =
  tb_outbox :: "orow list"
  tb_mailbox :: "mrow list"
  tb_handled :: "id list"
  tb_asked :: nat
  tb_jet :: "jet_config option"
  tb_nats :: 'n

text \<open>
  By the number of the question: how a transaction goes, what the clocks say, what others have locked, the signal. And
  what opening the database and the broker meets, and the connection of the broker.
\<close>

record 'n weather =
  wt_call :: "nat \<Rightarrow> call"
  wt_now :: "nat \<Rightarrow> int"
  wt_locked :: "nat \<Rightarrow> id list"
  wt_elapsed :: "nat \<Rightarrow> int"
  wt_wall :: "nat \<Rightarrow> int"
  wt_aborted :: "nat \<Rightarrow> bool"
  wt_opens :: bool
  wt_migrates :: bool
  wt_jetUrl :: "str \<Rightarrow> jet_url option"
  wt_connects :: bool
  wt_platform :: platform
  wt_nats :: "'n nats"

definition asked :: "(nat \<Rightarrow> 'a) \<Rightarrow> 'n tables \<Rightarrow> 'a \<times> 'n tables" where
  "asked f w = (f (tb_asked w), w\<lparr>tb_asked := tb_asked w + 1\<rparr>)"

definition table_enqueue :: "(str \<Rightarrow> 'j option) \<Rightarrow> 'n weather \<Rightarrow> envelope \<Rightarrow> 'n tables \<Rightarrow> unit result \<times> 'n tables" where
  "table_enqueue jsonb wt e w = (let k = tb_asked w in
     case db_transaction (wt_call wt k) (enqueue jsonb (wt_now wt k) e) (tb_outbox w) of
       (r, rows) \<Rightarrow> (r, w\<lparr>tb_outbox := rows, tb_asked := k + 1\<rparr>))"

text \<open>
  A dispatch whose publisher is the mailbox of the same database: three transactions, for the claim, the publication
  and the end of the lease.
\<close>

definition claim_by :: "'n weather \<Rightarrow> nat \<Rightarrow> claim_args" where
  "claim_by wt k = \<lparr>cl_call = wt_call wt k, cl_sweep = wt_now wt k, cl_select = wt_now wt k, cl_stamp = wt_now wt k,
     cl_locked = wt_locked wt k\<rparr>"

definition mail_step :: "(str \<Rightarrow> 'j option) \<Rightarrow> 'n weather \<Rightarrow> nat \<Rightarrow> envelope \<Rightarrow> mrow list \<Rightarrow> receipt result \<times> mrow list" where
  "mail_step jsonb wt k = mail_publish jsonb (wt_call wt k) (wt_now wt k)"

definition mail_after :: "(str \<Rightarrow> 'j option) \<Rightarrow> 'n weather \<Rightarrow> id \<Rightarrow> 'n tables \<Rightarrow> mrow list" where
  "mail_after jsonb wt token w = (let k = tb_asked w in
     if wt_aborted wt k then tb_mailbox w
     else case claim (claim_by wt k) token (tb_outbox w) of
       (Inr (Some l), _) \<Rightarrow> snd (mail_step jsonb wt (k + 1) (le_event l) (tb_mailbox w))
     | _ \<Rightarrow> tb_mailbox w)"

definition table_dispatch :: "(str \<Rightarrow> 'j option) \<Rightarrow> 'n weather \<Rightarrow> id \<Rightarrow> 'n tables \<Rightarrow> bool result \<times> 'n tables" where
  "table_dispatch jsonb wt token w = (let k = tb_asked w in
     case dispatch (wt_aborted wt k) (claim_by wt k) token (\<lambda>e. Inr (fst (mail_step jsonb wt (k + 1) e (tb_mailbox w))))
         (\<lambda>rows. rows) (wt_call wt (k + 2)) (wt_now wt (k + 2)) (tb_outbox w) of
       (r, rows) \<Rightarrow> (r, w\<lparr>tb_outbox := rows, tb_mailbox := mail_after jsonb wt token w, tb_asked := k + 3\<rparr>))"

definition consume_by :: "'n weather \<Rightarrow> nat \<Rightarrow> consume_args" where
  "consume_by wt k = \<lparr>co_call = wt_call wt k, co_select = wt_now wt k, co_update = wt_now wt k, co_locked = wt_locked wt k\<rparr>"

text \<open>A consumption; the handler answers success, and notes the identifier it was given.\<close>

definition table_consume :: "'n weather \<Rightarrow> 'n tables \<Rightarrow> (bool result \<times> id list) \<times> 'n tables" where
  "table_consume wt w = (let k = tb_asked w in
     case consume (consume_by wt k) (Mailbox.logging (Inr (Inr ()))) (tb_mailbox w, tb_handled w) of
       (r, mail, handled) \<Rightarrow> ((r, drop (length (tb_handled w)) handled),
         w\<lparr>tb_mailbox := mail, tb_handled := handled, tb_asked := k + 1\<rparr>))"

text \<open>The broker: opened with its settings, provisioned, published into by a dispatch, and emptied into the mailbox.\<close>

definition jet_of :: "broker_settings \<Rightarrow> jet_config" where
  "jet_of b = \<lparr>jc_stream = bs_stream b, jc_consumer = bs_consumer b, jc_timeoutMs = Whole (bs_timeoutMs b)\<rparr>"

definition broker_open :: "'n weather \<Rightarrow> broker_settings \<Rightarrow> 'n tables \<Rightarrow> unit result \<times> 'n tables" where
  "broker_open wt b w = (case jet_open (wt_jetUrl wt (reveal (bs_url b))) (jet_of b) (wt_connects wt) of
     Inl e \<Rightarrow> (Inl e, w) | Inr c \<Rightarrow> (Inr (), w\<lparr>tb_jet := Some c\<rparr>))"

text \<open>What is asked of a broker that is not open does not happen in a run; it is answered with a failure here.\<close>

definition broker_provision :: "'n weather \<Rightarrow> 'n tables \<Rightarrow> unit result \<times> 'n tables" where
  "broker_provision wt w = (case tb_jet w of None \<Rightarrow> (Inl jet_unavailable, w)
     | Some c \<Rightarrow> let k = tb_asked w in
         case provision (wt_nats wt) c (wt_aborted wt k) (tb_nats w) of (r, n) \<Rightarrow> (r, w\<lparr>tb_nats := n, tb_asked := k + 1\<rparr>))"

definition nats_after :: "'n weather \<Rightarrow> jet_config \<Rightarrow> id \<Rightarrow> 'n tables \<Rightarrow> 'n" where
  "nats_after wt c token w = (let k = tb_asked w in
     if wt_aborted wt k then tb_nats w
     else case claim (claim_by wt k) token (tb_outbox w) of
       (Inr (Some l), _) \<Rightarrow> snd (jet_publish (wt_platform wt) (wt_nats wt) c (wt_aborted wt (k + 1)) (le_event l) (tb_nats w))
     | _ \<Rightarrow> tb_nats w)"

definition stream_dispatch :: "'n weather \<Rightarrow> id \<Rightarrow> 'n tables \<Rightarrow> bool result \<times> 'n tables" where
  "stream_dispatch wt token w = (case tb_jet w of None \<Rightarrow> (Inl jet_unavailable, w)
     | Some c \<Rightarrow> let k = tb_asked w in
         case dispatch (wt_aborted wt k) (claim_by wt k) token
             (stream_publisher (wt_platform wt) (wt_nats wt) c (wt_aborted wt (k + 1)) (tb_nats w))
             (\<lambda>rows. rows) (wt_call wt (k + 2)) (wt_now wt (k + 2)) (tb_outbox w) of
           (r, rows) \<Rightarrow> (r, w\<lparr>tb_outbox := rows, tb_nats := nats_after wt c token w, tb_asked := k + 3\<rparr>))"

definition broker_transfer :: "(str \<Rightarrow> 'j option) \<Rightarrow> 'n weather \<Rightarrow> 'n tables \<Rightarrow> bool result \<times> 'n tables" where
  "broker_transfer jsonb wt w = (case tb_jet w of None \<Rightarrow> (Inl jet_unavailable, w)
     | Some c \<Rightarrow> let k = tb_asked w in
         case transfer (beside (wt_nats wt)) c (wt_aborted wt k) (mailbox_sink jsonb (wt_call wt k) (wt_now wt k)) (tb_nats w, tb_mailbox w) of
           (r, n, mail) \<Rightarrow> (r, w\<lparr>tb_nats := n, tb_mailbox := mail, tb_asked := k + 1\<rparr>))"

definition table_services :: "(str \<Rightarrow> 'j option) \<Rightarrow> 'n weather \<Rightarrow> 'n tables services" where
  "table_services jsonb wt = \<lparr>sv_brokerOpen = broker_open wt, sv_provision = broker_provision wt,
     sv_databaseOpen = (\<lambda>d w. (if wt_opens wt then Inr () else Inl db_timedOut, w)),
     sv_migrate = (\<lambda>w. (if wt_migrates wt then Inr () else Inl db_timedOut, w)),
     sv_enqueue = table_enqueue jsonb wt,
     sv_dispatch = (\<lambda>broker token. if broker then stream_dispatch wt token else table_dispatch jsonb wt token),
     sv_transfer = broker_transfer jsonb wt, sv_consume = table_consume wt, sv_aborted = asked (wt_aborted wt),
     sv_elapsed = asked (wt_elapsed wt), sv_instant = asked (wt_wall wt)\<rparr>"

lemma table_services_simps [simp]:
  "sv_brokerOpen (table_services jsonb wt) = broker_open wt" "sv_provision (table_services jsonb wt) = broker_provision wt"
  "sv_databaseOpen (table_services jsonb wt) d = (\<lambda>w. (if wt_opens wt then Inr () else Inl db_timedOut, w))"
  "sv_migrate (table_services jsonb wt) = (\<lambda>w. (if wt_migrates wt then Inr () else Inl db_timedOut, w))"
  "sv_enqueue (table_services jsonb wt) = table_enqueue jsonb wt"
  "sv_dispatch (table_services jsonb wt) True = stream_dispatch wt" "sv_dispatch (table_services jsonb wt) False = table_dispatch jsonb wt"
  "sv_transfer (table_services jsonb wt) = broker_transfer jsonb wt"
  "sv_consume (table_services jsonb wt) = table_consume wt" "sv_aborted (table_services jsonb wt) = asked (wt_aborted wt)"
  "sv_elapsed (table_services jsonb wt) = asked (wt_elapsed wt)" "sv_instant (table_services jsonb wt) = asked (wt_wall wt)"
  by (auto simp: table_services_def)

text \<open>
  The documents of the stream print to what they were parsed from: the codec's round trip, which \<open>decode_normalizes\<close>
  gives for documents with safe integers, as those the process itself publishes are.
\<close>

definition stream_sound :: "'n weather \<Rightarrow> bool" where
  "stream_sound wt \<longleftrightarrow> (\<forall>rq n m n' e. wt_nats wt rq n = (Some m, n') \<and> env_decode (ms_data m) = Inr e \<longrightarrow> env_stable e)"

section \<open>The tables stay sound\<close>

text \<open>Every row holds the text of an event that decodes to itself.\<close>

definition texts_stable :: "('r \<Rightarrow> str) \<Rightarrow> 'r list \<Rightarrow> bool" where
  "texts_stable f rows \<longleftrightarrow> (\<forall>r \<in> set rows. \<exists>e. env_stable e \<and> f r = env_text e)"

definition tables_ok :: "'n tables \<Rightarrow> bool" where
  "tables_ok w \<longleftrightarrow> ob_inv (tb_outbox w) \<and> texts_stable or_envelope (tb_outbox w) \<and> mb_inv (tb_mailbox w, tb_handled w)"

lemma texts_update:
  "texts_stable f rows \<Longrightarrow> (\<And>r. f (g r) = f r) \<Longrightarrow> texts_stable f (update_rows p g rows)"
  by (auto simp: texts_stable_def update_rows_def)

lemma claim_tx_texts:
  assumes "texts_stable or_envelope rows"
  shows "texts_stable or_envelope (snd (claim_tx a token rows))"
proof -
  have s: "texts_stable or_envelope (sweep n rows)" for n unfolding sweep_def by (rule texts_update[OF assms]) simp
  have t: "texts_stable or_envelope (take_lease m t i (sweep n rows))" for m t i n
    unfolding take_lease_def by (rule texts_update[OF s]) simp
  show ?thesis using s t by (auto simp: claim_tx_def Let_def split: list.split sum.split)
qed

lemma finish_tx_texts: "texts_stable or_envelope rows \<Longrightarrow> texts_stable or_envelope (snd (finish_tx now l success rows))"
  unfolding finish_tx_def Let_def snd_conv by (rule texts_update) (simp_all add: finish_row_def)

lemma claimed_stable:
  assumes "texts_stable or_envelope rows" "claim a token rows = (Inr (Some l), rows')"
  shows "env_stable (le_event l)"
proof -
  note c = claim_Some[OF assms(2)]
  obtain r where r: "r \<in> set (sweep (cl_sweep a) rows)" "decode_text (or_envelope r) = Inr (le_event l)"
    using c candidates_mem[of "cl_select a" "cl_locked a" "sweep (cl_sweep a) rows"]
    by (auto simp: claim_tx_def Let_def split: list.splits sum.splits)
  have "texts_stable or_envelope (sweep (cl_sweep a) rows)" unfolding sweep_def by (rule texts_update[OF assms(1)]) simp
  then obtain e where "env_stable e" "or_envelope r = env_text e" using r(1) by (auto simp: texts_stable_def)
  then show ?thesis using r(2) env_stable_text by fastforce
qed

text \<open>Whatever a dispatch answers, its statements are those of a claim and of a finish.\<close>

lemma dispatch_keeps:
  assumes "P rows" "\<And>rs. P rs \<Longrightarrow> P (snd (claim_tx a token rs))" "\<And>now l s rs. P rs \<Longrightarrow> P (snd (finish_tx now l s rs))"
  shows "P (snd (dispatch aborted a token publish (\<lambda>rows. rows) c now rows))"
proof -
  have k: "P (snd (claim a token rows))" by (rule claim_snd) (use assms in auto)
  have f: "P (snd (finish c now l s rs))" if "P rs" for l s rs
    unfolding finish_def by (rule db.run_keeps_snd) (use that assms(3) in auto)
  have f': "finish c now l s rs = (x, rs') \<Longrightarrow> P rs \<Longrightarrow> P rs'" for l s rs x rs' using f[of rs l s] by simp
  show ?thesis
    using k assms(1) by (auto simp: dispatch_def ack_def release_def Let_def split: prod.splits sum.splits option.splits elim: f')
qed

lemma table_dispatch_ok:
  assumes "tables_ok w" shows "tables_ok (snd (table_dispatch jsonb wt token w))"
proof -
  let ?k = "tb_asked w" and ?p = "\<lambda>e. Inr (fst (mail_step jsonb wt (tb_asked w + 1) e (tb_mailbox w)))"
  let ?d = "dispatch (wt_aborted wt ?k) (claim_by wt ?k) token ?p (\<lambda>rows. rows) (wt_call wt (?k + 2)) (wt_now wt (?k + 2)) (tb_outbox w)"
  have o: "ob_inv (tb_outbox w)" "texts_stable or_envelope (tb_outbox w)" "mb_inv (tb_mailbox w, tb_handled w)"
    using assms by (simp_all add: tables_ok_def)
  have "ob_inv (snd ?d)" using o(1) by (rule dispatch_keeps) (auto intro: claim_tx_inv finish_tx_inv)
  moreover have "texts_stable or_envelope (snd ?d)"
    using o(2) by (rule dispatch_keeps) (auto intro: claim_tx_texts finish_tx_texts)
  moreover have "mb_inv (mail_after jsonb wt token w, tb_handled w)"
  proof -
    have m: "mb_inv (snd (mail_step jsonb wt n e (tb_mailbox w)), tb_handled w)" if "env_stable e" for n e
      using mb_apply_inv[of "(tb_mailbox w, tb_handled w)" "Publish (wt_call wt n) (wt_now wt n) e" jsonb] that o(3)
      by (simp add: mail_step_def)
    show ?thesis using m claimed_stable[OF o(2)] o(3) by (auto simp: mail_after_def Let_def split: sum.split option.split prod.split)
  qed
  ultimately show ?thesis by (auto simp: table_dispatch_def Let_def tables_ok_def split: prod.split)
qed

lemma stream_dispatch_ok:
  assumes "tables_ok w" shows "tables_ok (snd (stream_dispatch wt token w))"
proof (cases "tb_jet w")
  case (Some c)
  let ?k = "tb_asked w"
  let ?d = "dispatch (wt_aborted wt ?k) (claim_by wt ?k) token
    (stream_publisher (wt_platform wt) (wt_nats wt) c (wt_aborted wt (?k + 1)) (tb_nats w))
    (\<lambda>rows. rows) (wt_call wt (?k + 2)) (wt_now wt (?k + 2)) (tb_outbox w)"
  have o: "ob_inv (tb_outbox w)" "texts_stable or_envelope (tb_outbox w)" using assms by (simp_all add: tables_ok_def)
  have "ob_inv (snd ?d)" using o(1) by (rule dispatch_keeps) (auto intro: claim_tx_inv finish_tx_inv)
  moreover have "texts_stable or_envelope (snd ?d)"
    using o(2) by (rule dispatch_keeps) (auto intro: claim_tx_texts finish_tx_texts)
  ultimately show ?thesis using assms Some by (auto simp: stream_dispatch_def Let_def tables_ok_def split: prod.split)
qed (use assms in \<open>simp add: stream_dispatch_def\<close>)

lemma broker_transfer_ok:
  assumes "tables_ok w" "stream_sound wt" shows "tables_ok (snd (broker_transfer jsonb wt w))"
proof (cases "tb_jet w")
  case (Some c)
  let ?k = "tb_asked w"
  obtain r n mail where t: "transfer (beside (wt_nats wt)) c (wt_aborted wt ?k) (mailbox_sink jsonb (wt_call wt ?k) (wt_now wt ?k))
      (tb_nats w, tb_mailbox w) = (r, n, mail)" using prod_cases3 by blast
  have "mb_inv (mail, tb_handled w)"
    using transfer_rows[OF t]
  proof (elim disjE exE conjE)
    fix m w1 e
    assume "wt_nats wt (next_request c) (tb_nats w) = (Some m, w1)" "env_decode (ms_data m) = Inr e"
      and mail: "mail = snd (mail_publish jsonb (wt_call wt ?k) (wt_now wt ?k) e (tb_mailbox w))"
    then have "env_stable e" using assms(2) unfolding stream_sound_def by blast
    then show ?thesis
      using mb_apply_inv[of "(tb_mailbox w, tb_handled w)" "Publish (wt_call wt ?k) (wt_now wt ?k) e" jsonb] assms(1) mail
      by (simp add: tables_ok_def)
  qed (use assms(1) in \<open>simp add: tables_ok_def\<close>)
  then show ?thesis using assms(1) Some t by (simp add: broker_transfer_def Let_def tables_ok_def)
qed (use assms in \<open>simp add: broker_transfer_def\<close>)

lemma broker_opens_ok:
  "tables_ok (snd (broker_open wt b w)) = tables_ok w" "tables_ok (snd (broker_provision wt w)) = tables_ok w"
  by (auto simp: broker_open_def broker_provision_def Let_def tables_ok_def split: sum.split option.split prod.split)

lemma table_consume_ok:
  assumes "tables_ok w" "table_consume wt w = ((r, received), w')"
  shows "tables_ok w'" "set received \<subseteq> set (tb_handled w')" "tb_outbox w' = tb_outbox w"
proof -
  let ?a = "consume_by wt (tb_asked w)"
  obtain x mail handled where c: "consume ?a (Mailbox.logging (Inr (Inr ()))) (tb_mailbox w, tb_handled w) = (x, mail, handled)"
    by (metis prod.collapse)
  have "mb_inv (mail, handled)"
    using mb_apply_inv[of "(tb_mailbox w, tb_handled w)" "Consume ?a (Inr (Inr ()))" "Some"] assms(1) c
    by (simp add: tables_ok_def)
  then show "tables_ok w'" "set received \<subseteq> set (tb_handled w')" "tb_outbox w' = tb_outbox w"
    using assms c by (auto simp: table_consume_def Let_def tables_ok_def dest: in_set_dropD)
qed

lemma table_enqueue_ok: "tables_ok w \<Longrightarrow> env_stable e \<Longrightarrow> tables_ok (snd (table_enqueue jsonb wt e w))"
proof -
  assume a: "tables_ok w" "env_stable e"
  let ?n = "wt_now wt (tb_asked w)"
  have t: "texts_stable or_envelope (snd (enqueue jsonb n e rows))" if "texts_stable or_envelope rows" for n rows
  proof -
    obtain x rows' where r: "enqueue jsonb n e rows = (x, rows')" by fastforce
    from insert_row_cases[OF r[unfolded enqueue_def]] show ?thesis
      using that r a(2) by (auto simp: texts_stable_def new_orow_def; blast)
  qed
  have "ob_inv (snd (db_transaction (wt_call wt (tb_asked w)) (enqueue jsonb ?n e) (tb_outbox w)))"
    by (rule db.run_keeps_snd) (use a enqueue_inv in \<open>auto simp: tables_ok_def\<close>)
  moreover have "texts_stable or_envelope (snd (db_transaction (wt_call wt (tb_asked w)) (enqueue jsonb ?n e) (tb_outbox w)))"
    by (rule db.run_keeps_snd) (use a t in \<open>auto simp: tables_ok_def\<close>)
  ultimately show ?thesis using a(1) by (auto simp: table_enqueue_def Let_def tables_ok_def split: prod.split)
qed

section \<open>A run on the tables\<close>

lemma act_read_Inr: "act_read (outside m) s = (Inr x, s') \<Longrightarrow> \<exists>w'. m (ew_out s) = (x, w') \<and> s' = s\<lparr>ew_out := w'\<rparr>"
  by (cases "m (ew_out s)") (auto simp: act_read_def outside_def)

lemma act_call_Inr: "act_call (outside m) s = (Inr x, s') \<Longrightarrow> \<exists>w'. m (ew_out s) = (Inr x, w') \<and> s' = s\<lparr>ew_out := w'\<rparr>"
  by (cases "m (ew_out s)") (auto simp: act_call_def outside_def)

lemma act_ids_Inr: "act_call (with_ids m) s = (Inr x, s') \<Longrightarrow> \<exists>w'. m (ew_ids s) = (Inr x, w') \<and> s' = s\<lparr>ew_ids := w'\<rparr>"
  by (cases "m (ew_ids s)") (auto simp: act_call_def with_ids_def)

lemma read_abort: "act_read (outside (asked f)) s = (Inr b, s') \<Longrightarrow> tables_ok (ew_out s') = tables_ok (ew_out s)"
  by (auto simp: act_read_def outside_def asked_def tables_ok_def)

lemma call_keeps:
  assumes "act_call (outside m) s = (Inr b, s')" "tables_ok (ew_out s)" "\<And>w. tables_ok w \<Longrightarrow> tables_ok (snd (m w))"
  shows "tables_ok (ew_out s')"
  using assms(1,2) assms(3)[of "ew_out s"] by (auto simp: act_call_def outside_def split: prod.splits)

lemma read_consume:
  assumes "act_read (outside (table_consume wt)) s = (Inr (r, received), s')" "tables_ok (ew_out s)"
  shows "tables_ok (ew_out s')" "set received \<subseteq> set (tb_handled (ew_out s'))"
proof -
  obtain w' where "table_consume wt (ew_out s) = ((r, received), w')" "s' = s\<lparr>ew_out := w'\<rparr>"
    using assms(1) by (metis act_read_Inr)
  with table_consume_ok[OF assms(2)] show "tables_ok (ew_out s')" "set received \<subseteq> set (tb_handled (ew_out s'))" by auto
qed

lemma out_simps:
  "act_call (with_ids m) s = (Inr x, s') \<Longrightarrow> ew_out s' = ew_out s" "log_line lv msg s = (Inr u, s') \<Longrightarrow> ew_out s' = ew_out s"
  "act_do (mark x') s = (Inr u, s') \<Longrightarrow> ew_out s' = ew_out s" "abort_check b s = (Inr u, s') \<Longrightarrow> s' = s"
proof -
  show "act_call (with_ids m) s = (Inr x, s') \<Longrightarrow> ew_out s' = ew_out s"
    by (cases "m (ew_ids s)") (auto simp: act_call_def with_ids_def)
  show "log_line lv msg s = (Inr u, s') \<Longrightarrow> ew_out s' = ew_out s" by (simp add: log_line_def mark_def)
  show "act_do (mark x') s = (Inr u, s') \<Longrightarrow> ew_out s' = ew_out s" by (simp add: mark_def)
  show "abort_check b s = (Inr u, s') \<Longrightarrow> s' = s" by (cases b) (simp_all add: abort_check_def)
qed

lemma dispatch_ok: "tables_ok w \<Longrightarrow> tables_ok (snd (sv_dispatch (table_services jsonb wt) broker token w))"
  using table_dispatch_ok stream_dispatch_ok by (cases broker) auto

lemma transfer_ok:
  assumes "transfer_step (table_services jsonb wt) broker s = (Inr (), s')" "tables_ok (ew_out s)" "broker \<Longrightarrow> stream_sound wt"
  shows "tables_ok (ew_out s')"
proof (cases broker)
  case True
  from assms(1) True obtain s1 b s2 where t: "act_do (mark Transferred) s = (Inr (), s1)"
    "act_call (outside (broker_transfer jsonb wt)) s1 = (Inr b, s2)" "log_line Info ''events.transfer.completed'' s2 = (Inr (), s')"
    by (auto simp: transfer_step_def act_bind_Inr simp del: act_simps(3))
  have "tables_ok (ew_out s1)" using assms(2) out_simps(3)[OF t(1)] by simp
  from call_keeps[OF t(2) this] broker_transfer_ok assms(3)[OF True] have "tables_ok (ew_out s2)" by blast
  then show ?thesis using out_simps(2)[OF t(3)] by simp
qed (use assms in \<open>simp add: transfer_step_def\<close>)

lemma round_ok:
  assumes "event_round (table_services jsonb wt) broker i s = (Inr seen, s')" "tables_ok (ew_out s)" "broker \<Longrightarrow> stream_sound wt"
  shows "tables_ok (ew_out s')" "seen \<Longrightarrow> i \<in> set (tb_handled (ew_out s'))"
proof -
  from assms(1) obtain b s1 s2 tok s3 s4 d s5 s6 t6 r rc s7 s8 s9 s10 where
    e: "act_read (outside (asked (wt_aborted wt))) s = (Inr b, s1)" "abort_check b s1 = (Inr (), s2)"
    "act_call (with_ids v7w_newId) s2 = (Inr tok, s3)" "act_do (mark (Dispatched tok)) s3 = (Inr (), s4)"
    "act_call (outside (sv_dispatch (table_services jsonb wt) broker tok)) s4 = (Inr d, s5)"
    "log_line Info ''events.dispatch.completed'' s5 = (Inr (), s6)" "transfer_step (table_services jsonb wt) broker s6 = (Inr (), t6)"
    "act_read (outside (table_consume wt)) t6 = (Inr (r, rc), s7)" "act_do (mark (Received rc)) s7 = (Inr (), s8)"
    "log_line Info ''events.consume.completed'' s9 = (Inr (), s10)" "s9 = s8"
    "(if List.member rc i then act_bind (log_line Info ''events.example.completed'') (\<lambda>_. act_return True) else act_return False) s10 = (Inr seen, s')"
    by (auto simp: event_round_def act_bind_Inr simp del: act_simps(3))
  have "tables_ok (ew_out s4)"
    using assms(2) read_abort[OF e(1)] out_simps(4)[OF e(2)] out_simps(1)[OF e(3)] out_simps(3)[OF e(4)] by simp
  then have "tables_ok (ew_out s6)" using call_keeps[OF e(5) _ dispatch_ok] out_simps(2)[OF e(6)] by simp
  from transfer_ok[OF e(7) this assms(3)] have "tables_ok (ew_out t6)" .
  note k = read_consume[OF e(8) this]
  have "ew_out s' = ew_out s7"
    using out_simps(3)[OF e(9)] out_simps(2)[OF e(10)] e(11,12) by (auto simp: act_bind_Inr dest: out_simps(2) split: if_splits)
  moreover have "i \<in> set rc" if seen using e(12) that by (auto split: if_splits)
  ultimately show "tables_ok (ew_out s')" "seen \<Longrightarrow> i \<in> set (tb_handled (ew_out s'))" using k by auto
qed

lemma loop_ok:
  assumes "broker \<Longrightarrow> stream_sound wt"
  shows "event_loop (table_services jsonb wt) broker i deadline n s = (Inr code, s') \<Longrightarrow> tables_ok (ew_out s)
    \<Longrightarrow> tables_ok (ew_out s') \<and> i \<in> set (tb_handled (ew_out s'))"
proof (induction n arbitrary: s)
  case 0
  then show ?case by (simp add: act_throw_def)
next
  case (Suc n)
  from Suc.prems(1) obtain now s1 where n: "act_read (outside (asked (wt_elapsed wt))) s = (Inr now, s1)"
    "(if now < deadline then act_bind (event_round (table_services jsonb wt) broker i)
        (\<lambda>seen. if seen then act_return 0 else event_loop (table_services jsonb wt) broker i deadline n)
      else act_throw (Thrown (AppErrorV (failure Timeout (lit ''diagnostic delivery budget exhausted'') no_options)))) s1 = (Inr code, s')"
    by (auto simp: act_bind_Inr)
  have t: "tables_ok (ew_out s1)" using Suc.prems(2) read_abort[OF n(1)] by simp
  from n(2) obtain seen s2 where r: "event_round (table_services jsonb wt) broker i s1 = (Inr seen, s2)"
    "(if seen then act_return 0 else event_loop (table_services jsonb wt) broker i deadline n) s2 = (Inr code, s')"
    by (auto simp: act_bind_Inr act_throw_def split: if_splits)
  note k = round_ok[OF r(1) t assms]
  show ?case
  proof (cases seen)
    case True
    with r(2) k show ?thesis by simp
  next
    case False
    with r(2) k(1) Suc.IH show ?thesis by simp
  qed
qed

section \<open>The event of a run\<close>

abbreviation events_spec :: "attribution \<Rightarrow> actor \<Rightarrow> root_spec" where
  "events_spec at ex \<equiv> \<lparr>rs_workId = None, rs_origin = lit ''startup'', rs_operation = lit ''events.example'',
     rs_attribution = Made at, rs_executor = Made ex\<rparr>"

definition events_work :: "attribution \<Rightarrow> id \<Rightarrow> work" where
  "events_work at j = \<lparr>wk_workId = Some j, wk_correlationId = Some j, wk_correlationSource = lit ''local'',
      wk_causation = None, wk_origin = Some (lit ''startup''), wk_operation = lit ''events.example'', wk_attribution = Made at,
      wk_depth = Some (Whole 0), wk_replay = None\<rparr>"

lemma entered_work:
  assumes "factory_enter v7w_factory (events_spec at ex) (Made (inspectIncoming fresh_hints)) w = (Inr sc, w')"
  shows "sp_work sc = events_work at (sp_scopeId sc)" "validID (sp_scopeId sc)" "validateWork (sp_work sc) False = None"
proof -
  let ?rw = "\<lparr>wk_workId = None, wk_correlationId = None, wk_correlationSource = lit ''local'',
      wk_causation = None, wk_origin = Some (lit ''startup''), wk_operation = lit ''events.example'', wk_attribution = Made at,
      wk_depth = Some (Whole 0), wk_replay = None\<rparr>"
  have "emit v7w_factory ?rw (Made ex) (Whole 1) None [] w = (Inr sc, w')"
    using assms by (simp add: factory_enter_def rootWork_def validOrigin_def origins_def inspectIncoming_def fresh_hints_def split: if_splits)
  note d = emit_InrD[OF this]
  show "sp_work sc = events_work at (sp_scopeId sc)" using d(2) by (simp add: fill_work_def or_id_def events_work_def)
  show "validID (sp_scopeId sc)" "validateWork (sp_work sc) False = None" using sound_scopeD(1,2)[OF d(6)] by simp_all
qed

lemma events_work_genuine:
  assumes "attribution no_attribution = Inr at" "validateWork (events_work at j) False = None"
  shows "genuine_work (events_work at j)"
proof -
  have at: "at = \<lparr>at_initiator = None, at_onBehalfOf = None, at_tenant = None\<rparr>"
    using assms(1) by (simp add: attribution_def no_attribution_def)
  show ?thesis using assms(2) by (simp add: events_work_def genuine_work_def genuine_attribution_def at attribution_def)
qed

lemma example_type: "event_type (lit ''diagnostic.created.v1'')"
  by (simp add: event_type_def type_version_def type_unit_def matches_def str_simps)

lemma example_payload: "wf_json (JObj [(lit ''example'', JBool True)])"
  by (simp add: wf_json_iff own_order_plain plain_keys_lit[of "[''example'']"] str_simps)

text \<open>The codec refuses a time that is not from 1970 to 9999, so a created event has such a time.\<close>

lemma created_in_range:
  assumes "env_create i t (dbl_of_int ms) (Made w) payload = Inr e" "\<bar>ms\<bar> \<le> max_safe" "genuine_work w" "wf_json payload"
  shows "0 \<le> ms \<and> ms \<le> 253402300799999"
proof -
  define m where "m = event_members i t (dbl_of_int ms) w payload"
  have "wf_json (JObj m)"
    unfolding m_def using wf_int[OF assms(2)]
    by (intro wf_members plain_event)
      (use assms(3,4) in \<open>simp add: event_members_def wf_workOut wf_int max_safe_def, simp add: jint_def\<close>)
  from decode_printed[OF this] have "env_read m = Some e"
    using assms(1) by (simp add: env_create_def m_def[symmetric] del: stringify.simps split: if_splits option.splits)
  then have "header_ok m" by (simp add: env_read_Some)
  moreover have "get m ''occurred_at_ms'' = Some (JNum (dbl_of_int ms))" by (simp add: m_def event_members_def get_def)
  ultimately show ?thesis using assms(2) by (simp add: header_ok_def dbl_number_int not_less)
qed

lemma created_stable:
  assumes "env_create i (lit ''diagnostic.created.v1'') (dbl_of_int ms) (Made w) (JObj [(lit ''example'', JBool True)]) = Inr e"
    "validID i" "\<bar>ms\<bar> \<le> max_safe" "genuine_work w"
  shows "env_stable e" "en_id e = i"
proof -
  from created_in_range[OF assms(1,3,4) example_payload] have "0 \<le> ms" "ms \<le> 253402300799999" by simp_all
  from event_decoded[OF assms(2) example_type this assms(4) refl example_payload refl] assms(1)
  show "env_stable e" "en_id e = i" by (auto simp: env_stable_def env_bytes_def split: if_splits)
qed

section \<open>A run that exits with 0\<close>

lemma broker_part_ok:
  assumes "(case es_broker c of None \<Rightarrow> act_return ()
     | Some b \<Rightarrow> act_bind (open_part BrokerPart (sv_brokerOpen (table_services jsonb wt) b))
         (\<lambda>_. act_call (outside (sv_provision (table_services jsonb wt))))) s = (Inr (), s0)"
  shows "tables_ok (ew_out s0) = tables_ok (ew_out s)" "ew_ids s0 = ew_ids s"
proof -
  have k: "tables_ok (ew_out t') = tables_ok (ew_out t) \<and> ew_ids t' = ew_ids t"
    if "act_call (outside m) t = (Inr (), t')" "\<And>w. tables_ok (snd (m w)) = tables_ok w" for m t t'
    using that(1) that(2)[of "ew_out t"] by (auto simp: act_call_def outside_def split: prod.splits)
  show "tables_ok (ew_out s0) = tables_ok (ew_out s)" "ew_ids s0 = ew_ids s"
  proof (atomize (full), cases "es_broker c")
    case (Some b)
    with assms obtain s1 s2 where b: "act_call (outside (broker_open wt b)) s = (Inr (), s1)" "s2 = mark (Opened BrokerPart) s1"
      "act_call (outside (broker_provision wt)) s2 = (Inr (), s0)"
      by (auto simp: open_part_def act_bind_Inr simp del: act_simps(3)) (auto simp: act_do_def)
    show "tables_ok (ew_out s0) = tables_ok (ew_out s) \<and> ew_ids s0 = ew_ids s"
      using k[OF b(1) broker_opens_ok(1)] k[OF b(3) broker_opens_ok(2)] b(2) by (simp add: mark_def)
  qed (use assms in simp)
qed

lemma body_handles:
  assumes "events_body (table_services jsonb wt) c s = (Inr code, s')" "es_broker c \<noteq> None \<Longrightarrow> stream_sound wt"
    and "tables_ok (ew_out s)" "v7_inv (vw_gen (ew_ids s))" "\<And>k. \<bar>wt_wall wt k\<bar> \<le> max_safe"
  shows "tables_ok (ew_out s') \<and> (\<exists>e. Enqueued e \<in> set (ew_steps s') \<and> en_id e \<in> set (tb_handled (ew_out s')))"
proof -
  from assms(1)[unfolded events_body_def] obtain ex oper at sc lg i now e
    s0 s1 s2 s3 s4 s5 s6 s7 start s8 s9 s10 where
    q: "(case es_broker c of None \<Rightarrow> act_return ()
       | Some b \<Rightarrow> act_bind (open_part BrokerPart (sv_brokerOpen (table_services jsonb wt) b))
         (\<lambda>_. act_call (outside (sv_provision (table_services jsonb wt))))) s = (Inr (), s0)"
    and r: "open_part DatabasePart (sv_databaseOpen (table_services jsonb wt) (es_database c)) s0 = (Inr (), s1)"
    "act_call (outside (sv_migrate (table_services jsonb wt))) s1 = (Inr (), s2)"
    and v: "operation (lit ''events.example'') = Inr oper" "attribution no_attribution = Inr at"
    and n: "act_call (with_ids (factory_enter v7w_factory \<lparr>rs_workId = None, rs_origin = lit ''startup'', rs_operation = oper,
        rs_attribution = Made at, rs_executor = Made ex\<rparr> (Made (inspectIncoming fresh_hints)))) s2 = (Inr sc, s3)"
      "act_call (with_ids v7w_newId) s3 = (Inr i, s4)" "act_read (outside (asked (wt_wall wt))) s4 = (Inr now, s5)"
    and e: "env_create i (lit ''diagnostic.created.v1'') (dbl_of_int now) (Made (sp_work sc)) (JObj [(lit ''example'', JBool True)]) = Inr e"
    and f: "act_call (outside (table_enqueue jsonb wt e)) s5 = (Inr (), s6)" "act_do (mark (Enqueued e)) s6 = (Inr (), s7)"
      "log_line Info ''events.enqueued'' s7 = (Inr (), s8)" "log_line Info ''events.transport.selected'' s8 = (Inr (), s9)"
      "act_read (outside (asked (wt_elapsed wt))) s9 = (Inr start, s10)"
      "event_loop (table_services jsonb wt) (es_broker c \<noteq> None) i (start + 10000) 32 s10 = (Inr code, s')"
    by (auto simp: act_bind_Inr simp del: act_simps(3))
  have oper: "oper = lit ''events.example''"
    using v(1) by (auto simp: operation_def split: if_splits)
  have s0: "tables_ok (ew_out s0)" "ew_ids s0 = ew_ids s" using broker_part_ok[OF q] assms(3) by simp_all
  have s2: "ew_out s2 = ew_out s0" "ew_ids s2 = ew_ids s"
    using r s0(2) by (auto simp: open_part_def act_bind_Inr act_call_def outside_def mark_def unwrap_def split: if_splits)
  obtain w3 where w3: "factory_enter v7w_factory (events_spec at ex) (Made (inspectIncoming fresh_hints)) (ew_ids s2) = (Inr sc, w3)"
    "s3 = s2\<lparr>ew_ids := w3\<rparr>"
    using act_ids_Inr[OF n(1)] unfolding oper by blast
  obtain w4 where w4: "v7w_newId (ew_ids s3) = (Inr i, w4)" "s4 = s3\<lparr>ew_ids := w4\<rparr>" using act_ids_Inr[OF n(2)] by blast
  have "v7_inv (vw_gen w3)"
    using v7w.apply_mono[of "ew_ids s2" "Enter (events_spec at ex) (Made (inspectIncoming fresh_hints))" "Inr sc" w3] w3(1) assms(4) s2(2)
    by (auto simp: v7w_factory_def)
  then have i: "validID i" using v7w.newId_ok[OF _ w4(1)] w3(2) by simp
  have now: "now = wt_wall wt (tb_asked (ew_out s4))" "ew_out s5 = (ew_out s4)\<lparr>tb_asked := tb_asked (ew_out s4) + 1\<rparr>"
    using act_read_Inr[OF n(3)] by (auto simp: asked_def)
  note k = entered_work[OF w3(1)]
  have st: "env_stable e" "en_id e = i"
    using created_stable[OF e i] assms(5) now(1) events_work_genuine[OF v(2)] k(1,3) by auto
  obtain w6 where w6: "table_enqueue jsonb wt e (ew_out s5) = (Inr (), w6)" "s6 = s5\<lparr>ew_out := w6\<rparr>"
    using act_call_Inr[OF f(1)] by blast
  have "tables_ok (ew_out s5)" using s0(1) now(2) w3(2) w4(2) s2(1) by (simp add: tables_ok_def)
  from table_enqueue_ok[OF this st(1), of jsonb wt] have "tables_ok (ew_out s6)" using w6 by simp
  then have t: "tables_ok (ew_out s10)"
    using read_abort[OF f(5)] out_simps(2)[OF f(3)] out_simps(2)[OF f(4)] out_simps(3)[OF f(2)] by simp
  have "Enqueued e \<in> set (ew_steps s7)" using f(2) by (simp add: mark_def)
  then have "Enqueued e \<in> set (ew_steps s10)"
    using f(3-5) by (auto simp: log_line_def mark_def dest: act_read_Inr)
  then have "Enqueued e \<in> set (ew_steps s')" using traced_run[OF loop_traced f(6)] by auto
  then show ?thesis using loop_ok[OF assms(2) f(6) t] st(2) by blast
qed

lemma count_once: "distinct xs \<Longrightarrow> x \<in> set xs \<Longrightarrow> count_list xs x = 1"
  by (induction xs) (auto simp: count_notin)

text \<open>
  C4: exit code 0 means handled exactly once, over either transport. A run of the event process on sound tables, whatever its
  transactions do and whatever the broker answers, that exits with 0 has enqueued an event; that event is among the
  processed rows of the mailbox, it was handled in one stored consumption and no event was handled in two, and the tables
  are sound again. The wall clock is only taken to show instants, at most \<open>8640000000000000\<close> milliseconds from 1970, and
  the documents of the stream to print to what they were parsed from.
\<close>

theorem run_handles_once:
  assumes "run_events (table_services jsonb wt) canFlush lk (start_world clk ent w) = (Inr 0, s')" "tables_ok w"
    and "\<And>k. \<bar>wt_wall wt k\<bar> \<le> 8640000000000000" "stream_sound wt"
  shows "tables_ok (ew_out s') \<and> distinct (tb_handled (ew_out s'))
    \<and> (\<exists>e. Enqueued e \<in> set (ew_steps s') \<and> processed_at (tb_mailbox (ew_out s')) (en_id e)
      \<and> count_list (tb_handled (ew_out s')) (en_id e) = 1)"
proof -
  let ?s = "start_world clk ent w"
  obtain c where c: "load_events lk = Inr (Some c)"
    using assms(1) by (auto simp: run_events_def split: sum.splits option.splits)
  obtain i s1 s2 where i: "act_call (with_ids v7w_newId) ?s = (Inr i, s1)"
    "events_body (table_services jsonb wt) c (mark (Opened LogPart) s1) = (Inr 0, s2)" "s' = events_close s2"
    using assms(1) c by (auto simp: run_events_def split: prod.splits sum.splits)
  obtain w1 where w1: "v7w_newId (ew_ids ?s) = (Inr i, w1)" "s1 = ?s\<lparr>ew_ids := w1\<rparr>" using act_ids_Inr[OF i(1)] by blast
  have "v7_inv (vw_gen (ew_ids ?s))" by (simp add: start_world_def v7_inv_def v7_new_def)
  then have v: "v7_inv (vw_gen (ew_ids (mark (Opened LogPart) s1)))" using v7w.newId_mono[OF _ w1(1)] w1(2) by (simp add: mark_def)
  have t: "tables_ok (ew_out (mark (Opened LogPart) s1))" using assms(2) w1(2) by (simp add: mark_def start_world_def)
  have wall: "\<bar>wt_wall wt k\<bar> \<le> max_safe" for k using assms(3)[of k] by (simp add: max_safe_def)
  obtain e where e: "tables_ok (ew_out s2)" "Enqueued e \<in> set (ew_steps s2)" "en_id e \<in> set (tb_handled (ew_out s2))"
    using body_handles[OF i(2) assms(4) t v wall] by blast
  have m: "mb_inv (tb_mailbox (ew_out s2), tb_handled (ew_out s2))" using e(1) by (simp add: tables_ok_def)
  then have "count_list (tb_handled (ew_out s2)) (en_id e) = 1"
    using e(3) by (simp add: mb_inv_def count_once)
  then show ?thesis using e m i(3) by (auto simp: events_close_def mb_inv_def)
qed

section \<open>A run in fair weather\<close>

text \<open>
  Every transaction commits, nothing is locked or aborted, the server's clock does not go back and moves less than
  the ten seconds between two questions, like the process's own.
\<close>

definition fair :: "'n weather \<Rightarrow> bool" where
  "fair wt \<longleftrightarrow> wt_opens wt \<and> wt_migrates wt \<and> (\<forall>k. wt_call wt k = good_call \<and> wt_locked wt k = [] \<and> \<not> wt_aborted wt k
     \<and> wt_now wt k \<le> wt_now wt (Suc k) \<and> wt_now wt (Suc k) < wt_now wt k + 10000000
     \<and> wt_elapsed wt (Suc k) < wt_elapsed wt k + 10000 \<and> 0 \<le> wt_wall wt k \<and> wt_wall wt k \<le> 253402300799999)"

lemma fair_now: "fair wt \<Longrightarrow> wt_now wt k \<le> wt_now wt (k + n)"
  by (induction n) (auto simp: fair_def intro: order_trans)

lemma event_made:
  assumes "validID i" "validID j" "attribution no_attribution = Inr at" "validateWork (events_work at j) False = None"
    "0 \<le> ms" "ms \<le> 253402300799999"
  obtains e where "env_create i (lit ''diagnostic.created.v1'') (dbl_of_int ms) (Made (events_work at j)) (JObj [(lit ''example'', JBool True)]) = Inr e"
proof -
  have at: "at = \<lparr>at_initiator = None, at_onBehalfOf = None, at_tenant = None\<rparr>"
    using assms(3) by (simp add: attribution_def no_attribution_def)
  have l: "length i = 36" "length j = 36" using assms(1,2) canonical_length by (simp_all add: validID_iff)
  let ?m = "JObj (event_members i (lit ''diagnostic.created.v1'') (dbl_of_int ms) (events_work at j) (JObj [(lit ''example'', JBool True)]))"
  have "length (utf8_encode (stringify ?m)) \<le> 65536"
  proof (rule event_size)
    have "json_size (jint 1) \<le> 16" "json_size (jint ms) \<le> 16" "json_size (jint 0) \<le> 16"
      using int_size[of 1 15] int_size[of ms 15] int_size[of 0 15] assms(5,6) by (simp_all add: max_safe_def)
    moreover have "length (stringify (JBool True)) = 4" by simp
    ultimately show "3 * json_size ?m \<le> 65536"
      by (simp add: event_members_def workOut_def attributionOut_def jobject_plain plain_objects events_work_def at
          l depth_json_def jint_def[symmetric] del: json_size.simps(4) stringify.simps)
  qed
  with event_decoded[OF assms(1) example_type assms(5,6) events_work_genuine[OF assms(3,4)] refl example_payload refl] that
  show thesis by auto
qed


text \<open>The mailbox is asked right after the event was published into it.\<close>

definition fresh_tables :: "'n tables \<Rightarrow> bool" where
  "fresh_tables w \<longleftrightarrow> tb_outbox w = [] \<and> tb_mailbox w = [] \<and> tb_handled w = []"

lemma enqueue_fair:
  assumes "fair wt" "fresh_tables w" "jsonb (env_text e) \<noteq> None"
  shows "table_enqueue jsonb wt e w = (Inr (), w\<lparr>tb_outbox := [new_orow (wt_now wt (tb_asked w)) (en_id e) (env_text e)], tb_asked := tb_asked w + 1\<rparr>)"
  using assms by (simp add: table_enqueue_def fair_def fresh_tables_def good_call_runs enqueue_def insert_row_def Let_def)

lemma dispatch_fair:
  assumes "fair wt" "tb_outbox w = [new_orow n (en_id e) (env_text e)]" "n \<le> wt_now wt (tb_asked w)" "tb_mailbox w = []"
    "validID token" "env_stable e" "jsonb (env_text e) \<noteq> None"
  shows "\<exists>rows. table_dispatch jsonb wt token w = (Inr True, w\<lparr>tb_outbox := rows,
     tb_mailbox := [new_mrow (wt_now wt (tb_asked w + 1)) (en_id e) (env_text e)], tb_asked := tb_asked w + 3\<rparr>)"
proof -
  let ?k = "tb_asked w"
  define l where "l = \<lparr>le_event = e, le_token = token, le_attempt = 1\<rparr>"
  define rows where "rows = [\<lparr>or_event = en_id e, or_envelope = env_text e, or_state = Pending, or_attempts = 1, or_available = n,
     or_lease = Some token, or_until = Some (wt_now wt ?k + 30000000)\<rparr>]"
  have low: "to_lower token = token" using assms(5) by (simp add: validID_iff)
  have c: "claim (claim_by wt ?k) token (tb_outbox w) = (Inr (Some l), rows)"
    using assms env_stable_text[OF assms(6)]
    by (simp add: claim_def parse_validID claim_by_def fair_def good_call_runs claim_tx_def Let_def sweep_def update_rows_def
        new_orow_def candidates_def expired_def low take_lease_def l_def rows_def)
  have m: "mail_step jsonb wt (?k + 1) e (tb_mailbox w) = (Inr \<lparr>rc_eventId = en_id e, rc_durable = True\<rparr>,
      [new_mrow (wt_now wt (?k + 1)) (en_id e) (env_text e)])"
    using assms(1,4,7) by (simp add: mail_step_def mail_publish_def fair_def good_call_runs mail_insert_def insert_row_def Let_def)
  have "wt_now wt (Suc k) < wt_now wt k + 10000000" for k using assms(1) by (simp add: fair_def)
  from this[of ?k] this[of "Suc ?k"] have "wt_now wt (?k + 2) < wt_now wt ?k + 30000000" by simp
  then have "\<exists>rows'. ack (wt_call wt (?k + 2)) (wt_now wt (?k + 2)) l rows = (Inr (), rows')"
    using assms(1) by (simp add: ack_def finish_def fair_def good_call_runs finish_tx_def Let_def rows_def held_def l_def low)
  then obtain rows' where a: "ack (wt_call wt (?k + 2)) (wt_now wt (?k + 2)) l rows = (Inr (), rows')" by blast
  have "wt_aborted wt ?k = False" using assms(1) by (simp add: fair_def)
  then show ?thesis
    using c m a by (intro exI[of _ rows']) (simp add: table_dispatch_def Let_def dispatch_def receipt_of_def good_receipt_def l_def mail_after_def)
qed

lemma consume_fair:
  assumes "fair wt" "tb_mailbox w = [new_mrow n (en_id e) (env_text e)]" "n \<le> wt_now wt (tb_asked w)" "tb_handled w = []" "env_stable e"
  shows "\<exists>w'. table_consume wt w = ((Inr True, [en_id e]), w')"
  using assms env_stable_text[OF assms(5)]
  by (simp add: table_consume_def Let_def consume_def consume_by_def fair_def good_call_runs consume_tx_def mail_candidates_def
      new_mrow_def Mailbox.logging_def handled_of_def)

lemma round_fair:
  assumes "fair wt" "tb_outbox (ew_out s) = [new_orow (wt_now wt m) (en_id e) (env_text e)]" "m \<le> tb_asked (ew_out s)" "tb_mailbox (ew_out s) = []"
    "tb_handled (ew_out s) = []" "env_stable e" "jsonb (env_text e) \<noteq> None" "steady (Suc n) (ew_ids s)"
  shows "\<exists>s'. event_round (table_services jsonb wt) False (en_id e) s = (Inr True, s')"
proof -
  let ?w = "(ew_out s)\<lparr>tb_asked := tb_asked (ew_out s) + 1\<rparr>"
  obtain t v where t: "v7w_newId (ew_ids s) = (Inr t, v)" "validID t" using steady_newId[OF assms(8)] by metis
  have le: "wt_now wt m \<le> wt_now wt (tb_asked ?w)" using fair_now[OF assms(1), of m "tb_asked ?w - m"] assms(3) by simp
  obtain rows where d: "table_dispatch jsonb wt t ?w = (Inr True, ?w\<lparr>tb_outbox := rows,
     tb_mailbox := [new_mrow (wt_now wt (tb_asked ?w + 1)) (en_id e) (env_text e)], tb_asked := tb_asked ?w + 3\<rparr>)"
    using dispatch_fair[OF assms(1) _ le _ t(2) assms(6), of jsonb] assms(2,4,7) by auto
  let ?u = "?w\<lparr>tb_outbox := rows, tb_mailbox := [new_mrow (wt_now wt (tb_asked ?w + 1)) (en_id e) (env_text e)], tb_asked := tb_asked ?w + 3\<rparr>"
  have "wt_now wt (tb_asked ?w + 1) \<le> wt_now wt (tb_asked ?u)" using fair_now[OF assms(1), of "tb_asked ?w + 1" 2] by (simp add: eval_nat_numeral)
  from consume_fair[OF assms(1) _ this _ assms(6)] obtain w' where c: "table_consume wt ?u = ((Inr True, [en_id e]), w')"
    using assms(5) by auto
  have "\<not> wt_aborted wt k" for k using assms(1) by (simp add: fair_def)
  then show ?thesis
    using t(1) d c by (simp add: event_round_def abort_check_def transfer_step_def act_eval asked_def)
qed


lemma loaded_base: "load_events lk = Inr (Some c) \<Longrightarrow> loadConfig lk = Inr (es_base c)"
  by (auto simp: load_events_def event_reads_def unwrap_def split: sum.splits prod.splits if_splits)

lemma loop_fair:
  assumes "fair wt" "tb_outbox (ew_out s) = [new_orow (wt_now wt m) (en_id e) (env_text e)]" "m \<le> tb_asked (ew_out s)" "tb_mailbox (ew_out s) = []"
    "tb_handled (ew_out s) = []" "env_stable e" "jsonb (env_text e) \<noteq> None" "steady (Suc n) (ew_ids s)"
    and "wt_elapsed wt (tb_asked (ew_out s)) < deadline"
  shows "\<exists>s'. event_loop (table_services jsonb wt) False (en_id e) deadline 32 s = (Inr 0, s')"
proof -
  define s1 where "s1 = s\<lparr>ew_out := (ew_out s)\<lparr>tb_asked := tb_asked (ew_out s) + 1\<rparr>\<rparr>"
  have r: "act_read (outside (asked (wt_elapsed wt))) s = (Inr (wt_elapsed wt (tb_asked (ew_out s))), s1)"
    by (simp add: act_read_def outside_def asked_def s1_def)
  obtain s' where "event_round (table_services jsonb wt) False (en_id e) s1 = (Inr True, s')"
    using round_fair[OF assms(1), of s1 m e jsonb n] assms(2-8) by (auto simp: s1_def)
  moreover have "(32 :: nat) = Suc 31" by simp
  ultimately show ?thesis using assms(9) by (simp only: event_loop.simps) (simp add: act_bind_def r act_return_def)
qed

lemma fair_run:
  assumes "load_events lk = Inr (Some c)" "es_broker c = None" "fair wt" "fresh_tables w"
    and "\<And>e. env_stable e \<Longrightarrow> jsonb (env_text e) \<noteq> None"
    and "steady 4 \<lparr>vw_clock = clk, vw_entropy = ent, vw_calls = 0, vw_gen = v7_new\<rparr>"
  shows "\<exists>s'. run_events (table_services jsonb wt) canFlush lk (start_world clk ent w) = (Inr 0, s')"
proof -
  let ?s = "start_world clk ent w" and ?sv = "table_services jsonb wt"
  have "steady (Suc 3) (ew_ids ?s)" using assms(6) by (simp add: start_world_def eval_nat_numeral)
  then obtain i0 w0 where n0: "v7w_newId (ew_ids ?s) = (Inr i0, w0)" "steady 3 w0" using steady_newId by metis
  note lc = loaded_config[OF loaded_base[OF assms(1)]]
  obtain rt where rt: "Actions.logging (es_base c) i0 canFlush False = Inr rt" using lc(1) by blast
  obtain ex where ex: "actor (lit ''service'') (rc_name (cf_resource (es_base c))) = Inr ex" using lc(2) by blast
  obtain at where at: "attribution no_attribution = Inr at" by (simp add: attribution_def no_attribution_def)
  have op: "operation (lit ''events.example'') = Inr (lit ''events.example'')"
    by (simp add: operation_def validOperation_def matches_def operation_unit_def str_simps)
  have "steady (Suc 2) w0" using n0(2) by (simp add: eval_nat_numeral)
  from enter_succeeds[OF this ex at] obtain sc w1 where sc: "factory_enter v7w_factory (events_spec at ex)
      (Made (inspectIncoming fresh_hints)) w0 = (Inr sc, w1)" "steady 2 w1" by metis
  note k = entered_work[OF sc(1)]
  obtain lg where lg: "log_withScope (Made sc) logger_new = Inr lg" using log_scope_succeeds by blast
  have "steady (Suc 1) w1" using sc(2) by (simp add: eval_nat_numeral)
  then obtain i w2 where i: "v7w_newId w1 = (Inr i, w2)" "validID i" "steady 1 w2" using steady_newId by metis
  let ?now = "wt_wall wt (tb_asked w)"
  have now: "0 \<le> ?now" "?now \<le> 253402300799999" using assms(3) by (simp_all add: fair_def)
  then have wall: "\<bar>?now\<bar> \<le> max_safe" by (simp add: max_safe_def)
  obtain e where e: "env_create i (lit ''diagnostic.created.v1'') (dbl_of_int ?now) (Made (sp_work sc)) (JObj [(lit ''example'', JBool True)]) = Inr e"
    using event_made[OF i(2) k(2) at k(3)[unfolded k(1)] now] unfolding k(1) by blast
  have st: "env_stable e" "en_id e = i"
    using created_stable[OF e i(2) wall] events_work_genuine[OF at k(3)[unfolded k(1)]] k(1) by auto
  let ?a = "tb_asked w"
  define v where "v = w\<lparr>tb_outbox := [new_orow (wt_now wt (?a + 1)) (en_id e) (env_text e)], tb_asked := ?a + 2\<rparr>"
  have q: "table_enqueue jsonb wt e (w\<lparr>tb_asked := Suc ?a\<rparr>) = (Inr (), v)"
    using enqueue_fair[of wt "w\<lparr>tb_asked := Suc ?a\<rparr>" jsonb e] assms(3-5) st(1) by (simp add: fresh_tables_def v_def)
  define s1 where "s1 = \<lparr>ew_out = v\<lparr>tb_asked := ?a + 3\<rparr>, ew_ids = w2, ew_steps = [Opened LogPart, Opened DatabasePart, Enqueued e,
     Logged Info ''events.enqueued'', Logged Info ''events.transport.selected'']\<rparr>"
  have "wt_elapsed wt (Suc (?a + 2)) < wt_elapsed wt (?a + 2) + 10000" using assms(3) by (simp add: fair_def)
  then have "\<exists>s'. event_loop ?sv False i (wt_elapsed wt (?a + 2) + 10000) 32 s1 = (Inr 0, s')"
    using loop_fair[OF assms(3), of s1 "?a + 1" e jsonb 0] assms(4,5) st i(3) by (simp add: s1_def v_def fresh_tables_def eval_nat_numeral)
  then obtain s2 where l: "event_loop ?sv False i (wt_elapsed wt (?a + 2) + 10000) 32 s1 = (Inr 0, s2)" by blast
  define s0 where "s0 = mark (Opened LogPart) (?s\<lparr>ew_ids := w0\<rparr>)"
  have o: "wt_opens wt" "wt_migrates wt" using assms(3) by (simp_all add: fair_def)
  have "events_body ?sv c s0 = event_loop ?sv False i (wt_elapsed wt (?a + 2) + 10000) 32 s1"
    unfolding events_body_def assms(2) option.case bind_return s0_def s1_def
    by (simp add: act_eval o ex op at sc(1) lg i(1) e q asked_def start_world_def v_def numeral_2_eq_2 numeral_3_eq_3 del: event_loop.simps)
  then have "run_events ?sv canFlush lk ?s = (Inr 0, events_close s2)"
    using assms(1) rt l n0(1) by (simp add: run_events_def act_call_def with_ids_def unwrap_def s0_def)
  then show ?thesis by blast
qed

text \<open>
  C5: in fair weather the event is delivered over the PostgreSQL transport. The settings load for it, the tables are fresh and
  empty, the database opens and migrates, every transaction commits with nothing locked and nothing aborted, the clocks
  do not go back and move less than ten seconds from one question to the next, the wall clock is between 1970 and 9999, the
  database can hold the text of every event that decodes to itself, and the clock and the entropy of the
  identifiers answer. Then the run exits with 0. A backlog is not covered: the event may then wait longer than 32 rounds.
\<close>

theorem run_delivers:
  assumes "load_events lk = Inr (Some c)" "es_broker c = None" "fair wt" "fresh_tables w"
    and "\<And>e. env_stable e \<Longrightarrow> jsonb (env_text e) \<noteq> None"
    and "steady 4 \<lparr>vw_clock = clk, vw_entropy = ent, vw_calls = 0, vw_gen = v7_new\<rparr>"
  shows "\<exists>s'. run_events (table_services jsonb wt) canFlush lk (start_world clk ent w) = (Inr 0, s')"
  using assms by (rule fair_run)

section \<open>Witnesses\<close>

definition sample_weather :: "unit weather" where
  "sample_weather = \<lparr>wt_call = (\<lambda>k. good_call), wt_now = int, wt_locked = (\<lambda>k. []), wt_elapsed = int, wt_wall = (\<lambda>k. 5),
     wt_aborted = (\<lambda>k. False), wt_opens = True, wt_migrates = True,
     wt_jetUrl = (\<lambda>s. None), wt_connects = True, wt_platform = sample_platform,
     wt_nats = (\<lambda>rq n. (if rq = next_request sample_jet
       then Some \<lparr>ms_data = sample_event 8, ms_reply = Some (lit ''reply''), ms_code = None\<rparr> else None, n))\<rparr>"

definition no_tables :: "unit tables" where
  "no_tables = \<lparr>tb_outbox = [], tb_mailbox = [], tb_handled = [], tb_asked = 0, tb_jet = None, tb_nats = ()\<rparr>"

lemma sample_conditions:
  "fair sample_weather" "fresh_tables no_tables" "tables_ok no_tables"
  "steady 4 \<lparr>vw_clock = (\<lambda>i. Date 0), vw_entropy = (\<lambda>i. Inr []), vw_calls = 0, vw_gen = v7_new\<rparr>"
  by (simp_all add: fair_def sample_weather_def fresh_tables_def no_tables_def tables_ok_def texts_stable_def mb_inv_def
      processed_at_def steady_def v7_inv_def v7_new_def)

lemma sample_stream: "stream_sound sample_weather"
  using sample_decodes[of 8] sample_stable[of 8] by (auto simp: stream_sound_def sample_weather_def split: if_splits)

theorem run_delivers_witness:
  "\<exists>s'. run_events (table_services Some sample_weather) True events_env (start_world (\<lambda>i. Date 0) (\<lambda>i. Inr []) no_tables) = (Inr 0, s')"
proof -
  obtain c where "load_events events_env = Inr (Some c)" "es_broker c = None" by (rule events_loads)
  from run_delivers[OF this sample_conditions(1,2) _ sample_conditions(4), of Some] show ?thesis by simp
qed

theorem run_handles_once_witness:
  "\<exists>s' (e :: envelope). run_events (table_services Some sample_weather) True events_env (start_world (\<lambda>i. Date 0) (\<lambda>i. Inr []) no_tables) = (Inr 0, s')
     \<and> processed_at (tb_mailbox (ew_out s')) (en_id e)"
proof -
  obtain c where c: "load_events events_env = Inr (Some c)" "es_broker c = None" by (rule events_loads)
  obtain s' where r: "run_events (table_services Some sample_weather) True events_env (start_world (\<lambda>i. Date 0) (\<lambda>i. Inr []) no_tables) = (Inr 0, s')"
    using fair_run[OF c sample_conditions(1,2) _ sample_conditions(4), of Some] by auto
  from run_handles_once[OF r sample_conditions(3) _ sample_stream] have "\<exists>e :: envelope. processed_at (tb_mailbox (ew_out s')) (en_id e)"
    by (auto simp: sample_weather_def)
  with r show ?thesis by blast
qed

end
