(* ===== verification/HttpServer.thy ===== *)
theory HttpServer
  imports Http Texts Factory
begin

text \<open>
  \<open>src/shared/http/nest/server.ts\<close>: from the arrival of a request to the observation of its completion. Express
  and Node's streams are the environment: the data of a body, the end of a handler, the deadline, and the
  \<open>finish\<close>, \<open>close\<close> and \<open>error\<close> of the response are events, in any order and for many requests at once.
\<close>

section \<open>Requests and replies\<close>

text \<open>The framework's view of a request; the last three are the headers by name.\<close>

record http_request =
  rq_method :: str
  rq_path :: str
  rq_raw :: "str list"
  rq_contentLength :: "str option"
  rq_transferEncoding :: "str option"
  rq_contentType :: "str option"

text \<open>A problem with the identifiers of its scope, or the text of a value.\<close>

datatype reply_body = ProblemBody problem_doc "(id \<times> id option) option" | JsonBody str

record reply =
  rp_status :: int
  rp_body :: reply_body

record route =
  ro_path :: str
  ro_operation :: str

record server_config =
  sc_routes :: "route list"
  sc_timeoutMs :: number
  sc_maxBody :: number
  sc_maxActive :: number

text \<open>\<open>None\<close> is the \<open>Error\<close> the constructor throws.\<close>

definition http_server_new :: "server_config \<Rightarrow> server_config option" where
  "http_server_new c =
     (if \<not> is_integer (sc_timeoutMs c) \<or> num_lt (sc_timeoutMs c) 1 \<or> num_lt (sc_maxBody c) 1 \<or> num_lt (sc_maxActive c) 1
        \<or> \<not> distinct (map ro_path (sc_routes c))
      then None else Some c)"

section \<open>The state of a request\<close>

text \<open>Where \<open>handle\<close> is: not called, reading the body, racing the handler, about to answer, or returned.\<close>

datatype phase = Arrived | Reading nat | Racing | Answering | Returned

text \<open>What a handler's success prints to, or what printing it throws.\<close>

type_synonym printed = "jsval + str"

record http_state =
  hs_request :: http_request
  hs_route :: "route option"
  hs_scope :: "scope option"
  hs_selected :: "jsval option"
  hs_termination :: str
  hs_aborted :: bool
  hs_phase :: phase
  hs_protocol :: "int option"
  hs_result :: printed
  hs_working :: bool
  hs_headers :: "(str \<times> str) list"
  hs_sent :: "int option"
  hs_replies :: "reply list"
  hs_finished :: bool
  hs_closed :: bool
  hs_errored :: bool
  hs_destroyed :: bool
  hs_active :: active
  hs_observed :: "(nat \<times> completion) list"

definition select :: "jsval \<Rightarrow> http_state \<Rightarrow> http_state" where
  "select e s = s\<lparr>hs_selected := Some e\<rparr>"

definition correlation_hint :: "http_request \<Rightarrow> incoming_hints" where
  "correlation_hint rq = \<lparr>ih_correlation = (case raw_values ''x-correlation-id'' (rq_raw rq) of
     [] \<Rightarrow> None | [v] \<Rightarrow> Some v | _ \<Rightarrow> Some []), ih_causation = None\<rparr>"

text \<open>
  \<open>middleware\<close>. \<open>open\<close> makes the scope of an operation; \<open>outs\<close> are the two outputs of the observation, the
  observer and the log, asked whether they throw.
\<close>

definition middleware :: "server_config \<Rightarrow> (str \<Rightarrow> incoming \<Rightarrow> scope result) \<Rightarrow> (completion \<Rightarrow> bool) list \<Rightarrow> int
    \<Rightarrow> http_request \<Rightarrow> http_state" where
  "middleware c open_scope outs now rq =
     (let route = find (\<lambda>r. ro_path r = rq_path rq) (sc_routes c);
          s = \<lparr>hs_request = rq, hs_route = route, hs_scope = None, hs_selected = None,
            hs_termination = lit ''response_completed'', hs_aborted = False, hs_phase = Arrived, hs_protocol = None,
            hs_result = Inr (lit ''{\"ok\":true}''), hs_working = False, hs_headers = [], hs_sent = None, hs_replies = [],
            hs_finished = False, hs_closed = False, hs_errored = False, hs_destroyed = False,
            hs_active = active_new now outs, hs_observed = []\<rparr> in
      case open_scope (case route of None \<Rightarrow> lit ''http.unmatched'' | Some r \<Rightarrow> ro_operation r)
          (inspectIncoming (correlation_hint rq)) of
        Inl e \<Rightarrow> select (FailureV e) s
      | Inr sc \<Rightarrow> s\<lparr>hs_scope := Some sc, hs_headers := [(lit ''X-Request-ID'', sp_scopeId sc),
          (lit ''X-Correlation-ID'', case wk_correlationId (sp_work sc) of Some i \<Rightarrow> i | None \<Rightarrow> lit ''undefined'')]\<rparr>)"

definition http_refusal :: "kind \<Rightarrow> string \<Rightarrow> string \<Rightarrow> jsval" where
  "http_refusal k m code = FailureV (fail k m (''http.'' @ code))"

section \<open>handle\<close>

definition has_body :: "http_request \<Rightarrow> bool" where
  "has_body rq \<longleftrightarrow> (case rq_contentLength rq of None \<Rightarrow> False | Some l \<Rightarrow> l \<noteq> lit ''0'')
     \<or> (case rq_transferEncoding rq of None \<Rightarrow> False | Some t \<Rightarrow> t \<noteq> [])"

definition is_json_type :: "http_request \<Rightarrow> bool" where
  "is_json_type rq \<longleftrightarrow> (case rq_contentType rq of None \<Rightarrow> False
     | Some t \<Rightarrow> js_trim (hd (split_on 59 t)) = lit ''application/json'')"

definition num_le :: "number \<Rightarrow> int \<Rightarrow> bool" where
  "num_le x n \<longleftrightarrow> num_lt x n \<or> num_eq x n"

text \<open>The part from the count of the workers: \<open>workers\<close> is their number.\<close>

definition admit :: "server_config \<Rightarrow> nat \<Rightarrow> http_state \<Rightarrow> http_state" where
  "admit c workers s =
     (if hs_selected s \<noteq> None then s\<lparr>hs_phase := Answering\<rparr>
      else if num_le (sc_maxActive c) (int workers)
      then (select (http_refusal Unavailable ''server busy'' ''busy'') s)\<lparr>hs_phase := Answering\<rparr>
      else s\<lparr>hs_working := True, hs_phase := Racing\<rparr>)"

definition check_route :: "http_state \<Rightarrow> http_state" where
  "check_route s = (if hs_selected s = None \<and> hs_route s = None
     then select (http_refusal Not_found ''route not found'' ''not_found'') s else s)"

definition check_method :: "http_state \<Rightarrow> http_state" where
  "check_method s = (if hs_selected s = None \<and> rq_method (hs_request s) \<notin> set [lit ''GET'', lit ''HEAD'']
     then (select (http_refusal Invalid ''method not allowed'' ''method_not_allowed'') s)
       \<lparr>hs_protocol := Some 405, hs_headers := hs_headers s @ [(lit ''Allow'', lit ''GET, HEAD'')]\<rparr>
     else s)"

definition handle_start :: "server_config \<Rightarrow> nat \<Rightarrow> http_state \<Rightarrow> http_state" where
  "handle_start c workers s0 =
     (if hs_phase s0 \<noteq> Arrived then s0
      else
        let s = check_method (check_route s0) in
        if hs_selected s = None \<and> has_body (hs_request s)
        then if is_json_type (hs_request s) then s\<lparr>hs_phase := Reading 0\<rparr>
          else admit c workers ((select (http_refusal Invalid ''unsupported media type'' ''unsupported_media_type'') s)
            \<lparr>hs_protocol := Some 415\<rparr>)
        else admit c workers s)"

text \<open>What \<open>readBody\<close> resolves to: nothing, or the status of a rejection.\<close>

definition body_rejection :: "int \<Rightarrow> jsval" where
  "body_rejection n =
     (if n = 408 then http_refusal Invalid ''request body timed out'' ''request_timeout''
      else if n = 413 then http_refusal Invalid ''request body too large'' ''body_too_large''
      else http_refusal Invalid ''invalid request body'' ''invalid_body'')"

definition body_read :: "server_config \<Rightarrow> nat \<Rightarrow> int option \<Rightarrow> http_state \<Rightarrow> http_state" where
  "body_read c workers rejected s = (case rejected of
     None \<Rightarrow> admit c workers s
   | Some n \<Rightarrow> admit c workers ((select (body_rejection n) s)\<lparr>hs_protocol := Some n,
       hs_termination := (if n = 408 then lit ''deadline'' else hs_termination s),
       hs_headers := hs_headers s @ [(lit ''Connection'', lit ''close'')]\<rparr>))"

datatype body_event = BodyData nat | BodyEnd | BodyBroken | BodyTimer

definition on_body :: "server_config \<Rightarrow> nat \<Rightarrow> body_event \<Rightarrow> http_state \<Rightarrow> http_state" where
  "on_body c workers e s = (case hs_phase s of
     Reading got \<Rightarrow>
       (case e of
          BodyData n \<Rightarrow> if num_lt (sc_maxBody c) (int (got + n)) then body_read c workers (Some 413) s
            else s\<lparr>hs_phase := Reading (got + n)\<rparr>
        | BodyEnd \<Rightarrow> body_read c workers None s
        | BodyBroken \<Rightarrow> body_read c workers (Some 400) s
        | BodyTimer \<Rightarrow> body_read c workers (Some 408) s)
   | _ \<Rightarrow> s)"

text \<open>The handler settles, with what it returned or threw; its worker is gone, and it counts when it wins the race.\<close>

definition on_work :: "jsval + printed \<Rightarrow> http_state \<Rightarrow> http_state" where
  "on_work r s =
     (if \<not> hs_working s then s
      else
        let s1 = s\<lparr>hs_working := False\<rparr> in
        if hs_phase s \<noteq> Racing then s1
        else (case r of
            Inl e \<Rightarrow> (select e s1)\<lparr>hs_phase := Answering\<rparr>
          | Inr v \<Rightarrow> s1\<lparr>hs_result := v, hs_phase := Answering\<rparr>))"

definition on_deadline :: "http_state \<Rightarrow> http_state" where
  "on_deadline s =
     (if hs_phase s \<noteq> Racing then s
      else (select (http_refusal Timeout ''request timed out'' ''timeout'') s)
        \<lparr>hs_termination := lit ''deadline'', hs_aborted := True, hs_phase := Answering\<rparr>)"

section \<open>Answering\<close>

definition protocol_title :: "int \<Rightarrow> str" where
  "protocol_title p = (if p = 405 then lit ''Method Not Allowed'' else if p = 408 then lit ''Request Timeout''
     else if p = 413 then lit ''Payload Too Large'' else lit ''Unsupported Media Type'')"

definition problem_reply :: "http_state \<Rightarrow> jsval \<Rightarrow> reply" where
  "problem_reply s e =
     (let problem = the (problemOf (Inl e :: jsval + unit));
          body = (case hs_protocol s of None \<Rightarrow> problem
            | Some p \<Rightarrow> problem\<lparr>pb_status := p, pb_title := protocol_title p\<rparr>) in
      \<lparr>rp_status = pb_status body, rp_body = ProblemBody body
         (case hs_scope s of None \<Rightarrow> None | Some sc \<Rightarrow> Some (sp_scopeId sc, wk_correlationId (sp_work sc)))\<rparr>)"

definition send_reply :: "reply \<Rightarrow> http_state \<Rightarrow> http_state" where
  "send_reply r s = s\<lparr>hs_sent := Some (rp_status r), hs_replies := hs_replies s @ [r], hs_phase := Returned\<rparr>"

text \<open>The \<open>catch\<close> block; sending the plain problem document from it does not throw in turn.\<close>

definition handle_catch :: "jsval \<Rightarrow> http_state \<Rightarrow> http_state" where
  "handle_catch e s =
     (if hs_sent s \<noteq> None
      then (select e s)\<lparr>hs_termination := lit ''handler_error'', hs_destroyed := True, hs_phase := Returned\<rparr>
      else send_reply \<lparr>rp_status = 500, rp_body = ProblemBody (the (problemOf (Inl e :: jsval + unit))) None\<rparr> (select e s))"

text \<open>Sending; \<open>thrown\<close> is what \<open>send\<close> throws, and whether the headers are out by then.\<close>

definition try_send :: "(jsval \<times> bool) option \<Rightarrow> reply \<Rightarrow> http_state \<Rightarrow> http_state" where
  "try_send thrown r s = (case thrown of
     None \<Rightarrow> send_reply r s
   | Some (e, out) \<Rightarrow> handle_catch e (if out then s\<lparr>hs_sent := Some (rp_status r)\<rparr> else s))"

definition on_answer :: "(jsval \<times> bool) option \<Rightarrow> http_state \<Rightarrow> http_state" where
  "on_answer thrown s =
     (if hs_phase s \<noteq> Answering then s
      else if hs_destroyed s then s\<lparr>hs_phase := Returned\<rparr>
      else (case hs_selected s of
          Some e \<Rightarrow> try_send thrown (problem_reply s e) s
        | None \<Rightarrow> (case hs_result s of
              Inl e \<Rightarrow> handle_catch e s
            | Inr text \<Rightarrow> try_send thrown \<lparr>rp_status = 200, rp_body = JsonBody text\<rparr> s)))"

section \<open>Completion\<close>

definition facts_of :: "http_state \<Rightarrow> facts" where
  "facts_of s = \<lparr>ft_status = map_option Whole (hs_sent s),
     ft_failureKind = (case hs_selected s of None \<Rightarrow> Undefined
       | Some e \<Rightarrow> Str (kind_name (case kindOf e of None \<Rightarrow> Internal | Some k \<Rightarrow> k))),
     ft_termination = hs_termination s\<rparr>"

definition finish_request :: "bool \<Rightarrow> int \<Rightarrow> http_state \<Rightarrow> http_state" where
  "finish_request closed now s0 =
     (let s = (if closed \<and> \<not> hs_finished s0 then s0\<lparr>hs_termination := lit ''peer_closed'', hs_aborted := True\<rparr> else s0) in
      case active_finish (Some (facts_of s)) now (hs_active s) of
        (_, calls, a) \<Rightarrow> s\<lparr>hs_active := a, hs_observed := hs_observed s @ calls\<rparr>)"

text \<open>The three events of the response, each once; a response finishes only after it was sent, and an error may destroy it.\<close>

definition on_finish :: "int \<Rightarrow> http_state \<Rightarrow> http_state" where
  "on_finish now s = (if hs_finished s \<or> hs_sent s = None \<or> hs_destroyed s then s
     else finish_request False now (s\<lparr>hs_finished := True\<rparr>))"

definition on_closed :: "int \<Rightarrow> http_state \<Rightarrow> http_state" where
  "on_closed now s = (if hs_closed s then s
     else finish_request True now (s\<lparr>hs_closed := True, hs_destroyed := True\<rparr>))"

definition on_write_error :: "bool \<Rightarrow> int \<Rightarrow> http_state \<Rightarrow> http_state" where
  "on_write_error destroyed now s = (if hs_errored s then s
     else finish_request False now (s\<lparr>hs_errored := True, hs_termination := lit ''write_error'',
       hs_destroyed := (hs_destroyed s \<or> destroyed)\<rparr>))"

text \<open>What the log is given for a completion: its level and its fields without the duration.\<close>

definition completion_level :: "completion \<Rightarrow> str" where
  "completion_level c = (let o' = cl_outcome (co_classification c) in
     if o' = Failed then lit ''error'' else if o' \<in> set [CanceledOutcome, TimedOut] then lit ''warn'' else lit ''info'')"

definition completion_fields :: "http_state \<Rightarrow> completion \<Rightarrow> (str \<times> jsval) list" where
  "completion_fields s c =
     [(lit ''method'', Str (normalizeMethod (rq_method (hs_request s))))]
     @ (case hs_route s of None \<Rightarrow> [] | Some r \<Rightarrow> [(lit ''route'', Str (ro_path r))])
     @ (case ft_status (co_facts c) of None \<Rightarrow> [] | Some n \<Rightarrow> [(lit ''status'', Num n)])
     @ [(lit ''outcome'', Str (outcome_name (cl_outcome (co_classification c)))),
        (lit ''termination'', Str (ft_termination (co_facts c)))]"

section \<open>The server\<close>

record http_server =
  sv_config :: server_config
  sv_requests :: "http_state list"

definition workers :: "http_server \<Rightarrow> nat" where
  "workers v = length (filter hs_working (sv_requests v))"

datatype request_event = HandleCall | Body body_event | Work "jsval + printed" | Deadline | Answer "(jsval \<times> bool) option"
  | Finish int | Close int | WriteError bool int

fun request_apply :: "server_config \<Rightarrow> nat \<Rightarrow> request_event \<Rightarrow> http_state \<Rightarrow> http_state" where
  "request_apply c w HandleCall s = handle_start c w s"
| "request_apply c w (Body e) s = on_body c w e s"
| "request_apply c w (Work r) s = on_work r s"
| "request_apply c w Deadline s = on_deadline s"
| "request_apply c w (Answer thrown) s = on_answer thrown s"
| "request_apply c w (Finish now) s = on_finish now s"
| "request_apply c w (Close now) s = on_closed now s"
| "request_apply c w (WriteError destroyed now) s = on_write_error destroyed now s"

datatype http_event = Arrive "str \<Rightarrow> incoming \<Rightarrow> scope result" "(completion \<Rightarrow> bool) list" int http_request
  | Request nat request_event

fun http_apply :: "http_event \<Rightarrow> http_server \<Rightarrow> http_server" where
  "http_apply (Arrive open_scope outs now rq) v =
     v\<lparr>sv_requests := sv_requests v @ [middleware (sv_config v) open_scope outs now rq]\<rparr>"
| "http_apply (Request i e) v =
     (if i < length (sv_requests v)
      then v\<lparr>sv_requests := (sv_requests v)[i := request_apply (sv_config v) (workers v) e (sv_requests v ! i)]\<rparr> else v)"

definition http_run :: "http_event list \<Rightarrow> http_server \<Rightarrow> http_server" where
  "http_run es v = fold http_apply es v"

text \<open>\<open>drain\<close>: the workers of the moment of the call have ended, or the time is over; it returns either way.\<close>

definition drain_call :: "http_server \<Rightarrow> nat list" where
  "drain_call v = filter (\<lambda>i. hs_working (sv_requests v ! i)) [0..<length (sv_requests v)]"

definition drain_returns :: "nat list \<Rightarrow> bool \<Rightarrow> http_server \<Rightarrow> bool" where
  "drain_returns waiting timer v \<longleftrightarrow> timer \<or> list_all (\<lambda>i. \<not> hs_working (sv_requests v ! i)) waiting"

section \<open>Guards\<close>

definition guarded :: "http_state \<Rightarrow> bool" where
  "guarded s \<longleftrightarrow> hs_route s \<noteq> None \<and> rq_method (hs_request s) \<in> set [lit ''GET'', lit ''HEAD''] \<and> hs_scope s \<noteq> None"

text \<open>What a request is admitted for: a handler only ever runs for a known route, a safe method and an open scope.\<close>

definition route_inv :: "http_state \<Rightarrow> bool" where
  "route_inv s \<longleftrightarrow> (hs_selected s = None \<longrightarrow> hs_scope s \<noteq> None)
     \<and> (hs_phase s \<noteq> Arrived \<and> hs_selected s = None \<longrightarrow> guarded s) \<and> (hs_working s \<longrightarrow> guarded s)
     \<and> (hs_phase s = Racing \<longrightarrow> hs_working s \<and> hs_selected s = None)
     \<and> (\<forall>n. hs_phase s = Reading n \<longrightarrow> hs_selected s = None)
     \<and> (hs_working s \<longrightarrow> hs_phase s \<in> {Racing, Answering, Returned})"

lemma select_simps [simp]:
  "hs_selected (select e s) = Some e" "hs_phase (select e s) = hs_phase s" "hs_working (select e s) = hs_working s"
  "hs_scope (select e s) = hs_scope s" "hs_route (select e s) = hs_route s" "hs_request (select e s) = hs_request s"
  "hs_sent (select e s) = hs_sent s" "hs_replies (select e s) = hs_replies s" "hs_protocol (select e s) = hs_protocol s"
  "hs_termination (select e s) = hs_termination s" "hs_active (select e s) = hs_active s"
  "hs_observed (select e s) = hs_observed s" "hs_closed (select e s) = hs_closed s" "hs_finished (select e s) = hs_finished s"
  "hs_destroyed (select e s) = hs_destroyed s"
  by (simp_all add: select_def)

lemma checked:
  "hs_phase (check_method (check_route s)) = hs_phase s" "hs_working (check_method (check_route s)) = hs_working s"
  "hs_scope (check_method (check_route s)) = hs_scope s" "hs_route (check_method (check_route s)) = hs_route s"
  "hs_request (check_method (check_route s)) = hs_request s" "hs_sent (check_method (check_route s)) = hs_sent s"
  "hs_replies (check_method (check_route s)) = hs_replies s" "hs_termination (check_method (check_route s)) = hs_termination s"
  "hs_active (check_method (check_route s)) = hs_active s" "hs_observed (check_method (check_route s)) = hs_observed s"
  "hs_closed (check_method (check_route s)) = hs_closed s" "hs_finished (check_method (check_route s)) = hs_finished s"
  "hs_selected (check_method (check_route s)) = None \<Longrightarrow> hs_selected s = None \<and> hs_route s \<noteq> None
     \<and> rq_method (hs_request s) \<in> set [lit ''GET'', lit ''HEAD'']"
  "hs_protocol (check_method (check_route s)) \<in> {hs_protocol s, Some 405}"
  by (auto simp: check_method_def check_route_def split: if_splits)

lemma admit_route:
  assumes "hs_selected s = None \<longrightarrow> guarded s" "\<not> hs_working s"
  shows "route_inv (admit c w s)"
  using assms by (auto simp: admit_def route_inv_def guarded_def)

lemma body_read_route:
  assumes "hs_selected s = None \<longrightarrow> guarded s" "\<not> hs_working s"
  shows "route_inv (body_read c w r s)"
  using assms by (auto simp: body_read_def guarded_def intro!: admit_route split: option.split)

lemma handle_start_route: "route_inv s \<Longrightarrow> route_inv (handle_start c w s)"
proof (cases "hs_phase s = Arrived")
  case True
  assume r: "route_inv s"
  let ?t = "check_method (check_route s)"
  have g: "hs_selected ?t = None \<Longrightarrow> guarded ?t" and w: "\<not> hs_working ?t"
    using r True checked(13)[of s] by (auto simp: route_inv_def guarded_def checked(1-5))
  then show ?thesis
    using True by (auto simp: handle_start_def Let_def intro!: admit_route)
      (auto simp: route_inv_def guarded_def)
qed (simp add: handle_start_def)

lemma on_body_route: "route_inv s \<Longrightarrow> route_inv (on_body c w e s)"
proof (cases "hs_phase s")
  case (Reading n)
  assume r: "route_inv s"
  then have "hs_selected s = None \<longrightarrow> guarded s" "\<not> hs_working s" using Reading by (auto simp: route_inv_def)
  from body_read_route[OF this] r show ?thesis
    using Reading by (auto simp: on_body_def split: body_event.split) (auto simp: route_inv_def guarded_def)
qed (simp_all add: on_body_def)

lemma finish_request_simps [simp]:
  "hs_selected (finish_request b now s) = hs_selected s" "hs_phase (finish_request b now s) = hs_phase s"
  "hs_working (finish_request b now s) = hs_working s" "hs_scope (finish_request b now s) = hs_scope s"
  "hs_route (finish_request b now s) = hs_route s" "hs_request (finish_request b now s) = hs_request s"
  "hs_sent (finish_request b now s) = hs_sent s" "hs_replies (finish_request b now s) = hs_replies s"
  "hs_protocol (finish_request b now s) = hs_protocol s" "hs_closed (finish_request b now s) = hs_closed s"
  "hs_finished (finish_request b now s) = hs_finished s"
  by (auto simp: finish_request_def Let_def split: prod.split)

lemma send_reply_simps [simp]:
  "hs_selected (send_reply r s) = hs_selected s" "hs_working (send_reply r s) = hs_working s" "hs_phase (send_reply r s) = Returned"
  "hs_scope (send_reply r s) = hs_scope s" "hs_route (send_reply r s) = hs_route s" "hs_request (send_reply r s) = hs_request s"
  "hs_sent (send_reply r s) = Some (rp_status r)" "hs_replies (send_reply r s) = hs_replies s @ [r]"
  "hs_protocol (send_reply r s) = hs_protocol s" "hs_termination (send_reply r s) = hs_termination s"
  "hs_active (send_reply r s) = hs_active s" "hs_observed (send_reply r s) = hs_observed s"
  "hs_closed (send_reply r s) = hs_closed s" "hs_finished (send_reply r s) = hs_finished s"
  by (simp_all add: send_reply_def)

lemma route_finish: "route_inv (finish_request b now s) = route_inv s"
  by (simp add: route_inv_def guarded_def)

lemma route_flags:
  "route_inv (s\<lparr>hs_finished := b\<rparr>) = route_inv s"
  "route_inv (s\<lparr>hs_closed := b, hs_destroyed := d\<rparr>) = route_inv s"
  "route_inv (s\<lparr>hs_destroyed := d, hs_errored := b, hs_termination := t\<rparr>) = route_inv s"
  "route_inv (s\<lparr>hs_errored := b, hs_termination := t, hs_destroyed := d\<rparr>) = route_inv s"
  by (simp_all add: route_inv_def guarded_def)

lemma request_route: "route_inv s \<Longrightarrow> route_inv (request_apply c w e s)"
proof (cases e)
  case (Work r)
  assume "route_inv s"
  then show ?thesis using Work by (auto simp: on_work_def route_inv_def guarded_def Let_def split: sum.split)
next
  case Deadline
  assume "route_inv s"
  then show ?thesis using Deadline by (auto simp: on_deadline_def route_inv_def guarded_def)
next
  case (Answer thrown)
  assume "route_inv s"
  then show ?thesis using Answer
    by (auto simp: on_answer_def try_send_def handle_catch_def route_inv_def guarded_def
        split: option.split sum.split)
qed (simp_all add: handle_start_route on_body_route on_finish_def on_closed_def on_write_error_def route_finish route_flags)

section \<open>Replies\<close>

definition terminations :: "str set" where
  "terminations = {lit ''response_completed'', lit ''peer_closed'', lit ''deadline'', lit ''handler_error'', lit ''write_error''}"

definition protocols :: "int set" where
  "protocols = {400, 405, 408, 413, 415}"

definition problem_ok :: "http_state \<Rightarrow> jsval \<Rightarrow> problem_doc \<Rightarrow> bool" where
  "problem_ok s e p \<longleftrightarrow> (let p0 = the (problemOf (Inl e :: jsval + unit)) in
     p = p0 \<or> (case hs_protocol s of None \<Rightarrow> False | Some q \<Rightarrow> p = p0\<lparr>pb_status := q, pb_title := protocol_title q\<rparr>))"

text \<open>
  A reply fits its request: the printed value with 200 when nothing failed; else the problem of the
  selected failure, under its status, that of the protocol, or 500 when answering itself failed.
\<close>

definition reply_ok :: "http_state \<Rightarrow> reply \<Rightarrow> bool" where
  "reply_ok s r \<longleftrightarrow> (case hs_selected s of
     None \<Rightarrow> rp_status r = 200 \<and> (case rp_body r of JsonBody t \<Rightarrow> True | _ \<Rightarrow> False)
   | Some e \<Rightarrow> 400 \<le> rp_status r \<and> rp_status r \<le> 599
       \<and> (case rp_body r of ProblemBody p ids \<Rightarrow> problem_ok s e p \<and> (rp_status r = pb_status p \<or> rp_status r = 500) | _ \<Rightarrow> False))"

definition replies_ok :: "http_state \<Rightarrow> bool" where
  "replies_ok s \<longleftrightarrow> (case hs_replies s of
     [] \<Rightarrow> hs_sent s \<noteq> None \<longrightarrow> hs_termination s \<noteq> lit ''response_completed''
   | [r] \<Rightarrow> hs_sent s = Some (rp_status r) \<and> reply_ok s r
   | _ \<Rightarrow> False)"

definition reply_inv :: "http_state \<Rightarrow> bool" where
  "reply_inv s \<longleftrightarrow> (hs_phase s \<noteq> Returned \<longrightarrow> hs_sent s = None \<and> hs_replies s = [])
     \<and> replies_ok s \<and> (case hs_sent s of None \<Rightarrow> True | Some n \<Rightarrow> 200 \<le> n \<and> n \<le> 599)
     \<and> (case hs_protocol s of None \<Rightarrow> True | Some q \<Rightarrow> q \<in> protocols) \<and> hs_termination s \<in> terminations"

text \<open>Before the answer only the protocol and the termination matter.\<close>

definition early :: "http_state \<Rightarrow> bool" where
  "early s \<longleftrightarrow> hs_sent s = None \<and> hs_replies s = [] \<and> (case hs_protocol s of None \<Rightarrow> True | Some q \<Rightarrow> q \<in> protocols)
     \<and> hs_termination s \<in> terminations"

lemma early_reply_inv: "early s \<Longrightarrow> reply_inv s"
  by (auto simp: early_def reply_inv_def replies_ok_def)

lemma reply_inv_early: "reply_inv s \<Longrightarrow> hs_phase s \<noteq> Returned \<Longrightarrow> early s"
  by (auto simp: early_def reply_inv_def)

lemma early_admit: "early s \<Longrightarrow> early (admit c w s)"
  by (simp add: admit_def early_def)

lemma early_body_read:
  "early s \<Longrightarrow> early (body_read c w None s)" "early s \<Longrightarrow> n \<in> {400, 408, 413} \<Longrightarrow> early (body_read c w (Some n) s)"
proof -
  show "early s \<Longrightarrow> early (body_read c w None s)" by (simp add: body_read_def early_admit)
  assume s: "early s" and n: "n \<in> {400, 408, 413}"
  show "early (body_read c w (Some n) s)"
    unfolding body_read_def option.case
    by (rule early_admit) (use s n in \<open>auto simp: early_def protocols_def terminations_def\<close>)
qed

lemma early_checked: "early s \<Longrightarrow> early (check_method (check_route s))"
proof -
  assume s: "early s"
  have "early (check_route s)" using s by (simp add: check_route_def early_def)
  then show ?thesis by (simp add: check_method_def early_def protocols_def)
qed

lemma early_handle_start: "early s \<Longrightarrow> early (handle_start c w s)"
proof -
  assume e: "early s"
  let ?t = "check_method (check_route s)"
  have t: "early ?t" by (rule early_checked[OF e])
  then have "early ((select (http_refusal Invalid ''unsupported media type'' ''unsupported_media_type'') ?t)\<lparr>hs_protocol := Some 415\<rparr>)"
    "early (?t\<lparr>hs_phase := Reading 0\<rparr>)"
    by (simp_all add: early_def protocols_def)
  then show ?thesis using e t early_admit by (simp add: handle_start_def Let_def)
qed

lemma early_on_body: "early s \<Longrightarrow> early (on_body c w e s)"
proof (cases "hs_phase s")
  case (Reading n)
  assume s: "early s"
  then have "early (s\<lparr>hs_phase := x\<rparr>)" for x by (simp add: early_def)
  then show ?thesis using s Reading by (cases e) (simp_all add: on_body_def early_body_read)
qed (simp_all add: on_body_def)

lemma kind_status_range: "400 \<le> kind_status k \<and> kind_status k \<le> 503"
  by (cases k) simp_all

lemma problem_status: "pb_status (the (problemOf (Inl e :: jsval + unit))) = kind_status (pi_kind (publicInfo e))"
  by (simp add: problemOf_def Let_def)

lemma problem_reply_ok: "hs_selected s = Some e \<Longrightarrow> early s \<Longrightarrow> reply_ok s (problem_reply s e)"
  using kind_status_range[of "pi_kind (publicInfo e)"]
  by (auto simp: reply_ok_def problem_reply_def problem_ok_def Let_def problem_status early_def protocols_def
      split: option.splits)

lemma reply_ok_cong: "hs_selected s = hs_selected t \<Longrightarrow> hs_protocol s = hs_protocol t \<Longrightarrow> reply_ok s r = reply_ok t r"
proof -
  assume s: "hs_selected s = hs_selected t" "hs_protocol s = hs_protocol t"
  then have "problem_ok s = problem_ok t" by (intro ext) (simp add: problem_ok_def)
  then show ?thesis unfolding reply_ok_def s(1) by (rule arg_cong)
qed

lemma send_reply_inv:
  assumes "early s" "reply_ok s r"
  shows "reply_inv (send_reply r s)"
proof -
  have "200 \<le> rp_status r \<and> rp_status r \<le> 599" using assms(2) by (auto simp: reply_ok_def split: option.splits)
  then show ?thesis
    using assms reply_ok_cong[of "send_reply r s" s r] by (simp add: reply_inv_def replies_ok_def early_def)
qed

lemma handle_catch_inv: "early s \<Longrightarrow> reply_inv (handle_catch e s)"
proof -
  assume s: "early s"
  have "reply_ok (select e s) \<lparr>rp_status = 500, rp_body = ProblemBody (the (problemOf (Inl e :: jsval + unit))) None\<rparr>"
    by (simp add: reply_ok_def problem_ok_def Let_def)
  moreover have "early (select e s)" using s by (simp add: early_def)
  ultimately show ?thesis using s send_reply_inv by (simp add: handle_catch_def early_def)
qed

lemma try_send_inv:
  assumes "early s" "reply_ok s r"
  shows "reply_inv (try_send thrown r s)"
proof (cases thrown)
  case (Some x)
  obtain e out where x: "x = (e, out)" by (cases x)
  have "200 \<le> rp_status r \<and> rp_status r \<le> 599" using assms(2) by (auto simp: reply_ok_def split: option.splits)
  then have "reply_inv (handle_catch e (s\<lparr>hs_sent := Some (rp_status r)\<rparr>))"
    using assms(1) by (simp add: handle_catch_def reply_inv_def replies_ok_def early_def terminations_def)
  then show ?thesis using Some x handle_catch_inv[OF assms(1)] by (simp add: try_send_def)
qed (use assms send_reply_inv in \<open>simp add: try_send_def\<close>)

lemma on_answer_inv: "reply_inv s \<Longrightarrow> reply_inv (on_answer thrown s)"
proof (cases "hs_phase s = Answering")
  case True
  assume "reply_inv s"
  then have s: "early s" using True by (intro reply_inv_early) simp_all
  have "early (s\<lparr>hs_phase := Returned\<rparr>)" using s by (simp add: early_def)
  moreover have "reply_ok s \<lparr>rp_status = 200, rp_body = JsonBody t\<rparr>" if "hs_selected s = None" for t
    using that by (simp add: reply_ok_def)
  ultimately show ?thesis
    using True s try_send_inv[OF s] problem_reply_ok[of s] handle_catch_inv[OF s] early_reply_inv
    by (auto simp: on_answer_def split: option.split sum.split)
qed (simp add: on_answer_def)

lemma reply_inv_cong:
  "hs_sent t = hs_sent s \<Longrightarrow> hs_replies t = hs_replies s \<Longrightarrow> hs_phase t = hs_phase s \<Longrightarrow> hs_protocol t = hs_protocol s
    \<Longrightarrow> hs_selected t = hs_selected s \<Longrightarrow> hs_termination t = hs_termination s \<or> hs_termination t \<in> terminations - {lit ''response_completed''}
    \<Longrightarrow> reply_inv s \<Longrightarrow> reply_inv t"
  by (auto simp: reply_inv_def replies_ok_def reply_ok_cong[of t s] split: list.splits)

lemma finish_termination:
  "hs_termination (finish_request b now s) = (if b \<and> \<not> hs_finished s then lit ''peer_closed'' else hs_termination s)"
  by (simp add: finish_request_def Let_def split: prod.split)

lemma request_reply: "reply_inv s \<Longrightarrow> reply_inv (request_apply c w e s)"
proof (cases e)
  case HandleCall
  assume s: "reply_inv s"
  show ?thesis
  proof (cases "hs_phase s = Arrived")
    case True
    then have "early s" using s by (intro reply_inv_early) simp_all
    then show ?thesis using HandleCall early_reply_inv[OF early_handle_start] by simp
  qed (use s HandleCall in \<open>simp add: handle_start_def\<close>)
next
  case (Body b)
  assume s: "reply_inv s"
  show ?thesis
  proof (cases "hs_phase s = Returned")
    case False
    then have "early s" using s by (intro reply_inv_early)
    then show ?thesis using Body early_reply_inv[OF early_on_body] by simp
  qed (use s Body in \<open>simp add: on_body_def\<close>)
next
  case (Work r)
  assume s: "reply_inv s"
  show ?thesis
  proof (cases "hs_phase s = Racing")
    case True
    then have "early s" using s by (intro reply_inv_early) simp_all
    then have "early (on_work r s)" by (simp add: on_work_def early_def Let_def split: sum.split)
    then show ?thesis using Work by (simp add: early_reply_inv)
  next
    case False
    have "reply_inv (s\<lparr>hs_working := False\<rparr>)" by (rule reply_inv_cong[OF _ _ _ _ _ _ s]) simp_all
    then show ?thesis using Work False s by (simp add: on_work_def)
  qed
next
  case Deadline
  assume s: "reply_inv s"
  show ?thesis
  proof (cases "hs_phase s = Racing")
    case True
    then have "early s" using s by (intro reply_inv_early) simp_all
    then have "early (on_deadline s)" by (simp add: on_deadline_def early_def terminations_def)
    then show ?thesis using Deadline by (simp add: early_reply_inv)
  qed (use s Deadline in \<open>simp add: on_deadline_def\<close>)
next
  case (Answer thrown)
  assume "reply_inv s"
  then show ?thesis using Answer by (simp add: on_answer_inv)
next
  case (Finish now)
  assume s: "reply_inv s"
  have "reply_inv (finish_request False now (s\<lparr>hs_finished := True\<rparr>))"
    by (rule reply_inv_cong[OF _ _ _ _ _ _ s]) (simp_all add: finish_termination)
  then show ?thesis using Finish s by (simp add: on_finish_def)
next
  case (Close now)
  assume s: "reply_inv s"
  have "reply_inv (finish_request True now (s\<lparr>hs_closed := True, hs_destroyed := True\<rparr>))"
    by (rule reply_inv_cong[OF _ _ _ _ _ _ s]) (simp_all add: finish_termination terminations_def)
  then show ?thesis using Close s by (simp add: on_closed_def)
next
  case (WriteError d now)
  assume s: "reply_inv s"
  have "reply_inv (finish_request False now
      (s\<lparr>hs_errored := True, hs_termination := lit ''write_error'', hs_destroyed := (hs_destroyed s \<or> d)\<rparr>))"
    by (rule reply_inv_cong[OF _ _ _ _ _ _ s]) (simp_all add: finish_termination terminations_def)
  then show ?thesis using WriteError s by (simp add: on_write_error_def)
qed

section \<open>Observations\<close>

text \<open>A completed response is observed with the status that was sent, as a success exactly when nothing failed.\<close>

definition comp_ok :: "http_state \<Rightarrow> completion \<Rightarrow> bool" where
  "comp_ok s obs \<longleftrightarrow> 0 \<le> co_elapsedNs obs
     \<and> (ft_termination (co_facts obs) = lit ''response_completed''
        \<longrightarrow> hs_phase s = Returned \<and> ft_status (co_facts obs) = map_option Whole (hs_sent s) \<and> hs_sent s \<noteq> None
          \<and> (cl_outcome (co_classification obs) = Success \<longleftrightarrow> hs_selected s = None))"

definition observe_inv :: "nat \<Rightarrow> http_state \<Rightarrow> bool" where
  "observe_inv n s \<longleftrightarrow> length (av_outputs (hs_active s)) = n \<and> (hs_finished s \<longrightarrow> hs_sent s \<noteq> None)
     \<and> (if av_done (hs_active s) then \<exists>obs. hs_observed s = map (\<lambda>i. (i, obs)) [0..<n] \<and> comp_ok s obs
        else hs_observed s = [])"

text \<open>What the end of \<open>handle\<close> fixes stays fixed.\<close>

definition same_end :: "http_state \<Rightarrow> http_state \<Rightarrow> bool" where
  "same_end s t \<longleftrightarrow> hs_active t = hs_active s \<and> hs_observed t = hs_observed s \<and> hs_finished t = hs_finished s
     \<and> (hs_phase s = Returned \<longrightarrow> hs_phase t = Returned \<and> hs_selected t = hs_selected s \<and> hs_sent t = hs_sent s)
     \<and> (hs_sent s \<noteq> None \<longrightarrow> hs_sent t \<noteq> None)"

lemma same_end_ok: "same_end s t \<Longrightarrow> comp_ok s k \<Longrightarrow> comp_ok t k"
  by (auto simp: same_end_def comp_ok_def)

lemma same_end_inv: "same_end s t \<Longrightarrow> observe_inv n s \<Longrightarrow> observe_inv n t"
proof -
  assume e: "same_end s t"
  then have f: "hs_active t = hs_active s" "hs_observed t = hs_observed s" "hs_finished t = hs_finished s"
    "hs_sent s \<noteq> None \<Longrightarrow> hs_sent t \<noteq> None"
    by (simp_all add: same_end_def)
  show "observe_inv n s \<Longrightarrow> observe_inv n t"
    using f(4) unfolding observe_inv_def f(1-3) by (auto intro: same_end_ok[OF e] split: if_splits)
qed

lemma admit_end: "hs_phase s \<noteq> Returned \<Longrightarrow> same_end s (admit c w s)"
  by (simp add: admit_def same_end_def)

lemma same_end_trans: "same_end s t \<Longrightarrow> hs_phase s \<noteq> Returned \<Longrightarrow> same_end t u \<Longrightarrow> same_end s u"
  by (simp add: same_end_def)

lemma handle_start_end: "same_end s (handle_start c w s)"
proof (cases "hs_phase s = Arrived")
  case True
  let ?t = "check_method (check_route s)"
  let ?u = "(select (http_refusal Invalid ''unsupported media type'' ''unsupported_media_type'') ?t)\<lparr>hs_protocol := Some 415\<rparr>"
  have p: "hs_phase s \<noteq> Returned" "hs_phase ?t \<noteq> Returned" "hs_phase ?u \<noteq> Returned" using True by (simp_all add: checked)
  have t: "same_end s ?t" "same_end s ?u" "same_end s (?t\<lparr>hs_phase := Reading 0\<rparr>)"
    using True by (simp_all add: same_end_def checked)
  then show ?thesis
    using True same_end_trans[OF t(1) p(1) admit_end[OF p(2)]] same_end_trans[OF t(2) p(1) admit_end[OF p(3)]]
    by (simp add: handle_start_def Let_def)
qed (simp add: handle_start_def same_end_def)

lemma body_read_end: "hs_phase s \<noteq> Returned \<Longrightarrow> same_end s (body_read c w r s)"
proof (cases r)
  case (Some n)
  assume p: "hs_phase s \<noteq> Returned"
  let ?u = "(select (body_rejection n) s)\<lparr>hs_protocol := Some n,
       hs_termination := (if n = 408 then lit ''deadline'' else hs_termination s),
       hs_headers := hs_headers s @ [(lit ''Connection'', lit ''close'')]\<rparr>"
  have u: "same_end s ?u" "hs_phase ?u \<noteq> Returned" using p by (simp_all add: same_end_def)
  from same_end_trans[OF u(1) p admit_end[OF u(2)]] show ?thesis using Some by (simp add: body_read_def)
qed (simp add: body_read_def admit_end)

lemma on_body_end: "same_end s (on_body c w e s)"
proof (cases "hs_phase s")
  case (Reading n)
  then have "hs_phase s \<noteq> Returned" "same_end s (s\<lparr>hs_phase := Reading m\<rparr>)" for m by (simp_all add: same_end_def)
  then show ?thesis using Reading by (cases e) (simp_all add: on_body_def body_read_end)
qed (simp_all add: on_body_def same_end_def)

lemma on_answer_end: "same_end s (on_answer thrown s)"
proof (cases "hs_phase s = Answering")
  case True
  have "same_end s (handle_catch e t)"
    if "hs_active t = hs_active s \<and> hs_observed t = hs_observed s \<and> hs_finished t = hs_finished s" for e t
    using that True by (simp add: handle_catch_def same_end_def)
  moreover have "same_end s (send_reply r s)" for r using True by (simp add: same_end_def)
  ultimately have "same_end s (try_send thrown r s)" "same_end s (handle_catch e s)" for r e
    by (simp_all add: try_send_def split: option.split prod.split)
  then show ?thesis
    using True by (simp add: on_answer_def same_end_def split: option.split sum.split)
qed (simp add: on_answer_def same_end_def)

text \<open>The facts of a request are always classified.\<close>

lemma facts_classified:
  assumes "reply_inv s" "hs_termination s = lit ''response_completed'' \<longrightarrow> hs_sent s \<noteq> None"
  obtains cl where "classifyCompletion (Some (facts_of s)) = Inr cl"
    "hs_termination s = lit ''response_completed''
      \<Longrightarrow> cl_outcome cl = Success \<longleftrightarrow> hs_selected s = None \<and> (\<exists>n. hs_sent s = Some n \<and> n < 400)"
proof -
  have k: "parseKind (ft_failureKind (facts_of s)) = None \<longleftrightarrow> hs_selected s = None"
    "ft_failureKind (facts_of s) \<noteq> Undefined \<longrightarrow> parseKind (ft_failureKind (facts_of s)) \<noteq> None"
    by (auto simp: facts_of_def parseKind_def[of Undefined] split: option.split)
  have v: "status_value (ft_status (facts_of s)) = (case hs_sent s of None \<Rightarrow> 0 | Some n \<Rightarrow> n)"
    by (simp add: facts_of_def status_value_def split: option.split)
  have t: "ft_termination (facts_of s) = hs_termination s" by (simp add: facts_of_def)
  have r: "case hs_sent s of None \<Rightarrow> True | Some n \<Rightarrow> 200 \<le> n \<and> n \<le> 599" "hs_termination s \<in> terminations"
    using assms(1) by (simp_all add: reply_inv_def)
  obtain x e where xe: "terminated (hs_termination s) (parseKind (ft_failureKind (facts_of s))) (status_value (ft_status (facts_of s)))
      = Some (x, e)"
    using r(2)
    by (cases "completed_outcome (parseKind (ft_failureKind (facts_of s))) (status_value (ft_status (facts_of s)))")
      (auto simp: terminated_def terminations_def)
  have "\<exists>cl. classifyCompletion (Some (facts_of s)) = Inr cl"
    unfolding classifyCompletion_def option.case
    using k(2) r assms(2) xe by (auto simp: t Let_def facts_of_def[THEN arg_cong, of ft_status] split: option.splits)
  then obtain cl where cl: "classifyCompletion (Some (facts_of s)) = Inr cl" by blast
  moreover have "cl_outcome cl = Success \<longleftrightarrow> hs_selected s = None \<and> (\<exists>n. hs_sent s = Some n \<and> n < 400)"
    if "hs_termination s = lit ''response_completed''"
    using cl
  proof (rule classify_cases)
    fix x e
    assume "terminated (ft_termination (facts_of s)) (parseKind (ft_failureKind (facts_of s)))
        (status_value (ft_status (facts_of s))) = Some (x, e)" and x: "cl_outcome cl = x"
    then have "x = fst (completed_outcome (parseKind (ft_failureKind (facts_of s))) (status_value (ft_status (facts_of s))))"
      using that by (simp add: terminated_def t split: prod.splits)
    then show ?thesis
      using x k(1) v assms(2) that completed_outcome_success by (auto split: option.splits)
  qed
  ultimately show thesis by (rule that)
qed

lemma completed_reply:
  assumes "reply_inv s" "hs_sent s = Some m" "hs_termination s = lit ''response_completed''" "hs_selected s = None"
  shows "m = 200"
  using assms by (auto simp: reply_inv_def replies_ok_def reply_ok_def split: list.splits)

text \<open>The first finish that is not before the start observes: what it hands out is what the request was at that moment.\<close>

lemma finish_first:
  assumes o': "observe_inv n s" and r: "reply_inv s" and d: "\<not> av_done (hs_active s)" and l: "av_started (hs_active s) \<le> now"
    and c: "b \<or> hs_finished s \<or> hs_termination s \<noteq> lit ''response_completed''"
  shows "\<exists>k. hs_observed (finish_request b now s) = map (\<lambda>i. (i, k)) [0..<n] \<and> av_done (hs_active (finish_request b now s))
    \<and> av_outputs (hs_active (finish_request b now s)) = av_outputs (hs_active s)
    \<and> av_started (hs_active (finish_request b now s)) = av_started (hs_active s)
    \<and> comp_ok (finish_request b now s) k
    \<and> co_facts k = (facts_of s)\<lparr>ft_termination := if b \<and> \<not> hs_finished s then lit ''peer_closed'' else hs_termination s\<rparr>
    \<and> co_elapsedNs k = now - av_started (hs_active s) \<and> classifyCompletion (Some (co_facts k)) = Inr (co_classification k)"
proof -
  define t where "t = (if b \<and> \<not> hs_finished s then s\<lparr>hs_termination := lit ''peer_closed'', hs_aborted := True\<rparr> else s)"
  have f: "hs_active t = hs_active s" "hs_observed t = hs_observed s" "hs_finished t = hs_finished s" "hs_sent t = hs_sent s"
    "hs_selected t = hs_selected s" "hs_phase t = hs_phase s"
    "facts_of t = (facts_of s)\<lparr>ft_termination := if b \<and> \<not> hs_finished s then lit ''peer_closed'' else hs_termination s\<rparr>"
    by (simp_all add: t_def facts_of_def)
  have rt: "reply_inv t" unfolding t_def
    by (cases "b \<and> \<not> hs_finished s") (auto intro: reply_inv_cong[OF _ _ _ _ _ _ r] simp: r terminations_def)
  have ct: "hs_termination t = lit ''response_completed'' \<longrightarrow> hs_sent t \<noteq> None"
    using c o' by (auto simp: t_def observe_inv_def)
  obtain cl where cl: "classifyCompletion (Some (facts_of t)) = Inr cl"
    and s: "hs_termination t = lit ''response_completed''
      \<Longrightarrow> cl_outcome cl = Success \<longleftrightarrow> hs_selected t = None \<and> (\<exists>n. hs_sent t = Some n \<and> n < 400)"
    by (rule facts_classified[OF rt ct]) blast
  let ?a = "hs_active s"
  define k where "k = \<lparr>co_facts = facts_of t, co_classification = cl, co_elapsedNs = now - av_started ?a\<rparr>"
  have u: "finish_request b now s = (case active_finish (Some (facts_of t)) now ?a of
      (_, calls, a) \<Rightarrow> t\<lparr>hs_active := a, hs_observed := hs_observed s @ calls\<rparr>)"
    using f(1,2) unfolding t_def by (simp add: finish_request_def Let_def)
  have n: "length (av_outputs ?a) = n" "hs_observed s = []" using o' d by (simp_all add: observe_inv_def)
  have v: "hs_observed (finish_request b now s) = map (\<lambda>i. (i, k)) [0..<n]"
    "av_done (hs_active (finish_request b now s))" "av_outputs (hs_active (finish_request b now s)) = av_outputs ?a"
    "av_started (hs_active (finish_request b now s)) = av_started ?a"
    unfolding u using d l n by (simp_all add: active_finish_def cl Let_def k_def)
  have "comp_ok t k"
  proof (cases "hs_termination t = lit ''response_completed''")
    case True
    then obtain m where m: "hs_sent t = Some m" using ct by auto
    have "hs_phase t = Returned" using rt m by (auto simp: reply_inv_def)
    then show ?thesis
      using l m s[OF True] completed_reply[OF rt m True]
      by (auto simp: comp_ok_def k_def facts_of_def)
  next
    case False
    then show ?thesis using l by (simp add: comp_ok_def k_def facts_of_def)
  qed
  then have "comp_ok (finish_request b now s) k" by (simp add: comp_ok_def f)
  moreover have "co_facts k = facts_of t" "co_elapsedNs k = now - av_started ?a"
    "classifyCompletion (Some (co_facts k)) = Inr (co_classification k)"
    by (simp_all add: k_def cl)
  ultimately show ?thesis using v unfolding f(7) by blast
qed

lemma finish_observe:
  assumes o': "observe_inv n s" and r: "reply_inv s"
    and c: "b \<or> hs_finished s \<or> hs_termination s \<noteq> lit ''response_completed''"
  shows "observe_inv n (finish_request b now s)"
    and "av_started (hs_active s) \<le> now \<Longrightarrow> av_done (hs_active (finish_request b now s))"
    and "av_started (hs_active (finish_request b now s)) = av_started (hs_active s)"
    and "av_done (hs_active s) \<Longrightarrow> av_done (hs_active (finish_request b now s))"
proof -
  define t where "t = (if b \<and> \<not> hs_finished s then s\<lparr>hs_termination := lit ''peer_closed'', hs_aborted := True\<rparr> else s)"
  have f: "hs_active t = hs_active s" "hs_observed t = hs_observed s" "hs_finished t = hs_finished s" "hs_sent t = hs_sent s"
    "hs_selected t = hs_selected s" "hs_phase t = hs_phase s"
    by (simp_all add: t_def)
  have rt: "reply_inv t" unfolding t_def
    by (cases "b \<and> \<not> hs_finished s") (auto intro: reply_inv_cong[OF _ _ _ _ _ _ r] simp: r terminations_def)
  have ct: "hs_termination t = lit ''response_completed'' \<longrightarrow> hs_sent t \<noteq> None"
    using c o' by (auto simp: t_def observe_inv_def)
  obtain cl where cl: "classifyCompletion (Some (facts_of t)) = Inr cl"
    by (rule facts_classified[OF rt ct]) blast
  let ?a = "hs_active s"
  have u: "finish_request b now s = (case active_finish (Some (facts_of t)) now ?a of
      (_, calls, a) \<Rightarrow> t\<lparr>hs_active := a, hs_observed := hs_observed s @ calls\<rparr>)"
    using f(1,2) unfolding t_def by (simp add: finish_request_def Let_def)
  consider (again) "av_done ?a" | (early) "\<not> av_done ?a" "now < av_started ?a" | (first) "\<not> av_done ?a" "av_started ?a \<le> now"
    by linarith
  then have "observe_inv n (finish_request b now s) \<and> (av_started ?a \<le> now \<longrightarrow> av_done (hs_active (finish_request b now s)))
      \<and> av_started (hs_active (finish_request b now s)) = av_started ?a
      \<and> (av_done ?a \<longrightarrow> av_done (hs_active (finish_request b now s)))"
  proof cases
    case again
    then have v: "finish_request b now s = t\<lparr>hs_active := ?a, hs_observed := hs_observed s\<rparr>"
      unfolding u by (simp add: active_finish_def cl)
    have "same_end s (finish_request b now s)" unfolding v by (simp add: same_end_def f)
    from same_end_inv[OF this o'] again show ?thesis unfolding v by simp
  next
    case early
    then have v: "finish_request b now s = t\<lparr>hs_active := ?a, hs_observed := hs_observed s\<rparr>"
      unfolding u by (simp add: active_finish_def cl Let_def)
    have "same_end s (finish_request b now s)" unfolding v by (simp add: same_end_def f)
    from same_end_inv[OF this o'] early show ?thesis unfolding v by simp
  next
    case first
    from finish_first[OF o' r first c] obtain k where
      k: "hs_observed (finish_request b now s) = map (\<lambda>i. (i, k)) [0..<n]" "av_done (hs_active (finish_request b now s))"
      "av_outputs (hs_active (finish_request b now s)) = av_outputs ?a"
      "av_started (hs_active (finish_request b now s)) = av_started ?a" "comp_ok (finish_request b now s) k" by blast
    then show ?thesis using o' unfolding observe_inv_def finish_request_simps by auto
  qed
  then show "observe_inv n (finish_request b now s)"
    "av_started ?a \<le> now \<Longrightarrow> av_done (hs_active (finish_request b now s))"
    "av_started (hs_active (finish_request b now s)) = av_started ?a"
    "av_done ?a \<Longrightarrow> av_done (hs_active (finish_request b now s))"
    by simp_all
qed

text \<open>The clock of an event is not before the start of the request.\<close>

fun timely :: "int \<Rightarrow> request_event \<Rightarrow> bool" where
  "timely start (Finish now) = (start \<le> now)"
| "timely start (Close now) = (start \<le> now)"
| "timely start (WriteError d now) = (start \<le> now)"
| "timely start _ = True"

definition closed_inv :: "int \<Rightarrow> http_state \<Rightarrow> bool" where
  "closed_inv start s \<longleftrightarrow> av_started (hs_active s) = start \<and> (hs_closed s \<longrightarrow> av_done (hs_active s))"

lemma step_end:
  "e = HandleCall \<or> (\<exists>b. e = Body b) \<or> (\<exists>r. e = Work r) \<or> e = Deadline \<or> (\<exists>x. e = Answer x)
    \<Longrightarrow> same_end s (request_apply c w e s) \<and> hs_closed (request_apply c w e s) = hs_closed s"
proof (elim disjE exE)
  assume "e = HandleCall"
  then show ?thesis using handle_start_end by (auto simp: handle_start_def admit_def checked Let_def)
next
  fix b assume "e = Body b"
  then show ?thesis using on_body_end
    by (auto simp: on_body_def body_read_def admit_def split: phase.split body_event.split option.split)
next
  fix r assume "e = Work r"
  then show ?thesis by (auto simp: on_work_def same_end_def Let_def split: sum.split)
next
  assume "e = Deadline"
  then show ?thesis by (auto simp: on_deadline_def same_end_def)
next
  fix x assume "e = Answer x"
  then show ?thesis using on_answer_end
    by (auto simp: on_answer_def try_send_def handle_catch_def split: option.split sum.split)
qed

lemma step_kept:
  "same_end s t \<and> hs_closed t = hs_closed s \<Longrightarrow> observe_inv n s
    \<Longrightarrow> observe_inv n t \<and> (closed_inv start s \<and> b \<longrightarrow> closed_inv start t)"
  using same_end_inv[of s t n] by (auto simp: closed_inv_def same_end_def)

lemma comp_ok_flags [simp]:
  "comp_ok (s\<lparr>hs_finished := b\<rparr>) = comp_ok s" "comp_ok (s\<lparr>hs_closed := b, hs_destroyed := d\<rparr>) = comp_ok s"
  "comp_ok (s\<lparr>hs_errored := b, hs_termination := t, hs_destroyed := d\<rparr>) = comp_ok s"
  by (intro ext; simp add: comp_ok_def)+

lemma request_observe:
  assumes o': "observe_inv n s" and r: "reply_inv s"
  shows "observe_inv n (request_apply c w e s)
    \<and> (closed_inv start s \<and> timely start e \<longrightarrow> closed_inv start (request_apply c w e s))"
proof (cases e)
  case (Finish now)
  show ?thesis
  proof (cases "hs_finished s \<or> hs_sent s = None \<or> hs_destroyed s")
    case True
    then show ?thesis using Finish o' by (simp add: on_finish_def)
  next
    case False
    let ?t = "s\<lparr>hs_finished := True\<rparr>"
    have e': "observe_inv n ?t" using o' False by (simp add: observe_inv_def)
    have rt: "reply_inv ?t" by (rule reply_inv_cong[OF _ _ _ _ _ _ r]) simp_all
    note k = finish_observe[OF e' rt, of False now]
    show ?thesis using Finish False k by (auto simp: on_finish_def closed_inv_def)
  qed
next
  case (Close now)
  show ?thesis
  proof (cases "hs_closed s")
    case True
    then show ?thesis using Close o' by (simp add: on_closed_def)
  next
    case False
    let ?t = "s\<lparr>hs_closed := True, hs_destroyed := True\<rparr>"
    have e': "observe_inv n ?t" using o' by (simp add: observe_inv_def)
    have rt: "reply_inv ?t" by (rule reply_inv_cong[OF _ _ _ _ _ _ r]) simp_all
    note k = finish_observe[OF e' rt, of True now]
    show ?thesis using Close False k by (auto simp: on_closed_def closed_inv_def)
  qed
next
  case (WriteError d now)
  show ?thesis
  proof (cases "hs_errored s")
    case True
    then show ?thesis using WriteError o' by (simp add: on_write_error_def)
  next
    case False
    let ?t = "s\<lparr>hs_errored := True, hs_termination := lit ''write_error'', hs_destroyed := (hs_destroyed s \<or> d)\<rparr>"
    have e': "observe_inv n ?t" using o' by (simp add: observe_inv_def)
    have rt: "reply_inv ?t" by (rule reply_inv_cong[OF _ _ _ _ _ _ r]) (simp_all add: terminations_def)
    note k = finish_observe[OF e' rt, of False now]
    show ?thesis using WriteError False k by (auto simp: on_write_error_def closed_inv_def)
  qed
qed (rule step_kept[OF step_end o'], simp)+

section \<open>Runs\<close>

definition request_inv :: "http_state \<Rightarrow> bool" where
  "request_inv s \<longleftrightarrow> route_inv s \<and> reply_inv s \<and> observe_inv (length (av_outputs (hs_active s))) s"

lemma request_apply_inv: "request_inv s \<Longrightarrow> request_inv (request_apply c w e s)"
proof -
  assume s: "request_inv s"
  let ?n = "length (av_outputs (hs_active s))"
  have "observe_inv ?n (request_apply c w e s)"
    using request_observe[of ?n s c w e 0] s by (simp add: request_inv_def)
  moreover from this have "length (av_outputs (hs_active (request_apply c w e s))) = ?n" by (simp add: observe_inv_def)
  ultimately show ?thesis using s by (simp add: request_inv_def request_route request_reply)
qed

lemma middleware_inv: "request_inv (middleware c open_scope outs now rq)"
  by (auto simp: request_inv_def middleware_def Let_def route_inv_def guarded_def reply_inv_def replies_ok_def terminations_def
      observe_inv_def active_new_def split: sum.split)

lemma middleware_fields:
  "av_outputs (hs_active (middleware c open_scope outs now rq)) = outs"
  "closed_inv now (middleware c open_scope outs now rq)"
  by (auto simp: middleware_def Let_def active_new_def closed_inv_def split: sum.split)

text \<open>One request through any events, whatever the number of workers is at each.\<close>

definition request_run :: "server_config \<Rightarrow> (nat \<times> request_event) list \<Rightarrow> http_state \<Rightarrow> http_state" where
  "request_run c es s = fold (\<lambda>(w, e). request_apply c w e) es s"

lemma request_run_inv:
  "request_inv s \<Longrightarrow> closed_inv start s \<Longrightarrow> list_all (\<lambda>(w, e). timely start e) es
    \<Longrightarrow> request_inv (request_run c es s) \<and> closed_inv start (request_run c es s)
      \<and> length (av_outputs (hs_active (request_run c es s))) = length (av_outputs (hs_active s))"
proof (induction es arbitrary: s)
  case (Cons x es)
  obtain w e where x: "x = (w, e)" by (cases x)
  let ?n = "length (av_outputs (hs_active s))"
  have o': "observe_inv ?n (request_apply c w e s) \<and> closed_inv start (request_apply c w e s)"
    using request_observe[of ?n s c w e start] Cons.prems x by (simp add: request_inv_def)
  have "length (av_outputs (hs_active (request_apply c w e s))) = ?n" using o' by (simp add: observe_inv_def)
  then show ?case
    using Cons.IH[OF request_apply_inv[OF Cons.prems(1)], of c w e] o' Cons.prems(3) x
    by (simp add: request_run_def)
qed (simp add: request_run_def)

section \<open>What a completion says\<close>

text \<open>
  A deadline passes when the timer of the handler fires in the race or the timer of the body while it is read. The event
  that ends an observation is the first of the finish, the close and an error of the response; it says how the request ended.
\<close>

fun lapses :: "http_state \<Rightarrow> request_event \<Rightarrow> bool" where
  "lapses s Deadline = (hs_phase s = Racing)"
| "lapses s (Body BodyTimer) = (case hs_phase s of Reading n \<Rightarrow> True | _ \<Rightarrow> False)"
| "lapses s _ = False"

definition expired :: "server_config \<Rightarrow> (nat \<times> request_event) list \<Rightarrow> http_state \<Rightarrow> bool" where
  "expired c es m \<longleftrightarrow> (\<exists>before w e after. es = before @ (w, e) # after \<and> lapses (request_run c before m) e)"

fun ended_as :: "bool \<Rightarrow> request_event \<Rightarrow> str option" where
  "ended_as late (Finish now) = Some (if late then lit ''deadline'' else lit ''response_completed'')"
| "ended_as late (Close now) = Some (lit ''peer_closed'')"
| "ended_as late (WriteError d now) = Some (lit ''write_error'')"
| "ended_as late _ = None"

fun moment :: "request_event \<Rightarrow> int" where
  "moment (Finish now) = now"
| "moment (Close now) = now"
| "moment (WriteError d now) = now"
| "moment _ = 0"

text \<open>The completion the event \<open>e\<close> makes of a request in the state \<open>p\<close> that began at \<open>start\<close>.\<close>

definition completes :: "int \<Rightarrow> bool \<Rightarrow> http_state \<Rightarrow> request_event \<Rightarrow> completion \<Rightarrow> bool" where
  "completes start late p e k \<longleftrightarrow> \<not> av_done (hs_active p)
     \<and> Some (ft_termination (co_facts k)) = ended_as late e
     \<and> ft_status (co_facts k) = map_option Whole (hs_sent p)
     \<and> ft_failureKind (co_facts k) = (case hs_selected p of None \<Rightarrow> Undefined
         | Some x \<Rightarrow> Str (kind_name (case kindOf x of None \<Rightarrow> Internal | Some n \<Rightarrow> n)))
     \<and> (case e of Finish now \<Rightarrow> hs_sent p \<noteq> None \<and> \<not> hs_destroyed p | _ \<Rightarrow> True)
     \<and> co_elapsedNs k = moment e - start
     \<and> classifyCompletion (Some (co_facts k)) = Inr (co_classification k)"

lemma request_run_snoc: "request_run c (es @ [(w, e)]) s = request_apply c w e (request_run c es s)"
  by (simp add: request_run_def)

lemma expired_snoc: "expired c (es @ [(w, e)]) m \<longleftrightarrow> expired c es m \<or> lapses (request_run c es m) e"
proof
  assume "expired c (es @ [(w, e)]) m"
  then obtain before v x after where b: "es @ [(w, e)] = before @ (v, x) # after" "lapses (request_run c before m) x"
    by (auto simp: expired_def)
  then show "expired c es m \<or> lapses (request_run c es m) e"
    by (cases after rule: rev_cases) (auto simp: expired_def)
next
  assume "expired c es m \<or> lapses (request_run c es m) e"
  then show "expired c (es @ [(w, e)]) m"
  proof
    assume "expired c es m"
    then obtain before v x after where "es = before @ (v, x) # after" "lapses (request_run c before m) x"
      by (auto simp: expired_def)
    then have "es @ [(w, e)] = before @ (v, x) # (after @ [(w, e)]) \<and> lapses (request_run c before m) x" by simp
    then show ?thesis unfolding expired_def by blast
  qed (auto simp: expired_def)
qed

text \<open>An event of the response, or one of the rest.\<close>

definition of_response :: "request_event \<Rightarrow> bool" where
  "of_response e \<longleftrightarrow> (\<exists>now. e = Finish now) \<or> (\<exists>now. e = Close now) \<or> (\<exists>d now. e = WriteError d now)"

definition ending_flags :: "http_state \<Rightarrow> bool" where
  "ending_flags s \<longleftrightarrow> hs_closed s \<or> hs_finished s \<or> hs_errored s"

lemma not_of_response:
  "\<not> of_response e \<longleftrightarrow> e = HandleCall \<or> (\<exists>b. e = Body b) \<or> (\<exists>r. e = Work r) \<or> e = Deadline \<or> (\<exists>x. e = Answer x)"
  by (cases e) (auto simp: of_response_def)

lemma quiet_step:
  assumes "\<not> of_response e"
  shows "same_end s (request_apply c w e s)" "ending_flags (request_apply c w e s) = ending_flags s"
proof -
  note k = step_end[OF assms[unfolded not_of_response], of s c w]
  have "hs_errored (request_apply c w e s) = hs_errored s"
    using assms
    by (cases e) (auto simp: of_response_def handle_start_def check_method_def check_route_def admit_def select_def on_body_def
        body_read_def on_work_def on_deadline_def on_answer_def try_send_def send_reply_def handle_catch_def Let_def
        split: phase.split body_event.split option.split sum.split)
  with k show "same_end s (request_apply c w e s)" "ending_flags (request_apply c w e s) = ending_flags s"
    by (simp_all add: ending_flags_def same_end_def)
qed

lemma comp_ok_step: "comp_ok s k \<Longrightarrow> comp_ok (request_apply c w e s) k"
proof (cases "of_response e")
  case True
  assume k: "comp_ok s k"
  have "hs_phase (request_apply c w e s) = hs_phase s \<and> hs_sent (request_apply c w e s) = hs_sent s
      \<and> hs_selected (request_apply c w e s) = hs_selected s"
    using True by (auto simp: of_response_def on_finish_def on_closed_def on_write_error_def)
  with k show ?thesis by (simp add: comp_ok_def)
qed (use quiet_step(1) same_end_ok in blast)

lemma done_step:
  assumes "av_done (hs_active s)"
  shows "hs_active (request_apply c w e s) = hs_active s \<and> hs_observed (request_apply c w e s) = hs_observed s"
proof (cases "of_response e")
  case True
  have k: "hs_active (finish_request b now t) = hs_active t \<and> hs_observed (finish_request b now t) = hs_observed t"
    if "av_done (hs_active t)" for b now t
    using active_finish_done[OF that] that by (auto simp: finish_request_def Let_def active_finish_def split: sum.split)
  show ?thesis using True assms k
    by (auto simp: of_response_def on_finish_def on_closed_def on_write_error_def)
qed (use quiet_step(1) in \<open>auto simp: same_end_def\<close>)

text \<open>How a request stands while it is not observed: no deadline passed, one did, or answering failed after the headers.\<close>

definition standing :: "bool \<Rightarrow> http_state \<Rightarrow> bool" where
  "standing late s \<longleftrightarrow> hs_termination s = (if late then lit ''deadline'' else lit ''response_completed'')
     \<or> hs_termination s = lit ''handler_error'' \<and> hs_destroyed s \<and> hs_phase s = Returned"

lemma standing_returned:
  "standing late s \<Longrightarrow> hs_phase s = Returned \<Longrightarrow> \<not> of_response e \<Longrightarrow> standing (late \<or> lapses s e) (request_apply c w e s)"
  by (cases e; cases "\<exists>b. e = Body b \<and> b = BodyTimer")
    (auto simp: standing_def of_response_def handle_start_def on_body_def on_work_def on_deadline_def on_answer_def
      elim: lapses.elims)

lemma standing_quiet:
  assumes "standing late s" "\<not> of_response e"
  shows "standing (late \<or> lapses s e) (request_apply c w e s)"
proof (cases "hs_phase s = Returned")
  case True
  with standing_returned[OF assms(1) True assms(2)] show ?thesis by simp
next
  case False
  then have t: "hs_termination s = (if late then lit ''deadline'' else lit ''response_completed'')"
    using assms(1) by (simp add: standing_def)
  have a: "hs_termination (admit c w u) = hs_termination u" for u by (simp add: admit_def)
  show ?thesis
  proof (cases e)
    case HandleCall
    then show ?thesis using t by (auto simp: standing_def handle_start_def checked a Let_def)
  next
    case (Body b)
    then show ?thesis using t False
      by (cases b) (auto simp: standing_def on_body_def body_read_def a split: phase.split)
  next
    case (Work r)
    then show ?thesis using t by (auto simp: standing_def on_work_def Let_def split: sum.split)
  next
    case Deadline
    then show ?thesis using t by (auto simp: standing_def on_deadline_def)
  next
    case (Answer x)
    then show ?thesis using t
      by (auto simp: standing_def on_answer_def try_send_def handle_catch_def split: option.split sum.split)
  qed (use assms(2) in \<open>simp_all add: of_response_def\<close>)
qed

text \<open>What a history leaves: nothing observed, or what one of its events completed.\<close>

definition told :: "server_config \<Rightarrow> int \<Rightarrow> nat \<Rightarrow> http_state \<Rightarrow> (nat \<times> request_event) list \<Rightarrow> bool" where
  "told c start n m es \<longleftrightarrow> (let s = request_run c es m in
     if av_done (hs_active s)
     then \<exists>before w e after k. es = before @ (w, e) # after \<and> hs_observed s = map (\<lambda>i. (i, k)) [0..<n] \<and> comp_ok s k
       \<and> completes start (expired c before m) (request_run c before m) e k
     else hs_observed s = [] \<and> \<not> ending_flags s \<and> standing (expired c es m) s)"

lemma response_event_completes:
  assumes i: "observe_inv n s" "reply_inv s" "av_started (hs_active s) = start" and d: "\<not> av_done (hs_active s)"
    and g: "\<not> ending_flags s" "standing late s" and e: "of_response e" "timely start e"
  shows "(\<exists>k. hs_observed (request_apply c w e s) = map (\<lambda>i. (i, k)) [0..<n] \<and> av_done (hs_active (request_apply c w e s))
      \<and> comp_ok (request_apply c w e s) k \<and> completes start late s e k)
    \<or> (request_apply c w e s = s \<and> \<not> lapses s e)"
proof -
  consider (f) now where "e = Finish now" | (c) now where "e = Close now" | (w) x now where "e = WriteError x now"
    using e(1) by (auto simp: of_response_def)
  then show ?thesis
  proof cases
    case f
    show ?thesis
    proof (cases "hs_sent s = None \<or> hs_destroyed s")
      case True
      then show ?thesis using f by (auto simp: on_finish_def)
    next
      case False
      let ?t = "s\<lparr>hs_finished := True\<rparr>"
      have t: "observe_inv n ?t" "reply_inv ?t"
        using i(1) False by (simp_all add: observe_inv_def) (rule reply_inv_cong[OF _ _ _ _ _ _ i(2)], simp_all)
      have l: "av_started (hs_active ?t) \<le> now" using e(2) f i(3) by simp
      have "hs_termination s = (if late then lit ''deadline'' else lit ''response_completed'')"
        using g(2) False by (auto simp: standing_def)
      then have p: "ft_termination ((facts_of ?t)\<lparr>ft_termination := hs_termination s\<rparr>)
          = (if late then lit ''deadline'' else lit ''response_completed'')" by simp
      have r: "request_apply c w e s = finish_request False now ?t"
        using f False g(1) by (auto simp: on_finish_def ending_flags_def)
      show ?thesis unfolding r
        by (rule disjI1) (use finish_first[OF t _ l, of False] d i(3) False f p in \<open>auto simp: completes_def facts_of_def\<close>)
    qed
  next
    case c
    let ?t = "s\<lparr>hs_closed := True, hs_destroyed := True\<rparr>"
    have t: "observe_inv n ?t" "reply_inv ?t"
      using i(1) by (simp_all add: observe_inv_def) (rule reply_inv_cong[OF _ _ _ _ _ _ i(2)], simp_all)
    have l: "av_started (hs_active ?t) \<le> now" using e(2) c i(3) by simp
    have "request_apply cc w e s = finish_request True now ?t" for cc
      using c g(1) by (simp add: on_closed_def ending_flags_def)
    then show ?thesis
      using finish_first[OF t _ l, of True] d i(3) c g(1) by (auto simp: completes_def facts_of_def ending_flags_def)
  next
    case w
    let ?t = "s\<lparr>hs_errored := True, hs_termination := lit ''write_error'', hs_destroyed := (hs_destroyed s \<or> x)\<rparr>"
    have t: "observe_inv n ?t" "reply_inv ?t"
      using i(1) by (simp_all add: observe_inv_def) (rule reply_inv_cong[OF _ _ _ _ _ _ i(2)], simp_all add: terminations_def)
    have l: "av_started (hs_active ?t) \<le> now" using e(2) w i(3) by simp
    have "request_apply c ww e s = finish_request False now ?t" for ww
      using w g(1) by (simp add: on_write_error_def ending_flags_def)
    then show ?thesis
      using finish_first[OF t _ l, of False] d i(3) w g(1) by (auto simp: completes_def facts_of_def ending_flags_def)
  qed
qed

lemma request_told:
  assumes "m = middleware c open_scope outs start rq" "list_all (\<lambda>(w, e). timely start e) es"
  shows "told c start (length outs) m es"
  using assms(2)
proof (induction es rule: rev_induct)
  case Nil
  have "hs_observed m = [] \<and> \<not> ending_flags m \<and> standing False m \<and> \<not> av_done (hs_active m)"
    unfolding assms(1)
    by (auto simp: middleware_def Let_def ending_flags_def standing_def active_new_def select_def split: sum.split)
  then show ?case by (simp add: told_def request_run_def expired_def)
next
  case (snoc x es)
  obtain w e where x: "x = (w, e)" by (cases x)
  let ?s = "request_run c es m" and ?n = "length outs"
  have t: "told c start ?n m es" "timely start e" using snoc x by simp_all
  have i: "request_inv ?s \<and> closed_inv start ?s \<and> length (av_outputs (hs_active ?s)) = ?n"
    using request_run_inv[OF middleware_inv middleware_fields(2), of start es c c open_scope outs rq] snoc.prems
    by (simp add: assms(1) middleware_fields)
  then have o': "observe_inv ?n ?s" "reply_inv ?s" "av_started (hs_active ?s) = start"
    by (auto simp: request_inv_def closed_inv_def)
  show ?case
  proof (cases "av_done (hs_active ?s)")
    case True
    then obtain before v y after k where k: "es = before @ (v, y) # after" "hs_observed ?s = map (\<lambda>i. (i, k)) [0..<?n]"
      "comp_ok ?s k" "completes start (expired c before m) (request_run c before m) y k"
      using t(1) True unfolding told_def Let_def by (simp only: if_True) blast
    have "es @ [(w, e)] = before @ (v, y) # (after @ [(w, e)])" using k(1) by simp
    then show ?thesis using k(2-4) done_step[OF True, of c w e] comp_ok_step[OF k(3), of c w e] True
      unfolding x told_def Let_def request_run_snoc by metis
  next
    case False
    then have g: "hs_observed ?s = []" "\<not> ending_flags ?s" "standing (expired c es m) ?s"
      using t(1) by (simp_all add: told_def Let_def)
    show ?thesis
    proof (cases "of_response e")
      case True
      from response_event_completes[OF o' False g(2,3) True t(2), of c w] show ?thesis
      proof
        assume "\<exists>k. hs_observed (request_apply c w e ?s) = map (\<lambda>i. (i, k)) [0..<?n] \<and> av_done (hs_active (request_apply c w e ?s))
          \<and> comp_ok (request_apply c w e ?s) k \<and> completes start (expired c es m) ?s e k"
        then show ?thesis unfolding x told_def Let_def request_run_snoc by auto
      next
        assume "request_apply c w e ?s = ?s \<and> \<not> lapses ?s e"
        then show ?thesis using False g unfolding x told_def Let_def request_run_snoc by (simp add: expired_snoc)
      qed
    next
      case q: False
      have "same_end ?s (request_apply c w e ?s)" "ending_flags (request_apply c w e ?s) = ending_flags ?s"
        using quiet_step[OF q] by simp_all
      moreover have "standing (expired c (es @ [(w, e)]) m) (request_apply c w e ?s)"
        using standing_quiet[OF g(3) q, of c w] by (simp add: expired_snoc)
      ultimately show ?thesis using False g unfolding x told_def Let_def request_run_snoc by (simp add: same_end_def)
    qed
  qed
qed

text \<open>The invariant of the server: its workers are bounded.\<close>

definition http_inv :: "http_server \<Rightarrow> bool" where
  "http_inv v \<longleftrightarrow> list_all request_inv (sv_requests v) \<and> (\<forall>m. sc_maxActive (sv_config v) = Whole m \<longrightarrow> int (workers v) \<le> max m 0)"

lemma working_step:
  assumes "hs_working (request_apply c w e s)" "\<not> hs_working s" "sc_maxActive c = Whole m"
  shows "int w < m"
proof -
  have a: "hs_working (admit c w t) \<Longrightarrow> \<not> hs_working t \<Longrightarrow> int w < m" for t
    using assms(3) by (auto simp: admit_def num_le_def split: if_splits)
  then have b: "hs_working (body_read c w r t) \<Longrightarrow> \<not> hs_working t \<Longrightarrow> int w < m" for r t
    by (cases r) (auto simp: body_read_def)
  show ?thesis
  proof (cases e)
    case HandleCall
    then show ?thesis using assms a by (auto simp: handle_start_def Let_def checked split: if_splits)
  next
    case (Body x)
    then show ?thesis using assms b by (auto simp: on_body_def split: phase.splits body_event.splits if_splits)
  next
    case (Answer x)
    then show ?thesis using assms
      by (auto simp: on_answer_def try_send_def handle_catch_def split: option.splits sum.splits if_splits prod.splits)
  qed (use assms in \<open>auto simp: on_work_def on_deadline_def on_finish_def on_closed_def on_write_error_def Let_def
      split: if_splits sum.splits\<close>)
qed

lemma count_update:
  "i < length xs \<Longrightarrow> length (filter P (xs[i := y])) + (if P (xs ! i) then 1 else 0) = length (filter P xs) + (if P y then 1 else 0)"
proof -
  assume i: "i < length xs"
  have "filter P xs = filter P (take i xs) @ filter P (xs ! i # drop (Suc i) xs)"
    using id_take_nth_drop[OF i] by (metis filter_append)
  then show ?thesis using i by (simp add: upd_conv_take_nth_drop)
qed

lemma http_apply_inv: "http_inv v \<Longrightarrow> http_inv (http_apply e v)"
proof (cases e)
  case (Arrive open_scope outs now rq)
  assume v: "http_inv v"
  have "\<not> hs_working (middleware (sv_config v) open_scope outs now rq)"
    by (auto simp: middleware_def Let_def split: sum.split)
  then show ?thesis using v Arrive by (simp add: http_inv_def middleware_inv workers_def)
next
  case (Request i x)
  assume v: "http_inv v"
  show ?thesis
  proof (cases "i < length (sv_requests v)")
    case True
    let ?s = "sv_requests v ! i" let ?t = "request_apply (sv_config v) (workers v) x ?s"
    have "request_inv ?t" using v True by (auto simp: http_inv_def list_all_length intro!: request_apply_inv)
    moreover have "int (length (filter hs_working ((sv_requests v)[i := ?t]))) \<le> max m 0"
      if "sc_maxActive (sv_config v) = Whole m" for m
      using count_update[OF True, of hs_working ?t] working_step[of "sv_config v" "workers v" x ?s m] that v
      by (auto simp: http_inv_def workers_def split: if_splits)
    ultimately show ?thesis
      using v True Request by (auto simp: http_inv_def workers_def list_all_length nth_list_update)
  qed (use v Request in simp)
qed

definition http_step :: "http_server \<Rightarrow> http_server \<Rightarrow> bool" where
  "http_step v u \<longleftrightarrow> (\<exists>e. u = http_apply e v)"

interpretation http: step_invariant http_step http_inv
  by unfold_locales (auto simp: http_step_def http_apply_inv)

definition serving :: "server_config \<Rightarrow> http_server" where
  "serving c = \<lparr>sv_config = c, sv_requests = []\<rparr>"

lemma http_run_steps: "http_step\<^sup>*\<^sup>* v (http_run es v)"
proof (induction es rule: rev_induct)
  case (snoc e es)
  have "http_step (http_run es v) (http_run (es @ [e]) v)" by (auto simp: http_step_def http_run_def)
  with snoc show ?case by (rule rtranclp.rtrancl_into_rtrancl)
qed (simp add: http_run_def)

lemma http_run_inv: "http_inv (http_run es (serving c)) \<and> sv_config (http_run es (serving c)) = c"
proof -
  have "sv_config (http_apply e v) = sv_config v" for e v by (cases e) auto
  then have "sv_config (http_run es (serving c)) = c"
    by (induction es rule: rev_induct) (simp_all add: http_run_def serving_def)
  moreover have "http_inv (http_run es (serving c))"
    by (rule http.steps_inv[OF http_run_steps]) (simp add: http_inv_def serving_def workers_def)
  ultimately show ?thesis by simp
qed

section \<open>Properties\<close>

text \<open>
  A request gets at most one reply, and the reply fits: the handler's value with 200 exactly when nothing
  failed, else the public problem of the failure that was selected, under the status of its kind, of the protocol, or 500.
  This holds for all requests under every interleaving of their events.
\<close>

lemma replies_fit:
  "list_all (\<lambda>s. length (hs_replies s) \<le> 1 \<and> list_all (reply_ok s) (hs_replies s)) (sv_requests (http_run es (serving c)))"
proof -
  have "length (hs_replies s) \<le> 1 \<and> list_all (reply_ok s) (hs_replies s)" if "request_inv s" for s
    using that by (auto simp: request_inv_def reply_inv_def replies_ok_def split: list.splits)
  then show ?thesis using http_run_inv[of es c] by (simp add: http_inv_def list_all_iff)
qed

text \<open>
  C29: admission is bounded. In every history no more handlers run than configured, handlers that lost the race
  against their deadline included, and a handler only runs for a known route, a safe method and an open scope.
\<close>

theorem workers_bounded:
  assumes "http_server_new c = Some d" "sc_maxActive c = Whole m"
  shows "int (workers (http_run es (serving c))) \<le> m
    \<and> list_all (\<lambda>s. hs_working s \<longrightarrow> guarded s) (sv_requests (http_run es (serving c)))"
proof -
  have "1 \<le> m" using assms by (auto simp: http_server_new_def split: if_splits)
  then show ?thesis
    using http_run_inv[of es c] assms(2) by (auto simp: http_inv_def list_all_iff request_inv_def route_inv_def)
qed

text \<open>
  C28: a request is observed once, by the first event that ends its response. Whatever happens before and after, in
  whatever order, with a clock that does not run backwards: once the response finished, failed or closed it is
  observed, and each output is called once with one completion. That completion is the one of an event of the
  history: a finish of a response that was sent and not destroyed, observed as a deadline when one passed before
  and as completed otherwise; a close before any finish, observed as a peer that closed; or an error of the response,
  observed as a write error. It holds the status sent, the kind of the failure selected and the time passed at that
  moment, and the classification of these; completed, it is a success exactly when nothing failed. A
  handler whose error destroys a response already begun is a close without a finish, and so observed as a peer
  that closed.
\<close>

theorem request_observed:
  assumes "list_all (\<lambda>(w, e). timely start e) es" "s = request_run c es (middleware c open_scope outs start rq)"
  shows "(hs_closed s \<or> hs_finished s \<or> hs_errored s \<longrightarrow> av_done (hs_active s))
    \<and> (if av_done (hs_active s)
       then \<exists>obs before w e after. hs_observed s = map (\<lambda>i. (i, obs)) [0..<length outs] \<and> comp_ok s obs
         \<and> es = before @ (w, e) # after
         \<and> completes start (expired c before (middleware c open_scope outs start rq))
             (request_run c before (middleware c open_scope outs start rq)) e obs
       else hs_observed s = [])"
  using request_told[OF refl assms(1), where c = c and open_scope = open_scope and outs = outs and rq = rq] assms(2)
  by (auto simp: told_def Let_def ending_flags_def split: if_splits) blast+

text \<open>A body that breaks off is answered with status 400 under the title of 415.\<close>

lemma broken_body_title:
  assumes "hs_phase s = Reading n" "reply_inv s" "\<not> hs_destroyed s"
  shows "\<exists>r p ids. hs_replies (on_answer None (on_body c w BodyBroken s)) = [r] \<and> rp_status r = 400
    \<and> rp_body r = ProblemBody p ids \<and> pb_title p = lit ''Unsupported Media Type''"
proof -
  have "hs_replies s = []" using assms(1,2) by (simp add: reply_inv_def)
  then show ?thesis
    using assms(1,3) by (simp add: on_body_def body_read_def admit_def on_answer_def try_send_def problem_reply_def
        Let_def send_reply_def protocol_title_def)
qed

text \<open>An error after the headers are out is observed as a peer that closed, not as the error of the handler.\<close>

lemma handler_error_lost:
  assumes "hs_phase s = Answering" "\<not> hs_destroyed s" "\<not> hs_finished s" "\<not> hs_closed s" "hs_selected s = None"
    "hs_result s = Inr t" "hs_observed s = []" "\<not> av_done (hs_active s)" "av_outputs (hs_active s) = [o1, o2]"
    "av_started (hs_active s) \<le> now"
  shows "\<exists>k. hs_observed (on_closed now (on_answer (Some (e, True)) s)) = [(0, k), (1, k)]
    \<and> ft_termination (co_facts k) = lit ''peer_closed'' \<and> cl_outcome (co_classification k) = CanceledOutcome"
proof -
  let ?f = "\<lparr>ft_status = Some (Whole 200), ft_failureKind = Str (kind_name (case kindOf e of None \<Rightarrow> Internal | Some k \<Rightarrow> k)),
    ft_termination = lit ''peer_closed''\<rparr>"
  obtain cl where cl: "classifyCompletion (Some ?f) = Inr cl" "cl_outcome cl = CanceledOutcome"
    by (simp add: classifyCompletion_def terminated_def Let_def)
  then show ?thesis
    using assms by (simp add: on_answer_def try_send_def handle_catch_def on_closed_def finish_request_def facts_of_def
        active_finish_def Let_def select_def upt_rec)
qed

text \<open>
  C31: two failures are reported wrongly. A body that breaks off is answered with status 400 under the title of
  415; and an error after the headers are out, which destroys the response, is observed as a request the
  peer closed, canceled, and not as the failure of the handler it was.
\<close>

theorem errors_misreported:
  assumes "reply_inv s" "\<not> hs_destroyed s"
  shows "(\<forall>n. hs_phase s = Reading n \<longrightarrow> (\<exists>r p ids. hs_replies (on_answer None (on_body c w BodyBroken s)) = [r]
      \<and> rp_status r = 400 \<and> rp_body r = ProblemBody p ids \<and> pb_title p = lit ''Unsupported Media Type''))
    \<and> (hs_phase s = Answering \<and> \<not> hs_finished s \<and> \<not> hs_closed s \<and> hs_selected s = None \<and> hs_result s = Inr t
        \<and> hs_observed s = [] \<and> \<not> av_done (hs_active s) \<and> length (av_outputs (hs_active s)) = 2 \<and> av_started (hs_active s) \<le> now
      \<longrightarrow> (\<exists>k. hs_observed (on_closed now (on_answer (Some (e, True)) s)) = [(0, k), (1, k)]
        \<and> ft_termination (co_facts k) = lit ''peer_closed'' \<and> cl_outcome (co_classification k) = CanceledOutcome))"
proof (intro conjI allI impI)
  fix n assume "hs_phase s = Reading n"
  from broken_body_title[OF this assms] show "\<exists>r p ids. hs_replies (on_answer None (on_body c w BodyBroken s)) = [r]
      \<and> rp_status r = 400 \<and> rp_body r = ProblemBody p ids \<and> pb_title p = lit ''Unsupported Media Type''" .
next
  assume a: "hs_phase s = Answering \<and> \<not> hs_finished s \<and> \<not> hs_closed s \<and> hs_selected s = None \<and> hs_result s = Inr t
    \<and> hs_observed s = [] \<and> \<not> av_done (hs_active s) \<and> length (av_outputs (hs_active s)) = 2 \<and> av_started (hs_active s) \<le> now"
  then obtain o1 o2 where o': "av_outputs (hs_active s) = [o1, o2]"
    by (auto simp: numeral_2_eq_2 length_Suc_conv)
  show "\<exists>k. hs_observed (on_closed now (on_answer (Some (e, True)) s)) = [(0, k), (1, k)]
        \<and> ft_termination (co_facts k) = lit ''peer_closed'' \<and> cl_outcome (co_classification k) = CanceledOutcome"
    by (rule handler_error_lost[OF _ assms(2) _ _ _ _ _ _ o']) (use a in simp_all)
qed

section \<open>Witnesses\<close>

definition sample_http :: server_config where
  "sample_http = \<lparr>sc_routes = [\<lparr>ro_path = lit ''/a'', ro_operation = lit ''a.get''\<rparr>], sc_timeoutMs = Whole 1000,
     sc_maxBody = Whole 10, sc_maxActive = Whole 1\<rparr>"

definition sample_get :: http_request where
  "sample_get = \<lparr>rq_method = lit ''GET'', rq_path = lit ''/a'', rq_raw = [], rq_contentLength = None,
     rq_transferEncoding = None, rq_contentType = None\<rparr>"

definition sample_arrival :: http_state where
  "sample_arrival = middleware sample_http (\<lambda>op i. Inr sample_scope) [\<lambda>k. False, \<lambda>k. True] 5 sample_get"

lemma sample_handled:
  "\<exists>s. request_apply sample_http 0 HandleCall sample_arrival = s \<and> hs_working s \<and> hs_phase s = Racing
     \<and> \<not> hs_destroyed s \<and> \<not> hs_closed s \<and> hs_selected s = None"
  by (simp add: sample_arrival_def middleware_def sample_http_def sample_get_def Let_def handle_start_def check_method_def
      check_route_def has_body_def admit_def num_le_def)

theorem workers_bounded_witness:
  "workers (http_run [Arrive (\<lambda>op i. Inr sample_scope) [\<lambda>k. False, \<lambda>k. True] 5 sample_get, Request 0 HandleCall]
     (serving sample_http)) = 1"
proof -
  let ?v = "http_run [Arrive (\<lambda>op i. Inr sample_scope) [\<lambda>k. False, \<lambda>k. True] 5 sample_get, Request 0 HandleCall] (serving sample_http)"
  have "http_server_new sample_http = Some sample_http" "sc_maxActive sample_http = Whole 1"
    by (simp_all add: http_server_new_def sample_http_def)
  from workers_bounded[OF this, of "[Arrive (\<lambda>op i. Inr sample_scope) [\<lambda>k. False, \<lambda>k. True] 5 sample_get, Request 0 HandleCall]"]
  have "int (workers ?v) \<le> 1" by simp
  moreover have "sv_requests ?v = [request_apply sample_http 0 HandleCall sample_arrival]"
    by (simp add: http_run_def serving_def workers_def sample_arrival_def[symmetric])
      (simp add: sample_arrival_def middleware_def Let_def)
  ultimately show ?thesis using sample_handled by (auto simp: workers_def)
qed

definition sample_events :: "(nat \<times> request_event) list" where
  "sample_events = [(0, HandleCall), (1, Work (Inr (Inr (lit ''1'')))), (0, Answer None), (0, Finish 7), (0, Close 8)]"

theorem request_observed_witness:
  "\<exists>obs. hs_observed (request_run sample_http sample_events sample_arrival) = [(0, obs), (1, obs)]"
proof -
  have t: "list_all (\<lambda>(w, e). timely 5 e) sample_events" by (simp add: sample_events_def)
  have "hs_closed (request_run sample_http sample_events sample_arrival)"
    by (simp add: request_run_def sample_events_def on_closed_def)
  with request_observed[OF t refl, of sample_http "\<lambda>op i. Inr sample_scope" "[\<lambda>k. False, \<lambda>k. True]" sample_get]
  show ?thesis by (auto simp: sample_arrival_def upt_rec)
qed

theorem errors_misreported_witness:
  "\<exists>r. hs_replies (on_answer None (on_body sample_http 0 BodyBroken (sample_arrival\<lparr>hs_phase := Reading 0\<rparr>))) = [r]
     \<and> rp_status r = 400"
proof -
  have "reply_inv sample_arrival" "hs_phase sample_arrival = Arrived"
    using middleware_inv unfolding sample_arrival_def by (auto simp: request_inv_def) (simp add: middleware_def Let_def)
  then have "early sample_arrival" by (intro reply_inv_early) simp_all
  then have "reply_inv (sample_arrival\<lparr>hs_phase := Reading 0\<rparr>)" by (intro early_reply_inv) (simp add: early_def)
  moreover have "\<not> hs_destroyed (sample_arrival\<lparr>hs_phase := Reading 0\<rparr>)"
    by (simp add: sample_arrival_def middleware_def Let_def)
  ultimately show ?thesis using errors_misreported[of "sample_arrival\<lparr>hs_phase := Reading 0\<rparr>" sample_http 0] by auto
qed

end
