(* ===== verification/Observer.thy ===== *)
theory Observer
  imports Telemetry HttpServer
begin

text \<open>
  \<open>src/shared/http/otel/observer.ts\<close> and the observer of \<open>src/shared/http/nest/observer.ts\<close> that does nothing: the
  trace headers that are passed on, the span of a request, and what the end of an observation tells the tracer, the
  histogram and the log exporter, in the order it is told. The span context the SDK assigns is an argument.
\<close>

section \<open>Beginning\<close>

datatype header_value = HStr str | HList "str list"

definition carried_header :: "(str \<Rightarrow> header_value option) \<Rightarrow> string \<Rightarrow> str obj" where
  "carried_header headers name = (case headers (lit name) of
     Some (HStr v) \<Rightarrow> if name = ''traceparent'' \<and> 44 \<in> set v then [] else [(lit name, v)]
   | _ \<Rightarrow> [])"

definition trace_carrier :: "(str \<Rightarrow> header_value option) \<Rightarrow> str obj" where
  "trace_carrier headers = carried_header headers ''traceparent'' @ carried_header headers ''tracestate''"

record span_context =
  sx_traceId :: str
  sx_spanId :: str
  sx_flags :: nat

record observation =
  ob_method :: str
  ob_scheme :: str
  ob_carrier :: "str obj"
  ob_trace :: "trace_data brand option"

definition span_name :: "str \<Rightarrow> str" where
  "span_name method = (if method = lit ''_OTHER'' then lit ''HTTP'' else method)"

definition span_ref :: "span_context \<Rightarrow> trace_data brand option" where
  "span_ref sc = (case traceRef (Str (sx_traceId sc)) (Str (sx_spanId sc)) (Bool (sx_flags sc mod 2 = 1)) of
     Inr r \<Rightarrow> Some r | Inl _ \<Rightarrow> None)"

text \<open>
  \<open>span_of\<close> is the context of the span the tracer starts, by its name and what the propagator extracted from;
  \<open>None\<close> is the observation that does nothing.
\<close>

definition observer_start :: "otel_runtime \<Rightarrow> (str \<Rightarrow> str obj \<Rightarrow> span_context) \<Rightarrow> str \<Rightarrow> str
    \<Rightarrow> (str \<Rightarrow> header_value option) \<Rightarrow> observation option" where
  "observer_start rt span_of method scheme headers =
     (if or_traces rt = None then None
      else let carrier = trace_carrier headers in
        Some \<lparr>ob_method = method, ob_scheme = scheme, ob_carrier = carrier,
          ob_trace = span_ref (span_of (span_name method) carrier)\<rparr>)"

section \<open>Ending\<close>

text \<open>\<open>AMillis n\<close> is the duration of \<open>n\<close> nanoseconds in milliseconds.\<close>

datatype attr = AStr str | ANum number | AMillis int | AUndefined

type_synonym attrs = "(str \<times> attr) list"

datatype otel_effect = UpdateName str | SetAttributes attrs | ErrorStatus | RecordDuration int attrs | EmitLog nat str attrs | EndSpan

definition attr_text :: "str option \<Rightarrow> attr" where
  "attr_text v = (case v of None \<Rightarrow> AUndefined | Some s \<Rightarrow> AStr s)"

text \<open>An attribute that is only set when there is a value for it.\<close>

definition opt_attr :: "string \<Rightarrow> attr option \<Rightarrow> attrs" where
  "opt_attr key v = (case v of None \<Rightarrow> [] | Some a \<Rightarrow> [(lit key, a)])"

definition span_attrs :: "observation \<Rightarrow> completion \<Rightarrow> str option \<Rightarrow> attrs" where
  "span_attrs o1 c route =
     [(lit ''http.request.method'', AStr (ob_method o1)), (lit ''url.scheme'', AStr (ob_scheme o1)),
      (lit ''n2f.outcome'', AStr (outcome_name (cl_outcome (co_classification c))))]
     @ opt_attr ''http.route'' (map_option AStr (nonempty route))
     @ opt_attr ''http.response.status_code'' (map_option ANum (ft_status (co_facts c)))
     @ opt_attr ''error.type'' (map_option AStr (nonempty (cl_errorType (co_classification c))))"

definition severity :: "completion \<Rightarrow> nat" where
  "severity c = (let x = cl_outcome (co_classification c) in
     if x = Failed then 17 else if x \<in> set [CanceledOutcome, TimedOut] then 13 else 9)"

definition scope_attrs :: "scope option \<Rightarrow> attrs" where
  "scope_attrs s = (case s of None \<Rightarrow> []
     | Some sc \<Rightarrow> [(lit ''n2f.scope_id'', AStr (sp_scopeId sc)), (lit ''n2f.work_id'', attr_text (wk_workId (sp_work sc))),
         (lit ''n2f.correlation_id'', attr_text (wk_correlationId (sp_work sc))),
         (lit ''n2f.operation'', AStr (wk_operation (sp_work sc)))])"

definition failure_attrs :: "jsval option \<Rightarrow> attrs" where
  "failure_attrs e = (case e of None \<Rightarrow> []
     | Some v \<Rightarrow> let p = publicInfo v in
         [(lit ''n2f.error.kind'', AStr (kind_name (pi_kind p))), (lit ''n2f.error.message'', AStr (pi_message p))]
         @ opt_attr ''n2f.error.code'' (map_option AStr (nonempty (pi_type p))))"

text \<open>The keys the emitted record spreads together are distinct, so the spread is an append.\<close>

definition observer_finish :: "otel_runtime \<Rightarrow> observation option \<Rightarrow> completion \<Rightarrow> str option \<Rightarrow> scope option
    \<Rightarrow> jsval option \<Rightarrow> otel_effect list" where
  "observer_finish rt ob c route sc err = (case ob of None \<Rightarrow> []
     | Some o1 \<Rightarrow> let attrs = span_attrs o1 c route in
         (case nonempty route of None \<Rightarrow> [] | Some r \<Rightarrow> [UpdateName (span_name (ob_method o1) @ [32] @ r)])
         @ [SetAttributes attrs]
         @ (if cl_spanError (co_classification c) then [ErrorStatus] else [])
         @ (if or_metrics rt = None then [] else [RecordDuration (co_elapsedNs c) attrs])
         @ (if or_logs rt = None then [] else [EmitLog (severity c) (lit ''http.request.completed'')
             (attrs @ scope_attrs sc @ failure_attrs err
              @ [(lit ''termination'', AStr (ft_termination (co_facts c))), (lit ''elapsed_ms'', AMillis (co_elapsedNs c))])])
         @ [EndSpan])"

section \<open>Lemmas\<close>

lemma opt_attr_keys: "map fst (opt_attr key v) = (if v = None then [] else [lit key])"
  by (cases v) (simp_all add: opt_attr_def)

lemma attr_keys:
  "map fst (span_attrs o1 c route) = map lit [''http.request.method'', ''url.scheme'', ''n2f.outcome'']
     @ (if nonempty route = None then [] else [lit ''http.route''])
     @ (if ft_status (co_facts c) = None then [] else [lit ''http.response.status_code''])
     @ (if nonempty (cl_errorType (co_classification c)) = None then [] else [lit ''error.type''])"
  "map fst (scope_attrs sc) = (if sc = None then []
     else map lit [''n2f.scope_id'', ''n2f.work_id'', ''n2f.correlation_id'', ''n2f.operation''])"
  "map fst (failure_attrs err) = (if err = None then [] else map lit [''n2f.error.kind'', ''n2f.error.message'']
     @ (if nonempty (pi_type (publicInfo (the err))) = None then [] else [lit ''n2f.error.code'']))"
  by (simp_all add: span_attrs_def scope_attrs_def failure_attrs_def opt_attr_keys Let_def split: option.split)

lemma emitted_keys_distinct:
  "distinct (map fst (span_attrs o1 c route @ scope_attrs sc @ failure_attrs err
     @ [(lit ''termination'', AStr t), (lit ''elapsed_ms'', AMillis n)]))"
  unfolding map_append attr_keys by simp

text \<open>The error type of a valid completion is never the empty text.\<close>

lemma error_type_nonempty:
  assumes "classifyCompletion (Some f) = Inr cl"
  shows "nonempty (cl_errorType cl) = cl_errorType cl"
  using assms
proof (rule classify_cases)
  fix x e
  assume t: "terminated (ft_termination f) (parseKind (ft_failureKind f)) (status_value (ft_status f)) = Some (x, e)"
    and c: "cl_errorType cl = (if e = None \<and> cl_spanError cl
       then Some (if status_value (ft_status f) \<ge> 500 then show_int (status_value (ft_status f)) else lit ''handler_error'')
       else e)"
  have "e \<noteq> Some []"
    using t by (auto simp: terminated_def completed_outcome_def lit_def split: if_splits option.splits kind.splits)
  moreover have "show_int n \<noteq> []" for n by (auto simp: show_int_def)
  ultimately show ?thesis using c by (simp add: nonempty_def)
qed

definition agrees :: "completion \<Rightarrow> bool" where
  "agrees c \<longleftrightarrow> (lit ''error'' = completion_level c) = (severity c = 17)
     \<and> (lit ''warn'' = completion_level c) = (severity c = 13) \<and> (lit ''info'' = completion_level c) = (severity c = 9)"

lemma levels_agree: "agrees c"
  by (cases "cl_outcome (co_classification c)") (simp_all add: agrees_def completion_level_def severity_def)

text \<open>What a failure carries beyond its public part: its cause, its details and, when it is internal, all its texts.\<close>

definition public_failure :: "failure \<Rightarrow> failure" where
  "public_failure f = (if f_kind f = Internal then failure Internal [] no_options
     else Failure (f_kind f) (f_message f) (f_type f) (f_fields f) Undefined [])"

definition strip_private :: "jsval \<Rightarrow> jsval" where
  "strip_private v = (case trusted v of None \<Rightarrow> Undefined | Some f \<Rightarrow> FailureV (public_failure f))"

lemma publicInfo_stripped: "publicInfo (strip_private v) = publicInfo v"
  by (simp add: publicInfo_def strip_private_def public_failure_def split: option.split)

lemma failure_attrs_stripped: "failure_attrs (Some (strip_private v)) = failure_attrs (Some v)"
  by (simp only: failure_attrs_def publicInfo_stripped option.case)

section \<open>Properties\<close>

text \<open>
  C25: the three signals of one completion agree with each other and with the log of the server. For a valid
  completion the span is marked as an error exactly when it carries an error type; the sample and the exported record
  carry the attributes of the span; the exported severity is error, warning or information exactly when the server
  logs the completion at that level; and the span ends once, after everything else.
\<close>

theorem signals_agree:
  assumes "classifyCompletion (Some (co_facts c)) = Inr (co_classification c)" "ob = Some o1"
  shows "(let fx = observer_finish rt ob c route sc err; attrs = span_attrs o1 c route in
      (ErrorStatus \<in> set fx) = (\<exists>t. map_of attrs (lit ''error.type'') = Some t)
      \<and> (\<forall>as. SetAttributes as \<in> set fx \<longrightarrow> as = attrs) \<and> (\<forall>n as. RecordDuration n as \<in> set fx \<longrightarrow> as = attrs)
      \<and> (\<forall>n body as. EmitLog n body as \<in> set fx \<longrightarrow> n = severity c \<and> take (length attrs) as = attrs \<and> distinct (map fst as))
      \<and> agrees c \<and> (\<exists>fx'. fx = fx' @ [EndSpan] \<and> EndSpan \<notin> set fx'))"
proof -
  let ?cl = "co_classification c"
  have e: "(cl_errorType ?cl \<noteq> None) = cl_spanError ?cl"
    using classification_coherent[OF assms(1)] by blast
  have t: "(\<exists>t. map_of (span_attrs o1 c route) (lit ''error.type'') = Some t) = (cl_errorType ?cl \<noteq> None)"
    using error_type_nonempty[OF assms(1)]
    by (cases "nonempty route"; cases "ft_status (co_facts c)"; cases "cl_errorType ?cl") (simp_all add: span_attrs_def opt_attr_def)
  show ?thesis
    using e t levels_agree[of c] emitted_keys_distinct[of o1 c route sc err]
    by (simp add: observer_finish_def assms(2) Let_def split: option.split)
qed

text \<open>
  C26: nothing private of a failure is exported. What the end of an observation tells the exporters is the same
  when the cause and the details of the failure are removed, all texts of an internal one, and a value that is not a
  failure of this code base altogether.
\<close>

theorem exports_public:
  "observer_finish rt ob c route sc (Some err) = observer_finish rt ob c route sc (Some (strip_private err))"
  unfolding observer_finish_def failure_attrs_stripped ..

section \<open>Witnesses\<close>

definition sample_completion :: completion where
  "sample_completion = \<lparr>co_facts = \<lparr>ft_status = Some (Whole 500), ft_failureKind = Str (lit ''internal''),
       ft_termination = lit ''response_completed''\<rparr>,
     co_classification = \<lparr>cl_outcome = Failed, cl_spanError = True, cl_errorType = Some (show_int 500)\<rparr>,
     co_elapsedNs = 7\<rparr>"

lemma sample_classified:
  "classifyCompletion (Some (co_facts sample_completion)) = Inr (co_classification sample_completion)"
proof -
  have "parseKind (Str (lit ''internal'')) = Some Internal" using parseKind_name[of Internal] by simp
  then show ?thesis
    by (simp add: sample_completion_def classifyCompletion_def terminated_def completed_outcome_def status_value_def Let_def)
qed

definition sample_observation :: observation where
  "sample_observation = \<lparr>ob_method = lit ''GET'', ob_scheme = lit ''http'', ob_carrier = [], ob_trace = None\<rparr>"

theorem signals_agree_witness:
  "\<exists>t. map_of (span_attrs sample_observation sample_completion None) (lit ''error.type'') = Some t"
proof -
  have "ErrorStatus \<in> set (observer_finish sample_otel (Some sample_observation) sample_completion None None None)"
    by (simp add: observer_finish_def sample_completion_def Let_def nonempty_def)
  with signals_agree[OF sample_classified refl, of sample_otel sample_observation None None None]
  show ?thesis by (simp only: Let_def simp_thms)
qed

end
