(* ===== verification/HttpClient.thy ===== *)
theory HttpClient
  imports Codec Http
begin

text \<open>
  \<open>src/shared/httpclient/index.ts\<close> and \<open>otel/client.ts\<close>: one bounded attempt per call. Node's HTTP client is the environment: what it
  reports of an attempt is an event. The URL parser is a parameter: the origin a path resolves to.
\<close>

section \<open>Configuration\<close>

definition hc_fail :: "kind \<Rightarrow> string \<Rightarrow> failure" where
  "hc_fail k code = fail k ''outbound HTTP operation failed'' (''httpclient.'' @ code)"

text \<open>The parts of the configured URL; \<open>others\<close> are user name, password, query and fragment.\<close>

record hc_url =
  hu_protocol :: str
  hu_origin :: str
  hu_pathname :: str
  hu_others :: "str list"

record hc_config =
  hc_timeoutMs :: number
  hc_maxRequest :: number
  hc_maxResponse :: number
  hc_bearer :: "secret option"

text \<open>What goes to the wire.\<close>

record outgoing =
  og_method :: str
  og_origin :: str
  og_path :: str
  og_headers :: "(str \<times> str) list"
  og_body :: "byte list"

record hc_response =
  hr_status :: int
  hr_body :: "byte list"
  hr_contentType :: str

record attempt =
  at_request :: outgoing
  at_active :: bool
  at_aborted :: bool
  at_timedOut :: bool
  at_size :: nat
  at_chunks :: "byte list list"
  at_answer :: "hc_response result option"

record client =
  cn_config :: hc_config
  cn_origin :: str
  cn_closed :: bool
  cn_attempts :: "attempt list"

text \<open>\<open>None\<close> is a text \<open>URL\<close> refuses.\<close>

definition client_create :: "hc_url option \<Rightarrow> hc_config \<Rightarrow> client result" where
  "client_create url c = (case url of
     None \<Rightarrow> Inl (hc_fail Invalid ''config'')
   | Some u \<Rightarrow>
       if hu_protocol u \<notin> set [lit ''http:'', lit ''https:''] \<or> list_ex (\<lambda>s. s \<noteq> []) (hu_others u)
         \<or> hu_pathname u \<noteq> lit ''/''
         \<or> \<not> int_in 1 30000 (hc_timeoutMs c) \<or> \<not> int_in 1 1048576 (hc_maxRequest c) \<or> \<not> int_in 1 1048576 (hc_maxResponse c)
         \<or> (case hc_bearer c of None \<Rightarrow> False | Some b \<Rightarrow> list_ex (\<lambda>x. x = 13 \<or> x = 10) (reveal b))
       then Inl (hc_fail Invalid ''config'')
       else Inr \<lparr>cn_config = c, cn_origin = hu_origin u, cn_closed = False, cn_attempts = []\<rparr>)"

section \<open>Starting an attempt\<close>

record hc_request =
  hq_method :: str
  hq_path :: str
  hq_body :: "byte list"
  hq_trace :: "trace_data brand option"

definition active_attempts :: "client \<Rightarrow> nat" where
  "active_attempts c = length (filter at_active (cn_attempts c))"

definition METHODS :: "str list" where
  "METHODS = [lit ''GET'', lit ''HEAD'', lit ''POST'', lit ''PUT'', lit ''PATCH'', lit ''DELETE'', lit ''OPTIONS'']"

definition request_ok :: "hc_request \<Rightarrow> hc_config \<Rightarrow> bool" where
  "request_ok q c \<longleftrightarrow> hq_method q \<in> set METHODS \<and> take 1 (hq_path q) = [47] \<and> take 2 (hq_path q) \<noteq> [47, 47]
     \<and> \<not> list_ex (\<lambda>x. x = 92 \<or> x = 13 \<or> x = 10 \<or> x = 35) (hq_path q)
     \<and> \<not> num_lt (hc_maxRequest c) (int (length (hq_body q)))"

text \<open>The header of a trace; a reference that was not made by the telemetry module throws.\<close>

definition traceparent :: "trace_data brand option \<Rightarrow> (str \<times> str) list option" where
  "traceparent t = (case t of
     None \<Rightarrow> Some []
   | Some b \<Rightarrow> (case trace_snapshot b of
         Inl _ \<Rightarrow> None
       | Inr d \<Rightarrow> Some [(lit ''traceparent'', lit ''00-'' @ tr_traceId d @ [45] @ tr_spanId d @ [45]
           @ (if tr_sampled d then lit ''01'' else lit ''00''))]))"

definition outgoing_headers :: "hc_config \<Rightarrow> (str \<times> str) list \<Rightarrow> byte list \<Rightarrow> (str \<times> str) list" where
  "outgoing_headers c tp body =
     [(lit ''accept'', lit ''application/json''), (lit ''content-type'', lit ''application/json'')]
     @ (case hc_bearer c of None \<Rightarrow> [] | Some b \<Rightarrow> if reveal b = [] then [] else [(lit ''authorization'', lit ''Bearer '' @ reveal b)])
     @ tp @ [(lit ''content-length'', show_base 10 (length body))]"

definition attempt_new :: "client \<Rightarrow> hc_request \<Rightarrow> (str \<times> str) list \<Rightarrow> bool \<Rightarrow> attempt" where
  "attempt_new c q tp created =
     \<lparr>at_request = \<lparr>og_method = hq_method q, og_origin = cn_origin c, og_path = hq_path q,
        og_headers = outgoing_headers (cn_config c) tp (hq_body q), og_body = hq_body q\<rparr>,
      at_active = True, at_aborted = False, at_timedOut = False, at_size = 0, at_chunks = [],
      at_answer = (if created then None else Some (Inl (hc_fail Invalid ''request'')))\<rparr>"

text \<open>
  \<open>do\<close>, up to its promise: it is refused, or an attempt begins. \<open>origin_of\<close> is the origin of the resolved target;
  \<open>created\<close> is false when the platform refuses to create the request, which ends the attempt at once.
\<close>

definition client_do :: "(str \<Rightarrow> str option) \<Rightarrow> bool \<Rightarrow> bool \<Rightarrow> hc_request \<Rightarrow> client \<Rightarrow> failure option \<times> client" where
  "client_do origin_of created aborted q c =
     (if cn_closed c then (Some (hc_fail Unavailable ''closed''), c)
      else if 64 \<le> active_attempts c then (Some (hc_fail Rate_limited ''busy''), c)
      else if aborted then (Some (hc_fail Canceled ''canceled''), c)
      else if \<not> request_ok q (cn_config c) then (Some (hc_fail Invalid ''request''), c)
      else if origin_of (hq_path q) \<noteq> Some (cn_origin c) then (Some (hc_fail Invalid ''request''), c)
      else case traceparent (hq_trace q) of
        None \<Rightarrow> (Some (hc_fail Invalid ''trace''), c)
      | Some tp \<Rightarrow>
          (None, c\<lparr>cn_attempts := cn_attempts c @ [attempt_new c q tp created]\<rparr>))"

section \<open>The life of an attempt\<close>

text \<open>\<open>resolve\<close>: the first answer counts.\<close>

definition at_resolve :: "hc_response result \<Rightarrow> attempt \<Rightarrow> attempt" where
  "at_resolve r a = (case at_answer a of None \<Rightarrow> a\<lparr>at_answer := Some r\<rparr> | Some _ \<Rightarrow> a)"

definition at_failure :: "attempt \<Rightarrow> failure" where
  "at_failure a = (if at_timedOut a then hc_fail Timeout ''timeout''
     else if at_aborted a then hc_fail Canceled ''canceled'' else hc_fail Unavailable ''network'')"

definition on_abort :: "attempt \<Rightarrow> attempt" where
  "on_abort a = (if at_active a then a\<lparr>at_aborted := True\<rparr> else a)"

definition on_timeout :: "attempt \<Rightarrow> attempt" where
  "on_timeout a = (if at_active a then a\<lparr>at_timedOut := True, at_aborted := True\<rparr> else a)"

definition on_data :: "hc_config \<Rightarrow> byte list \<Rightarrow> attempt \<Rightarrow> attempt" where
  "on_data c chunk a =
     (let a1 = a\<lparr>at_size := at_size a + length chunk\<rparr> in
      if num_lt (hc_maxResponse c) (int (at_size a1)) then at_resolve (Inl (hc_fail Unavailable ''response_too_large'')) a1
      else a1\<lparr>at_chunks := at_chunks a @ [chunk]\<rparr>)"

text \<open>An error of the request or of the response.\<close>

definition on_error :: "attempt \<Rightarrow> attempt" where
  "on_error a = at_resolve (Inl (at_failure a)) a"

definition on_end :: "int \<Rightarrow> bool \<Rightarrow> str option \<Rightarrow> attempt \<Rightarrow> attempt" where
  "on_end status complete ctype a =
     (if status < 200 \<or> 599 < status \<or> \<not> complete then at_resolve (Inl (hc_fail Unavailable ''protocol'')) a
      else at_resolve (Inr \<lparr>hr_status = status, hr_body = concat (at_chunks a),
        hr_contentType = (case ctype of None \<Rightarrow> [] | Some t \<Rightarrow> t)\<rparr>) a)"

text \<open>The \<open>finally\<close> block, once the promise has an answer.\<close>

definition on_settled :: "attempt \<Rightarrow> attempt" where
  "on_settled a = (if at_answer a \<noteq> None then a\<lparr>at_active := False\<rparr> else a)"

datatype attempt_event = AbortCall | TimerFires | Data "byte list" | NetError | End int bool "str option" | Settled

fun attempt_apply :: "hc_config \<Rightarrow> attempt_event \<Rightarrow> attempt \<Rightarrow> attempt" where
  "attempt_apply c AbortCall a = on_abort a"
| "attempt_apply c TimerFires a = on_timeout a"
| "attempt_apply c (Data chunk) a = on_data c chunk a"
| "attempt_apply c NetError a = on_error a"
| "attempt_apply c (End status complete ctype) a = on_end status complete ctype a"
| "attempt_apply c Settled a = on_settled a"

definition client_close :: "client \<Rightarrow> client" where
  "client_close c = c\<lparr>cn_closed := True, cn_attempts := map on_abort (cn_attempts c)\<rparr>"

datatype client_event = Do "str \<Rightarrow> str option" bool bool hc_request | Of nat attempt_event | CloseClient

definition on_attempt :: "nat \<Rightarrow> attempt_event \<Rightarrow> client \<Rightarrow> client" where
  "on_attempt i e c = (if i < length (cn_attempts c)
     then c\<lparr>cn_attempts := (cn_attempts c)[i := attempt_apply (cn_config c) e (cn_attempts c ! i)]\<rparr> else c)"

fun client_apply :: "client_event \<Rightarrow> client \<Rightarrow> client" where
  "client_apply (Do origin_of created aborted q) c = snd (client_do origin_of created aborted q c)"
| "client_apply (Of i e) c = on_attempt i e c"
| "client_apply CloseClient c = client_close c"

definition client_run :: "client_event list \<Rightarrow> client \<Rightarrow> client" where
  "client_run es c = fold client_apply es c"

section \<open>The invariant\<close>

definition config_ok :: "hc_config \<Rightarrow> bool" where
  "config_ok c \<longleftrightarrow> int_in 1 30000 (hc_timeoutMs c) \<and> int_in 1 1048576 (hc_maxRequest c) \<and> int_in 1 1048576 (hc_maxResponse c)"

text \<open>What may be on the wire: a request of this origin, within its limit, told its true length.\<close>

definition outgoing_ok :: "hc_config \<Rightarrow> str \<Rightarrow> outgoing \<Rightarrow> bool" where
  "outgoing_ok c origin r \<longleftrightarrow> og_method r \<in> set METHODS \<and> og_origin r = origin
     \<and> take 1 (og_path r) = [47] \<and> take 2 (og_path r) \<noteq> [47, 47] \<and> \<not> list_ex (\<lambda>x. x = 13 \<or> x = 10) (og_path r)
     \<and> \<not> num_lt (hc_maxRequest c) (int (length (og_body r)))
     \<and> map_of (og_headers r) (lit ''content-length'') = Some (show_base 10 (length (og_body r)))"

text \<open>What an attempt may be answered with, by its state.\<close>

definition answer_ok :: "hc_config \<Rightarrow> attempt \<Rightarrow> hc_response result \<Rightarrow> bool" where
  "answer_ok c a r = (case r of
     Inr x \<Rightarrow> 200 \<le> hr_status x \<and> hr_status x \<le> 599 \<and> \<not> num_lt (hc_maxResponse c) (int (length (hr_body x)))
   | Inl f \<Rightarrow> f \<in> {hc_fail Invalid ''request'', hc_fail Unavailable ''protocol'', hc_fail Unavailable ''network''}
       \<or> f = hc_fail Unavailable ''response_too_large'' \<and> num_lt (hc_maxResponse c) (int (at_size a))
       \<or> f = hc_fail Timeout ''timeout'' \<and> at_timedOut a \<or> f = hc_fail Canceled ''canceled'' \<and> at_aborted a)"

definition attempt_inv :: "hc_config \<Rightarrow> attempt \<Rightarrow> bool" where
  "attempt_inv c a \<longleftrightarrow> (case at_answer a of None \<Rightarrow> at_active a | Some r \<Rightarrow> answer_ok c a r)
     \<and> length (concat (at_chunks a)) \<le> at_size a
     \<and> \<not> num_lt (hc_maxResponse c) (int (length (concat (at_chunks a))))"

lemma num_lt_mono: "num_lt x i \<Longrightarrow> i \<le> j \<Longrightarrow> num_lt x j"
  by (cases x) auto

lemma hc_fail_distinct [simp]:
  "hc_fail k code = hc_fail k' code' \<longleftrightarrow> k = k' \<and> code = code'"
  by (auto simp: hc_fail_def fail_def failure_def nonempty_def)

lemma answer_ok_cong:
  "answer_ok c a r \<Longrightarrow> (at_timedOut a \<Longrightarrow> at_timedOut b) \<Longrightarrow> (at_aborted a \<Longrightarrow> at_aborted b) \<Longrightarrow> at_size a \<le> at_size b
    \<Longrightarrow> answer_ok c b r"
  using num_lt_mono[of "hc_maxResponse c" "int (at_size a)" "int (at_size b)"]
  by (auto simp: answer_ok_def split: sum.splits)

lemma resolve_simps [simp]:
  "at_answer (at_resolve r a) = (case at_answer a of None \<Rightarrow> Some r | Some x \<Rightarrow> Some x)"
  "at_size (at_resolve r a) = at_size a" "at_chunks (at_resolve r a) = at_chunks a" "at_active (at_resolve r a) = at_active a"
  "at_timedOut (at_resolve r a) = at_timedOut a" "at_aborted (at_resolve r a) = at_aborted a"
  "at_request (at_resolve r a) = at_request a"
  by (simp_all add: at_resolve_def split: option.split)

lemma resolve_inv: "attempt_inv c a \<Longrightarrow> answer_ok c a r \<Longrightarrow> attempt_inv c (at_resolve r a)"
  by (cases "at_answer a") (auto simp: attempt_inv_def intro: answer_ok_cong)

lemma grow_inv: "attempt_inv c a \<Longrightarrow> attempt_inv c (a\<lparr>at_size := at_size a + n\<rparr>)"
  by (cases "at_answer a") (auto simp: attempt_inv_def intro: answer_ok_cong)

lemma on_abort_inv: "attempt_inv c a \<Longrightarrow> attempt_inv c (on_abort a)"
  by (cases "at_answer a") (auto simp: attempt_inv_def on_abort_def intro: answer_ok_cong)

lemma attempt_apply_inv:
  assumes "attempt_inv c a"
  shows "attempt_inv c (attempt_apply c e a)"
proof (cases e)
  case AbortCall
  then show ?thesis using assms by (simp add: on_abort_inv)
next
  case TimerFires
  then show ?thesis
    using assms by (cases "at_answer a") (auto simp: attempt_inv_def on_timeout_def intro: answer_ok_cong)
next
  case (Data chunk)
  let ?a = "a\<lparr>at_size := at_size a + length chunk\<rparr>"
  note g = grow_inv[OF assms, of "length chunk"]
  show ?thesis
  proof (cases "num_lt (hc_maxResponse c) (int (at_size ?a))")
    case True
    then have "answer_ok c ?a (Inl (hc_fail Unavailable ''response_too_large''))" by (simp add: answer_ok_def)
    from resolve_inv[OF g this] show ?thesis using Data True by (simp add: on_data_def)
  next
    case False
    have "\<not> num_lt (hc_maxResponse c) (int (length (concat (at_chunks a))) + int (length chunk))"
      using False assms num_lt_mono[of "hc_maxResponse c" "int (length (concat (at_chunks a))) + int (length chunk)"
          "int (at_size a) + int (length chunk)"] by (auto simp: attempt_inv_def)
    moreover have "length (concat (at_chunks a)) \<le> at_size a" using assms by (simp add: attempt_inv_def)
    ultimately show ?thesis using Data False g
      by (cases "at_answer a") (auto simp: on_data_def attempt_inv_def answer_ok_def split: sum.splits)
  qed
next
  case NetError
  have "answer_ok c a (Inl (at_failure a))" by (simp add: answer_ok_def at_failure_def)
  then show ?thesis using NetError resolve_inv[OF assms] by (simp add: on_error_def)
next
  case (End status complete ctype)
  have "answer_ok c a (Inl (hc_fail Unavailable ''protocol''))" by (simp add: answer_ok_def)
  moreover have "answer_ok c a (Inr \<lparr>hr_status = status, hr_body = concat (at_chunks a), hr_contentType = t\<rparr>)"
    if "\<not> (status < 200 \<or> 599 < status)" for t
    using that assms by (simp add: answer_ok_def attempt_inv_def)
  ultimately show ?thesis using End resolve_inv[OF assms] by (simp add: on_end_def)
next
  case Settled
  then show ?thesis
    using assms by (cases "at_answer a") (auto simp: on_settled_def attempt_inv_def intro: answer_ok_cong)
qed

lemma attempt_apply_kept:
  "at_request (attempt_apply c e a) = at_request a" "at_active (attempt_apply c e a) \<Longrightarrow> at_active a"
  "at_active (attempt_apply c e a) \<Longrightarrow> at_aborted a \<Longrightarrow> at_aborted (attempt_apply c e a)"
  by (cases e; auto simp: on_abort_def on_timeout_def on_data_def on_error_def on_end_def on_settled_def Let_def split: if_splits)+

lemma attempt_answer_kept: "at_answer a = Some r \<Longrightarrow> at_answer (attempt_apply c e a) = Some r"
  by (cases e) (auto simp: on_abort_def on_timeout_def on_data_def on_error_def on_end_def on_settled_def Let_def)

definition client_inv :: "client \<Rightarrow> bool" where
  "client_inv c \<longleftrightarrow> config_ok (cn_config c)
     \<and> list_all (\<lambda>a. attempt_inv (cn_config c) a \<and> outgoing_ok (cn_config c) (cn_origin c) (at_request a)) (cn_attempts c)
     \<and> active_attempts c \<le> 64
     \<and> (cn_closed c \<longrightarrow> list_all (\<lambda>a. at_active a \<longrightarrow> at_aborted a) (cn_attempts c))"

lemma created_inv: "client_create url c = Inr k \<Longrightarrow> client_inv k \<and> cn_config k = c"
  by (auto simp: client_create_def client_inv_def config_ok_def active_attempts_def split: option.splits if_splits)

lemma content_length:
  "traceparent t = Some tp \<Longrightarrow> map_of (outgoing_headers c tp body) (lit ''content-length'') = Some (show_base 10 (length body))"
  by (auto simp: traceparent_def outgoing_headers_def split: option.splits sum.splits if_splits)

lemma client_do_inv:
  assumes "client_inv c"
  shows "client_inv (snd (client_do origin_of created aborted q c))"
proof (cases "fst (client_do origin_of created aborted q c)")
  case None
  then obtain tp where d: "\<not> cn_closed c" "active_attempts c < 64" "request_ok q (cn_config c)" "traceparent (hq_trace q) = Some tp"
    by (auto simp: client_do_def split: if_splits option.splits)
  have n: "num_lt x 0 \<Longrightarrow> \<not> int_in 1 1048576 x" for x by (cases x) (auto simp: int_in_def)
  then have m: "\<not> num_lt (hc_maxResponse (cn_config c)) 0" using assms by (auto simp: client_inv_def config_ok_def)
  let ?a = "attempt_new c q tp created"
  have "attempt_inv (cn_config c) ?a" using m by (simp add: attempt_new_def attempt_inv_def answer_ok_def)
  moreover have "outgoing_ok (cn_config c) (cn_origin c) (at_request ?a)"
    using d(3) content_length[OF d(4)] by (auto simp: attempt_new_def outgoing_ok_def request_ok_def list_ex_iff)
  moreover have "snd (client_do origin_of created aborted q c) = c\<lparr>cn_attempts := cn_attempts c @ [?a]\<rparr>"
    using None d(4) by (auto simp: client_do_def split: if_splits)
  ultimately show ?thesis using assms d(1,2) by (simp add: client_inv_def active_attempts_def)
next
  case (Some f)
  then have "snd (client_do origin_of created aborted q c) = c"
    by (auto simp: client_do_def split: if_splits option.splits)
  with assms show ?thesis by simp
qed

lemma filter_update_le: "(P y \<Longrightarrow> P (xs ! i)) \<Longrightarrow> length (filter P (xs[i := y])) \<le> length (filter P xs)"
  by (induction xs arbitrary: i) (auto split: nat.split)

lemma on_attempt_inv: "client_inv c \<Longrightarrow> client_inv (on_attempt i e c)"
proof (cases "i < length (cn_attempts c)")
  case True
  assume c: "client_inv c"
  let ?a = "cn_attempts c ! i"
  have a: "attempt_inv (cn_config c) ?a" "outgoing_ok (cn_config c) (cn_origin c) (at_request ?a)"
    using c True by (auto simp: client_inv_def list_all_length)
  show ?thesis
    using c True attempt_apply_inv[OF a(1), of e] a(2) attempt_apply_kept[of "cn_config c" e ?a]
      filter_update_le[of at_active "attempt_apply (cn_config c) e ?a" "cn_attempts c" i]
    by (auto simp: on_attempt_def client_inv_def active_attempts_def list_all_length nth_list_update)
qed (simp add: on_attempt_def)

lemma client_close_inv: "client_inv c \<Longrightarrow> client_inv (client_close c)"
proof -
  assume c: "client_inv c"
  have "at_request (on_abort a) = at_request a" "at_active (on_abort a) = at_active a" "at_active a \<Longrightarrow> at_aborted (on_abort a)" for a
    by (simp_all add: on_abort_def)
  then show ?thesis using c
    by (auto simp: client_close_def client_inv_def active_attempts_def list_all_iff filter_map comp_def on_abort_inv)
qed

definition client_step :: "client \<Rightarrow> client \<Rightarrow> bool" where
  "client_step c d \<longleftrightarrow> (\<exists>e. d = client_apply e c)"

lemma client_apply_inv: "client_inv c \<Longrightarrow> client_inv (client_apply e c)"
  by (cases e) (simp_all add: client_do_inv on_attempt_inv client_close_inv)

interpretation outbound: step_invariant client_step client_inv
  by unfold_locales (auto simp: client_step_def client_apply_inv)

lemma client_run_steps: "client_step\<^sup>*\<^sup>* c (client_run es c)"
proof (induction es rule: rev_induct)
  case (snoc e es)
  have "client_step (client_run es c) (client_run (es @ [e]) c)" by (auto simp: client_step_def client_run_def)
  with snoc show ?case by (rule rtranclp.rtrancl_into_rtrancl)
qed (simp add: client_run_def)

lemma client_run_inv: "client_inv c \<Longrightarrow> client_inv (client_run es c)"
  by (rule outbound.steps_inv[OF client_run_steps])

lemma client_kept:
  "cn_config (client_run es c) = cn_config c" "cn_origin (client_run es c) = cn_origin c"
proof -
  have "cn_config (client_apply e d) = cn_config d \<and> cn_origin (client_apply e d) = cn_origin d" for e d
    by (cases e) (auto simp: client_do_def on_attempt_def client_close_def split: option.split)
  then show "cn_config (client_run es c) = cn_config c" "cn_origin (client_run es c) = cn_origin c"
    by (induction es rule: rev_induct) (simp_all add: client_run_def)
qed

lemma attempts_kept:
  assumes "i < length (cn_attempts c)"
  shows "i < length (cn_attempts (client_run es c))
    \<and> (at_answer (cn_attempts c ! i) = Some r \<longrightarrow> at_answer (cn_attempts (client_run es c) ! i) = Some r)"
  using assms
proof (induction es rule: rev_induct)
  case (snoc e es)
  let ?d = "client_run es c"
  have "i < length (cn_attempts (client_apply e ?d))
    \<and> (at_answer (cn_attempts ?d ! i) = Some r \<longrightarrow> at_answer (cn_attempts (client_apply e ?d) ! i) = Some r)"
    using snoc by (cases e)
      (auto simp: client_do_def on_attempt_def client_close_def on_abort_def nth_append nth_list_update attempt_answer_kept
        split: option.split)
  with snoc show ?case by (simp add: client_run_def)
qed (simp add: client_run_def)

section \<open>What an attempt is answered for\<close>

text \<open>
  The events that reach the attempt \<open>i\<close> once it exists, closing the client being a cancellation of each; the bytes
  received in a history; the event that decides an attempt, and the answer it deserves after what came before.
\<close>

fun reaching :: "nat \<Rightarrow> client_event \<Rightarrow> attempt_event list" where
  "reaching i (Of j x) = (if j = i then [x] else [])"
| "reaching i CloseClient = [AbortCall]"
| "reaching i (Do _ _ _ _) = []"

fun attempt_history :: "client_event list \<Rightarrow> client \<Rightarrow> nat \<Rightarrow> attempt_event list" where
  "attempt_history [] c i = []"
| "attempt_history (e # es) c i =
     (if i < length (cn_attempts c) then reaching i e else []) @ attempt_history es (client_apply e c) i"

definition received :: "attempt_event list \<Rightarrow> byte list" where
  "received xs = concat (map (\<lambda>x. case x of Data chunk \<Rightarrow> chunk | _ \<Rightarrow> []) xs)"

fun decides :: "hc_config \<Rightarrow> attempt_event list \<Rightarrow> attempt_event \<Rightarrow> bool" where
  "decides c before (Data chunk) = num_lt (hc_maxResponse c) (int (length (received before) + length chunk))"
| "decides c before NetError = True"
| "decides c before (End _ _ _) = True"
| "decides c before _ = False"

fun deserved :: "attempt_event list \<Rightarrow> attempt_event \<Rightarrow> hc_response result" where
  "deserved before (End status complete ctype) =
     (if 200 \<le> status \<and> status \<le> 599 \<and> complete
      then Inr \<lparr>hr_status = status, hr_body = received before, hr_contentType = (case ctype of None \<Rightarrow> [] | Some t \<Rightarrow> t)\<rparr>
      else Inl (hc_fail Unavailable ''protocol''))"
| "deserved before NetError =
     Inl (if TimerFires \<in> set before then hc_fail Timeout ''timeout''
          else if AbortCall \<in> set before then hc_fail Canceled ''canceled'' else hc_fail Unavailable ''network'')"
| "deserved before _ = Inl (hc_fail Unavailable ''response_too_large'')"

definition undecided :: "hc_config \<Rightarrow> attempt_event list \<Rightarrow> bool" where
  "undecided c xs \<longleftrightarrow> (\<forall>before x after. xs = before @ x # after \<longrightarrow> \<not> decides c before x)"

definition attempt_run :: "hc_config \<Rightarrow> attempt_event list \<Rightarrow> attempt \<Rightarrow> attempt" where
  "attempt_run c xs a = fold (attempt_apply c) xs a"

lemma received_snoc [simp]:
  "received [] = []" "received (xs @ [x]) = received xs @ (case x of Data chunk \<Rightarrow> chunk | _ \<Rightarrow> [])"
  by (simp_all add: received_def)

lemma undecided_snoc [simp]: "undecided c []" "undecided c (xs @ [x]) \<longleftrightarrow> undecided c xs \<and> \<not> decides c xs x"
proof -
  show "undecided c []" by (simp add: undecided_def)
  show "undecided c (xs @ [x]) \<longleftrightarrow> undecided c xs \<and> \<not> decides c xs x"
  proof
    assume u: "undecided c (xs @ [x])"
    have "\<not> decides c before y" if "xs = before @ y # after" for before y after
      using u that by (auto simp: undecided_def)
    moreover have "\<not> decides c xs x" using u by (auto simp: undecided_def)
    ultimately show "undecided c xs \<and> \<not> decides c xs x" by (auto simp: undecided_def)
  next
    assume u: "undecided c xs \<and> \<not> decides c xs x"
    have "\<not> decides c before y" if "xs @ [x] = before @ y # after" for before y after
      using u that by (cases after rule: rev_cases) (auto simp: undecided_def)
    then show "undecided c (xs @ [x])" by (auto simp: undecided_def)
  qed
qed

text \<open>While nothing decided, an attempt holds what its history brought.\<close>

definition waiting :: "attempt_event list \<Rightarrow> attempt \<Rightarrow> bool" where
  "waiting xs a \<longleftrightarrow> at_answer a = None \<and> at_active a \<and> concat (at_chunks a) = received xs \<and> at_size a = length (received xs)
     \<and> (at_timedOut a \<longleftrightarrow> TimerFires \<in> set xs) \<and> (at_aborted a \<longleftrightarrow> AbortCall \<in> set xs \<or> TimerFires \<in> set xs)"

lemma waiting_step: "waiting xs a \<Longrightarrow> \<not> decides c xs x \<Longrightarrow> waiting (xs @ [x]) (attempt_apply c x a)"
  by (cases x) (auto simp: waiting_def on_abort_def on_timeout_def on_data_def on_settled_def)

lemma deciding_step: "waiting xs a \<Longrightarrow> decides c xs x \<Longrightarrow> at_answer (attempt_apply c x a) = Some (deserved xs x)"
  by (cases x) (auto simp: waiting_def on_data_def on_error_def on_end_def at_failure_def)

lemma attempt_run_answer:
  assumes "waiting [] a"
  shows "case at_answer (attempt_run c xs a) of
      None \<Rightarrow> undecided c xs \<and> waiting xs (attempt_run c xs a)
    | Some r \<Rightarrow> \<exists>before x after. xs = before @ x # after \<and> undecided c before \<and> decides c before x \<and> r = deserved before x"
proof (induction xs rule: rev_induct)
  case Nil
  with assms show ?case by (simp add: attempt_run_def waiting_def)
next
  case (snoc x xs)
  have r: "attempt_run c (xs @ [x]) a = attempt_apply c x (attempt_run c xs a)" by (simp add: attempt_run_def)
  show ?case
  proof (cases "at_answer (attempt_run c xs a)")
    case None
    then have w: "undecided c xs" "waiting xs (attempt_run c xs a)" using snoc by simp_all
    show ?thesis
    proof (cases "decides c xs x")
      case True
      with w deciding_step[OF w(2) True] show ?thesis unfolding r by auto
    next
      case False
      with w waiting_step[OF w(2) False] show ?thesis unfolding r by (auto simp: waiting_def)
    qed
  next
    case (Some y)
    then obtain before z after where "xs = before @ z # after" "undecided c before" "decides c before z" "y = deserved before z"
      using snoc by auto
    then have "xs @ [x] = before @ z # (after @ [x]) \<and> undecided c before \<and> decides c before z \<and> y = deserved before z" by simp
    then show ?thesis using attempt_answer_kept[OF Some, of c x] unfolding r by auto
  qed
qed

lemma attempt_run_refused: "at_answer a = Some r \<Longrightarrow> at_answer (attempt_run c xs a) = Some r"
  by (induction xs arbitrary: a) (simp_all add: attempt_run_def attempt_answer_kept)

lemma attempt_history_snoc:
  "attempt_history (es @ [e]) c i
   = attempt_history es c i @ (if i < length (cn_attempts (client_run es c)) then reaching i e else [])"
  by (induction es arbitrary: c) (simp_all add: client_run_def)

text \<open>Where an attempt comes from: a call of the history, whose events then made it what it is.\<close>

definition attempt_of :: "hc_config \<Rightarrow> str \<Rightarrow> client_event list \<Rightarrow> bool \<Rightarrow> attempt \<Rightarrow> bool" where
  "attempt_of cfg origin es created a \<longleftrightarrow>
     (\<exists>origin_of aborted q tp. Do origin_of created aborted q \<in> set es \<and> \<not> aborted \<and> request_ok q cfg
        \<and> origin_of (hq_path q) = Some origin \<and> traceparent (hq_trace q) = Some tp
        \<and> a = attempt_new \<lparr>cn_config = cfg, cn_origin = origin, cn_closed = False, cn_attempts = []\<rparr> q tp created)"

lemma attempt_of_mono: "attempt_of cfg origin es created a \<Longrightarrow> attempt_of cfg origin (es @ fs) created a"
  unfolding attempt_of_def by fastforce

lemma client_do_new:
  assumes "cn_attempts (snd (client_do origin_of created aborted q c)) \<noteq> cn_attempts c"
  shows "\<exists>a. attempt_of (cn_config c) (cn_origin c) [Do origin_of created aborted q] created a
    \<and> cn_attempts (snd (client_do origin_of created aborted q c)) = cn_attempts c @ [a]"
  using assms by (auto simp: client_do_def attempt_of_def attempt_new_def split: if_splits option.splits)

lemma attempt_origin:
  assumes "cn_attempts k = []" "i < length (cn_attempts (client_run es k))"
  shows "\<exists>created a. attempt_of (cn_config k) (cn_origin k) es created a
    \<and> cn_attempts (client_run es k) ! i = attempt_run (cn_config k) (attempt_history es k i) a"
  using assms(2)
proof (induction es rule: rev_induct)
  case Nil
  with assms show ?case by (simp add: client_run_def)
next
  case (snoc e es)
  let ?c = "client_run es k"
  have r: "client_run (es @ [e]) k = client_apply e ?c" by (simp add: client_run_def)
  show ?case
  proof (cases "i < length (cn_attempts ?c)")
    case True
    then obtain created a where a: "attempt_of (cn_config k) (cn_origin k) es created a"
      "cn_attempts ?c ! i = attempt_run (cn_config k) (attempt_history es k i) a" using snoc.IH by blast
    have "cn_attempts (client_apply e ?c) ! i = attempt_run (cn_config k) (reaching i e) (cn_attempts ?c ! i)"
      using True by (cases e)
        (auto simp: client_do_def on_attempt_def client_close_def attempt_run_def nth_append nth_list_update client_kept split: option.split)
    then show ?thesis using a True attempt_of_mono[OF a(1), of "[e]"] unfolding r
      by (auto simp: attempt_history_snoc attempt_run_def)
  next
    case False
    obtain origin_of created aborted q where e: "e = Do origin_of created aborted q"
      using False snoc.prems unfolding r by (cases e) (auto simp: on_attempt_def client_close_def split: if_splits)
    then have "cn_attempts (snd (client_do origin_of created aborted q ?c)) \<noteq> cn_attempts ?c"
      using False snoc.prems unfolding r by auto
    from client_do_new[OF this] obtain a where a: "attempt_of (cn_config ?c) (cn_origin ?c) [e] created a"
      "cn_attempts (client_apply e ?c) = cn_attempts ?c @ [a]" using e by auto
    have "i = length (cn_attempts ?c)" using False snoc.prems a(2) unfolding r by simp
    moreover have "length (cn_attempts (client_run (take n es) k)) \<le> length (cn_attempts ?c)" for n
      using attempts_kept[of _ "client_run (take n es) k" "drop n es"]
      by (metis append_take_drop_id client_run_def fold_append comp_apply le_less_linear less_irrefl)
    moreover have "attempt_history es k i = []" if "\<And>n. length (cn_attempts (client_run (take n es) k)) \<le> i"
      using that
    proof (induction es arbitrary: k)
      case (Cons x xs)
      have "length (cn_attempts (client_run (take n xs) (client_apply x k))) \<le> i" for n
        using Cons.prems[of "Suc n"] by (simp add: client_run_def)
      then show ?case using Cons.IH[of "client_apply x k"] Cons.prems[of 0] by (simp add: client_run_def)
    qed simp
    ultimately have "attempt_history (es @ [e]) k i = []" by (simp add: attempt_history_snoc)
    moreover have "attempt_of (cn_config k) (cn_origin k) (es @ [e]) created a"
      using a(1) unfolding attempt_of_def by (auto simp: client_kept)
    ultimately show ?thesis using a(2) \<open>i = _\<close> unfolding r by (auto simp: attempt_run_def)
  qed
qed

text \<open>The answer of an attempt, by where it comes from and what reached it.\<close>

definition answered_truly :: "hc_config \<Rightarrow> bool \<Rightarrow> attempt_event list \<Rightarrow> hc_response result option \<Rightarrow> bool" where
  "answered_truly cfg created xs answer =
     (if \<not> created then answer = Some (Inl (hc_fail Invalid ''request''))
      else case answer of
        None \<Rightarrow> undecided cfg xs
      | Some r \<Rightarrow> \<exists>before x after. xs = before @ x # after \<and> undecided cfg before \<and> decides cfg before x \<and> r = deserved before x)"

lemma attempt_answered:
  assumes "cn_attempts k = []" "i < length (cn_attempts (client_run es k))"
  shows "\<exists>created a. attempt_of (cn_config k) (cn_origin k) es created a
    \<and> at_request (cn_attempts (client_run es k) ! i) = at_request a
    \<and> answered_truly (cn_config k) created (attempt_history es k i) (at_answer (cn_attempts (client_run es k) ! i))"
proof -
  let ?xs = "attempt_history es k i"
  obtain created a where a: "attempt_of (cn_config k) (cn_origin k) es created a"
    "cn_attempts (client_run es k) ! i = attempt_run (cn_config k) ?xs a" using attempt_origin[OF assms] by blast
  have "at_request (attempt_run c xs b) = at_request b" for c xs b
    by (induction xs arbitrary: b) (simp_all add: attempt_run_def attempt_apply_kept)
  moreover have "answered_truly (cn_config k) created ?xs (at_answer (attempt_run (cn_config k) ?xs a))"
  proof (cases created)
    case True
    then have "waiting [] a" using a(1) by (auto simp: attempt_of_def attempt_new_def waiting_def)
    from attempt_run_answer[OF this, of "cn_config k" ?xs] True show ?thesis
      by (auto simp: answered_truly_def split: option.splits)
  next
    case False
    then have "at_answer a = Some (Inl (hc_fail Invalid ''request''))" using a(1) by (auto simp: attempt_of_def attempt_new_def)
    from attempt_run_refused[OF this] False show ?thesis by (simp add: answered_truly_def)
  qed
  ultimately show ?thesis using a by auto
qed

section \<open>Properties\<close>

text \<open>
  C30: what a client sends and answers. In every history at most 64 attempts are active; every request on the wire comes
  from a call of the history and is for the configured origin, within the size limit and of the told length. An attempt
  the platform could not create is refused; any other is answered by the first event that decides it, and by none
  before: the end of the response with its status, content type and the bytes received so far when the status is from
  200 to 599 and the response complete, and as a protocol failure otherwise; the chunk over the limit as too large; an
  error as a timeout when the timer fired before, as a cancellation when it was aborted or the client closed before,
  as a network failure otherwise. An attempt nothing decided has no answer and stays active.
\<close>

theorem attempts_sound:
  assumes "client_create url cfg = Inr k"
  shows "active_attempts (client_run es k) \<le> 64
    \<and> list_all (\<lambda>a. outgoing_ok cfg (cn_origin k) (at_request a)
        \<and> (case at_answer a of None \<Rightarrow> at_active a | Some r \<Rightarrow> answer_ok cfg a r)) (cn_attempts (client_run es k))
    \<and> (\<forall>i < length (cn_attempts (client_run es k)). \<exists>created a.
        attempt_of cfg (cn_origin k) es created a
        \<and> at_request (cn_attempts (client_run es k) ! i) = at_request a
        \<and> answered_truly cfg created (attempt_history es k i) (at_answer (cn_attempts (client_run es k) ! i)))"
proof -
  have "client_inv (client_run es k)" "cn_config k = cfg" using created_inv[OF assms] by (simp_all add: client_run_inv)
  moreover have "cn_attempts k = []" using assms by (auto simp: client_create_def split: option.splits if_splits)
  ultimately show ?thesis using attempt_answered[of k _ es] by (auto simp: client_inv_def client_kept attempt_inv_def list_all_iff)
qed

text \<open>An attempt has one answer: whatever happens after it was answered, the answer stays.\<close>

lemma answer_final:
  assumes "i < length (cn_attempts (client_run es k))" "at_answer (cn_attempts (client_run es k) ! i) = Some r"
  shows "at_answer (cn_attempts (client_run (es @ fs) k) ! i) = Some r"
  using attempts_kept[OF assms(1), of fs r] assms(2) by (simp add: client_run_def)

lemma closed_attempts:
  "cn_closed c \<Longrightarrow> cn_closed (client_run es c) \<and> length (cn_attempts (client_run es c)) = length (cn_attempts c)"
proof (induction es rule: rev_induct)
  case (snoc e es)
  have "cn_closed (client_apply e d) \<and> length (cn_attempts (client_apply e d)) = length (cn_attempts d)" if "cn_closed d" for d
    using that by (cases e) (auto simp: client_do_def on_attempt_def client_close_def)
  with snoc show ?case by (simp add: client_run_def)
qed (simp add: client_run_def)

text \<open>
  Closing ends a client. After \<open>close\<close> no attempt begins any more, and an attempt without an answer whose
  aborted request then reports its error is answered with a timeout or a cancellation and leaves the active set.
\<close>

lemma closing_ends:
  assumes "client_create url cfg = Inr k" "i < length (cn_attempts (client_run es k))"
    and "at_answer (cn_attempts (client_run es k) ! i) = None"
  shows "length (cn_attempts (client_run (es @ CloseClient # fs) k)) = length (cn_attempts (client_run es k))
    \<and> (let a = cn_attempts (client_run (es @ [CloseClient, Of i NetError, Of i Settled]) k) ! i in
        \<not> at_active a \<and> (\<exists>f \<in> {hc_fail Timeout ''timeout'', hc_fail Canceled ''canceled''}. at_answer a = Some (Inl f)))"
proof -
  let ?c = "client_run es k"
  have c: "client_inv ?c" using created_inv[OF assms(1)] by (simp add: client_run_inv)
  have a: "at_active (cn_attempts ?c ! i)"
    using c assms(2,3) by (auto simp: client_inv_def list_all_length attempt_inv_def)
  have "client_run (es @ CloseClient # fs) k = client_run fs (client_close ?c)" by (simp add: client_run_def)
  moreover have "length (cn_attempts (client_run fs (client_close ?c))) = length (cn_attempts ?c)"
    using closed_attempts[of "client_close ?c" fs] by (simp add: client_close_def)
  moreover have "client_run (es @ [CloseClient, Of i NetError, Of i Settled]) k
      = on_attempt i Settled (on_attempt i NetError (client_close ?c))"
    by (simp add: client_run_def)
  ultimately show ?thesis
    using a assms(2,3)
    by (simp add: on_attempt_def client_close_def on_abort_def on_error_def on_settled_def at_failure_def)
qed

section \<open>Traced calls\<close>

text \<open>
  \<open>otel/client.ts\<close>: the same call under a span. \<open>span_ref\<close> is the reference made of the span's context,
  when it is valid; \<open>metrics\<close> says whether there is a histogram.
\<close>

record otel_attrs =
  oa_method :: str
  oa_status :: "int option"
  oa_error :: "str option"

datatype span_op = SpanError | SpanAttrs otel_attrs | SpanRecord otel_attrs | SpanEnd

definition otel_input :: "trace_data brand option \<Rightarrow> hc_request \<Rightarrow> hc_request" where
  "otel_input span_ref q = (case span_ref of None \<Rightarrow> q | Some t \<Rightarrow> q\<lparr>hq_trace := Some t\<rparr>)"

definition otel_attributes :: "str \<Rightarrow> hc_response result \<Rightarrow> otel_attrs" where
  "otel_attributes m r =
     \<lparr>oa_method = (if m \<in> set METHODS then m else lit ''_OTHER''),
      oa_status = (case r of Inl _ \<Rightarrow> None | Inr x \<Rightarrow> Some (hr_status x)),
      oa_error = (case r of Inl f \<Rightarrow> Some (kind_name (f_kind f))
        | Inr x \<Rightarrow> if 400 \<le> hr_status x then Some (show_int (hr_status x)) else None)\<rparr>"

text \<open>What the wrapped client throws is thrown on; the span ends either way.\<close>

definition otel_do :: "bool \<Rightarrow> bool \<Rightarrow> trace_data brand option \<Rightarrow> (hc_request \<Rightarrow> exn + hc_response result)
    \<Rightarrow> hc_request \<Rightarrow> (exn + hc_response result) \<times> span_op list" where
  "otel_do traces metrics span_ref native q =
     (if \<not> traces then (native q, [])
      else case native (otel_input span_ref q) of
        Inl e \<Rightarrow> (Inl e, [SpanEnd])
      | Inr r \<Rightarrow>
          let attrs = otel_attributes (hq_method q) r in
          (Inr r, (if oa_error attrs \<noteq> None then [SpanError] else []) @ [SpanAttrs attrs]
             @ (if metrics then [SpanRecord attrs] else []) @ [SpanEnd]))"

section \<open>Witnesses\<close>

definition sample_config :: hc_config where
  "sample_config = \<lparr>hc_timeoutMs = Whole 1000, hc_maxRequest = Whole 10, hc_maxResponse = Whole 10, hc_bearer = None\<rparr>"

definition sample_url :: hc_url where
  "sample_url = \<lparr>hu_protocol = lit ''http:'', hu_origin = lit ''http://a'', hu_pathname = lit ''/'', hu_others = []\<rparr>"

definition sample_client :: client where
  "sample_client = \<lparr>cn_config = sample_config, cn_origin = lit ''http://a'', cn_closed = False, cn_attempts = []\<rparr>"

definition sample_do :: client_event where
  "sample_do = Do (\<lambda>p. Some (lit ''http://a'')) True False \<lparr>hq_method = lit ''GET'', hq_path = lit ''/x'', hq_body = [], hq_trace = None\<rparr>"

lemma sample_created: "client_create (Some sample_url) sample_config = Inr sample_client"
  by (simp add: client_create_def sample_url_def sample_config_def sample_client_def)

lemma sample_attempt:
  "\<exists>a. cn_attempts (client_run [sample_do] sample_client) = [a] \<and> at_answer a = None \<and> at_active a"
  by (simp add: client_run_def sample_do_def client_do_def sample_client_def active_attempts_def request_ok_def METHODS_def
      sample_config_def traceparent_def attempt_new_def lit_def cu_of_def)

lemma sample_response:
  "attempt_history [sample_do, Of 0 (Data [65]), Of 0 (End 200 True None)] sample_client 0 = [Data [65], End 200 True None]"
  "0 < length (cn_attempts (client_run [sample_do, Of 0 (Data [65]), Of 0 (End 200 True None)] sample_client))"
  using sample_attempt by (auto simp: client_run_def on_attempt_def sample_client_def)

theorem attempts_sound_witness:
  "active_attempts (client_run [sample_do] sample_client) \<le> 64
   \<and> (\<exists>created. answered_truly sample_config created [Data [65], End 200 True None]
       (at_answer (cn_attempts (client_run [sample_do, Of 0 (Data [65]), Of 0 (End 200 True None)] sample_client) ! 0)))"
proof -
  let ?es = "[sample_do, Of 0 (Data [65]), Of 0 (End 200 True None)]"
  have "\<exists>created. answered_truly sample_config created (attempt_history ?es sample_client 0)
      (at_answer (cn_attempts (client_run ?es sample_client) ! 0))"
    using attempts_sound[OF sample_created, of ?es] sample_response(2) by blast
  with attempts_sound[OF sample_created, of "[sample_do]"] show ?thesis unfolding sample_response(1) by blast
qed

lemma answer_final_witness:
  "\<exists>f. at_answer (cn_attempts (client_run ([sample_do, Of 0 NetError] @ [Of 0 (End 200 True None)]) sample_client) ! 0)
     = Some (Inl f)"
proof -
  obtain a where a: "cn_attempts (client_run [sample_do] sample_client) = [a]" "at_answer a = None"
    using sample_attempt by blast
  have r: "client_run [sample_do, Of 0 NetError] sample_client = on_attempt 0 NetError (client_run [sample_do] sample_client)"
    by (simp add: client_run_def)
  have "at_answer (cn_attempts (client_run [sample_do, Of 0 NetError] sample_client) ! 0) = Some (Inl (at_failure a))"
    "0 < length (cn_attempts (client_run [sample_do, Of 0 NetError] sample_client))"
    unfolding r by (simp_all add: on_attempt_def a on_error_def)
  from answer_final[OF this(2,1), of "[Of 0 (End 200 True None)]"] show ?thesis by blast
qed

lemma closing_ends_witness:
  "\<exists>f. at_answer (cn_attempts (client_run ([sample_do] @ [CloseClient, Of 0 NetError, Of 0 Settled]) sample_client) ! 0)
     = Some (Inl f)"
proof -
  obtain a where a: "cn_attempts (client_run [sample_do] sample_client) = [a]" "at_answer a = None"
    using sample_attempt by blast
  have "0 < length (cn_attempts (client_run [sample_do] sample_client))"
    "at_answer (cn_attempts (client_run [sample_do] sample_client) ! 0) = None"
    by (simp_all add: a)
  from closing_ends[OF sample_created this, of "[]"] show ?thesis by (auto simp: Let_def)
qed

end
