(* ===== verification/Socket.thy ===== *)
theory Socket
  imports Projection Texts
begin

text \<open>
  \<open>src/shared/socket/index.ts\<close>: the envelope of socket messages. A message is the members of its JSON
  object, in their order.
\<close>

type_synonym socket_message = "(str \<times> json) list"

definition socket_invalid :: failure where
  "socket_invalid = fail Invalid ''invalid socket message'' ''socket.invalid''"

definition socket_id :: "str \<Rightarrow> bool" where
  "socket_id s \<longleftrightarrow> matches (\<lambda>c. is_alnum c \<or> c = 95 \<or> c = 45) 1 64 s"

definition socket_type :: "str \<Rightarrow> bool" where
  "socket_type s \<longleftrightarrow> matches (\<lambda>c. is_lower c \<or> is_digit c \<or> c = 95 \<or> c = 46) 1 64 s"

text \<open>The test of the parsed document: four members, the version, and the shape of each.\<close>

definition is_message :: "socket_message \<Rightarrow> bool" where
  "is_message ms \<longleftrightarrow> length ms = 4
     \<and> (case map_of ms (lit ''v'') of Some (JNum d) \<Rightarrow> dbl_number d = Whole 1 | _ \<Rightarrow> False)
     \<and> (case map_of ms (lit ''id'') of Some (JStr s) \<Rightarrow> socket_id s | _ \<Rightarrow> False)
     \<and> (case map_of ms (lit ''type'') of Some (JStr s) \<Rightarrow> socket_type s | _ \<Rightarrow> False)
     \<and> (case map_of ms (lit ''payload'') of Some (JObj p) \<Rightarrow> True | _ \<Rightarrow> False)"

definition socket_decode :: "byte list \<Rightarrow> socket_message result" where
  "socket_decode raw =
     (if 65536 < length raw then Inl socket_invalid
      else (case Option.bind (utf8_decode raw) json_parse of
          Some (JObj ms) \<Rightarrow> if is_message ms then Inr ms else Inl socket_invalid
        | _ \<Rightarrow> Inl socket_invalid))"

text \<open>\<open>None\<close> is a value \<open>JSON.stringify\<close> has no text for, or throws on.\<close>

definition socket_encode :: "json option \<Rightarrow> byte list result" where
  "socket_encode m = (case m of
     None \<Rightarrow> Inl socket_invalid
   | Some v \<Rightarrow> (case socket_decode (utf8_encode (stringify v)) of
         Inl e \<Rightarrow> Inl e | Inr _ \<Rightarrow> Inr (utf8_encode (stringify v))))"

section \<open>Properties\<close>

lemma socket_decode_printed:
  assumes "wf_json v"
  shows "socket_decode (utf8_encode (stringify v)) = (if 65536 < length (utf8_encode (stringify v)) then Inl socket_invalid
    else case v of JObj ms \<Rightarrow> if is_message ms then Inr ms else Inl socket_invalid | _ \<Rightarrow> Inl socket_invalid)"
  using json_round_trip[OF assms]
  by (cases v) (simp_all add: socket_decode_def json_bytes del: stringify.simps)

lemma socket_encode_Inr:
  "socket_encode m = Inr raw \<longleftrightarrow> (\<exists>v. m = Some v \<and> raw = utf8_encode (stringify v) \<and> is_ok (socket_decode raw))"
  by (auto simp: socket_encode_def split: option.splits sum.splits)

text \<open>What is decoded is a message, and its bytes are at most 65536.\<close>

lemma socket_decode_Inr: "socket_decode raw = Inr ms \<Longrightarrow> is_message ms \<and> length raw \<le> 65536"
  by (auto simp: socket_decode_def bind_eq_Some_conv split: if_splits option.splits json.splits)

text \<open>
  The socket codec is lossless and exact. A message whose numbers are safe integers is encoded exactly when it is
  within the size limit and of the declared shape, and its bytes then decode to the very same
  message; everything else is refused with the one failure of the codec.
\<close>

lemma socket_round_trip:
  assumes "wf_json (JObj ms)"
  shows "(if is_message ms \<and> length (utf8_encode (stringify (JObj ms))) \<le> 65536
      then \<exists>raw. socket_encode (Some (JObj ms)) = Inr raw \<and> socket_decode raw = Inr ms
      else socket_encode (Some (JObj ms)) = Inl socket_invalid)"
  using socket_decode_printed[OF assms] by (simp add: socket_encode_def del: stringify.simps)

definition sample_message :: socket_message where
  "sample_message = [(lit ''v'', jint 1), (lit ''id'', JStr (lit ''a'')), (lit ''type'', JStr (lit ''ping'')),
     (lit ''payload'', JObj [])]"

lemma sample_is_message: "is_message sample_message"
  by (simp add: sample_message_def is_message_def jint_def dbl_number_int socket_id_def socket_type_def matches_def str_simps
      word_le_nat_alt)

lemma sample_message_wf: "wf_json (JObj sample_message)"
proof -
  have "plain_keys sample_message"
    by (rule plain_keys_lit[of "[''v'', ''id'', ''type'', ''payload'']"]) (simp_all add: sample_message_def is_digit_def cu_of_def)
  then show ?thesis
    using wf_int[of 1] by (simp add: own_order_plain plain_keys_def) (simp add: sample_message_def max_safe_def own_order_def)
qed

lemma sample_message_size: "length (utf8_encode (stringify (JObj sample_message))) \<le> 65536"
proof (rule event_size)
  have "length (stringify (jint 1)) = 1"
    using show_dbl_int[of 1] by (simp add: jint_def dbl_of_int_def canon.simps max_safe_def show_int_def show_base.simps[of 10])
  then show "3 * json_size (JObj sample_message) \<le> 65536" by (simp add: sample_message_def jint_def del: stringify.simps)
qed

lemma socket_round_trip_witness:
  "\<exists>raw. socket_encode (Some (JObj sample_message)) = Inr raw \<and> socket_decode raw = Inr sample_message"
  using socket_round_trip[OF sample_message_wf] sample_is_message sample_message_size by (simp del: stringify.simps)

end
