(* ===== verification/WsServer.thy ===== *)
theory WsServer
  imports Socket
begin

text \<open>
  \<open>src/shared/socket/ws/server.ts\<close>: admission of connections, the handling of one connection, and the
  drain. The \<open>ws\<close> library and the sockets are the environment: what they report are events, what the server asks
  of them is recorded in the order it is asked. Steps of all connections may interleave in any order.
\<close>

section \<open>Connections\<close>

text \<open>
  What happens at a session and its socket, in order: a message is given to the session, the session answers
  (\<open>Answered\<close>, which is the settling of its promise), a response is sent, the socket is told to close or
  torn down, pinged, and the session is closed.
\<close>

datatype ws_entry = Handle socket_message | Answered | Send "byte list" | CloseSocket int | Terminate | Ping | CloseSession

text \<open>The asynchronous function that runs for a message: whether it awaits the session or the write.\<close>

record ws_operation =
  wo_sending :: bool
  wo_aborted :: bool
  wo_timer :: bool

record ws_conn =
  wc_closing :: bool
  wc_pending :: "ws_operation option"
  wc_pong :: bool
  wc_ticking :: bool
  wc_stopped :: bool
  wc_closed :: bool
  wc_done :: bool
  wc_trace :: "ws_entry list"

definition conn_new :: ws_conn where
  "conn_new = \<lparr>wc_closing = False, wc_pending = None, wc_pong = True, wc_ticking = True, wc_stopped = False,
     wc_closed = False, wc_done = False, wc_trace = []\<rparr>"

definition put :: "ws_entry \<Rightarrow> ws_conn \<Rightarrow> ws_conn" where
  "put x c = c\<lparr>wc_trace := wc_trace c @ [x]\<rparr>"

definition close_with :: "int \<Rightarrow> ws_conn \<Rightarrow> ws_conn" where
  "close_with code c = put (CloseSocket code) (c\<lparr>wc_closing := True\<rparr>)"

definition on_message :: "byte list \<Rightarrow> bool \<Rightarrow> ws_conn \<Rightarrow> ws_conn" where
  "on_message raw binary c =
     (if wc_closing c then c
      else if wc_pending c \<noteq> None then close_with 1013 c
      else if binary then close_with 1003 c
      else (case socket_decode raw of
          Inl _ \<Rightarrow> close_with 1008 c
        | Inr m \<Rightarrow> put (Handle m) (c\<lparr>wc_pending := Some \<lparr>wo_sending = False, wo_aborted = False, wo_timer = True\<rparr>\<rparr>)))"

text \<open>The end of the function: its timer is cleared and nothing is pending.\<close>

definition op_end :: "ws_conn \<Rightarrow> ws_conn" where
  "op_end c = c\<lparr>wc_pending := None\<rparr>"

text \<open>What the session's promise settles to: \<open>None\<close> is a rejection or a throw.\<close>

definition on_response :: "json option result option \<Rightarrow> ws_conn \<Rightarrow> ws_conn" where
  "on_response r c = (case wc_pending c of
     None \<Rightarrow> c
   | Some op \<Rightarrow>
       if wo_sending op then c
       else
         let c1 = put Answered c in
         (case r of
            None \<Rightarrow> op_end (close_with 1011 c1)
          | Some response \<Rightarrow>
              if wo_aborted op \<or> wc_closing c then op_end c1
              else (case response of
                  Inl _ \<Rightarrow> op_end (close_with 1011 c1)
                | Inr v \<Rightarrow> (case socket_encode v of
                      Inl _ \<Rightarrow> op_end (close_with 1011 c1)
                    | Inr body \<Rightarrow> put (Send body) (c1\<lparr>wc_pending := Some (op\<lparr>wo_sending := True\<rparr>)\<rparr>)))))"

definition on_sent :: "bool \<Rightarrow> ws_conn \<Rightarrow> ws_conn" where
  "on_sent good c = (case wc_pending c of
     None \<Rightarrow> c
   | Some op \<Rightarrow> if \<not> wo_sending op then c else if good then op_end c else op_end (close_with 1011 c))"

text \<open>The 1000 ms of an operation are over.\<close>

definition on_timer :: "ws_conn \<Rightarrow> ws_conn" where
  "on_timer c = (case wc_pending c of
     None \<Rightarrow> c
   | Some op \<Rightarrow> if \<not> wo_timer op then c
       else put Terminate (c\<lparr>wc_pending := Some (op\<lparr>wo_timer := False, wo_aborted := True\<rparr>)\<rparr>))"

definition on_heartbeat :: "ws_conn \<Rightarrow> ws_conn" where
  "on_heartbeat c = (if \<not> wc_ticking c then c
     else if \<not> wc_pong c then put Terminate c else put Ping (c\<lparr>wc_pong := False\<rparr>))"

definition on_pong :: "ws_conn \<Rightarrow> ws_conn" where
  "on_pong c = c\<lparr>wc_pong := True\<rparr>"

text \<open>\<open>stop.abort()\<close>: the first time, the operation that runs is aborted with it.\<close>

definition stop_abort :: "ws_conn \<Rightarrow> ws_conn" where
  "stop_abort c = (if wc_stopped c then c
     else c\<lparr>wc_stopped := True, wc_pending := map_option (\<lambda>op. op\<lparr>wo_aborted := True\<rparr>) (wc_pending c)\<rparr>)"

text \<open>The socket has closed; it says so once.\<close>

definition on_close :: "ws_conn \<Rightarrow> ws_conn" where
  "on_close c = (if wc_closed c then c
     else stop_abort (c\<lparr>wc_closed := True, wc_closing := True, wc_ticking := False\<rparr>))"

text \<open>The rest of the close handler, when nothing is pending any more.\<close>

definition on_cleanup :: "ws_conn \<Rightarrow> ws_conn" where
  "on_cleanup c = (if wc_closed c \<and> wc_pending c = None \<and> \<not> wc_done c
     then put CloseSession (c\<lparr>wc_done := True\<rparr>) else c)"

definition force_stop :: "ws_conn \<Rightarrow> ws_conn" where
  "force_stop c = put Terminate (stop_abort c)"

datatype conn_event = Message "byte list" bool | Response "json option result option" | Sent bool | OpTimer | Heartbeat | Pong
  | Closed | Cleanup

fun conn_apply :: "conn_event \<Rightarrow> ws_conn \<Rightarrow> ws_conn" where
  "conn_apply (Message raw binary) c = on_message raw binary c"
| "conn_apply (Response r) c = on_response r c"
| "conn_apply (Sent good) c = on_sent good c"
| "conn_apply OpTimer c = on_timer c"
| "conn_apply Heartbeat c = on_heartbeat c"
| "conn_apply Pong c = on_pong c"
| "conn_apply Closed c = on_close c"
| "conn_apply Cleanup c = on_cleanup c"

section \<open>The server\<close>

text \<open>A call of \<open>close\<close>: the connections it waits for, and its answer.\<close>

record ws_drain =
  wd_entries :: "nat list"
  wd_answer :: "bool option"

text \<open>Connections stay in the list when they leave the active set; they are active until they are done.\<close>

record ws_server =
  wv_origin :: str
  wv_closed :: bool
  wv_conns :: "ws_conn list"
  wv_drains :: "ws_drain list"

definition server_new :: "str \<Rightarrow> ws_server" where
  "server_new origin = \<lparr>wv_origin = origin, wv_closed = False, wv_conns = [], wv_drains = []\<rparr>"

definition active :: "ws_server \<Rightarrow> nat list" where
  "active s = filter (\<lambda>i. \<not> wc_done (wv_conns s ! i)) [0..<length (wv_conns s)]"

record upgrade_request =
  uq_raw :: "str list"
  uq_origin :: "str option"
  uq_protocols :: "str option"

datatype admission = Refused int | Admitted

definition admission :: "upgrade_request \<Rightarrow> ws_server \<Rightarrow> admission" where
  "admission rq s =
     (let protocol = (case uq_protocols rq of None \<Rightarrow> False
        | Some ps \<Rightarrow> lit ''n2f.v1'' \<in> set (map js_trim (split_on 44 ps))) in
      if length (raw_values ''origin'' (uq_raw rq)) \<noteq> 1 \<or> uq_origin rq \<noteq> Some (wv_origin s) \<or> \<not> protocol
      then Refused 403
      else if wv_closed s \<or> 64 \<le> length (active s) then Refused 503
      else Admitted)"

text \<open>
  \<open>accept\<close>: a session that cannot be opened leaves nothing but a torn down socket; \<open>opened\<close> is false when
  \<open>open\<close> fails or throws.
\<close>

definition accept :: "bool \<Rightarrow> ws_server \<Rightarrow> ws_server" where
  "accept opened s = (if opened then s\<lparr>wv_conns := wv_conns s @ [conn_new]\<rparr> else s)"

text \<open>\<open>handshake\<close>: whether the library completes the handshake and calls back.\<close>

definition upgrade :: "upgrade_request \<Rightarrow> bool \<Rightarrow> bool \<Rightarrow> ws_server \<Rightarrow> ws_server" where
  "upgrade rq handshake opened s = (case admission rq s of
     Refused _ \<Rightarrow> s | Admitted \<Rightarrow> if handshake then accept opened s else s)"

definition on_conns :: "nat list \<Rightarrow> (ws_conn \<Rightarrow> ws_conn) \<Rightarrow> ws_conn list \<Rightarrow> ws_conn list" where
  "on_conns is f cs = map (\<lambda>i. if i \<in> set is then f (cs ! i) else cs ! i) [0..<length cs]"

definition server_close :: "ws_server \<Rightarrow> ws_server" where
  "server_close s = s\<lparr>wv_closed := True, wv_conns := on_conns (active s) (put (CloseSocket 1001)) (wv_conns s),
     wv_drains := wv_drains s @ [\<lparr>wd_entries = active s, wd_answer = None\<rparr>]\<rparr>"

definition drain_answer :: "nat \<Rightarrow> bool \<Rightarrow> ws_server \<Rightarrow> ws_server" where
  "drain_answer k b s = s\<lparr>wv_drains := (wv_drains s)[k := (wv_drains s ! k)\<lparr>wd_answer := Some b\<rparr>]\<rparr>"

text \<open>Every connection a call waits for is done, or its budget is over; the first settles the race.\<close>

definition drain_done :: "nat \<Rightarrow> ws_server \<Rightarrow> ws_server" where
  "drain_done k s = (if k < length (wv_drains s) \<and> wd_answer (wv_drains s ! k) = None
       \<and> list_all (\<lambda>i. wc_done (wv_conns s ! i)) (wd_entries (wv_drains s ! k))
     then drain_answer k True s else s)"

definition drain_timer :: "nat \<Rightarrow> ws_server \<Rightarrow> ws_server" where
  "drain_timer k s = (if k < length (wv_drains s) \<and> wd_answer (wv_drains s ! k) = None
     then drain_answer k False (s\<lparr>wv_conns := on_conns (wd_entries (wv_drains s ! k)) force_stop (wv_conns s)\<rparr>) else s)"

datatype server_event = Upgrade upgrade_request bool bool | Conn nat conn_event | CloseCall | DrainDone nat | DrainTimer nat

fun server_apply :: "server_event \<Rightarrow> ws_server \<Rightarrow> ws_server" where
  "server_apply (Upgrade rq handshake opened) s = upgrade rq handshake opened s"
| "server_apply (Conn i e) s = s\<lparr>wv_conns := on_conns [i] (conn_apply e) (wv_conns s)\<rparr>"
| "server_apply CloseCall s = server_close s"
| "server_apply (DrainDone k) s = drain_done k s"
| "server_apply (DrainTimer k) s = drain_timer k s"

definition server_run :: "server_event list \<Rightarrow> ws_server \<Rightarrow> ws_server" where
  "server_run es s = fold server_apply es s"

section \<open>The protocol of a session\<close>

text \<open>
  What a session may expect: one message at a time, at most one response to it and only after its
  answer, and a close when nothing runs, after which nothing is asked of it.
\<close>

datatype talk = Idle | Busy | Replying | Over

fun talk_step :: "ws_entry \<Rightarrow> talk option \<Rightarrow> talk option" where
  "talk_step x None = None"
| "talk_step (Handle m) (Some t) = (if is_message m \<and> (t = Idle \<or> t = Replying) then Some Busy else None)"
| "talk_step Answered (Some t) = (if t = Busy then Some Replying else None)"
| "talk_step (Send body) (Some t) = (if is_ok (socket_decode body) \<and> t = Replying then Some Idle else None)"
| "talk_step CloseSession (Some t) = (if t = Idle \<or> t = Replying then Some Over else None)"
| "talk_step x t = t"

definition talk_of :: "ws_entry list \<Rightarrow> talk option" where
  "talk_of xs = fold talk_step xs (Some Idle)"

lemma talk_of_simps [simp]: "talk_of [] = Some Idle" "talk_of (xs @ [x]) = talk_step x (talk_of xs)"
  "talk_of (xs @ [x, y]) = talk_step y (talk_step x (talk_of xs))"
  by (simp_all add: talk_of_def)

definition quiet_talk :: "talk option \<Rightarrow> bool" where
  "quiet_talk t \<longleftrightarrow> t = Some Idle \<or> t = Some Replying"

fun talk_ok :: "ws_operation option \<Rightarrow> bool \<Rightarrow> talk option \<Rightarrow> bool" where
  "talk_ok None ended t = (if ended then t = Some Over else quiet_talk t)"
| "talk_ok (Some op) ended t = (\<not> ended \<and> t = Some (if wo_sending op then Idle else Busy))"

definition conn_inv :: "ws_conn \<Rightarrow> bool" where
  "conn_inv c \<longleftrightarrow> talk_ok (wc_pending c) (wc_done c) (talk_of (wc_trace c))
     \<and> (wc_done c \<longrightarrow> wc_closed c) \<and> (wc_closed c \<longrightarrow> wc_closing c)
     \<and> (wc_done c \<longleftrightarrow> CloseSession \<in> set (wc_trace c))"

lemma put_simps [simp]:
  "wc_trace (put x c) = wc_trace c @ [x]" "wc_pending (put x c) = wc_pending c" "wc_closing (put x c) = wc_closing c"
  "wc_closed (put x c) = wc_closed c" "wc_done (put x c) = wc_done c" "wc_stopped (put x c) = wc_stopped c"
  by (simp_all add: put_def)

lemma close_with_simps [simp]:
  "wc_trace (close_with n c) = wc_trace c @ [CloseSocket n]" "wc_pending (close_with n c) = wc_pending c"
  "wc_closing (close_with n c)" "wc_closed (close_with n c) = wc_closed c" "wc_done (close_with n c) = wc_done c"
  by (simp_all add: close_with_def)

lemma stop_abort_simps [simp]:
  "wc_trace (stop_abort c) = wc_trace c" "wc_closing (stop_abort c) = wc_closing c"
  "wc_closed (stop_abort c) = wc_closed c" "wc_done (stop_abort c) = wc_done c"
  "wc_pending (stop_abort c) = None \<longleftrightarrow> wc_pending c = None"
  by (simp_all add: stop_abort_def)

lemma stop_abort_pending: "wc_pending (stop_abort c) = Some op \<Longrightarrow>
    \<exists>op'. wc_pending c = Some op' \<and> wo_sending op' = wo_sending op"
  by (auto simp: stop_abort_def split: if_splits)

text \<open>What only concerns the socket or the abort keeps the invariant.\<close>

definition outward :: "ws_entry \<Rightarrow> bool" where
  "outward x \<longleftrightarrow> (case x of CloseSocket _ \<Rightarrow> True | Terminate \<Rightarrow> True | Ping \<Rightarrow> True | _ \<Rightarrow> False)"

lemma talk_outward: "outward x \<Longrightarrow> talk_step x t = t"
  by (cases x; cases t) (auto simp: outward_def)

lemma put_outward_inv: "conn_inv c \<Longrightarrow> outward x \<Longrightarrow> conn_inv (put x c)"
  by (auto simp: conn_inv_def talk_outward outward_def)

lemma close_with_inv: "conn_inv c \<Longrightarrow> conn_inv (close_with n c)"
  unfolding close_with_def
  by (rule put_outward_inv) (auto simp: conn_inv_def outward_def)

lemma stop_abort_inv: "conn_inv c \<Longrightarrow> conn_inv (stop_abort c)"
  by (cases "wc_pending c") (auto simp: conn_inv_def stop_abort_def)

text \<open>An operation ends when its session has answered.\<close>

lemma op_end_inv:
  assumes "conn_inv c" "wc_pending c = Some op" "wo_sending op"
  shows "conn_inv (op_end c)"
  using assms by (auto simp: conn_inv_def op_end_def quiet_talk_def)

definition answered_inv :: "ws_conn \<Rightarrow> bool" where
  "answered_inv c \<longleftrightarrow> wc_pending c \<noteq> None \<and> \<not> wc_done c \<and> talk_of (wc_trace c) = Some Replying
     \<and> (wc_closed c \<longrightarrow> wc_closing c) \<and> CloseSession \<notin> set (wc_trace c)"

lemma put_Answered:
  "conn_inv c \<Longrightarrow> wc_pending c = Some op \<Longrightarrow> \<not> wo_sending op \<Longrightarrow> answered_inv (put Answered c)"
  by (auto simp: conn_inv_def answered_inv_def)

lemma answered_close_with: "answered_inv c \<Longrightarrow> answered_inv (close_with n c)"
  by (auto simp: answered_inv_def)

lemma answered_end: "answered_inv c \<Longrightarrow> conn_inv (op_end c)"
  by (auto simp: answered_inv_def conn_inv_def op_end_def quiet_talk_def)

lemma on_response_inv: "conn_inv c \<Longrightarrow> conn_inv (on_response r c)"
proof (cases "wc_pending c")
  case (Some op)
  assume c: "conn_inv c"
  show ?thesis
  proof (cases "wo_sending op")
    case False
    note a = put_Answered[OF c Some False]
    have s: "conn_inv (put (Send body) ((put Answered c)\<lparr>wc_pending := Some (op\<lparr>wo_sending := True\<rparr>)\<rparr>))"
      if "socket_encode v = Inr body" for v body
      using a that by (auto simp: answered_inv_def conn_inv_def socket_encode_Inr)
    show ?thesis
      using Some False answered_end[OF a] answered_end[OF answered_close_with[OF a]] s
      by (auto simp: on_response_def Let_def split: option.split sum.split)
  qed (use c Some in \<open>simp add: on_response_def\<close>)
qed (simp add: on_response_def)

lemma on_message_inv: "conn_inv c \<Longrightarrow> conn_inv (on_message raw binary c)"
proof -
  assume c: "conn_inv c"
  have "conn_inv (put (Handle m) (c\<lparr>wc_pending := Some \<lparr>wo_sending = False, wo_aborted = False, wo_timer = True\<rparr>\<rparr>))"
    if "socket_decode raw = Inr m" "\<not> wc_closing c" "wc_pending c = None" for m
    using c that socket_decode_Inr[OF that(1)] by (auto simp: conn_inv_def quiet_talk_def split: if_splits)
  then show ?thesis
    using c by (auto simp: on_message_def close_with_inv split: sum.split)
qed

lemma conn_apply_inv: "conn_inv c \<Longrightarrow> conn_inv (conn_apply e c)"
proof (cases e)
  case (Sent good)
  assume c: "conn_inv c"
  then show ?thesis
    using Sent op_end_inv[OF c] op_end_inv[OF close_with_inv[OF c]] by (auto simp: on_sent_def split: option.split)
next
  case OpTimer
  assume "conn_inv c"
  then show ?thesis
    using OpTimer by (auto simp: on_timer_def conn_inv_def split: option.split)
next
  case Closed
  assume "conn_inv c"
  then have "conn_inv (c\<lparr>wc_closed := True, wc_closing := True, wc_ticking := False\<rparr>)"
    by (auto simp: conn_inv_def)
  then show ?thesis using Closed \<open>conn_inv c\<close> by (simp add: on_close_def stop_abort_inv)
next
  case Cleanup
  assume "conn_inv c"
  then show ?thesis using Cleanup by (auto simp: on_cleanup_def conn_inv_def quiet_talk_def)
next
  case Heartbeat
  assume c: "conn_inv c"
  then have "conn_inv (c\<lparr>wc_pong := False\<rparr>)" by (auto simp: conn_inv_def)
  with c show ?thesis using Heartbeat by (auto simp: on_heartbeat_def intro!: put_outward_inv simp: outward_def)
next
  case Pong
  assume "conn_inv c"
  then show ?thesis using Pong by (auto simp: on_pong_def conn_inv_def)
qed (auto simp: on_message_inv on_response_inv)

section \<open>The server's invariant\<close>

text \<open>
  At most 64 active sessions; a call of \<open>close\<close> waits for every connection that is not done, and has answered
  true only when there is none.
\<close>

definition drain_ok :: "ws_conn list \<Rightarrow> ws_drain \<Rightarrow> bool" where
  "drain_ok cs d \<longleftrightarrow> (\<forall>i < length cs. wc_done (cs ! i) \<or> i \<in> set (wd_entries d))
     \<and> (wd_answer d = Some True \<longrightarrow> list_all wc_done cs) \<and> (\<forall>i \<in> set (wd_entries d). i < length cs)"

definition server_inv :: "ws_server \<Rightarrow> bool" where
  "server_inv s \<longleftrightarrow> list_all conn_inv (wv_conns s) \<and> length (active s) \<le> 64
     \<and> (wv_drains s \<noteq> [] \<longrightarrow> wv_closed s) \<and> list_all (drain_ok (wv_conns s)) (wv_drains s)"

lemma active_count: "length (active s) = length (filter (\<lambda>c. \<not> wc_done c) (wv_conns s))"
  proof -
  have "filter (\<lambda>c. \<not> wc_done c) (wv_conns s) = map ((!) (wv_conns s)) (active s)"
    unfolding active_def using filter_map[of "\<lambda>c. \<not> wc_done c" "(!) (wv_conns s)" "[0..<length (wv_conns s)]"]
    by (simp add: map_nth comp_def)
  then show ?thesis by simp
qed

lemma on_conns_length [simp]: "length (on_conns js f cs) = length cs"
  by (simp add: on_conns_def)

lemma on_conns_nth: "i < length cs \<Longrightarrow> on_conns js f cs ! i = (if i \<in> set js then f (cs ! i) else cs ! i)"
  by (simp add: on_conns_def)

lemma on_conns_all:
  "list_all P cs \<Longrightarrow> (\<And>c. P c \<Longrightarrow> P (f c)) \<Longrightarrow> list_all P (on_conns js f cs)"
  by (auto simp: list_all_length on_conns_nth)

text \<open>Connections only ever become done.\<close>

definition advances :: "ws_conn list \<Rightarrow> ws_conn list \<Rightarrow> bool" where
  "advances cs cs' \<longleftrightarrow> list_all2 (\<lambda>c c'. wc_done c \<longrightarrow> wc_done c') cs cs'"

lemma on_conns_advances: "(\<And>c. wc_done c \<Longrightarrow> wc_done (f c)) \<Longrightarrow> advances cs (on_conns js f cs)"
  by (auto simp: advances_def list_all2_conv_all_nth on_conns_nth)

lemma advances_count:
  "advances cs cs' \<Longrightarrow> length (filter (\<lambda>c. \<not> wc_done c) cs') \<le> length (filter (\<lambda>c. \<not> wc_done c) cs)"
  unfolding advances_def by (induction rule: list_all2_induct) auto

lemma advances_drain: "advances cs cs' \<Longrightarrow> drain_ok cs d \<Longrightarrow> drain_ok cs' d"
  unfolding advances_def drain_ok_def list_all2_conv_all_nth list_all_length by auto

lemma conn_done: "wc_done c \<Longrightarrow> conn_inv c \<Longrightarrow> wc_done (conn_apply e c)"
  by (cases e)
    (auto simp: on_message_def on_response_def on_sent_def on_timer_def on_heartbeat_def on_pong_def on_close_def
      on_cleanup_def op_end_def Let_def split: option.split sum.split)

lemma conn_new_inv: "conn_inv conn_new"
  by (simp add: conn_inv_def conn_new_def quiet_talk_def)

lemma advance_inv:
  assumes "server_inv s" "list_all conn_inv cs" "advances (wv_conns s) cs"
  shows "server_inv (s\<lparr>wv_conns := cs\<rparr>)"
  using assms advances_count[OF assms(3)] advances_drain[OF assms(3)]
  by (auto simp: server_inv_def active_count list_all_iff)

lemma server_apply_inv: "server_inv s \<Longrightarrow> server_inv (server_apply e s)"
proof (cases e)
  case (Upgrade rq handshake opened)
  assume s: "server_inv s"
  have "server_inv (s\<lparr>wv_conns := wv_conns s @ [conn_new]\<rparr>)" if "admission rq s = Admitted"
  proof -
    have "\<not> wv_closed s" "length (active s) < 64"
      using that by (auto simp: admission_def Let_def split: if_splits)
    moreover from this s have "wv_drains s = []" by (auto simp: server_inv_def)
    ultimately show ?thesis using s conn_new_inv by (simp add: server_inv_def active_count)
  qed
  then show ?thesis using s Upgrade by (auto simp: upgrade_def accept_def split: admission.split)
next
  case (Conn i e')
  assume s: "server_inv s"
  then have i: "list_all conn_inv (wv_conns s)" by (simp add: server_inv_def)
  have "advances (wv_conns s) (on_conns [i] (conn_apply e') (wv_conns s))"
    using i conn_done by (auto simp: advances_def list_all2_conv_all_nth on_conns_nth list_all_length)
  from advance_inv[OF s on_conns_all[OF i conn_apply_inv] this] show ?thesis using Conn by simp
next
  case CloseCall
  assume s: "server_inv s"
  then have i: "list_all conn_inv (wv_conns s)" by (simp add: server_inv_def)
  let ?cs = "on_conns (active s) (put (CloseSocket 1001)) (wv_conns s)"
  have "list_all conn_inv ?cs" by (rule on_conns_all[OF i]) (rule put_outward_inv, simp_all add: outward_def)
  moreover have "advances (wv_conns s) ?cs" by (rule on_conns_advances) simp
  ultimately have t: "server_inv (s\<lparr>wv_conns := ?cs\<rparr>)" by (rule advance_inv[OF s])
  have "drain_ok ?cs \<lparr>wd_entries = active s, wd_answer = None\<rparr>"
    by (auto simp: drain_ok_def active_def on_conns_nth)
  then show ?thesis using CloseCall t by (simp add: server_close_def server_inv_def active_count)
next
  case (DrainDone k)
  assume s: "server_inv s"
  show ?thesis
  proof (cases "drain_done k s = s")
    case False
    define d where "d = wv_drains s ! k"
    have k: "k < length (wv_drains s)" "list_all (\<lambda>i. wc_done (wv_conns s ! i)) (wd_entries d)"
      "drain_done k s = drain_answer k True s"
      using False by (auto simp: drain_done_def d_def split: if_splits)
    have "drain_ok (wv_conns s) d" using s k(1) by (simp add: server_inv_def list_all_length d_def)
    then have "drain_ok (wv_conns s) (d\<lparr>wd_answer := Some True\<rparr>)"
      using k(2) by (auto simp: drain_ok_def list_all_length in_set_conv_nth)
    then show ?thesis using DrainDone s k
      by (auto simp: drain_answer_def server_inv_def active_count d_def list_all_length nth_list_update)
  qed (use DrainDone s in simp)
next
  case (DrainTimer k)
  assume s: "server_inv s"
  then have i: "list_all conn_inv (wv_conns s)" by (simp add: server_inv_def)
  let ?cs = "on_conns (wd_entries (wv_drains s ! k)) force_stop (wv_conns s)"
  have "list_all conn_inv ?cs"
    by (rule on_conns_all[OF i]) (auto simp: force_stop_def outward_def intro!: put_outward_inv stop_abort_inv)
  moreover have "advances (wv_conns s) ?cs" by (rule on_conns_advances) (simp add: force_stop_def)
  ultimately have t: "server_inv (s\<lparr>wv_conns := ?cs\<rparr>)" by (rule advance_inv[OF s])
  have "server_inv (drain_answer k False (s\<lparr>wv_conns := ?cs\<rparr>))" if "k < length (wv_drains s)"
    using t that by (auto simp: drain_answer_def server_inv_def active_count list_all_length nth_list_update drain_ok_def)
  then show ?thesis using DrainTimer s by (simp add: drain_timer_def)
qed

definition server_step :: "ws_server \<Rightarrow> ws_server \<Rightarrow> bool" where
  "server_step s t \<longleftrightarrow> (\<exists>e. t = server_apply e s)"

interpretation sockets: step_invariant server_step server_inv
  by unfold_locales (auto simp: server_step_def server_apply_inv)

lemma server_run_steps: "server_step\<^sup>*\<^sup>* s (server_run es s)"
proof (induction es rule: rev_induct)
  case (snoc e es)
  have "server_step (server_run es s) (server_run (es @ [e]) s)"
    by (auto simp: server_step_def server_run_def)
  with snoc show ?case by (rule rtranclp.rtrancl_into_rtrancl)
qed (simp add: server_run_def)

lemma server_run_inv: "server_inv (server_run es (server_new origin))"
  by (rule sockets.steps_inv[OF server_run_steps])
    (simp add: server_inv_def server_new_def active_def)

section \<open>Properties\<close>

text \<open>
  C15: every session is spoken to as it may expect, under every interleaving of all connections: only valid
  messages, one at a time; at most one response to each, of valid bytes and only after the session's answer; and one close, exactly when
  the connection leaves the active set, with nothing running and nothing after it.
\<close>

theorem session_protocol:
  "list_all (\<lambda>c. talk_of (wc_trace c) \<noteq> None \<and> (wc_done c \<longleftrightarrow> talk_of (wc_trace c) = Some Over))
     (wv_conns (server_run es (server_new origin)))"
proof -
  have "talk_of (wc_trace c) \<noteq> None \<and> (wc_done c \<longleftrightarrow> talk_of (wc_trace c) = Some Over)" if "conn_inv c" for c
    using that by (cases "wc_pending c") (auto simp: conn_inv_def quiet_talk_def split: if_splits)
  then show ?thesis using server_run_inv[of es origin] by (simp add: server_inv_def list_all_iff)
qed

lemma closed_conns:
  "wv_closed s \<Longrightarrow> wv_closed (server_run es s) \<and> length (wv_conns (server_run es s)) = length (wv_conns s)"
proof (induction es rule: rev_induct)
  case (snoc e es)
  have "wv_closed (server_apply e t) \<and> length (wv_conns (server_apply e t)) = length (wv_conns t)" if "wv_closed t" for t
    using that by (cases e) (auto simp: upgrade_def admission_def Let_def server_close_def drain_done_def drain_timer_def
        drain_answer_def split: admission.split if_splits)
  then show ?case using snoc by (simp add: server_run_def)
qed (simp add: server_run_def)

text \<open>
  C16: admission is bounded. In every history at most 64 sessions are open, and once the server was told to
  close no session is opened any more.
\<close>

theorem sockets_bounded:
  "length (active (server_run es (server_new origin))) \<le> 64
   \<and> (wv_closed (server_run es (server_new origin))
      \<longrightarrow> length (wv_conns (server_run (es @ fs) (server_new origin))) = length (wv_conns (server_run es (server_new origin))))"
  using server_run_inv[of es origin] closed_conns[of "server_run es (server_new origin)" fs]
  by (simp add: server_inv_def server_run_def)

lemma drained_stays:
  assumes "server_inv s" "d \<in> set (wv_drains s)" "wd_answer d = Some True"
  shows "list_all wc_done (wv_conns s)"
  using assms by (auto simp: server_inv_def list_all_iff drain_ok_def)

lemma done_stays:
  assumes "server_inv s" "wv_closed s" "list_all wc_done (wv_conns s)"
  shows "list_all wc_done (wv_conns (server_run es s))"
  using assms
proof (induction es arbitrary: s)
  case (Cons e es)
  have "wc_done c \<Longrightarrow> wc_done (force_stop c)" for c by (simp add: force_stop_def)
  then have "list_all wc_done (wv_conns (server_apply e s))"
    using Cons.prems conn_done
    by (cases e)
      (auto simp: upgrade_def admission_def Let_def server_close_def drain_done_def drain_timer_def drain_answer_def
        list_all_length on_conns_nth server_inv_def split: admission.split if_splits)
  moreover have "wv_closed (server_apply e s)" using closed_conns[OF Cons.prems(2), of "[e]"] by (simp add: server_run_def)
  ultimately show ?case
    using Cons.IH[OF server_apply_inv[OF Cons.prems(1), of e]] by (simp add: server_run_def)
qed (simp add: server_run_def)

text \<open>
  C17: a drain that answers true is complete and final: every session ever opened has been closed, and it
  stays so whatever happens afterwards.
\<close>

theorem drain_complete:
  assumes "d \<in> set (wv_drains (server_run es (server_new origin)))" "wd_answer d = Some True"
  shows "list_all (\<lambda>c. wc_done c \<and> CloseSession \<in> set (wc_trace c)) (wv_conns (server_run (es @ fs) (server_new origin)))"
proof -
  let ?s = "server_run es (server_new origin)"
  note i = server_run_inv[of es origin]
  have "wv_closed ?s" using i assms(1) by (auto simp: server_inv_def)
  then have "list_all wc_done (wv_conns (server_run fs ?s))"
    by (rule done_stays[OF i _ drained_stays[OF i assms]])
  then have "list_all wc_done (wv_conns (server_run (es @ fs) (server_new origin)))" by (simp add: server_run_def)
  with server_run_inv[of "es @ fs" origin] show ?thesis by (auto simp: server_inv_def list_all_iff conn_inv_def)
qed

text \<open>
  Sessions end. Wherever a connection stands in any history, when its socket closes, and the session's
  answer and the write settle, however they settle, the session is closed and its place is free.
\<close>

lemma session_ends:
  assumes "c \<in> set (wv_conns (server_run es (server_new origin)))"
  shows "wc_done (fold conn_apply [Closed, Response r, Sent good, Cleanup] c)"
proof -
  have c: "conn_inv c" using assms server_run_inv[of es origin] by (simp add: server_inv_def list_all_iff)
  have c1: "wc_closed (on_close c) \<and> wc_closing (on_close c)" using c by (simp add: on_close_def conn_inv_def)
  have "(wc_pending (on_response r d) = None \<or> (\<exists>op. wc_pending (on_response r d) = Some op \<and> wo_sending op))
      \<and> wc_closed (on_response r d)" if "wc_closed d \<and> wc_closing d" for d
    using that by (cases "wc_pending d") (auto simp: on_response_def op_end_def Let_def split: option.split sum.split)
  moreover have "wc_pending (on_sent good d) = None \<and> wc_closed (on_sent good d)"
    if "(wc_pending d = None \<or> (\<exists>op. wc_pending d = Some op \<and> wo_sending op)) \<and> wc_closed d" for d
    using that by (auto simp: on_sent_def op_end_def)
  ultimately show ?thesis using c1 by (simp add: on_cleanup_def)
qed

section \<open>Witnesses\<close>

definition good_upgrade :: upgrade_request where
  "good_upgrade = \<lparr>uq_raw = [lit ''Origin'', lit ''a''], uq_origin = Some (lit ''a''), uq_protocols = Some (lit ''x, n2f.v1'')\<rparr>"

lemma good_upgrade_admitted: "admission good_upgrade (server_new (lit ''a'')) = Admitted"
  by (simp add: admission_def good_upgrade_def server_new_def active_def to_lower_def lower_unit_def lit_def cu_of_def
      is_upper_def js_trim_def js_space_def word_le_nat_alt)

definition sample_run :: "server_event list" where
  "sample_run = [Upgrade good_upgrade True True, CloseCall, Conn 0 Closed, Conn 0 Cleanup, DrainDone 0]"

lemma sample_server:
  "wv_closed (server_run sample_run (server_new (lit ''a'')))"
  "wv_drains (server_run sample_run (server_new (lit ''a''))) = [\<lparr>wd_entries = [0], wd_answer = Some True\<rparr>]"
  "\<exists>c. wv_conns (server_run sample_run (server_new (lit ''a''))) = [c]"
  by (simp_all add: sample_run_def server_run_def upgrade_def good_upgrade_admitted)
    (simp_all add: server_new_def accept_def server_close_def on_conns_def active_def conn_new_def put_def
      on_close_def stop_abort_def on_cleanup_def drain_done_def drain_answer_def)

theorem sockets_bounded_witness:
  "length (wv_conns (server_run (sample_run @ [Upgrade good_upgrade True True]) (server_new (lit ''a'')))) = 1"
  using sockets_bounded[of sample_run "lit ''a''" "[Upgrade good_upgrade True True]"] sample_server(1,3) by auto

theorem drain_complete_witness:
  "\<exists>c. wv_conns (server_run sample_run (server_new (lit ''a''))) = [c] \<and> wc_done c"
  using drain_complete[of "\<lparr>wd_entries = [0], wd_answer = Some True\<rparr>" sample_run "lit ''a''" "[]"] sample_server
  by auto

lemma session_ends_witness:
  "\<exists>c. wv_conns (server_run [Upgrade good_upgrade True True] (server_new (lit ''a''))) = [c]
     \<and> wc_done (fold conn_apply [Closed, Response None, Sent True, Cleanup] c)"
proof -
  have c: "wv_conns (server_run [Upgrade good_upgrade True True] (server_new (lit ''a''))) = [conn_new]"
    by (simp add: server_run_def upgrade_def good_upgrade_admitted accept_def) (simp add: server_new_def)
  then have "conn_new \<in> set (wv_conns (server_run [Upgrade good_upgrade True True] (server_new (lit ''a''))))" by simp
  from session_ends[OF this] c show ?thesis by blast
qed

end
