(* ===== verification/Health.thy ===== *)
theory Health
  imports Errors
begin

text \<open>
  \<open>src/shared/health/index.ts\<close>: the readiness gate. A call of \<open>ready\<close> races the sequence of
  checks against its budget and its caller's signal; the checks keep running after the race is lost,
  and the gate is busy until they end. The steps of all calls may interleave in any order.
\<close>

section \<open>The gate\<close>

datatype gate_state = Starting | Serving | Draining

text \<open>
  One call that passed the first guard: how many checks have answered well, whether its controller and
  its caller's signal are aborted, what the race settled to, whether its checks are still
  running, and its answer.
\<close>

record probe =
  pr_passed :: nat
  pr_aborted :: bool
  pr_signal :: bool
  pr_race :: "bool option"
  pr_working :: bool
  pr_answer :: "bool option"

record gate =
  ga_state :: gate_state
  ga_busy :: bool
  ga_checks :: nat
  ga_probes :: "probe list"

text \<open>The constructor; the list says which of the given checks are functions.\<close>

definition gate_new :: "number \<Rightarrow> bool list \<Rightarrow> exn + gate" where
  "gate_new budgetMs checks =
     (if \<not> int_in 1 5000 budgetMs \<or> length checks > 16 \<or> list_ex Not checks
      then Inl (TypeError (lit ''invalid health configuration''))
      else Inr \<lparr>ga_state = Starting, ga_busy = False, ga_checks = length checks, ga_probes = []\<rparr>)"

definition gate_start :: "gate \<Rightarrow> bool \<times> gate" where
  "gate_start g = (if ga_state g \<noteq> Starting then (False, g) else (True, g\<lparr>ga_state := Serving\<rparr>))"

definition gate_drain :: "gate \<Rightarrow> gate" where
  "gate_drain g = g\<lparr>ga_state := Draining\<rparr>"

definition settle_race :: "bool \<Rightarrow> probe \<Rightarrow> probe" where
  "settle_race b p = (case pr_race p of None \<Rightarrow> p\<lparr>pr_race := Some b\<rparr> | Some _ \<Rightarrow> p)"

definition set_probe :: "nat \<Rightarrow> probe \<Rightarrow> gate \<Rightarrow> gate" where
  "set_probe i p g = g\<lparr>ga_probes := (ga_probes g)[i := p]\<rparr>"

text \<open>The checks of a call end: \<open>busy\<close> is released and the race gets their answer.\<close>

definition end_work :: "nat \<Rightarrow> bool \<Rightarrow> probe \<Rightarrow> gate \<Rightarrow> gate" where
  "end_work i b p g = (set_probe i (settle_race b (p\<lparr>pr_working := False\<rparr>)) g)\<lparr>ga_busy := False\<rparr>"

text \<open>The head of the loop over the checks.\<close>

definition loop_head :: "nat \<Rightarrow> probe \<Rightarrow> gate \<Rightarrow> gate" where
  "loop_head i p g =
     (if pr_passed p = ga_checks g then end_work i True p g
      else if pr_aborted p then end_work i False p g
      else set_probe i p g)"

text \<open>
  A call of \<open>ready\<close>: an answer at once when the first guard refuses, otherwise a new probe whose
  first check is called. The argument says whether the caller's signal is already aborted.
\<close>

definition ready_call :: "bool \<Rightarrow> gate \<Rightarrow> bool option \<times> gate" where
  "ready_call aborted g =
     (if ga_state g \<noteq> Serving \<or> ga_busy g \<or> aborted then (Some False, g)
      else let p = \<lparr>pr_passed = 0, pr_aborted = False, pr_signal = False, pr_race = None,
                   pr_working = True, pr_answer = None\<rparr>;
               i = length (ga_probes g)
           in (None, loop_head i p (g\<lparr>ga_busy := True, ga_probes := ga_probes g @ [p]\<rparr>)))"

text \<open>The awaited check answers well (\<open>True\<close>), or refuses or throws (\<open>False\<close>).\<close>

definition check_answers :: "nat \<Rightarrow> bool \<Rightarrow> gate \<Rightarrow> gate" where
  "check_answers i good g =
     (let p = ga_probes g ! i in
      if i < length (ga_probes g) \<and> pr_working p
      then (if good then loop_head i (p\<lparr>pr_passed := pr_passed p + 1\<rparr>) g else end_work i False p g)
      else g)"

text \<open>\<open>stop\<close>, from the timer or from the caller's signal, until the call has been answered.\<close>

definition probe_stop :: "nat \<Rightarrow> bool \<Rightarrow> gate \<Rightarrow> gate" where
  "probe_stop i by_signal g =
     (let p = ga_probes g ! i in
      if i < length (ga_probes g) \<and> pr_answer p = None
      then set_probe i (settle_race False (p\<lparr>pr_aborted := True, pr_signal := pr_signal p \<or> by_signal\<rparr>)) g
      else g)"

text \<open>The continuation after the race.\<close>

definition probe_answer :: "nat \<Rightarrow> gate \<Rightarrow> gate" where
  "probe_answer i g =
     (let p = ga_probes g ! i in
      if i < length (ga_probes g) \<and> pr_answer p = None
      then (case pr_race p of None \<Rightarrow> g
        | Some b \<Rightarrow> set_probe i (p\<lparr>pr_answer := Some (b \<and> ga_state g = Serving \<and> \<not> pr_signal p)\<rparr>) g)
      else g)"

datatype gate_event = Start | Drain | Ready bool | Check nat bool | Stop nat bool | Answer nat

fun gate_apply :: "gate_event \<Rightarrow> gate \<Rightarrow> gate" where
  "gate_apply Start g = snd (gate_start g)"
| "gate_apply Drain g = gate_drain g"
| "gate_apply (Ready aborted) g = snd (ready_call aborted g)"
| "gate_apply (Check i good) g = check_answers i good g"
| "gate_apply (Stop i by_signal) g = probe_stop i by_signal g"
| "gate_apply (Answer i) g = probe_answer i g"

inductive gate_step :: "gate \<Rightarrow> gate \<Rightarrow> bool" where
  "gate_step g (gate_apply e g)"

inductive_cases gate_stepE: "gate_step g g'"

section \<open>The invariant\<close>

definition probe_ok :: "nat \<Rightarrow> probe \<Rightarrow> bool" where
  "probe_ok n p \<longleftrightarrow> pr_passed p \<le> n \<and> (pr_race p = Some True \<longrightarrow> pr_passed p = n)
     \<and> (pr_answer p = Some True \<longrightarrow> pr_race p = Some True)
     \<and> (pr_working p \<longrightarrow> pr_passed p < n)"

definition working :: "gate \<Rightarrow> nat set" where
  "working g = {i. i < length (ga_probes g) \<and> pr_working (ga_probes g ! i)}"

definition gate_inv :: "gate \<Rightarrow> bool" where
  "gate_inv g \<longleftrightarrow> list_all (probe_ok (ga_checks g)) (ga_probes g)
     \<and> (if ga_busy g then \<exists>i. working g = {i} else working g = {})"

lemma gate_new_inv: "gate_new b cs = Inr g \<Longrightarrow> gate_inv g"
  by (auto simp: gate_new_def gate_inv_def working_def split: if_splits)

lemma working_set_probe:
  "i < length (ga_probes g) \<Longrightarrow>
     working (set_probe i p g) = (if pr_working p then insert i (working g) else working g - {i})"
  by (auto simp: working_def set_probe_def nth_list_update)

lemma probes_set_probe:
  "list_all Q (ga_probes g) \<Longrightarrow> Q p \<Longrightarrow> list_all Q (ga_probes (set_probe i p g))"
  by (auto simp: set_probe_def list_all_iff dest!: set_update_subset_insert[THEN subsetD])

lemma set_probe_sel [simp]:
  "ga_checks (set_probe i p g) = ga_checks g" "ga_busy (set_probe i p g) = ga_busy g"
  "ga_state (set_probe i p g) = ga_state g"
  by (simp_all add: set_probe_def)

lemma settle_race_sel [simp]:
  "pr_working (settle_race b p) = pr_working p" "pr_passed (settle_race b p) = pr_passed p"
  "pr_answer (settle_race b p) = pr_answer p"
  "pr_race (settle_race b p) = (case pr_race p of None \<Rightarrow> Some b | Some x \<Rightarrow> Some x)"
  by (simp_all add: settle_race_def split: option.split)

lemma end_work_inv:
  assumes "list_all (probe_ok (ga_checks g)) (ga_probes g)" "i < length (ga_probes g)" "working g \<subseteq> {i}"
    and "probe_ok (ga_checks g) (p\<lparr>pr_working := False\<rparr>)" "b \<Longrightarrow> pr_passed p = ga_checks g"
  shows "gate_inv (end_work i b p g)"
proof -
  have "probe_ok (ga_checks g) (settle_race b (p\<lparr>pr_working := False\<rparr>))"
    using assms(4,5) by (auto simp: probe_ok_def split: option.splits)
  from probes_set_probe[OF assms(1) this]
  have "list_all (probe_ok (ga_checks g)) (ga_probes (end_work i b p g))" by (simp add: end_work_def)
  moreover have "working (end_work i b p g) = working (set_probe i (settle_race b (p\<lparr>pr_working := False\<rparr>)) g)"
    by (simp add: end_work_def working_def)
  then have "working (end_work i b p g) = {}"
    using assms(2,3) by (auto simp: working_set_probe)
  ultimately show ?thesis by (simp add: gate_inv_def end_work_def)
qed

lemma loop_head_inv:
  assumes "list_all (probe_ok (ga_checks g)) (ga_probes g)" "i < length (ga_probes g)" "working g = {i}"
    and "ga_busy g" "probe_ok (ga_checks g) (p\<lparr>pr_working := False\<rparr>)" "pr_working p"
  shows "gate_inv (loop_head i p g)"
proof -
  have "gate_inv (set_probe i p g)" if "pr_passed p \<noteq> ga_checks g"
  proof -
    have "probe_ok (ga_checks g) p" using assms(5) that by (auto simp: probe_ok_def)
    then show ?thesis
      using probes_set_probe[OF assms(1)] assms(2,3,4,6) by (simp add: gate_inv_def working_set_probe)
  qed
  then show ?thesis using end_work_inv[OF assms(1,2)] assms(3,5) by (auto simp: loop_head_def)
qed

lemma gate_inv_working:
  "gate_inv g \<Longrightarrow> i < length (ga_probes g) \<Longrightarrow> pr_working (ga_probes g ! i) \<Longrightarrow>
     working g = {i} \<and> ga_busy g \<and> probe_ok (ga_checks g) (ga_probes g ! i)"
proof -
  assume a: "gate_inv g" "i < length (ga_probes g)" "pr_working (ga_probes g ! i)"
  then have "i \<in> working g" by (simp add: working_def)
  then have "ga_busy g" "working g = {i}" using a(1) by (auto simp: gate_inv_def split: if_splits)
  then show ?thesis using a(1,2) by (simp add: gate_inv_def list_all_length)
qed

lemma gate_inv_cong:
  "gate_inv g \<Longrightarrow> ga_checks h = ga_checks g \<Longrightarrow> ga_probes h = ga_probes g \<Longrightarrow> ga_busy h = ga_busy g \<Longrightarrow> gate_inv h"
proof -
  assume a: "gate_inv g" "ga_checks h = ga_checks g" "ga_probes h = ga_probes g" "ga_busy h = ga_busy g"
  then have "working h = working g" by (simp add: working_def)
  then show ?thesis using a by (simp add: gate_inv_def)
qed

lemma set_probe_inv:
  assumes "gate_inv g" "i < length (ga_probes g)" "probe_ok (ga_checks g) q"
    "pr_working q = pr_working (ga_probes g ! i)"
  shows "gate_inv (set_probe i q g)"
proof -
  have "working (set_probe i q g) = working g"
    using assms(2,4) by (auto simp: working_set_probe) (auto simp: working_def)
  then show ?thesis
    using assms probes_set_probe[of "probe_ok (ga_checks g)" g q i] by (simp add: gate_inv_def)
qed

lemma gate_apply_inv: "gate_inv g \<Longrightarrow> gate_inv (gate_apply e g)"
proof (cases e)
  case Start
  assume "gate_inv g"
  then show ?thesis by (rule gate_inv_cong) (simp_all add: Start gate_start_def)
next
  case Drain
  assume "gate_inv g"
  then show ?thesis by (rule gate_inv_cong) (simp_all add: Drain gate_drain_def)
next
  case (Ready aborted)
  assume inv: "gate_inv g"
  define p where "p = \<lparr>pr_passed = 0, pr_aborted = False, pr_signal = False, pr_race = None,
                   pr_working = True, pr_answer = None\<rparr>"
  define h where "h = g\<lparr>ga_busy := True, ga_probes := ga_probes g @ [p]\<rparr>"
  show ?thesis
  proof (cases "ga_state g \<noteq> Serving \<or> ga_busy g \<or> aborted")
    case True
    then show ?thesis using inv Ready by (simp add: ready_call_def)
  next
    case False
    have w: "working h = {length (ga_probes g)}"
      using inv False by (auto simp: h_def p_def working_def gate_inv_def nth_append less_Suc_eq)
    have ok: "list_all (probe_ok (ga_checks g)) (ga_probes g)" using inv by (simp add: gate_inv_def)
    have p0: "probe_ok (ga_checks g) (p\<lparr>pr_working := False\<rparr>)" by (simp add: probe_ok_def p_def)
    have "gate_inv (loop_head (length (ga_probes g)) p h)"
    proof (cases "ga_checks g = 0")
      case False
      then have "probe_ok (ga_checks g) p" by (simp add: probe_ok_def p_def)
      with w ok p0 show ?thesis by (intro loop_head_inv) (simp_all add: h_def p_def)
    next
      case True
      have "loop_head (length (ga_probes g)) p h
          = g\<lparr>ga_probes := ga_probes g @ [p\<lparr>pr_working := False, pr_race := Some True\<rparr>]\<rparr>"
        using True False by (simp add: loop_head_def end_work_def set_probe_def settle_race_def h_def p_def)
      then show ?thesis
        using inv True False by (auto simp: gate_inv_def working_def probe_ok_def p_def nth_append less_Suc_eq)
    qed
    then show ?thesis using False Ready by (simp add: ready_call_def Let_def p_def h_def)
  qed
next
  case (Check i good)
  assume inv: "gate_inv g"
  show ?thesis
  proof (cases "i < length (ga_probes g) \<and> pr_working (ga_probes g ! i)")
    case True
    note k = gate_inv_working[OF inv, of i]
    define p where "p = ga_probes g ! i"
    have ok: "list_all (probe_ok (ga_checks g)) (ga_probes g)" using inv by (simp add: gate_inv_def)
    have "gate_inv (loop_head i (p\<lparr>pr_passed := pr_passed p + 1\<rparr>) g)"
      using k True ok by (intro loop_head_inv) (auto simp: p_def[symmetric] probe_ok_def)
    moreover have "gate_inv (end_work i False p g)"
      using k True ok by (intro end_work_inv) (auto simp: p_def[symmetric] probe_ok_def)
    ultimately show ?thesis using True Check by (simp add: check_answers_def p_def Let_def)
  next
    case False
    then show ?thesis using inv Check by (auto simp: check_answers_def Let_def)
  qed
next
  case (Stop i by_signal)
  assume inv: "gate_inv g"
  show ?thesis
  proof (cases "i < length (ga_probes g) \<and> pr_answer (ga_probes g ! i) = None")
    case True
    define q where "q = settle_race False ((ga_probes g ! i)\<lparr>pr_aborted := True,
        pr_signal := pr_signal (ga_probes g ! i) \<or> by_signal\<rparr>)"
    have ok: "list_all (probe_ok (ga_checks g)) (ga_probes g)" using inv by (simp add: gate_inv_def)
    then have "probe_ok (ga_checks g) q"
      using True by (auto simp: list_all_length q_def probe_ok_def split: option.splits)
    then have "gate_inv (set_probe i q g)"
      using inv True by (intro set_probe_inv) (simp_all add: q_def)
    then show ?thesis using True Stop by (simp add: probe_stop_def q_def Let_def)
  next
    case False
    then show ?thesis using inv Stop by (auto simp: probe_stop_def Let_def)
  qed
next
  case (Answer i)
  assume inv: "gate_inv g"
  show ?thesis
  proof (cases "i < length (ga_probes g) \<and> pr_answer (ga_probes g ! i) = None \<and> pr_race (ga_probes g ! i) \<noteq> None")
    case True
    then obtain b where b: "pr_race (ga_probes g ! i) = Some b" by blast
    define q where "q = (ga_probes g ! i)\<lparr>pr_answer := Some (b \<and> ga_state g = Serving \<and> \<not> pr_signal (ga_probes g ! i))\<rparr>"
    have ok: "list_all (probe_ok (ga_checks g)) (ga_probes g)" using inv by (simp add: gate_inv_def)
    then have "probe_ok (ga_checks g) q"
      using True b by (auto simp: list_all_length q_def probe_ok_def)
    then have "gate_inv (set_probe i q g)"
      using inv True by (intro set_probe_inv) (simp_all add: q_def)
    then show ?thesis using True Answer b by (simp add: probe_answer_def q_def Let_def)
  next
    case False
    then show ?thesis using inv Answer by (auto simp: probe_answer_def Let_def split: option.splits)
  qed
qed

interpretation gate: step_invariant gate_step gate_inv
  by unfold_locales (auto elim!: gate_stepE simp: gate_apply_inv)

section \<open>Properties\<close>

text \<open>Once draining, a gate stays so.\<close>

lemma draining_step: "ga_state g = Draining \<Longrightarrow> ga_state (gate_apply e g) = Draining"
  by (cases e)
    (simp_all add: gate_start_def gate_drain_def ready_call_def loop_head_def end_work_def check_answers_def
      probe_stop_def probe_answer_def Let_def split: option.split)

text \<open>
  C37: in every state a gate can reach, by calls, answers of checks, timeouts and aborts in any
  order, at most one sequence of checks is running, and it is running exactly while the gate is busy; a
  call that was answered ready had every check answer well.
\<close>

theorem one_probe_at_a_time:
  assumes "gate_new budgetMs cs = Inr g" "gate_step\<^sup>*\<^sup>* g g'"
  shows "card (working g') = (if ga_busy g' then 1 else 0)
    \<and> list_all (\<lambda>p. pr_answer p = Some True \<longrightarrow> pr_passed p = ga_checks g') (ga_probes g')"
proof -
  have inv: "gate_inv g'" by (rule gate.steps_inv[OF assms(2) gate_new_inv[OF assms(1)]])
  then have "list_all (\<lambda>p. pr_answer p = Some True \<longrightarrow> pr_passed p = ga_checks g') (ga_probes g')"
    by (auto simp: gate_inv_def list_all_iff probe_ok_def)
  with inv show ?thesis by (auto simp: gate_inv_def split: if_splits)
qed

theorem one_probe_at_a_time_witness:
  "\<exists>g g'. gate_new (Whole 100) [True] = Inr g \<and> gate_step\<^sup>*\<^sup>* g g' \<and> ga_busy g' \<and> card (working g') = 1"
proof -
  define g where "g = \<lparr>ga_state = Starting, ga_busy = False, ga_checks = 1, ga_probes = []\<rparr>"
  have n: "gate_new (Whole 100) [True] = Inr g" by (simp add: gate_new_def g_def)
  define g' where "g' = gate_apply (Ready False) (gate_apply Start g)"
  have "gate_step g (gate_apply Start g)" "gate_step (gate_apply Start g) g'"
    by (simp_all only: g'_def gate_step.intros)
  then have r: "gate_step\<^sup>*\<^sup>* g g'" by (meson converse_rtranclp_into_rtranclp rtranclp.rtrancl_refl)
  have "ga_busy g'"
    by (simp add: g'_def g_def gate_start_def ready_call_def loop_head_def set_probe_def Let_def)
  with one_probe_at_a_time[OF n r] n r show ?thesis by auto
qed

text \<open>
  A step that answers a call ready happens only while the gate is serving and the caller has not
  aborted, after all checks of that call have answered well; so after a drain no call is answered ready.
\<close>

lemma ready_only_while_serving:
  assumes "gate_new budgetMs cs = Inr g" "gate_step\<^sup>*\<^sup>* g g'" "i < length (ga_probes g')"
    and "pr_answer (ga_probes g' ! i) = None" "pr_answer (ga_probes (gate_apply (Answer i) g') ! i) = Some True"
  shows "ga_state g' = Serving \<and> \<not> pr_signal (ga_probes g' ! i)
    \<and> pr_passed (ga_probes g' ! i) = ga_checks g' \<and> ga_state (gate_apply (Answer i) (gate_apply Drain g')) = Draining
    \<and> pr_answer (ga_probes (gate_apply (Answer i) (gate_apply Drain g')) ! i) = Some False"
proof -
  have inv: "gate_inv g'" by (rule gate.steps_inv[OF assms(2) gate_new_inv[OF assms(1)]])
  then have "probe_ok (ga_checks g') (ga_probes g' ! i)"
    using assms(3) by (simp add: gate_inv_def list_all_length)
  then show ?thesis
    using assms(3-5)
    by (auto simp: probe_answer_def set_probe_def Let_def gate_drain_def probe_ok_def split: option.splits)
qed

lemma ready_only_while_serving_witness:
  "\<exists>g. gate_new (Whole 100) [] = Inr g
     \<and> pr_answer (ga_probes (gate_apply (Answer 0) (gate_apply (Ready False) (gate_apply Start g))) ! 0) = Some True
     \<and> pr_answer (ga_probes (gate_apply (Answer 0) (gate_apply Drain (gate_apply (Ready False) (gate_apply Start g)))) ! 0) = Some False"
proof -
  define g where "g = \<lparr>ga_state = Starting, ga_busy = False, ga_checks = 0, ga_probes = []\<rparr>"
  have n: "gate_new (Whole 100) [] = Inr g" by (simp add: gate_new_def g_def)
  define g' where "g' = gate_apply (Ready False) (gate_apply Start g)"
  have "gate_step g (gate_apply Start g)" "gate_step (gate_apply Start g) g'"
    by (simp_all only: g'_def gate_step.intros)
  then have r: "gate_step\<^sup>*\<^sup>* g g'" by (meson converse_rtranclp_into_rtranclp rtranclp.rtrancl_refl)
  have e: "g' = \<lparr>ga_state = Serving, ga_busy = False, ga_checks = 0, ga_probes =
      [\<lparr>pr_passed = 0, pr_aborted = False, pr_signal = False, pr_race = Some True, pr_working = False,
        pr_answer = None\<rparr>]\<rparr>"
    by (simp add: g'_def g_def gate_start_def ready_call_def loop_head_def end_work_def set_probe_def
        settle_race_def Let_def)
  have a: "pr_answer (ga_probes (gate_apply (Answer 0) g') ! 0) = Some True"
    by (simp add: e probe_answer_def set_probe_def)
  from ready_only_while_serving[OF n r, of 0] a e have
    "pr_answer (ga_probes (gate_apply (Answer 0) (gate_apply Drain g')) ! 0) = Some False" by simp
  with a n show ?thesis unfolding g'_def by blast
qed

end
