(* ===== verification/HttpRoot.thy ===== *)
theory HttpRoot
  imports Actions Settings Observer HttpClient WsServer Health Database
begin

text \<open>
  \<open>src/root/http.ts\<close> beyond its settings: how the process starts and what it releases when it cannot, its routes,
  and how it stops within one budget. The framework and the listener are the environment; the components are the models
  of the other theories, and the socket session is in \<open>HttpSession\<close>.
\<close>

section \<open>The parts a process owns\<close>

text \<open>\<open>ContextsPart\<close> is the enabled context manager, \<open>GlobalPart\<close> its registration with the SDK, \<open>DiagPart\<close> the SDK's diagnostics.\<close>

datatype part = LogPart | DiagPart | TelemetryPart | ContextsPart | GlobalPart | DatabasePart | OutboundPart
  | AppPart | ListenerPart

datatype act_step = Acquires part | Releases part

text \<open>The parts that are held after a history: those acquired and not released since.\<close>

definition holding :: "act_step list \<Rightarrow> part list" where
  "holding xs = foldl (\<lambda>ps x. case x of Acquires p \<Rightarrow> ps @ [p] | Releases p \<Rightarrow> remove1 p ps) [] xs"

section \<open>Starting\<close>

text \<open>
  What the start meets: the parsed URLs, the first query of the database, whether another context manager is registered,
  whether the framework comes up, and whether the listener can listen.
\<close>

record start_env =
  se_telemetryUrl :: "str \<Rightarrow> tel_url option"
  se_outboundUrl :: "str \<Rightarrow> hc_url option"
  se_databaseUrl :: "str \<Rightarrow> db_url option"
  se_ping :: "unit result"
  se_terminal :: bool
  se_contextFree :: bool
  se_appReady :: bool
  se_listens :: bool

datatype start_error = Carries exn | Says string

text \<open>The running process, with the parts that have a state.\<close>

record http_root =
  hr_settings :: http_settings
  hr_log :: runtime
  hr_telemetry :: otel_runtime
  hr_gate :: gate
  hr_outbound :: "client option"
  hr_server :: http_server
  hr_sockets :: ws_server
  hr_closing :: bool

definition outbound_config :: hc_config where
  "outbound_config = \<lparr>hc_timeoutMs = Whole 500, hc_maxRequest = Whole 65536, hc_maxResponse = Whole 65536, hc_bearer = None\<rparr>"

definition plain_routes :: "route list" where
  "plain_routes = map (\<lambda>(p, oper). \<lparr>ro_path = lit p, ro_operation = lit oper\<rparr>)
     [(''/_examples/outbound'', ''http.example.outbound''), (''/livez'', ''health.live''), (''/readyz'', ''health.ready''),
      (''/_examples/http/success'', ''http.example.success''), (''/_examples/http/conflict'', ''http.example.conflict''),
      (''/_examples/http/unavailable'', ''http.example.unavailable''), (''/_examples/http/unknown'', ''http.example.unknown'')]"

definition test_routes :: "route list" where
  "test_routes = map (\<lambda>(p, oper). \<lparr>ro_path = lit p, ro_operation = lit oper\<rparr>)
     [(''/_examples/http/panic'', ''http.example.panic''), (''/_examples/http/delay'', ''http.example.delay''),
      (''/_examples/http/context'', ''http.example.context'')]"

definition adapter_config :: "http_settings \<Rightarrow> server_config" where
  "adapter_config c = \<lparr>sc_routes = plain_routes @ (if ht_testRoutes c then test_routes else []),
     sc_timeoutMs = Whole (ht_timeoutMs c), sc_maxBody = Whole 1048576, sc_maxActive = Whole 64\<rparr>"

text \<open>\<open>observer.close()\<close>: the context manager is disabled when there is one; its registration stays.\<close>

definition close_observer :: "http_settings \<Rightarrow> act_step list" where
  "close_observer c = (if tc_mode (ht_telemetry c) = lit ''otlp'' then [Releases ContextsPart] else [])"

definition telemetry_settings :: "http_settings \<Rightarrow> id \<Rightarrow> tel_config" where
  "telemetry_settings c i = (ht_telemetry c)\<lparr>tc_resource := service_resource (ht_base c) i\<rparr>"

text \<open>The settings of the listener; the adapter owns the deadline of the body, so the request timeout is off.\<close>

record listener =
  li_maxHeaderSize :: nat
  li_checkMs :: nat
  li_headersMs :: nat
  li_requestMs :: nat
  li_keepAliveMs :: nat

definition listener_settings :: listener where
  "listener_settings = \<lparr>li_maxHeaderSize = 16384, li_checkMs = 100, li_headersMs = 1000, li_requestMs = 0, li_keepAliveMs = 5000\<rparr>"

text \<open>The listener with its own release path, and the gate.\<close>

definition start_listening :: "start_env \<Rightarrow> http_settings \<Rightarrow> runtime \<Rightarrow> otel_runtime \<Rightarrow> gate \<Rightarrow> client option
    \<Rightarrow> server_config \<Rightarrow> act_step list \<Rightarrow> (start_error + http_root) \<times> act_step list" where
  "start_listening en c log tel g outb sc acts =
     (if \<not> se_listens en then (Inl (Says ''HTTP startup failed''), acts
            @ (if ht_database c \<noteq> None then [Releases DatabasePart] else [])
            @ (if outb \<noteq> None then [Releases OutboundPart] else [])
            @ close_observer c @ [Releases TelemetryPart, Releases LogPart, Releases AppPart])
      else (Inr \<lparr>hr_settings = c, hr_log = log, hr_telemetry = tel, hr_gate = snd (gate_start g), hr_outbound = outb,
             hr_server = serving sc, hr_sockets = server_new (ht_socketOrigin c), hr_closing = False\<rparr>,
           acts @ [Acquires ListenerPart]))"

text \<open>The adapter, which may throw, and the framework.\<close>

definition start_app :: "start_env \<Rightarrow> http_settings \<Rightarrow> runtime \<Rightarrow> otel_runtime \<Rightarrow> gate \<Rightarrow> client option
    \<Rightarrow> act_step list \<Rightarrow> (start_error + http_root) \<times> act_step list" where
  "start_app en c log tel g outb acts =
     (case http_server_new (adapter_config c) of
        None \<Rightarrow> (Inl (Carries (Thrown (Foreign 0))), acts)
      | Some sc \<Rightarrow> if \<not> se_appReady en then (Inl (Carries (Thrown (Foreign 0))), acts)
          else start_listening en c log tel g outb sc (acts @ [Acquires AppPart]))"

text \<open>The outbound client, when an origin is configured; what its creation refuses is thrown.\<close>

definition start_outbound :: "start_env \<Rightarrow> http_settings \<Rightarrow> runtime \<Rightarrow> otel_runtime \<Rightarrow> gate
    \<Rightarrow> act_step list \<Rightarrow> (start_error + http_root) \<times> act_step list" where
  "start_outbound en c log tel g acts =
     (if ht_outboundOrigin c = [] then start_app en c log tel g None acts
      else (case client_create (se_outboundUrl en (ht_outboundOrigin c)) outbound_config of
          Inl f \<Rightarrow> (Inl (Carries (Thrown (AppErrorV f))), acts)
        | Inr k \<Rightarrow> start_app en c log tel g (Some k) (acts @ [Acquires OutboundPart])))"

text \<open>The database, whose refusal has a release path of its own, and the gate that asks it.\<close>

definition start_database :: "start_env \<Rightarrow> http_settings \<Rightarrow> runtime \<Rightarrow> otel_runtime
    \<Rightarrow> act_step list \<Rightarrow> (start_error + http_root) \<times> act_step list" where
  "start_database en c log tel acts =
     (case ht_database c of
        None \<Rightarrow> (case gate_new (Whole 500) [] of
            Inl e \<Rightarrow> (Inl (Carries e), acts) | Inr g \<Rightarrow> start_outbound en c log tel g acts)
      | Some d \<Rightarrow>
          (case db_open (se_databaseUrl en (reveal (ds_url d))) (Whole (ds_maxConnections d)) (Whole (ds_timeoutMs d)) (se_ping en) of
             Inl _ \<Rightarrow> (Inl (Says ''database startup failed''), acts @ close_observer c @ [Releases TelemetryPart, Releases LogPart])
           | Inr _ \<Rightarrow> (case gate_new (Whole 500) [True] of
                Inl e \<Rightarrow> (Inl (Carries e), acts @ [Acquires DatabasePart])
              | Inr g \<Rightarrow> start_outbound en c log tel g (acts @ [Acquires DatabasePart]))))"

text \<open>The identity of the process: an actor of its name and an anonymous attribution.\<close>

definition start_identity :: "http_settings \<Rightarrow> (actor \<times> attribution) result" where
  "start_identity c = (case actor (lit ''service'') (rc_name (cf_resource (ht_base c))) of
     Inl e \<Rightarrow> Inl e
   | Inr ex \<Rightarrow> (case attribution (no_attribution\<lparr>as_initiator := Some (Made anonymous)\<rparr>) of
        Inl e \<Rightarrow> Inl e | Inr at \<Rightarrow> Inr (ex, at)))"

definition startHTTP :: "start_env \<Rightarrow> lookup \<Rightarrow> v7_world \<Rightarrow> (start_error + http_root) \<times> act_step list" where
  "startHTTP en lk w =
     (case loadHTTPConfig (se_telemetryUrl en) lk of
        Inl f \<Rightarrow> (Inl (Carries (Thrown (AppErrorV f))), [])
      | Inr c \<Rightarrow>
     (case fst (v7w_newId w) of
        Inl f \<Rightarrow> (Inl (Carries (Thrown (AppErrorV f))), [])
      | Inr i \<Rightarrow>
     (case logging (ht_base c) i False (se_terminal en) of
        Inl f \<Rightarrow> (Inl (Carries (Thrown (AppErrorV f))), [])
      | Inr log \<Rightarrow>
     (case otel_new (se_telemetryUrl en) (telemetry_settings c i) of
        Inl e \<Rightarrow> (Inl (Carries e), [Acquires LogPart, Acquires DiagPart])
      | Inr tel \<Rightarrow>
          let otlp = (tc_mode (ht_telemetry c) = lit ''otlp'');
              acts = [Acquires LogPart, Acquires DiagPart, Acquires TelemetryPart] @ (if otlp then [Acquires ContextsPart] else [])
          in if otlp \<and> \<not> se_contextFree en then (Inl (Says ''telemetry context already owned''), acts)
             else let acts' = acts @ (if otlp then [Acquires GlobalPart] else []) in
               (case start_identity c of
                  Inl f \<Rightarrow> (Inl (Carries (Thrown (AppErrorV f))), acts')
                | Inr _ \<Rightarrow> start_database en c log tel acts')))))"

section \<open>Routes\<close>

text \<open>
  What the handlers meet: whether the signal is aborted when they look, the answers of the gate and of the outbound
  call, and what the context route observes before and after its pause.
\<close>

record handler_env =
  hn_aborted :: bool
  hn_ready :: bool
  hn_outbound :: "hc_response result"
  hn_before :: "id \<times> str option"
  hn_after :: "id \<times> str option"

definition trace_member :: "string \<Rightarrow> str option \<Rightarrow> (str \<times> json) list" where
  "trace_member k t = (case t of None \<Rightarrow> [] | Some s \<Rightarrow> [(lit k, JStr s)])"

text \<open>A handler throws (\<open>Inl\<close>), or returns an error or a value.\<close>

definition route_answer :: "bool \<Rightarrow> handler_env \<Rightarrow> string \<Rightarrow> (exn + (jsval + json)) option" where
  "route_answer outbound h path =
     (if path = ''/_examples/outbound'' then Some (Inr (
         if \<not> outbound then Inl (FailureV (failure Unavailable (lit ''outbound not configured'') no_options))
         else case hn_outbound h of Inl f \<Rightarrow> Inl (FailureV f)
           | Inr r \<Rightarrow> Inr (JObj [(lit ''status'', jint (hr_status r)), (lit ''body_bytes'', jint (int (length (hr_body r))))])))
      else if path = ''/livez'' then Some (Inr (Inr (JObj [(lit ''status'', JStr (lit ''alive''))])))
      else if path = ''/readyz'' then Some (Inr (if hn_ready h then Inr (JObj [(lit ''status'', JStr (lit ''ready''))])
         else Inl (FailureV (fail Unavailable ''not ready'' ''health.not_ready''))))
      else if path = ''/_examples/http/success'' then Some (Inr (Inr (JObj [(lit ''ok'', JBool True)])))
      else if path = ''/_examples/http/conflict'' then Some (Inr (Inl (FailureV (fail Conflict ''item already exists'' ''demo.exists''))))
      else if path = ''/_examples/http/unavailable'' then Some (Inr (Inl (FailureV (fail Unavailable ''dependency unavailable'' ''demo.offline''))))
      else if path = ''/_examples/http/unknown'' then Some (Inr (Inl (Foreign 0)))
      else if path = ''/_examples/http/panic'' then Some (Inl (Thrown (Foreign 0)))
      else if path = ''/_examples/http/delay'' then Some (Inr (if hn_aborted h
         then Inl (FailureV (fail Timeout ''request timed out'' ''http.timeout'')) else Inr (JObj [(lit ''ok'', JBool True)])))
      else if path = ''/_examples/http/context'' then Some (Inr (Inr (JObj ([(lit ''before'', JStr (fst (hn_before h))),
         (lit ''after'', JStr (fst (hn_after h)))]
         @ (case nonempty (snd (hn_before h)) of None \<Rightarrow> [] | Some t \<Rightarrow> (lit ''trace_before'', JStr t) # trace_member ''trace_after'' (snd (hn_after h)))))))
      else None)"

section \<open>Stopping\<close>

text \<open>The readings of the clock, at the start and at each question for the remaining budget, and how the parts answer.\<close>

record stop_env =
  st_start :: int
  st_sockets :: int
  st_force :: int
  st_drain :: int
  st_database :: int
  st_telemetry :: int
  st_log :: int
  st_socketsDone :: bool
  st_databaseDone :: bool
  st_flushed :: bool
  st_logged :: bool
  st_diagnostics :: nat

datatype stop_step = GateDrained | ServerStops | SocketsClose int | ForceAfter int | HttpClosed | AdapterDrain int
  | OutboundClose | DatabaseClose int | TelemetryClose int | ObserverClose | LogClose int | AppClose | DiagOff | ContextOff
  | Complains string

definition remaining :: "http_settings \<Rightarrow> stop_env \<Rightarrow> int \<Rightarrow> int" where
  "remaining c t now = max 0 (st_start t + ht_shutdownMs c - now)"

definition complain :: "bool \<Rightarrow> string \<Rightarrow> stop_step list" where
  "complain good message = (if good then [] else [Complains message])"

text \<open>\<open>close\<close>: the first call does all the work, every call answers its promise.\<close>

definition http_close :: "stop_env \<Rightarrow> http_root \<Rightarrow> stop_step list \<times> http_root" where
  "http_close t r =
     (if hr_closing r then ([], r)
      else let c = hr_settings r; otlp = (tc_mode (ht_telemetry c) = lit ''otlp'') in
        ([GateDrained, ServerStops, SocketsClose (remaining c t (st_sockets t))]
         @ complain (st_socketsDone t) ''socket shutdown incomplete''
         @ [ForceAfter (remaining c t (st_force t)), HttpClosed, AdapterDrain (remaining c t (st_drain t))]
         @ (if hr_outbound r \<noteq> None then [OutboundClose] else [])
         @ (if ht_database c \<noteq> None then DatabaseClose (remaining c t (st_database t))
              # complain (st_databaseDone t) ''database shutdown incomplete'' else [])
         @ [TelemetryClose (remaining c t (st_telemetry t))] @ complain (st_flushed t) ''telemetry shutdown incomplete''
         @ [ObserverClose, LogClose (remaining c t (st_log t))] @ complain (st_logged t) ''logging shutdown incomplete''
         @ [AppClose, DiagOff] @ (if otlp then [ContextOff] else [])
         @ complain (st_diagnostics t = 0) ''telemetry diagnostic events'',
         r\<lparr>hr_gate := gate_drain (hr_gate r), hr_sockets := server_close (hr_sockets r),
           hr_outbound := map_option client_close (hr_outbound r),
           hr_telemetry := otel_close (remaining c t (st_telemetry t)) (hr_telemetry r),
           hr_log := snd (log_close (Whole (remaining c t (st_log t))) (hr_log r)), hr_closing := True\<rparr>))"

section \<open>What a start holds\<close>

lemma holding_simps [simp]:
  "holding [] = []" "holding (xs @ [Acquires p]) = holding xs @ [p]" "holding (xs @ [Releases p]) = remove1 p (holding xs)"
  by (simp_all add: holding_def)

definition releases :: "act_step list \<Rightarrow> bool" where
  "releases xs \<longleftrightarrow> (\<exists>p. Releases p \<in> set xs)"

lemma releases_simps [simp]:
  "\<not> releases []" "releases (Acquires p # xs) = releases xs" "releases (Releases p # xs)" "releases (xs @ ys) = (releases xs \<or> releases ys)"
  by (auto simp: releases_def)

text \<open>The parts of a running process, by its settings.\<close>

definition context_parts :: "http_settings \<Rightarrow> part list" where
  "context_parts c = (if tc_mode (ht_telemetry c) = lit ''otlp'' then [ContextsPart, GlobalPart] else [])"

definition base_parts :: "http_settings \<Rightarrow> part list" where
  "base_parts c = [LogPart, DiagPart, TelemetryPart] @ context_parts c"

definition all_parts :: "http_settings \<Rightarrow> part list" where
  "all_parts c = base_parts c @ (if ht_database c \<noteq> None then [DatabasePart] else [])
     @ (if ht_outboundOrigin c \<noteq> [] then [OutboundPart] else []) @ [AppPart, ListenerPart]"

text \<open>What is open after the database and the outbound client, and what a release path cannot give back: the SDK's registrations.\<close>

definition opened_parts :: "http_settings \<Rightarrow> bool \<Rightarrow> part list" where
  "opened_parts c outbound = base_parts c @ (if ht_database c \<noteq> None then [DatabasePart] else []) @ (if outbound then [OutboundPart] else [])"

definition leftover :: "http_settings \<Rightarrow> part list" where
  "leftover c = DiagPart # (if tc_mode (ht_telemetry c) = lit ''otlp'' then [GlobalPart] else [])"

lemma adapter_accepts: "1 \<le> ht_timeoutMs c \<Longrightarrow> http_server_new (adapter_config c) = Some (adapter_config c)"
  by (cases "ht_testRoutes c") (simp_all add: http_server_new_def adapter_config_def plain_routes_def test_routes_def)

lemma gate_opens: "\<exists>g. gate_new (Whole 500) [] = Inr g \<and> ga_state g = Starting" "\<exists>g. gate_new (Whole 500) [True] = Inr g \<and> ga_state g = Starting"
  by (simp_all add: gate_new_def)

text \<open>The only ways in which a start with valid settings can throw what it does not handle itself.\<close>

definition outbound_refused :: "start_env \<Rightarrow> http_settings \<Rightarrow> bool" where
  "outbound_refused en c \<longleftrightarrow> ht_outboundOrigin c \<noteq> []
     \<and> \<not> is_ok (client_create (se_outboundUrl en (ht_outboundOrigin c)) outbound_config)"

definition database_refused :: "start_env \<Rightarrow> http_settings \<Rightarrow> bool" where
  "database_refused en c \<longleftrightarrow> (case ht_database c of None \<Rightarrow> False
     | Some d \<Rightarrow> \<not> is_ok (db_open (se_databaseUrl en (reveal (ds_url d))) (Whole (ds_maxConnections d)) (Whole (ds_timeoutMs d)) (se_ping en)))"

text \<open>What a start with valid settings ends in, and what it then holds, by what it meets first.\<close>

definition start_ok :: "start_env \<Rightarrow> http_settings \<Rightarrow> (start_error + http_root) \<times> act_step list \<Rightarrow> bool" where
  "start_ok en c out \<longleftrightarrow> (case out of (r, acts) \<Rightarrow>
     if database_refused en c
     then r = Inl (Says ''database startup failed'') \<and> holding acts = leftover c
     else if outbound_refused en c
     then (\<exists>f. r = Inl (Carries (Thrown (AppErrorV f)))) \<and> holding acts = opened_parts c False \<and> \<not> releases acts
     else if \<not> se_appReady en
     then (\<exists>e. r = Inl (Carries e)) \<and> holding acts = opened_parts c (ht_outboundOrigin c \<noteq> []) \<and> \<not> releases acts
     else if \<not> se_listens en
     then r = Inl (Says ''HTTP startup failed'') \<and> holding acts = leftover c
     else \<exists>root. r = Inr root \<and> holding acts = all_parts c \<and> \<not> releases acts \<and> ga_state (hr_gate root) = Serving
       \<and> hr_settings root = c \<and> (hr_outbound root = None \<longleftrightarrow> ht_outboundOrigin c = []) \<and> \<not> hr_closing root)"

lemma foldl_holding: "holding (xs @ ys) = foldl (\<lambda>ps x. case x of Acquires p \<Rightarrow> ps @ [p] | Releases p \<Rightarrow> remove1 p ps) (holding xs) ys"
  by (simp add: holding_def)

lemma listening_ok:
  assumes "1 \<le> ht_timeoutMs c" "ga_state g = Starting" "\<not> releases acts"
    and "holding acts = opened_parts c (outb \<noteq> None)"
    and "outb = None \<longleftrightarrow> ht_outboundOrigin c = []" "\<not> database_refused en c" "\<not> outbound_refused en c"
  shows "start_ok en c (start_app en c log tel g outb acts)"
  using assms
  by (auto simp: start_app_def start_listening_def adapter_accepts start_ok_def foldl_holding all_parts_def opened_parts_def base_parts_def
      context_parts_def close_observer_def leftover_def gate_start_def)

lemma outbound_ok:
  assumes "1 \<le> ht_timeoutMs c" "ga_state g = Starting" "\<not> releases acts"
    and "holding acts = opened_parts c False" "\<not> database_refused en c"
  shows "start_ok en c (start_outbound en c log tel g acts)"
proof (cases "ht_outboundOrigin c = []")
  case True
  with assms show ?thesis by (simp add: start_outbound_def listening_ok outbound_refused_def)
next
  case False
  show ?thesis
  proof (cases "client_create (se_outboundUrl en (ht_outboundOrigin c)) outbound_config")
    case (Inl f)
    with False assms(3-5) show ?thesis by (simp add: start_outbound_def start_ok_def outbound_refused_def)
  next
    case (Inr k)
    have "holding (acts @ [Acquires OutboundPart]) = opened_parts c True" using assms(4) by (simp add: opened_parts_def)
    with Inr False assms show ?thesis by (simp add: start_outbound_def listening_ok outbound_refused_def)
  qed
qed

lemma database_ok:
  assumes "1 \<le> ht_timeoutMs c" "\<not> releases acts" "holding acts = base_parts c"
  shows "start_ok en c (start_database en c log tel acts)"
proof (cases "ht_database c")
  case None
  obtain g where "gate_new (Whole 500) [] = Inr g" "ga_state g = Starting" using gate_opens(1) by blast
  moreover have "holding acts = opened_parts c False" "\<not> database_refused en c"
    using None assms(3) by (simp_all add: opened_parts_def database_refused_def)
  ultimately show ?thesis using None assms by (simp add: start_database_def outbound_ok)
next
  case (Some d)
  obtain g where g: "gate_new (Whole 500) [True] = Inr g" "ga_state g = Starting" using gate_opens(2) by blast
  show ?thesis
  proof (cases "db_open (se_databaseUrl en (reveal (ds_url d))) (Whole (ds_maxConnections d)) (Whole (ds_timeoutMs d)) (se_ping en)")
    case (Inl e)
    with Some assms show ?thesis
      by (auto simp: start_database_def start_ok_def foldl_holding base_parts_def context_parts_def close_observer_def leftover_def
          database_refused_def)
  next
    case (Inr db)
    have "holding (acts @ [Acquires DatabasePart]) = opened_parts c False" "\<not> database_refused en c"
      using Some Inr assms(3) by (simp_all add: opened_parts_def database_refused_def)
    with Some Inr g assms show ?thesis by (simp add: start_database_def outbound_ok)
  qed
qed

lemma identity_given:
  assumes "is_ok (actor (lit ''service'') (rc_name (cf_resource (ht_base c))))"
  shows "is_ok (start_identity c)"
  using assms by (auto simp: start_identity_def attribution_def no_attribution_def split: sum.split)

lemma v7_id_nonempty: "v7_inv (vw_gen w) \<Longrightarrow> fst (v7w_newId w) = Inr i \<Longrightarrow> i \<noteq> []"
proof
  assume w: "v7_inv (vw_gen w)" "fst (v7w_newId w) = Inr i" "i = []"
  obtain w' where "v7w_newId w = (Inr i, w')" using w(2) by (metis prod.collapse)
  then have "validID i" using v7w.newId_ok[OF w(1)] by blast
  with w(3) canonical_length[of i] show False by (simp add: validID_iff)
qed

definition start_acts :: "http_settings \<Rightarrow> act_step list" where
  "start_acts c = map Acquires (base_parts c)"

text \<open>Valid settings and an identifier lead to the database with the first parts acquired, or to the refusal of the context.\<close>

lemma start_valid:
  assumes "loadHTTPConfig (se_telemetryUrl en) lk = Inr c" "v7_inv (vw_gen w)" "fst (v7w_newId w) = Inr i"
  obtains (owned) acts where "startHTTP en lk w = (Inl (Says ''telemetry context already owned''), acts)" "\<not> se_contextFree en"
      "tc_mode (ht_telemetry c) = lit ''otlp''" "holding acts = [LogPart, DiagPart, TelemetryPart, ContextsPart]" "\<not> releases acts"
  | (on) log tel where "startHTTP en lk w = start_database en c log tel (start_acts c)" "holding (start_acts c) = base_parts c"
      "\<not> releases (start_acts c)" "\<not> (tc_mode (ht_telemetry c) = lit ''otlp'' \<and> \<not> se_contextFree en)"
proof -
  obtain r where c: "loadConfig lk = Inr (ht_base c)" "tel_validate (se_telemetryUrl en) (ht_telemetry c) = Inr ()"
    using loadHTTPConfig_Inr[OF assms(1)] by metis
  obtain log where log: "logging (ht_base c) i False (se_terminal en) = Inr log" using loaded_config(1)[OF c(1)] by blast
  note nm = loaded_config(2)[OF c(1)]
  have "tel_validate (se_telemetryUrl en) (telemetry_settings c i) = Inr ()"
    unfolding telemetry_settings_def
    by (rule service_resource_valid[OF c(2) actor_name_nonempty[OF nm] v7_id_nonempty[OF assms(2,3)]])
  then obtain tel where tel: "otel_new (se_telemetryUrl en) (telemetry_settings c i) = Inr tel" by (auto simp: otel_new_def)
  obtain ident where ident: "start_identity c = Inr ident" using identity_given[OF nm] by blast
  have h: "holding (start_acts c) = base_parts c" "\<not> releases (start_acts c)"
    by (auto simp: start_acts_def base_parts_def context_parts_def holding_def)
  show thesis
  proof (cases "tc_mode (ht_telemetry c) = lit ''otlp'' \<and> \<not> se_contextFree en")
    case True
    then have "startHTTP en lk w = (Inl (Says ''telemetry context already owned''),
        [Acquires LogPart, Acquires DiagPart, Acquires TelemetryPart, Acquires ContextsPart])"
      using assms log tel by (simp add: startHTTP_def Let_def)
    with True show thesis by (intro owned) (auto simp: holding_def)
  next
    case False
    then have "startHTTP en lk w = start_database en c log tel (start_acts c)"
      using assms log tel ident by (auto simp: startHTTP_def Let_def start_acts_def base_parts_def context_parts_def)
    with on h False show thesis by blast
  qed
qed

section \<open>Properties\<close>

text \<open>
  C19: how a start ends and what it then holds. Settings that are refused, or an identifier that cannot be made, are
  thrown before anything is acquired. Otherwise the first of these decides. The SDK's context is owned by somebody
  else: that is said, and the log, the diagnostics, the telemetry and its context manager stay held. The database
  does not open: that is said, and everything is given back but the SDK's process-wide registrations. The outbound
  client refuses its origin, or the framework fails: that is thrown, and all that was opened until then stays held. The
  listener cannot listen: that is said, with everything given back but the SDK's registrations. Otherwise the process
  runs, holding exactly the parts its settings name, none of them released and its gate serving.
\<close>

theorem startup_outcome:
  assumes "v7_inv (vw_gen w)"
  shows "case loadHTTPConfig (se_telemetryUrl en) lk of
      Inl f \<Rightarrow> startHTTP en lk w = (Inl (Carries (Thrown (AppErrorV f))), [])
    | Inr c \<Rightarrow> (case fst (v7w_newId w) of
        Inl f \<Rightarrow> startHTTP en lk w = (Inl (Carries (Thrown (AppErrorV f))), [])
      | Inr i \<Rightarrow>
          if tc_mode (ht_telemetry c) = lit ''otlp'' \<and> \<not> se_contextFree en
          then (\<exists>acts. startHTTP en lk w = (Inl (Says ''telemetry context already owned''), acts)
            \<and> holding acts = [LogPart, DiagPart, TelemetryPart, ContextsPart] \<and> \<not> releases acts)
          else start_ok en c (startHTTP en lk w))"
proof (cases "loadHTTPConfig (se_telemetryUrl en) lk")
  case (Inl f)
  then show ?thesis by (simp add: startHTTP_def)
next
  case (Inr c)
  show ?thesis
  proof (cases "fst (v7w_newId w)")
    case (Inl f)
    with Inr show ?thesis by (simp add: startHTTP_def)
  next
    case i: (Inr i)
    from Inr assms i show ?thesis
    proof (cases rule: start_valid)
      case (owned acts)
      then show ?thesis using Inr i by auto
    next
      case (on log tel)
      have "1 \<le> ht_timeoutMs c" using http_settings_range[OF Inr] by (simp add: http_in_range_def)
      from database_ok[OF this on(3,2), of en log tel] Inr i on(1,4) show ?thesis by auto
    qed
  qed
qed

text \<open>
  C21: a refused outbound origin leaks what was started before it. The settings are valid, so nothing has
  looked at the origin yet; the client that is made of it after the database was opened refuses it, the refusal is
  thrown, and the log, the telemetry and the open database stay behind, unlike on the failure of the database or the
  listener.
\<close>

theorem refused_outbound_leaks:
  assumes "loadHTTPConfig (se_telemetryUrl en) lk = Inr c" "v7_inv (vw_gen w)" "is_ok (fst (v7w_newId w))" "se_contextFree en"
    and "ht_database c = Some d" "outbound_refused en c"
    and "is_ok (db_open (se_databaseUrl en (reveal (ds_url d))) (Whole (ds_maxConnections d)) (Whole (ds_timeoutMs d)) (se_ping en))"
  shows "\<exists>f acts. startHTTP en lk w = (Inl (Carries (Thrown (AppErrorV f))), acts)
    \<and> holding acts = base_parts c @ [DatabasePart] \<and> \<not> releases acts"
proof -
  obtain i where i: "fst (v7w_newId w) = Inr i" using assms(3) by blast
  obtain db where db: "db_open (se_databaseUrl en (reveal (ds_url d))) (Whole (ds_maxConnections d)) (Whole (ds_timeoutMs d)) (se_ping en) = Inr db"
    using assms(7) by blast
  obtain f where f: "client_create (se_outboundUrl en (ht_outboundOrigin c)) outbound_config = Inl f"
    using assms(6) by (cases "client_create (se_outboundUrl en (ht_outboundOrigin c)) outbound_config") (auto simp: outbound_refused_def)
  obtain g where g: "gate_new (Whole 500) [True] = Inr g" using gate_opens(2) by blast
  from assms(1,2) i show ?thesis
  proof (cases rule: start_valid)
    case (owned acts)
    with assms(4) show ?thesis by simp
  next
    case (on log tel)
    have "startHTTP en lk w = (Inl (Carries (Thrown (AppErrorV f))), start_acts c @ [Acquires DatabasePart])"
      unfolding on(1) using assms(5,6) db g f by (simp add: start_database_def start_outbound_def outbound_refused_def)
    with on(2,3) show ?thesis by simp
  qed
qed

section \<open>Stopping within the budget\<close>

definition budgets :: "stop_step list \<Rightarrow> int list" where
  "budgets xs = concat (map (\<lambda>x. case x of SocketsClose b \<Rightarrow> [b] | ForceAfter b \<Rightarrow> [b] | AdapterDrain b \<Rightarrow> [b]
     | DatabaseClose b \<Rightarrow> [b] | TelemetryClose b \<Rightarrow> [b] | LogClose b \<Rightarrow> [b] | _ \<Rightarrow> []) xs)"

text \<open>The clock does not go backwards while the process stops.\<close>

definition forward :: "stop_env \<Rightarrow> bool" where
  "forward t \<longleftrightarrow> sorted [st_start t, st_sockets t, st_force t, st_drain t, st_database t, st_telemetry t, st_log t]"

lemma budgets_simps [simp]:
  "budgets [] = []" "budgets (xs @ ys) = budgets xs @ budgets ys" "budgets (SocketsClose b # xs) = b # budgets xs"
  "budgets (ForceAfter b # xs) = b # budgets xs" "budgets (AdapterDrain b # xs) = b # budgets xs"
  "budgets (DatabaseClose b # xs) = b # budgets xs" "budgets (TelemetryClose b # xs) = b # budgets xs"
  "budgets (LogClose b # xs) = b # budgets xs" "budgets (GateDrained # xs) = budgets xs" "budgets (ServerStops # xs) = budgets xs"
  "budgets (HttpClosed # xs) = budgets xs" "budgets (OutboundClose # xs) = budgets xs" "budgets (ObserverClose # xs) = budgets xs"
  "budgets (AppClose # xs) = budgets xs" "budgets (DiagOff # xs) = budgets xs" "budgets (ContextOff # xs) = budgets xs"
  "budgets (Complains m # xs) = budgets xs"
  by (simp_all add: budgets_def)

lemma budgets_complain [simp]: "budgets (complain good m) = []"
  by (simp add: complain_def)

lemma close_budgets:
  assumes "\<not> hr_closing r"
  shows "budgets (fst (http_close t r)) = map (remaining (hr_settings r) t)
     ([st_sockets t, st_force t, st_drain t] @ (if ht_database (hr_settings r) \<noteq> None then [st_database t] else []) @ [st_telemetry t, st_log t])"
  using assms by (simp add: http_close_def Let_def)

text \<open>The parts a stop gives up, in its order.\<close>

definition gives_up :: "bool \<Rightarrow> stop_step \<Rightarrow> part list" where
  "gives_up otlp x = (case x of HttpClosed \<Rightarrow> [ListenerPart] | OutboundClose \<Rightarrow> [OutboundPart] | DatabaseClose b \<Rightarrow> [DatabasePart]
     | TelemetryClose b \<Rightarrow> [TelemetryPart] | ObserverClose \<Rightarrow> (if otlp then [ContextsPart] else []) | LogClose b \<Rightarrow> [LogPart]
     | AppClose \<Rightarrow> [AppPart] | DiagOff \<Rightarrow> [DiagPart] | ContextOff \<Rightarrow> [GlobalPart] | _ \<Rightarrow> [])"

definition given_up :: "http_settings \<Rightarrow> stop_step list \<Rightarrow> part list" where
  "given_up c xs = concat (map (gives_up (tc_mode (ht_telemetry c) = lit ''otlp'')) xs)"

definition stop_order :: "part list" where
  "stop_order = [ListenerPart, OutboundPart, DatabasePart, TelemetryPart, ContextsPart, LogPart, AppPart, DiagPart, GlobalPart]"

lemma given_up_simps [simp]:
  "given_up c [] = []" "given_up c (x # xs) = gives_up (tc_mode (ht_telemetry c) = lit ''otlp'') x @ given_up c xs"
  "given_up c (xs @ ys) = given_up c xs @ given_up c ys" "given_up c (complain good m) = []"
  by (simp_all add: given_up_def complain_def gives_up_def)

lemma close_gives_up:
  assumes "\<not> hr_closing r" "hr_outbound r = None \<longleftrightarrow> ht_outboundOrigin (hr_settings r) = []"
  shows "given_up (hr_settings r) (fst (http_close t r)) = filter (\<lambda>p. p \<in> set (all_parts (hr_settings r))) stop_order"
proof -
  let ?c = "hr_settings r"
  have "given_up ?c (fst (http_close t r)) = [ListenerPart] @ (if ht_outboundOrigin ?c \<noteq> [] then [OutboundPart] else [])
      @ (if ht_database ?c \<noteq> None then [DatabasePart] else []) @ [TelemetryPart]
      @ (if tc_mode (ht_telemetry ?c) = lit ''otlp'' then [ContextsPart] else []) @ [LogPart, AppPart, DiagPart]
      @ (if tc_mode (ht_telemetry ?c) = lit ''otlp'' then [GlobalPart] else [])"
    using assms by (simp add: http_close_def Let_def gives_up_def)
  then show ?thesis by (simp add: stop_order_def all_parts_def base_parts_def context_parts_def)
qed

lemma all_given_up:
  "holding acts = all_parts c \<Longrightarrow> holding (acts @ map Releases (filter (\<lambda>p. p \<in> set (all_parts c)) stop_order)) = []"
  unfolding foldl_holding
  by (cases "tc_mode (ht_telemetry c) = lit ''otlp''"; cases "ht_database c"; cases "ht_outboundOrigin c")
    (simp_all add: stop_order_def all_parts_def base_parts_def context_parts_def)

text \<open>
  C20: a stop gives up everything within one budget. The first call drains the gate and stops the server before
  anything else, and then gives up every part the process holds, each once and in this order: the listener, the
  outbound client, the database, the telemetry and its context manager, the log, the framework, the SDK's
  diagnostics and its context; nothing is held afterwards. The sockets, the forced close, the drain, the database, the telemetry
  and the log are each handed what is left of the configured shutdown at that moment, never more than that, never a negative time
  and at most what the one before was given. A further call does nothing.
\<close>

theorem shutdown_budget:
  assumes "forward t" "\<not> hr_closing r" "0 \<le> ht_shutdownMs (hr_settings r)"
    and "hr_outbound r = None \<longleftrightarrow> ht_outboundOrigin (hr_settings r) = []"
  shows "(let (steps, r') = http_close t r; bs = budgets steps; c = hr_settings r in
      sorted_wrt (\<ge>) bs \<and> list_all (\<lambda>b. 0 \<le> b \<and> b \<le> ht_shutdownMs c) bs
      \<and> bs = map (\<lambda>now. max 0 (st_start t + ht_shutdownMs c - now))
          ([st_sockets t, st_force t, st_drain t] @ (if ht_database c \<noteq> None then [st_database t] else []) @ [st_telemetry t, st_log t])
      \<and> take 2 steps = [GateDrained, ServerStops]
      \<and> given_up c steps = filter (\<lambda>p. p \<in> set (all_parts c)) stop_order
      \<and> (\<forall>acts. holding acts = all_parts c \<longrightarrow> holding (acts @ map Releases (given_up c steps)) = [])
      \<and> http_close u r' = ([], r'))"
proof -
  obtain steps r' where k: "http_close t r = (steps, r')" by fastforce
  have mono: "remaining c t m \<ge> remaining c t n" if "m \<le> n" for c m n using that by (simp add: remaining_def)
  have le: "0 \<le> remaining (hr_settings r) t m \<and> remaining (hr_settings r) t m \<le> ht_shutdownMs (hr_settings r)" if "st_start t \<le> m" for m
    using that assms(3) by (simp add: remaining_def)
  note b = close_budgets[OF assms(2), of t, unfolded k fst_conv]
  note g = close_gives_up[OF assms(2,4), of t, unfolded k fst_conv]
  have r: "remaining (hr_settings r) t = (\<lambda>now. max 0 (st_start t + ht_shutdownMs (hr_settings r) - now))"
    by (simp add: remaining_def fun_eq_iff)
  show ?thesis unfolding k Let_def prod.case
  proof (intro conjI allI impI)
    show "sorted_wrt (\<ge>) (budgets steps)" unfolding b using assms(1) by (auto simp: forward_def intro!: mono)
    show "list_all (\<lambda>b. 0 \<le> b \<and> b \<le> ht_shutdownMs (hr_settings r)) (budgets steps)"
      unfolding b using assms(1) by (auto simp: forward_def list_all_iff dest!: le)
    show "take 2 steps = [GateDrained, ServerStops]" "http_close u r' = ([], r')"
      using k assms(2) by (auto simp: http_close_def Let_def)
    show "holding (acts @ map Releases (given_up (hr_settings r) steps)) = []" if "holding acts = all_parts (hr_settings r)" for acts
      unfolding g by (rule all_given_up[OF that])
  qed (rule b[unfolded r] g)+
qed

text \<open>
  A stopped process admits nothing. After the first call of \<open>close\<close> no probe of the gate begins and its
  answer is no, no socket is admitted, the outbound client refuses every request, and the flush of the telemetry has begun.
\<close>

lemma stopped_admits_nothing:
  assumes "snd (http_close t r) = r'" "\<not> hr_closing r"
  shows "ready_call aborted (hr_gate r') = (Some False, hr_gate r') \<and> admission rq (hr_sockets r') \<noteq> Admitted
    \<and> (case hr_outbound r' of None \<Rightarrow> hr_outbound r = None
       | Some k \<Rightarrow> client_do origin_of created aborted q k = (Some (hc_fail Unavailable ''closed''), k))
    \<and> or_closing (hr_telemetry r') \<noteq> None"
proof -
  have r': "hr_gate r' = gate_drain (hr_gate r)" "hr_sockets r' = server_close (hr_sockets r)"
    "hr_outbound r' = map_option client_close (hr_outbound r)"
    "hr_telemetry r' = otel_close (remaining (hr_settings r) t (st_telemetry t)) (hr_telemetry r)"
    using assms by (auto simp: http_close_def Let_def)
  have "ready_call aborted (gate_drain g) = (Some False, gate_drain g)" for g by (simp add: ready_call_def gate_drain_def)
  moreover have "admission rq (server_close s) \<noteq> Admitted" for s by (simp add: admission_def server_close_def Let_def)
  moreover have "client_do origin_of created aborted q (client_close k) = (Some (hc_fail Unavailable ''closed''), client_close k)" for k
    by (simp add: client_do_def client_close_def)
  moreover have "or_closing (otel_close n o1) \<noteq> None" for n o1 using otel_close_begins[of n o1] by auto
  ultimately show ?thesis unfolding r' by (simp split: option.split)
qed

section \<open>Witnesses\<close>

definition http_world :: v7_world where
  "http_world = \<lparr>vw_clock = (\<lambda>i. Date 0), vw_entropy = (\<lambda>i. Inr []), vw_calls = 0, vw_gen = v7_new\<rparr>"

lemma http_world_steady: "n \<le> 2048 \<Longrightarrow> steady n http_world"
  by (simp add: steady_def http_world_def v7_inv_def v7_new_def)

text \<open>The environment of a process with a database and an outbound origin the URL parser refuses.\<close>

definition leaking_env :: lookup where
  "leaking_env = (\<lambda>k. if k = lit ''DEMO_TOKEN'' then Str (lit ''t'') else if k = lit ''DATABASE_ENABLED'' then Str (lit ''true'')
     else if k = lit ''DATABASE_URL'' then Str (lit ''d'') else if k = lit ''OUTBOUND_ORIGIN'' then Str (lit ''o'') else Undefined)"

definition sample_start :: start_env where
  "sample_start = \<lparr>se_telemetryUrl = sample_tel_url, se_outboundUrl = (\<lambda>s. None),
     se_databaseUrl = (\<lambda>s. Some \<lparr>du_protocol = lit ''postgres:'', du_hostname = lit ''h'', du_hash = []\<rparr>), se_ping = Inr (),
     se_terminal = False, se_contextFree = True, se_appReady = True, se_listens = True\<rparr>"

lemma http_world_id: "v7_inv (vw_gen http_world)" "is_ok (fst (v7w_newId http_world))"
proof -
  have s: "steady (Suc 0) http_world" by (rule http_world_steady) simp
  show "v7_inv (vw_gen http_world)" using s by (simp add: steady_def)
  from steady_newId[OF s] show "is_ok (fst (v7w_newId http_world))" by force
qed

lemma leaking_loads:
  obtains c d where "loadHTTPConfig sample_tel_url leaking_env = Inr c" "ht_database c = Some d" "ht_outboundOrigin c = lit ''o''"
    "ds_maxConnections d = 8" "ds_timeoutMs d = 1000"
proof -
  have a: "is_ok (actor (lit ''service'') (lit ''n2f-foundations''))"
    by (simp add: actor_def identityValid_def matches_def identity_unit_def str_simps)
  have ne: "lit ''x'' \<noteq> []" for x by (simp add: lit_def)
  have "\<exists>c. loadConfig leaking_env = Inr c"
    using a ne
    by (simp add: loadConfig_def config_reads_def reader_op_defs reader_read_def reader_record_def reader_new_def
        leaking_env_def config_keys_valid environments_def formats_def levels_def colors_def nonempty_def
        config_problems_def reader_manifest_def reader_check_def max_safe_def Let_def)
  then obtain b where b: "loadConfig leaking_env = Inr b" by blast
  have nm: "rc_name (cf_resource b) \<noteq> []" using actor_name_nonempty[OF loaded_config(2)[OF b]] .
  have k: "validKey (lit ''DATABASE_URL'')" "validKey (lit ''DATABASE_MAX_CONNECTIONS'')" "validKey (lit ''DATABASE_TIMEOUT_MS'')"
    by (simp_all add: validKey_def key_tail_def str_simps)
  have ip: "isIP (lit ''127.0.0.1'') = 4"
    by (simp add: isIP_def is_ipv4_def v4_part_def matches_def val_base_def digit_val_def str_simps)
  have "\<exists>c d. loadHTTPConfig sample_tel_url leaking_env = Inr c \<and> ht_database c = Some d \<and> ht_outboundOrigin c = lit ''o''
      \<and> ds_maxConnections d = 8 \<and> ds_timeoutMs d = 1000"
    using b nm
    by (simp add: loadHTTPConfig_def http_reads_def tel_reads_def db_reads_def reader_op_defs reader_read_def reader_record_def reader_new_def
        leaking_env_def http_keys_valid k tel_modes_def samplings_def reader_check_def max_safe_def ip tel_validate_def sample_tel_url_def
        lacks_def nonempty_def batch_fits_def Let_def)
  with that show thesis by blast
qed

theorem refused_outbound_leaks_witness:
  "\<exists>f acts. startHTTP sample_start leaking_env http_world = (Inl (Carries (Thrown (AppErrorV f))), acts)
     \<and> DatabasePart \<in> set (holding acts)"
proof -
  obtain c d where c: "loadHTTPConfig sample_tel_url leaking_env = Inr c" "ht_database c = Some d" "ht_outboundOrigin c = lit ''o''"
    "ds_maxConnections d = 8" "ds_timeoutMs d = 1000" by (rule leaking_loads)
  have l: "loadHTTPConfig (se_telemetryUrl sample_start) leaking_env = Inr c" using c(1) by (simp add: sample_start_def)
  have "outbound_refused sample_start c"
    by (simp add: outbound_refused_def c(3) sample_start_def client_create_def lit_def)
  moreover have "is_ok (db_open (se_databaseUrl sample_start (reveal (ds_url d))) (Whole (ds_maxConnections d)) (Whole (ds_timeoutMs d)) (se_ping sample_start))"
    by (simp add: sample_start_def db_open_def c(4,5) lit_def)
  moreover have "se_contextFree sample_start" by (simp add: sample_start_def)
  ultimately show ?thesis
    using refused_outbound_leaks[OF l http_world_id _ c(2)] by fastforce
qed

lemma sample_http:
  obtains root acts where "startHTTP sample_start (sample_env (lit ''t'')) http_world = (Inr root, acts)"
    "\<not> hr_closing root" "ht_shutdownMs (hr_settings root) = 3000" "hr_outbound root = None" "ht_outboundOrigin (hr_settings root) = []"
    "loadHTTPConfig (se_telemetryUrl sample_start) (sample_env (lit ''t'')) = Inr (hr_settings root)"
proof -
  have "lit ''t'' \<noteq> []" by (simp add: lit_def)
  then obtain b where b: "loadConfig (sample_env (lit ''t'')) = Inr b" using sample_env_reads by blast
  have nm: "rc_name (cf_resource b) \<noteq> []" using actor_name_nonempty[OF loaded_config(2)[OF b]] .
  from http_env_reads[OF b nm, of "lit ''t''"] obtain c where c: "loadHTTPConfig sample_tel_url (sample_env (lit ''t'')) = Inr c"
    "ht_database c = None" "ht_outboundOrigin c = []" "ht_shutdownMs c = 3000" by (auto simp: sample_env_def)
  have l: "loadHTTPConfig (se_telemetryUrl sample_start) (sample_env (lit ''t'')) = Inr c" using c(1) by (simp add: sample_start_def)
  have t: "1 \<le> ht_timeoutMs c" using http_settings_range[OF l] by (simp add: http_in_range_def)
  obtain i where i: "fst (v7w_newId http_world) = Inr i" using http_world_id(2) by blast
  obtain g where g: "gate_new (Whole 500) [] = Inr g" using gate_opens(1) by blast
  from l http_world_id(1) i show thesis
  proof (cases rule: start_valid)
    case (owned acts)
    then show thesis by (simp add: sample_start_def)
  next
    case (on log tel)
    then show thesis
      using that c(2-4) l g adapter_accepts[OF t]
      by (simp add: start_database_def start_outbound_def start_app_def start_listening_def sample_start_def)
  qed
qed

theorem startup_outcome_witness:
  "\<exists>root acts. startHTTP sample_start (sample_env (lit ''t'')) http_world = (Inr root, acts)
     \<and> holding acts = all_parts (hr_settings root) \<and> ga_state (hr_gate root) = Serving"
proof -
  obtain root acts where r: "startHTTP sample_start (sample_env (lit ''t'')) http_world = (Inr root, acts)"
    "loadHTTPConfig (se_telemetryUrl sample_start) (sample_env (lit ''t'')) = Inr (hr_settings root)" by (rule sample_http)
  obtain i where "fst (v7w_newId http_world) = Inr i" using http_world_id(2) by blast
  with startup_outcome[OF http_world_id(1), of sample_start "sample_env (lit ''t'')"] r
  have "start_ok sample_start (hr_settings root) (Inr root, acts)" by (simp split: if_splits)
  then have "holding acts = all_parts (hr_settings root) \<and> ga_state (hr_gate root) = Serving"
    by (auto simp: start_ok_def split: if_splits)
  with r(1) show ?thesis by blast
qed

definition sample_stop :: stop_env where
  "sample_stop = \<lparr>st_start = 0, st_sockets = 1, st_force = 2, st_drain = 2, st_database = 3, st_telemetry = 4000, st_log = 4001,
     st_socketsDone = True, st_databaseDone = True, st_flushed = False, st_logged = True, st_diagnostics = 0\<rparr>"

theorem shutdown_budget_witness:
  "\<exists>root acts. startHTTP sample_start (sample_env (lit ''t'')) http_world = (Inr root, acts)
     \<and> sorted_wrt (\<ge>) (budgets (fst (http_close sample_stop root)))
     \<and> given_up (hr_settings root) (fst (http_close sample_stop root)) = filter (\<lambda>p. p \<in> set (all_parts (hr_settings root))) stop_order"
proof -
  obtain root acts where r: "startHTTP sample_start (sample_env (lit ''t'')) http_world = (Inr root, acts)"
    "\<not> hr_closing root" "ht_shutdownMs (hr_settings root) = 3000" "hr_outbound root = None" "ht_outboundOrigin (hr_settings root) = []"
    by (rule sample_http)
  have "forward sample_stop" by (simp add: forward_def sample_stop_def)
  from shutdown_budget[OF this r(2), where u = sample_stop] r show ?thesis by (auto simp: Let_def split: prod.splits)
qed

lemma stopped_admits_nothing_witness:
  "\<exists>root acts. startHTTP sample_start (sample_env (lit ''t'')) http_world = (Inr root, acts)
     \<and> or_closing (hr_telemetry (snd (http_close sample_stop root))) \<noteq> None"
proof -
  obtain root acts where r: "startHTTP sample_start (sample_env (lit ''t'')) http_world = (Inr root, acts)" "\<not> hr_closing root"
    by (rule sample_http)
  from stopped_admits_nothing[OF refl r(2), where t = sample_stop] r(1) show ?thesis by blast
qed

end
