(* ===== verification/HttpSession.thy ===== *)
theory HttpSession
  imports HttpRoot Envelope
begin

text \<open>
  The socket session of \<open>src/root/http.ts\<close>: the scope of a connection, the scope of each message under it, and the pong
  that names both. The server that carries it is \<open>WsServer\<close>.
\<close>

section \<open>The socket session\<close>

definition session_open :: "actor \<Rightarrow> attribution \<Rightarrow> v7_world \<Rightarrow> scope result \<times> v7_world" where
  "session_open ex at = factory_enter v7w_factory
     \<lparr>rs_workId = None, rs_origin = lit ''request'', rs_operation = lit ''socket.connection'', rs_attribution = Made at, rs_executor = Made ex\<rparr>
     (Made (inspectIncoming fresh_hints))"

definition pong :: "scope \<Rightarrow> scope \<Rightarrow> socket_message \<Rightarrow> socket_message" where
  "pong connection sc message =
     [(lit ''v'', jint 1), (lit ''id'', the (map_of message (lit ''id''))), (lit ''type'', JStr (lit ''pong'')),
      (lit ''payload'', JObj [(lit ''connection_id'', JStr (sp_scopeId connection)), (lit ''scope_id'', JStr (sp_scopeId sc))])]"

text \<open>A message is handled under a child of the connection's scope, which is opened before its type is looked at.\<close>

definition session_handle :: "actor \<Rightarrow> scope \<Rightarrow> socket_message \<Rightarrow> bool \<Rightarrow> v7_world \<Rightarrow> socket_message result \<times> v7_world" where
  "session_handle ex connection message aborted w =
     (if aborted then (Inl (failure Canceled (lit ''message canceled'') no_options), w)
      else (case factory_child v7w_factory (Made connection)
          \<lparr>ss_workId = None, ss_operation = lit ''socket.message'', ss_executor = Made ex, ss_cause = None\<rparr> w of
        (Inl e, w1) \<Rightarrow> (Inl e, w1)
      | (Inr sc, w1) \<Rightarrow>
          if map_of message (lit ''type'') \<noteq> Some (JStr (lit ''ping''))
          then (Inl (failure Invalid (lit ''unsupported message'') no_options), w1)
          else (Inr (pong connection sc message), w1)))"

text \<open>Upgrades are only taken on the path of the socket; on every other path the connection is destroyed.\<close>

definition http_upgrade :: "str \<Rightarrow> upgrade_request \<Rightarrow> bool \<Rightarrow> bool \<Rightarrow> ws_server \<Rightarrow> ws_server" where
  "http_upgrade url rq handshake opened s =
     (if url \<noteq> lit ''/_examples/socket'' then s else upgrade rq handshake opened s)"

section \<open>The answer to a ping\<close>

lemma pong_plain:
  "plain_keys [(lit ''v'', a :: json), (lit ''id'', b), (lit ''type'', d), (lit ''payload'', e)]"
  "plain_keys [(lit ''connection_id'', f :: json), (lit ''scope_id'', g)]"
  by (rule plain_keys_lit[of "[''v'', ''id'', ''type'', ''payload'']"], simp_all add: str_simps)
    (rule plain_keys_lit[of "[''connection_id'', ''scope_id'']"], simp_all add: str_simps)

lemma message_id: "is_message m \<Longrightarrow> \<exists>i. map_of m (lit ''id'') = Some (JStr i) \<and> socket_id i"
  by (auto simp: is_message_def split: option.splits json.splits)

lemma pong_inner: "wf_json (JObj [(lit ''connection_id'', JStr f), (lit ''scope_id'', JStr g)])"
  by (rule wf_members[OF pong_plain(2)]) simp

lemma pong_encodes:
  assumes "map_of m (lit ''id'') = Some (JStr i)" "socket_id i" "length (sp_scopeId c) = 36" "length (sp_scopeId sc) = 36"
  shows "is_message (pong c sc m)" "\<exists>raw. socket_encode (Some (JObj (pong c sc m))) = Inr raw \<and> socket_decode raw = Inr (pong c sc m)"
proof -
  have wf: "wf_json (JObj (pong c sc m))"
    unfolding pong_def assms(1) option.sel
    using pong_inner by (intro wf_members[OF pong_plain(1)]) (simp add: wf_int max_safe_def del: wf_json.simps(5,6))
  show im: "is_message (pong c sc m)"
    using assms(1,2) by (simp add: pong_def is_message_def jint_def dbl_number_int socket_type_def matches_def str_simps word_le_nat_alt)
  have "length i \<le> 64" using assms(2) by (simp add: socket_id_def matches_def)
  moreover have "length (stringify (jint 1)) = 1"
    using show_dbl_int[of 1] by (simp add: jint_def dbl_of_int_def canon.simps max_safe_def show_int_def show_base.simps[of 10])
  ultimately have "3 * json_size (JObj (pong c sc m)) \<le> 65536"
    using assms by (simp add: pong_def jint_def del: stringify.simps)
  from event_size[OF this] socket_decode_printed[OF wf] im
  show "\<exists>raw. socket_encode (Some (JObj (pong c sc m))) = Inr raw \<and> socket_decode raw = Inr (pong c sc m)"
    by (simp add: socket_encode_def del: stringify.simps)
qed

section \<open>A session\<close>

fun session_run :: "actor \<Rightarrow> scope \<Rightarrow> (socket_message \<times> bool) list \<Rightarrow> v7_world \<Rightarrow> socket_message result list \<times> v7_world" where
  "session_run ex c [] w = ([], w)"
| "session_run ex c ((m, aborted) # ms) w =
     (let (r, w1) = session_handle ex c m aborted w; (rs, w2) = session_run ex c ms w1 in (r # rs, w2))"

definition is_ping :: "socket_message \<Rightarrow> bool" where
  "is_ping m \<longleftrightarrow> map_of m (lit ''type'') = Some (JStr (lit ''ping''))"

definition message_canceled :: failure where
  "message_canceled = failure Canceled (lit ''message canceled'') no_options"

definition message_unsupported :: failure where
  "message_unsupported = failure Invalid (lit ''unsupported message'') no_options"

definition connection_work :: "attribution \<Rightarrow> id \<Rightarrow> work" where
  "connection_work at i = \<lparr>wk_workId = Some i, wk_correlationId = Some i, wk_correlationSource = lit ''local'',
      wk_causation = None, wk_origin = Some (lit ''request''), wk_operation = lit ''socket.connection'', wk_attribution = Made at,
      wk_depth = Some (Whole 0), wk_replay = None\<rparr>"

lemma socket_operations: "validOperation (lit ''socket.connection'')" "validOperation (lit ''socket.message'')"
  by (simp_all add: validOperation_def matches_def operation_unit_def str_simps)

lemma open_succeeds:
  assumes "steady (Suc n) w" "namedActor (Made ex)"
  obtains c w' where "session_open ex at w = (Inr c, w')" "steady n w'" "sound_scope c" "sp_work c = connection_work at (sp_scopeId c)"
    "sp_scopeId c \<in> spent_in w'"
proof -
  let ?rw = "\<lparr>wk_workId = None, wk_correlationId = None, wk_correlationSource = lit ''local'',
      wk_causation = None, wk_origin = Some (lit ''request''), wk_operation = lit ''socket.connection'', wk_attribution = Made at,
      wk_depth = Some (Whole 0), wk_replay = None\<rparr>"
  have v: "validateWork ?rw True = None"
    by (simp add: validateWork_def bad_id_def socket_operations validOrigin_def origins_def check_causation_def check_depth_def check_replay_def max_u32_def)
  have v2: "validateWork (fill_work ?rw i) False = None \<and> \<not> caused_by_scope (fill_work ?rw i) i" if "validID i" for i
    using that by (simp add: validateWork_def bad_id_def socket_operations validOrigin_def origins_def fill_work_def
        or_id_def check_causation_def check_depth_def check_replay_def max_u32_def caused_by_scope_def)
  obtain c w' where e: "emit v7w_factory ?rw (Made ex) (Whole 1) None [] w = (Inr c, w')" "steady n w'"
    "insert (sp_scopeId c) (spent_in w) \<subseteq> spent_in w'"
    by (rule emit_succeeds[where att = 1 and prev = None and forb = "[]", OF assms refl _ _ v v2]) (auto simp: max_u32_def)
  note d = emit_InrD[OF e(1)]
  have "sp_work c = connection_work at (sp_scopeId c)" using d(2) by (simp add: fill_work_def or_id_def connection_work_def)
  moreover have "session_open ex at w = (Inr c, w')"
    using e(1) by (simp add: session_open_def factory_enter_def rootWork_def validOrigin_def origins_def inspectIncoming_def fresh_hints_def)
  ultimately show thesis using that d(6) e(2,3) by simp
qed

lemma handle_succeeds:
  assumes "steady (Suc n) w" "namedActor (Made ex)" "sound_scope c" "sp_work c = connection_work at (sp_scopeId c)"
    "sp_scopeId c \<in> spent_in w"
  obtains r w' where "session_handle ex c m False w = (if is_ping m then Inr r else Inl message_unsupported, w')" "steady n w'"
    "spent_in w \<subseteq> spent_in w'"
proof -
  note vc = sound_scopeD(1)[OF assms(3)]
  let ?cw = "(connection_work at (sp_scopeId c))\<lparr>wk_workId := None, wk_operation := lit ''socket.message'', wk_depth := Some (Whole 1),
    wk_causation := Some (Made \<lparr>rf_kind = lit ''scope'', rf_id = sp_scopeId c\<rparr>)\<rparr>"
  have v: "validateWork ?cw True = None"
    using vc by (simp add: connection_work_def validateWork_def bad_id_def socket_operations validOrigin_def origins_def
        check_causation_def check_depth_def check_replay_def max_u32_def validReferenceKind_def refers_to_work_def)
  have v2: "validateWork (fill_work ?cw i) False = None \<and> \<not> caused_by_scope (fill_work ?cw i) i" if "validID i" "i \<notin> spent_in w" for i
    using that vc assms(5) by (auto simp: connection_work_def validateWork_def bad_id_def socket_operations validOrigin_def origins_def fill_work_def
        or_id_def check_causation_def check_depth_def check_replay_def max_u32_def caused_by_scope_def validReferenceKind_def refers_to_work_def)
  obtain sc w' where e: "emit v7w_factory ?cw (Made ex) (Whole 1) None [sp_scopeId c, sp_scopeId c] w = (Inr sc, w')" "steady n w'"
    "insert (sp_scopeId sc) (spent_in w) \<subseteq> spent_in w'"
    by (rule emit_succeeds[where att = 1 and prev = None and forb = "[sp_scopeId c, sp_scopeId c]", OF assms(1,2) refl _ _ v v2])
      (use assms(5) in \<open>auto simp: max_u32_def\<close>)
  have "factory_child v7w_factory (Made c) \<lparr>ss_workId = None, ss_operation = lit ''socket.message'', ss_executor = Made ex, ss_cause = None\<rparr> w
      = (Inr sc, w')"
    using e(1) vc v by (simp add: factory_child_def childWork_def reference_def next_depth_def Let_def assms(4) connection_work_def
        validReferenceKind_def max_u32_def)
  then have "session_handle ex c m False w = (if is_ping m then Inr (pong c sc m) else Inl message_unsupported, w')"
    by (simp add: session_handle_def is_ping_def message_unsupported_def)
  with that e(2,3) show thesis by blast
qed


text \<open>What a pong says of itself.\<close>

definition pong_scope :: "socket_message \<Rightarrow> id" where
  "pong_scope m = (case map_of m (lit ''payload'') of Some (JObj p) \<Rightarrow>
     (case map_of p (lit ''scope_id'') of Some (JStr i) \<Rightarrow> i | _ \<Rightarrow> []) | _ \<Rightarrow> [])"

definition answers :: "scope \<Rightarrow> socket_message \<Rightarrow> socket_message \<Rightarrow> bool" where
  "answers c ping reply \<longleftrightarrow> is_message reply \<and> map_of reply (lit ''type'') = Some (JStr (lit ''pong''))
     \<and> map_of reply (lit ''id'') = map_of ping (lit ''id'')
     \<and> (\<exists>raw. socket_encode (Some (JObj reply)) = Inr raw \<and> socket_decode raw = Inr reply)
     \<and> map_of reply (lit ''payload'') = Some (JObj [(lit ''connection_id'', JStr (sp_scopeId c)), (lit ''scope_id'', JStr (pong_scope reply))])"

lemma pong_answers:
  assumes "is_message m" "sound_scope c" "v7_inv (vw_gen w)" "session_handle ex c m aborted w = (Inr reply, w')"
  shows "answers c m reply" "pong_scope reply \<notin> spent_in w" "pong_scope reply \<in> spent_in w'"
proof -
  let ?sp = "\<lparr>ss_workId = None, ss_operation = lit ''socket.message'', ss_executor = Made ex, ss_cause = None\<rparr>"
  obtain sc where sc: "factory_child v7w_factory (Made c) ?sp w = (Inr sc, w')" "reply = pong c sc m"
    using assms(4) by (auto simp: session_handle_def split: if_splits prod.splits sum.splits)
  have k: "sound_scope sc" using factory_child_Inr(1)[OF sc(1) assms(2)] .
  have "factory_apply v7w.fac (Child (Made c) ?sp) w = (Inr sc, w')" using sc(1) by (simp add: v7w_factory_def)
  then have f: "sp_scopeId sc \<notin> spent_in w" "sp_scopeId sc \<in> spent_in w'" using v7w.apply_fresh[OF assms(3)] by blast+
  obtain i where i: "map_of m (lit ''id'') = Some (JStr i)" "socket_id i" using message_id[OF assms(1)] by blast
  have l: "length (sp_scopeId x) = 36" if "sound_scope x" for x
    using sound_scopeD(1)[OF that] canonical_length by (simp add: validID_iff)
  have "pong_scope (pong c sc m) = sp_scopeId sc" "map_of (pong c sc m) (lit ''id'') = map_of m (lit ''id'')"
    "map_of (pong c sc m) (lit ''type'') = Some (JStr (lit ''pong''))"
    "map_of (pong c sc m) (lit ''payload'') = Some (JObj [(lit ''connection_id'', JStr (sp_scopeId c)), (lit ''scope_id'', JStr (sp_scopeId sc))])"
    using i(1) by (simp_all add: pong_def pong_scope_def)
  with f sc(2) pong_encodes[OF i l[OF assms(2)] l[OF k]]
  show "answers c m reply" "pong_scope reply \<notin> spent_in w" "pong_scope reply \<in> spent_in w'"
    unfolding answers_def by simp_all
qed

text \<open>
  What a message is answered with: an aborted one is refused as canceled, and only a ping gets a pong. When nothing
  fails, a ping gets it, and every other message is refused as unsupported.
\<close>

definition handled :: "scope \<Rightarrow> socket_message \<times> bool \<Rightarrow> socket_message result \<Rightarrow> bool" where
  "handled c x r \<longleftrightarrow> (snd x \<longrightarrow> r = Inl message_canceled)
     \<and> (case r of Inl f \<Rightarrow> True | Inr reply \<Rightarrow> \<not> snd x \<and> is_ping (fst x) \<and> answers c (fst x) reply)"

definition settled :: "scope \<Rightarrow> socket_message \<times> bool \<Rightarrow> socket_message result \<Rightarrow> bool" where
  "settled c x r \<longleftrightarrow>
     (if snd x then r = Inl message_canceled
      else if is_ping (fst x) then \<exists>reply. r = Inr reply \<and> answers c (fst x) reply
      else r = Inl message_unsupported)"

definition pong_scopes :: "socket_message result list \<Rightarrow> id list" where
  "pong_scopes rs = concat (map (\<lambda>r. case r of Inl f \<Rightarrow> [] | Inr reply \<Rightarrow> [pong_scope reply]) rs)"

text \<open>Every call of the factory keeps the identifiers that were spent.\<close>

lemma handle_keeps:
  assumes "v7_inv (vw_gen w)" "session_handle ex c m aborted w = (r, w')"
  shows "v7_inv (vw_gen w')" "spent_in w \<subseteq> spent_in w'"
proof -
  let ?sp = "\<lparr>ss_workId = None, ss_operation = lit ''socket.message'', ss_executor = Made ex, ss_cause = None\<rparr>"
  obtain y w1 where k: "factory_child v7w_factory (Made c) ?sp w = (y, w1)" by (cases "factory_child v7w_factory (Made c) ?sp w")
  then have "factory_apply v7w.fac (Child (Made c) ?sp) w = (y, w1)" by (simp add: v7w_factory_def)
  note m = v7w.apply_mono[OF assms(1) this]
  have "w' = w \<or> w' = w1" using assms(2) k by (auto simp: session_handle_def split: if_splits sum.splits)
  with m assms(1) show "v7_inv (vw_gen w')" "spent_in w \<subseteq> spent_in w'" by auto
qed

lemma handle_handled:
  assumes "is_message m" "sound_scope c" "v7_inv (vw_gen w)" "session_handle ex c m aborted w = (r, w')"
  shows "handled c (m, aborted) r"
proof (cases r)
  case (Inl f)
  then show ?thesis using assms(4) by (auto simp: handled_def session_handle_def message_canceled_def)
next
  case (Inr reply)
  then have "\<not> aborted" "is_ping m"
    using assms(4) by (auto simp: session_handle_def is_ping_def split: if_splits sum.splits prod.splits)
  then show ?thesis using pong_answers(1)[OF assms(1-3)] assms(4) Inr by (simp add: handled_def)
qed

lemma session_handled:
  assumes "v7_inv (vw_gen w)" "sound_scope c" "sp_scopeId c \<in> spent_in w" "\<forall>x \<in> set ms. is_message (fst x)"
    and "session_run ex c ms w = (rs, w2)"
  shows "list_all2 (handled c) ms rs \<and> distinct (pong_scopes rs) \<and> set (pong_scopes rs) \<inter> spent_in w = {}"
  using assms
proof (induction ms arbitrary: w rs)
  case Nil
  then show ?case by (simp add: pong_scopes_def)
next
  case (Cons x ms)
  obtain m aborted where x: "x = (m, aborted)" by (cases x)
  obtain r w1 where h: "session_handle ex c m aborted w = (r, w1)" by (cases "session_handle ex c m aborted w")
  obtain rest where rest: "session_run ex c ms w1 = (rest, w2)" and rs: "rs = r # rest"
    using Cons.prems(5) x h by (auto split: prod.splits)
  note k = handle_keeps[OF Cons.prems(1) h]
  have m: "is_message m" using Cons.prems(4) x by simp
  have ih: "list_all2 (handled c) ms rest" "distinct (pong_scopes rest)" "set (pong_scopes rest) \<inter> spent_in w1 = {}"
    using Cons.IH[OF k(1) Cons.prems(2) _ _ rest] Cons.prems(3,4) k(2) by auto
  have hd: "handled c x r" unfolding x by (rule handle_handled[OF m Cons.prems(2,1) h])
  show ?case
  proof (cases r)
    case (Inl f)
    then show ?thesis using ih hd k(2) rs by (auto simp: pong_scopes_def)
  next
    case (Inr reply)
    note p = pong_answers(2,3)[OF m Cons.prems(2,1) h[unfolded Inr]]
    show ?thesis using ih hd k(2) p rs Inr by (auto simp: pong_scopes_def)
  qed
qed

lemma session_settled:
  assumes "steady (n + length ms) w" "namedActor (Made ex)" "sound_scope c" "sp_work c = connection_work at (sp_scopeId c)"
    "sp_scopeId c \<in> spent_in w" "\<forall>x \<in> set ms. is_message (fst x)" "session_run ex c ms w = (rs, w2)"
  shows "list_all2 (settled c) ms rs"
  using assms
proof (induction ms arbitrary: w rs)
  case Nil
  then show ?case by simp
next
  case (Cons x ms)
  obtain m aborted where x: "x = (m, aborted)" by (cases x)
  obtain r w1 where h: "session_handle ex c m aborted w = (r, w1)" by (cases "session_handle ex c m aborted w")
  obtain rest where rest: "session_run ex c ms w1 = (rest, w2)" and rs: "rs = r # rest"
    using Cons.prems(7) x h by (auto split: prod.splits)
  have st: "steady (Suc (n + length ms)) w" using Cons.prems(1) by simp
  have v: "v7_inv (vw_gen w)" using st by (simp add: steady_def)
  have m: "is_message m" using Cons.prems(6) x by simp
  have k: "settled c x r \<and> steady (n + length ms) w1 \<and> spent_in w \<subseteq> spent_in w1"
  proof (cases aborted)
    case True
    then have "r = Inl message_canceled \<and> w1 = w" using h by (simp add: session_handle_def message_canceled_def)
    then show ?thesis using st True x by (simp add: settled_def steady_def)
  next
    case False
    obtain y w' where y: "session_handle ex c m False w = (if is_ping m then Inr y else Inl message_unsupported, w')"
      "steady (n + length ms) w'" "spent_in w \<subseteq> spent_in w'"
      using handle_succeeds[OF st Cons.prems(2-5)] by metis
    then have r: "r = (if is_ping m then Inr y else Inl message_unsupported)" "w1 = w'" using h False by simp_all
    have "answers c m y" if "is_ping m"
      using pong_answers(1)[OF m Cons.prems(3) v] y(1) that by simp
    then show ?thesis using r y False x by (simp add: settled_def)
  qed
  then show ?case using Cons.IH[of w1 rest] Cons.prems(2-6) rest rs by auto
qed

lemma open_sound:
  assumes "v7_inv (vw_gen w)" "session_open ex at w = (Inr c, w1)"
  shows "sound_scope c" "sp_scopeId c \<in> spent_in w1" "v7_inv (vw_gen w1)"
proof -
  let ?e = "Enter \<lparr>rs_workId = None, rs_origin = lit ''request'', rs_operation = lit ''socket.connection'',
    rs_attribution = Made at, rs_executor = Made ex\<rparr> (Made (inspectIncoming fresh_hints))"
  have e: "factory_apply v7w.fac ?e w = (Inr c, w1)" using assms(2) by (simp add: session_open_def v7w_factory_def)
  show "sound_scope c" "sp_scopeId c \<in> spent_in w1" "v7_inv (vw_gen w1)"
    using factory_apply_sound[OF e] v7w.apply_fresh[OF assms(1) e] v7w.apply_mono[OF assms(1) e] by simp_all
qed

text \<open>
  C18: what a session answers. Whatever the clock and the entropy do, in a connection that opened an aborted message is
  refused as canceled, and a message only gets a pong when it is a ping that was not aborted; the pong is a message of
  the protocol that fits the wire and decodes to itself there, with the identifier of its ping, the scope of the
  connection and a child scope of its own, no two pongs and no pong and the connection sharing a scope. And when the clock
  and the entropy answer, for a session of less than 2048 messages whose identifiers the counter has room for, the
  connection opens, every ping that is not aborted gets its pong, and every other message is refused as unsupported.
\<close>

theorem session_answers:
  assumes "v7_inv (vw_gen w)" "actor (lit ''service'') name = Inr ex" "\<forall>x \<in> set ms. is_message (fst x)"
  shows "(\<forall>c w1 rs w2. session_open ex at w = (Inr c, w1) \<and> session_run ex c ms w1 = (rs, w2)
      \<longrightarrow> list_all2 (handled c) ms rs \<and> distinct (sp_scopeId c # pong_scopes rs))
    \<and> (steady (Suc (length ms)) w \<longrightarrow> (\<exists>c w1 rs w2. session_open ex at w = (Inr c, w1)
      \<and> session_run ex c ms w1 = (rs, w2) \<and> list_all2 (settled c) ms rs))"
proof (intro conjI allI impI)
  fix c w1 rs w2
  assume a: "session_open ex at w = (Inr c, w1) \<and> session_run ex c ms w1 = (rs, w2)"
  then have o': "sound_scope c" "sp_scopeId c \<in> spent_in w1" "v7_inv (vw_gen w1)" using open_sound[OF assms(1)] by blast+
  from session_handled[OF o'(3,1,2) assms(3)] a o'(2)
  show "list_all2 (handled c) ms rs" "distinct (sp_scopeId c # pong_scopes rs)" by auto
next
  assume st: "steady (Suc (length ms)) w"
  have nm: "namedActor (Made ex)" using assms(2) by (auto simp: actor_def split: if_splits)
  obtain c w1 where c: "session_open ex at w = (Inr c, w1)" "steady (length ms) w1" "sound_scope c"
    "sp_work c = connection_work at (sp_scopeId c)" "sp_scopeId c \<in> spent_in w1"
    using open_succeeds[OF st nm] by metis
  obtain rs w2 where r: "session_run ex c ms w1 = (rs, w2)" by (cases "session_run ex c ms w1")
  have "list_all2 (settled c) ms rs" using session_settled[of 0, OF _ nm c(3-5) assms(3) r] c(2) by simp
  with c(1) r show "\<exists>c w1 rs w2. session_open ex at w = (Inr c, w1) \<and> session_run ex c ms w1 = (rs, w2)
      \<and> list_all2 (settled c) ms rs" by blast
qed

section \<open>Witnesses\<close>

definition sample_ping :: "char \<Rightarrow> socket_message" where
  "sample_ping x = [(lit ''v'', jint 1), (lit ''id'', JStr (lit [x])), (lit ''type'', JStr (lit ''ping'')), (lit ''payload'', JObj [])]"

lemma sample_ping_message: "is_message (sample_ping (CHR ''a''))" "is_message (sample_ping (CHR ''b''))"
  by (simp_all add: sample_ping_def is_message_def jint_def dbl_number_int socket_type_def socket_id_def matches_def str_simps word_le_nat_alt)

text \<open>A ping that is answered, and one that is aborted.\<close>

theorem session_answers_witness:
  "\<exists>c w1 pong w2. session_run \<lparr>ac_kind = lit ''service'', ac_identity = Some (lit ''a'')\<rparr> c
      [(sample_ping (CHR ''a''), False), (sample_ping (CHR ''b''), True)] w1 = ([Inr pong, Inl message_canceled], w2)
    \<and> answers c (sample_ping (CHR ''a'')) pong"
proof -
  let ?ms = "[(sample_ping (CHR ''a''), False), (sample_ping (CHR ''b''), True)]"
  have a: "actor (lit ''service'') (lit ''a'') = Inr \<lparr>ac_kind = lit ''service'', ac_identity = Some (lit ''a'')\<rparr>"
    by (simp add: actor_def identityValid_def matches_def identity_unit_def str_simps)
  have m: "\<forall>x \<in> set ?ms. is_message (fst x)" using sample_ping_message by simp
  have p: "is_ping (sample_ping (CHR ''a''))" by (simp add: is_ping_def sample_ping_def)
  have st: "steady (Suc (length ?ms)) http_world" by (rule http_world_steady) simp
  then have v: "v7_inv (vw_gen http_world)" by (simp add: steady_def)
  from session_answers[OF v a m] st obtain c w1 rs w2 where
    r: "session_run \<lparr>ac_kind = lit ''service'', ac_identity = Some (lit ''a'')\<rparr> c ?ms w1 = (rs, w2)" "list_all2 (settled c) ?ms rs"
    by blast
  then show ?thesis using p by (fastforce simp: list_all2_Cons1 settled_def)
qed

end
