(* ===== verification/Demo.thy ===== *)
theory Demo
  imports Actions
begin

text \<open>
  \<open>src/root/demo.ts\<close>: the finite demonstration, from the captured environment to the exit code. The clock and the
  entropy of identifiers are those of the generator's world; the instants of the log's records, the elapsed
  milliseconds and the behaviour of the sink while the log closes are arguments.
\<close>

section \<open>The demonstration\<close>

record demo_world =
  dw_ids :: v7_world
  dw_log :: runtime
  dw_records :: nat

record demo_env =
  de_pino :: "level \<Rightarrow> json \<Rightarrow> str \<Rightarrow> str"
  de_stamp :: "nat \<Rightarrow> date"
  de_elapsed :: "nat \<Rightarrow> dbl"

definition say :: "demo_env \<Rightarrow> level \<Rightarrow> string \<Rightarrow> (str \<times> bool \<times> lval option) list \<Rightarrow> logger \<Rightarrow> (demo_world, unit) act" where
  "say en lv message ms lg = act_do (\<lambda>s. s\<lparr>dw_records := Suc (dw_records s),
     dw_log := log_emit (de_pino en) (de_stamp en (dw_records s)) lv (lit message) (LObj ms) lg (dw_log s)\<rparr>)"

definition on_ids :: "(v7_world \<Rightarrow> 'a result \<times> v7_world) \<Rightarrow> demo_world \<Rightarrow> 'a result \<times> demo_world" where
  "on_ids m s = (case m (dw_ids s) of (r, w) \<Rightarrow> (r, s\<lparr>dw_ids := w\<rparr>))"

text \<open>The entries of the manifest as the log sees them.\<close>

definition var_lval :: "var \<Rightarrow> lval" where
  "var_lval v = LObj [log_member ''key'' (LStr (v_key v)), log_member ''value'' (LStr (v_value v)),
     log_member ''source'' (LStr (case v_source v of Environment \<Rightarrow> lit ''environment'' | Default \<Rightarrow> lit ''default'')),
     log_member ''secret'' (LBool (v_secret v))]"

definition startup_spec :: "string \<Rightarrow> attribution \<Rightarrow> actor \<Rightarrow> root_spec" where
  "startup_spec oper at ex = \<lparr>rs_workId = None, rs_origin = lit ''startup'', rs_operation = lit oper,
     rs_attribution = Made at, rs_executor = Made ex\<rparr>"

definition simulated :: "logger \<Rightarrow> logger" where
  "simulated = log_with (LObj [log_member ''simulated'' (LBool True)])"

definition demo_offline :: jsval where
  "demo_offline = FailureV (failure Unavailable (lit ''demo dependency unavailable'')
     (no_options\<lparr>o_type := Some (lit ''demo.offline''), o_cause := Foreign 0\<rparr>))"

definition demo_exists :: jsval where
  "demo_exists = FailureV (fail Conflict ''demo item already exists'' ''demo.exists'')"

text \<open>
  \<open>demo\<close>, with its local scopes as its answer: the startup, the prepared work, its first and its second attempt. The
  operation names are literals; they are checked where the code checks them.
\<close>

definition demo :: "demo_env \<Rightarrow> config \<Rightarrow> (demo_world, scope \<times> id \<times> scope \<times> scope) act" where
  "demo en c =
     act_bind (act_value (actor (lit ''service'') (rc_name (cf_resource c)))) (\<lambda>ex.
     act_bind (act_value (operation (lit ''foundations.startup''))) (\<lambda>_.
     act_bind (act_value (attribution no_attribution)) (\<lambda>at.
     act_bind (act_call (on_ids (factory_open v7w_factory (startup_spec ''foundations.startup'' at ex)))) (\<lambda>startup.
     act_bind (act_value (log_withScope (Made startup) logger_new)) (\<lambda>lg0.
     let parent = simulated lg0 in
     act_bind (say en Info ''foundations.start'' [log_member ''config'' (LArr (map (\<lambda>v. Some (var_lval v)) (cf_manifest c))),
        log_member ''credential'' (LObj [log_member ''token'' (LSecret (hidden (cf_token c))), log_member ''public'' (LStr (lit ''visible''))])] parent) (\<lambda>_.
     act_bind (if cf_verbose c then say en Debug ''foundations.debug'' [log_member ''enabled'' (LBool True)] parent else act_return ()) (\<lambda>_.
     act_bind (act_call (on_ids v7w_newId)) (\<lambda>workId.
     act_bind (act_value (operation (lit ''demo.export''))) (\<lambda>oper.
     act_bind (act_value (prepare (Made startup) \<lparr>ws_workId = workId, ws_operation = oper, ws_cause = None\<rparr>)) (\<lambda>w.
     act_bind (say en Info ''work.prepared'' [log_member ''work_id'' (LStr workId)] parent) (\<lambda>_.
     act_bind (act_call (on_ids (factory_execute v7w_factory (Made w) (Made ex) (Whole 1)))) (\<lambda>first.
     act_bind (act_value (log_withScope (Made first) logger_new)) (\<lambda>lg1.
     act_bind (say en Warn ''dependency.unavailable'' [] (log_withError demo_offline (simulated lg1))) (\<lambda>_.
     act_bind (act_call (on_ids (factory_retry v7w_factory (Made first) (Made ex)))) (\<lambda>second.
     act_bind (act_value (log_withScope (Made second) logger_new)) (\<lambda>lg2.
     act_bind (say en Info ''work.completed'' [log_member ''result'' (LStr (lit ''exported'')), log_member ''elapsed_ms'' (LNum (de_elapsed en 0))] (simulated lg2)) (\<lambda>_.
     act_bind (say en Warn ''operation.conflict'' [] (log_withError demo_exists parent)) (\<lambda>_.
     act_bind (say en Error ''operation.unknown'' [] (log_withError (Foreign 0) parent)) (\<lambda>_.
     act_bind (say en Info ''foundations.complete'' [log_member ''completed'' (LNum (dbl_of_int 1)), log_member ''refused'' (LNum (dbl_of_int 1)),
        log_member ''attempts'' (LNum (dbl_of_int 2)), log_member ''unknown'' (LNum (dbl_of_int 1)), log_member ''elapsed_ms'' (LNum (de_elapsed en 1))] parent) (\<lambda>_.
     act_return (startup, workId, first, second)))))))))))))))))))))"

section \<open>The process\<close>

text \<open>What a run does to the outside: its diagnostics, its log and the scopes of its work.\<close>

record demo_outcome =
  do_code :: nat
  do_diagnostics :: "str list"
  do_log :: "runtime option"
  do_work :: "(scope \<times> id \<times> scope \<times> scope) option"

definition refusal_line :: "failure \<Rightarrow> str" where
  "refusal_line e = lit ''configuration refused: '' @ stringify (make_object (map (\<lambda>(k, v). (k, JStr v))
     (case f_fields e of None \<Rightarrow> [] | Some fs \<Rightarrow> fs))) @ [10]"

text \<open>The body of \<open>try\<close>; a log that exists is closed afterwards either way, by \<open>close\<close> for what the sink then does.\<close>

definition demo_body :: "demo_env \<Rightarrow> bool \<Rightarrow> bool \<Rightarrow> config \<Rightarrow> v7_world \<Rightarrow> runtime option \<times> (exn + scope \<times> id \<times> scope \<times> scope)" where
  "demo_body en canFlush terminal c w =
     (case v7w_newId w of
        (Inl f, _) \<Rightarrow> (None, Inl (Thrown (AppErrorV f)))
      | (Inr i, w1) \<Rightarrow> (case logging c i canFlush terminal of
            Inl f \<Rightarrow> (None, Inl (Thrown (AppErrorV f)))
          | Inr rt \<Rightarrow> (case demo en c \<lparr>dw_ids = w1, dw_log = rt, dw_records = 0\<rparr> of
                (r, s) \<Rightarrow> (Some (dw_log s), r))))"

definition demo_run :: "demo_env \<Rightarrow> (int \<Rightarrow> runtime \<Rightarrow> unit result \<times> runtime) \<Rightarrow> bool \<Rightarrow> bool \<Rightarrow> lookup \<Rightarrow> v7_world \<Rightarrow> demo_outcome" where
  "demo_run en close canFlush terminal lk w =
     (case loadConfig lk of
        Inl e \<Rightarrow> \<lparr>do_code = 2, do_diagnostics = [refusal_line e], do_log = None, do_work = None\<rparr>
      | Inr c \<Rightarrow> (case demo_body en canFlush terminal c w of
          (rt, r) \<Rightarrow>
            let failed = (case r of Inl _ \<Rightarrow> [lit ''foundations failed'' @ [10]] | Inr _ \<Rightarrow> []);
                code = (case r of Inl _ \<Rightarrow> 1 | Inr _ \<Rightarrow> 0);
                work = (case r of Inl _ \<Rightarrow> None | Inr x \<Rightarrow> Some x)
            in (case rt of
                  None \<Rightarrow> \<lparr>do_code = code, do_diagnostics = failed, do_log = None, do_work = work\<rparr>
                | Some l \<Rightarrow> (case close (cf_flushMs c) l of
                    (closed, l1) \<Rightarrow> \<lparr>do_code = code, do_diagnostics = failed
                        @ (if is_ok closed then [] else [lit ''logging delivery failed'' @ [10]])
                        @ (if dl_dropped (rt_output l1) \<noteq> 0 then [lit ''logging records dropped'' @ [10]] else []),
                      do_log = Some l1, do_work = work\<rparr>))))"

section \<open>What the work is\<close>

text \<open>Two worlds with the same identifiers: they may differ in the log.\<close>

definition same_ids :: "demo_world \<Rightarrow> demo_world \<Rightarrow> bool" where
  "same_ids s t \<longleftrightarrow> dw_ids s = dw_ids t"

lemma alike_say: "alike same_ids (say en lv m fs lg) (say en' lv' m' fs' lg')"
  unfolding say_def by (rule alike_do) (simp add: same_ids_def)

lemma alike_ids: "alike same_ids (act_call (on_ids m)) (act_call (on_ids m))"
  by (rule alike_call) (simp add: same_ids_def on_ids_def split: prod.split)

lemma alike_verbose:
  "alike same_ids (if b then say en lv m fs lg else act_return ()) (if b' then say en' lv' m' fs' lg' else act_return ())"
  by (simp add: alike_def say_def act_do_def act_return_def same_ids_def)

text \<open>The work depends on the configuration by the name of the service only.\<close>

lemma demo_alike:
  assumes "rc_name (cf_resource c) = rc_name (cf_resource c')"
  shows "alike same_ids (demo en c) (demo en' c')"
  unfolding demo_def Let_def assms
  by (intro alike_bind alike_intros alike_ids alike_say alike_verbose)

lemma say_Inr [simp]: "say en lv m fs lg s = (Inr u, s') \<Longrightarrow> dw_ids s' = dw_ids s"
  by (auto simp: say_def)

lemma on_ids_Inr: "on_ids m s = (Inr x, s') \<longleftrightarrow> m (dw_ids s) = (Inr x, dw_ids s') \<and> s' = s\<lparr>dw_ids := dw_ids s'\<rparr>"
  by (auto simp: on_ids_def split: prod.splits)

text \<open>What a demonstration that succeeds has done with the identifiers.\<close>

lemma demo_Inr:
  assumes "demo en c s = (Inr (startup, i, first, second), s')"
  obtains ex at w w1 w2 w3 where
    "factory_open v7w_factory (startup_spec ''foundations.startup'' at ex) (dw_ids s) = (Inr startup, w1)"
    "v7w_newId w1 = (Inr i, w2)"
    "prepare (Made startup) \<lparr>ws_workId = i, ws_operation = lit ''demo.export'', ws_cause = None\<rparr> = Inr w"
    "factory_execute v7w_factory (Made w) (Made ex) (Whole 1) w2 = (Inr first, w3)"
    "factory_retry v7w_factory (Made first) (Made ex) w3 = (Inr second, dw_ids s')"
proof -
  have v: "(if b then say en lv m fs lg else act_return ()) t = (Inr u, t') \<Longrightarrow> dw_ids t' = dw_ids t" for b lv m fs lg t u t'
    by (auto split: if_splits)
  have op: "operation x = Inr y \<Longrightarrow> y = x" for x y by (auto simp: operation_def split: if_splits)
  show thesis
    using assms that unfolding demo_def Let_def act_bind_Inr act_simps on_ids_Inr
    by (elim exE conjE) (simp, drule v, (drule say_Inr)+, simp, drule op, drule op, metis)
qed

lemma prepare_Inr:
  assumes "prepare (Made p) sp = Inr w"
  shows "validateWork w False = None" "wk_workId w = Some (ws_workId sp)" "wk_correlationId w = wk_correlationId (sp_work p)"
    "next_depth (wk_depth (sp_work p)) = Some (wk_depth w)" "wk_workId (sp_work p) \<noteq> Some (ws_workId sp)"
    "ws_cause sp = None \<Longrightarrow> wk_causation w = Some (Made \<lparr>rf_kind = lit ''scope'', rf_id = sp_scopeId p\<rparr>)"
proof -
  obtain w1 where w1: "childWork (Made p) (Some (ws_workId sp)) (ws_operation sp) (ws_cause sp) = Inr w1" "restoreWork w1 = Inr w"
    using assms by (auto simp: prepare_def split: if_splits sum.splits)
  note c = childWork_Inr[OF w1(1)]
  show "validateWork w False = None" "wk_workId w = Some (ws_workId sp)" "wk_correlationId w = wk_correlationId (sp_work p)"
    "next_depth (wk_depth (sp_work p)) = Some (wk_depth w)"
    "ws_cause sp = None \<Longrightarrow> wk_causation w = Some (Made \<lparr>rf_kind = lit ''scope'', rf_id = sp_scopeId p\<rparr>)"
    using c(1) w1(2) by auto
  show "wk_workId (sp_work p) \<noteq> Some (ws_workId sp)" using c(2) by simp
qed

text \<open>The identifiers of a demonstration are issued one after the other, so they are distinct.\<close>

lemma demo_ids_distinct:
  assumes "demo en c s = (Inr (startup, i, first, second), s')" "v7_inv (vw_gen (dw_ids s))"
  shows "distinct [sp_scopeId startup, i, sp_scopeId first, sp_scopeId second]"
proof -
  obtain ex at w w1 w2 w3 where d: "factory_open v7w_factory (startup_spec ''foundations.startup'' at ex) (dw_ids s) = (Inr startup, w1)"
    "v7w_newId w1 = (Inr i, w2)" "factory_execute v7w_factory (Made w) (Made ex) (Whole 1) w2 = (Inr first, w3)"
    "factory_retry v7w_factory (Made first) (Made ex) w3 = (Inr second, dw_ids s')"
    by (rule demo_Inr[OF assms(1)])
  let ?spent = "\<lambda>w. v7_spent (vw_gen w)"
  have o: "factory_apply v7w.fac (Open (startup_spec ''foundations.startup'' at ex)) (dw_ids s) = (Inr startup, w1)"
    and e: "factory_apply v7w.fac (Execute (Made w) (Made ex) (Whole 1)) w2 = (Inr first, w3)"
    and r: "factory_apply v7w.fac (Retry (Made first) (Made ex)) w3 = (Inr second, dw_ids s')"
    using d(1,3,4) by (simp_all add: v7w_factory_def)
  have 1: "sp_scopeId startup \<in> ?spent w1" "v7_inv (vw_gen w1)"
    using v7w.apply_fresh[OF assms(2) o] v7w.apply_mono[OF assms(2) o] by auto
  have 2: "i \<notin> ?spent w1" "insert i (?spent w1) \<subseteq> ?spent w2" "v7_inv (vw_gen w2)"
    using v7w.newId_ok[OF 1(2) d(2)] by auto
  have 3: "sp_scopeId first \<notin> ?spent w2" "sp_scopeId first \<in> ?spent w3" "?spent w2 \<subseteq> ?spent w3" "v7_inv (vw_gen w3)"
    using v7w.apply_fresh[OF 2(3) e] v7w.apply_mono[OF 2(3) e] by auto
  have 4: "sp_scopeId second \<notin> ?spent w3" using v7w.apply_fresh[OF 3(4) r] by auto
  show ?thesis using 1 2 3 4 by auto
qed

section \<open>A demonstration that succeeds\<close>

lemma demo_constants:
  "validOperation (lit ''foundations.startup'')" "validOperation (lit ''demo.export'')"
  by (simp_all add: validOperation_def matches_def operation_unit_def str_simps)

text \<open>The four operations of the demonstration succeed one after the other.\<close>

lemma work_succeeds:
  assumes "steady 4 w" "actor (lit ''service'') name = Inr ex" "attribution no_attribution = Inr at"
  obtains startup i wk first second w1 w2 w3 w4 where
    "factory_open v7w_factory (startup_spec ''foundations.startup'' at ex) w = (Inr startup, w1)"
    "v7w_newId w1 = (Inr i, w2)"
    "prepare (Made startup) \<lparr>ws_workId = i, ws_operation = lit ''demo.export'', ws_cause = None\<rparr> = Inr wk"
    "factory_execute v7w_factory (Made wk) (Made ex) (Whole 1) w2 = (Inr first, w3)"
    "factory_retry v7w_factory (Made first) (Made ex) w3 = (Inr second, w4)"
proof -
  let ?sp = "startup_spec ''foundations.startup'' at ex"
  obtain rw where rw: "rootWork ?sp = Inr rw" by (simp add: rootWork_def startup_spec_def validOrigin_def origins_def)
  note rwd = rootWork_Inr[OF rw]
  have nm: "namedActor (Made ex)" using assms(2) by (auto simp: actor_def split: if_splits)
  have v: "validateWork rw True = None"
    using rwd by (simp add: validateWork_def bad_id_def startup_spec_def demo_constants validOrigin_def origins_def
        check_causation_def check_depth_def check_replay_def max_u32_def)
  have v2: "validateWork (fill_work rw i) False = None \<and> \<not> caused_by_scope (fill_work rw i) i" if "validID i" for i
    using rwd that by (simp add: validateWork_def bad_id_def startup_spec_def demo_constants validOrigin_def origins_def fill_work_def
        or_id_def check_causation_def check_depth_def check_replay_def max_u32_def caused_by_scope_def)
  have s4: "steady (Suc 3) w" using assms(1) by (simp add: eval_nat_numeral)
  obtain startup w1 where o: "emit v7w_factory rw (Made ex) (Whole 1) None [] w = (Inr startup, w1)" "steady 3 w1"
    "insert (sp_scopeId startup) (spent_in w) \<subseteq> spent_in w1"
    by (rule emit_succeeds[where att = 1 and prev = None and forb = "[]", OF s4 nm refl _ _ v v2]) (auto simp: max_u32_def)
  have o1: "factory_open v7w_factory ?sp w = (Inr startup, w1)"
    using o(1) rw by (simp add: factory_open_def startup_spec_def)
  have ss: "sound_scope startup" using emit_sound[OF o(1)] .
  note f = factory_open_Inr(1)[OF o1]
  have s3: "steady (Suc 2) w1" using o(2) by (simp add: eval_nat_numeral)
  obtain i w2 where i: "v7w_newId w1 = (Inr i, w2)" "validID i" "i \<notin> spent_in w1" "insert i (spent_in w1) \<subseteq> spent_in w2" "steady 2 w2"
    using steady_newId[OF s3] by metis
  have ni: "i \<noteq> sp_scopeId startup" using i(3) o(3) by auto
  have vs: "validID (sp_scopeId startup)" using sound_scopeD(1)[OF ss] .
  define wk where "wk = (sp_work startup)\<lparr>wk_workId := Some i, wk_operation := lit ''demo.export'', wk_depth := Some (Whole 1),
    wk_causation := Some (Made \<lparr>rf_kind = lit ''scope'', rf_id = sp_scopeId startup\<rparr>)\<rparr>"
  have wkv: "validateWork wk False = None"
    using i(2) vs f by (simp add: wk_def validateWork_def bad_id_def startup_spec_def demo_constants validOrigin_def origins_def
        check_causation_def check_depth_def check_replay_def max_u32_def refers_to_work_def)
  have p: "prepare (Made startup) \<lparr>ws_workId = i, ws_operation = lit ''demo.export'', ws_cause = None\<rparr> = Inr wk"
    using i(2) vs ni f wkv validateWork_defaults[OF wkv]
    by (simp add: prepare_def childWork_def next_depth_def max_u32_def reference_def validReferenceKind_def startup_spec_def or_id_def wk_def)
  have nc: "\<not> caused_by_scope wk j" if "j \<notin> spent_in w2" for j
    using that i(4) o(3) by (auto simp: caused_by_scope_def wk_def)
  have s2: "steady (Suc 1) w2" using i(5) by (simp add: eval_nat_numeral)
  obtain first w3 where e: "emit v7w_factory wk (Made ex) (Whole 1) None [] w2 = (Inr first, w3)" "steady 1 w3"
    "insert (sp_scopeId first) (spent_in w2) \<subseteq> spent_in w3"
    by (rule emit_succeeds[where att = 1 and prev = None and forb = "[]", OF s2 nm refl _ _ validateWork_defaults[OF wkv]])
      (auto simp: max_u32_def fill_work_keeps[OF wkv] wkv nc)
  have e1: "factory_execute v7w_factory (Made wk) (Made ex) (Whole 1) w2 = (Inr first, w3)" using e(1) by (simp add: factory_execute_def)
  note fi = factory_execute_Inr[OF e1 wkv]
  have fv: "validID (sp_scopeId first)" using sound_scopeD(1)[OF emit_sound[OF e(1)]] .
  have s1: "steady (Suc 0) w3" using e(2) by simp
  have nc3: "\<not> caused_by_scope wk j" if "j \<notin> spent_in w3" for j using nc[of j] that e(3) by auto
  have fw3: "validateWork (fill_work wk j) False = None \<and> \<not> caused_by_scope (fill_work wk j) j" if "validID j" "j \<notin> spent_in w3" for j
    using nc3[OF that(2)] by (simp add: fill_work_keeps[OF wkv] wkv)
  obtain second w4 where r: "emit v7w_factory wk (Made ex) (Whole 2) (Some (sp_scopeId first)) [sp_scopeId first] w3 = (Inr second, w4)"
    by (rule emit_succeeds[where att = 2 and prev = "Some (sp_scopeId first)" and forb = "[sp_scopeId first]",
          OF s1 nm refl _ _ validateWork_defaults[OF wkv] fw3])
      (use e(3) in \<open>auto simp: max_u32_def fv\<close>)
  have "factory_retry v7w_factory (Made first) (Made ex) w3 = (Inr second, w4)"
    using r fi(1,2) by (simp add: factory_retry_def max_u32_def)
  with that o1 i(1) p e1 show thesis by blast
qed


lemma yields_say: "(\<And>t. dw_ids t = dw_ids s \<Longrightarrow> Q () t) \<Longrightarrow> yields (say en lv m fs lg) s Q"
  unfolding say_def by (rule yields_do) simp

lemma yields_verbose:
  "(\<And>t. dw_ids t = dw_ids s \<Longrightarrow> Q () t) \<Longrightarrow> yields (if b then say en lv m fs lg else act_return ()) s Q"
  by (cases b) (simp_all add: yields_say yields_return)

lemma yields_ids:
  assumes "m w = (Inr x, w')" "dw_ids s = w" "\<And>t. dw_ids t = w' \<Longrightarrow> Q x t"
  shows "yields (act_call (on_ids m)) s Q"
  by (rule yields_call[where x = x and t = "s\<lparr>dw_ids := w'\<rparr>"]) (use assms in \<open>simp_all add: on_ids_def\<close>)

lemma demo_steady:
  assumes "steady 4 (dw_ids s)" "is_ok (actor (lit ''service'') (rc_name (cf_resource c)))"
  shows "\<exists>x s'. demo en c s = (Inr x, s')"
proof -
  obtain ex where ex: "actor (lit ''service'') (rc_name (cf_resource c)) = Inr ex" using assms(2) by blast
  obtain at where at: "attribution no_attribution = Inr at" by (simp add: attribution_def no_attribution_def)
  obtain startup i wk first second w1 w2 w3 w4 where d:
    "factory_open v7w_factory (startup_spec ''foundations.startup'' at ex) (dw_ids s) = (Inr startup, w1)"
    "v7w_newId w1 = (Inr i, w2)"
    "prepare (Made startup) \<lparr>ws_workId = i, ws_operation = lit ''demo.export'', ws_cause = None\<rparr> = Inr wk"
    "factory_execute v7w_factory (Made wk) (Made ex) (Whole 1) w2 = (Inr first, w3)"
    "factory_retry v7w_factory (Made first) (Made ex) w3 = (Inr second, w4)"
    using work_succeeds[OF assms(1) ex at] by metis
  obtain l0 l1 l2 where l: "log_withScope (Made startup) logger_new = Inr l0" "log_withScope (Made first) logger_new = Inr l1"
    "log_withScope (Made second) logger_new = Inr l2"
    using log_scope_succeeds by metis
  have op: "operation (lit ''foundations.startup'') = Inr (lit ''foundations.startup'')" "operation (lit ''demo.export'') = Inr (lit ''demo.export'')"
    by (simp_all add: operation_def demo_constants)
  note ids = yields_ids[where m = "factory_open v7w_factory (startup_spec ''foundations.startup'' at ex)", OF d(1)]
    yields_ids[where m = v7w_newId, OF d(2)] yields_ids[where m = "factory_execute v7w_factory (Made wk) (Made ex) (Whole 1)", OF d(4)]
    yields_ids[where m = "factory_retry v7w_factory (Made first) (Made ex)", OF d(5)]
  have "yields (demo en c) s (\<lambda>x t. True)"
    unfolding demo_def Let_def
    by (intro yields_bind yields_value[OF ex] yields_value[OF op(1)] yields_value[OF op(2)] yields_value[OF at] yields_value[OF d(3)]
        yields_value[OF l(1)] yields_value[OF l(2)] yields_value[OF l(3)] yields_say yields_verbose yields_return TrueI
        ids(1) ids(2) ids(3) ids(4)) simp_all
  then show ?thesis by (simp add: yields_def)
qed

lemma demo_runs:
  assumes "loadConfig lk = Inr c" "steady 5 w"
  shows "do_code (demo_run en close canFlush terminal lk w) = 0 \<and> do_work (demo_run en close canFlush terminal lk w) \<noteq> None
    \<and> do_log (demo_run en close canFlush terminal lk w) \<noteq> None"
proof -
  have "steady (Suc 4) w" using assms(2) by simp
  then obtain i w1 where i: "v7w_newId w = (Inr i, w1)" "steady 4 w1" using steady_newId by metis
  obtain rt where rt: "logging c i canFlush terminal = Inr rt" using loaded_config(1)[OF assms(1)] by blast
  obtain x s where "demo en c \<lparr>dw_ids = w1, dw_log = rt, dw_records = 0\<rparr> = (Inr x, s)"
    using demo_steady[of "\<lparr>dw_ids = w1, dw_log = rt, dw_records = 0\<rparr>" c en] i(2) loaded_config(2)[OF assms(1)] by auto
  then show ?thesis
    using assms(1) i(1) rt by (cases x) (simp add: demo_run_def demo_body_def Let_def split: prod.split)
qed

section \<open>Properties\<close>

text \<open>
  The demonstration does the work its contract names. When it succeeds, the prepared work has its own
  identifier, the correlation of the startup, the startup as its cause and depth one; the second attempt is a retry of
  the first on the same, unchanged work; and the four identifiers are distinct.
\<close>

lemma demo_work:
  assumes "do_work (demo_run en close canFlush terminal lk w) = Some (startup, i, first, second)" "v7_inv (vw_gen w)"
  shows "wk_workId (sp_work first) = Some i \<and> wk_correlationId (sp_work first) = Some (sp_scopeId startup)
    \<and> wk_causation (sp_work first) = Some (Made \<lparr>rf_kind = lit ''scope'', rf_id = sp_scopeId startup\<rparr>)
    \<and> wk_depth (sp_work first) = Some (Whole 1)
    \<and> sp_work second = sp_work first \<and> sp_attempt first = 1 \<and> sp_attempt second = 2
    \<and> sp_previousAttempt second = Some (sp_scopeId first)
    \<and> distinct [sp_scopeId startup, i, sp_scopeId first, sp_scopeId second]"
proof -
  obtain c j w0 rt s' where r: "v7w_newId w = (Inr j, w0)"
    "demo en c \<lparr>dw_ids = w0, dw_log = rt, dw_records = 0\<rparr> = (Inr (startup, i, first, second), s')"
    using assms(1) by (auto simp: demo_run_def demo_body_def Let_def split: sum.splits prod.splits option.splits)
  have inv: "v7_inv (vw_gen w0)" using v7w.newId_ok[OF assms(2) r(1)] by simp
  obtain ex at wk w1 w2 w3 where
    d: "factory_open v7w_factory (startup_spec ''foundations.startup'' at ex) w0 = (Inr startup, w1)"
    "prepare (Made startup) \<lparr>ws_workId = i, ws_operation = lit ''demo.export'', ws_cause = None\<rparr> = Inr wk"
    "factory_execute v7w_factory (Made wk) (Made ex) (Whole 1) w2 = (Inr first, w3)"
    "factory_retry v7w_factory (Made first) (Made ex) w3 = (Inr second, dw_ids s')"
    using demo_Inr[OF r(2)] by (metis demo_world.select_convs(1))
  note p = prepare_Inr[OF d(2)] and o = factory_open_Inr[OF d(1)]
  note e = factory_execute_Inr[OF d(3) p(1)]
  have "sound_scope first" using factory_apply_sound[of v7w_factory "Execute (Made wk) (Made ex) (Whole 1)" w2 first w3] d(3) by simp
  note t = factory_retry_Inr[OF d(4) this]
  have "wk_depth wk = Some (Whole 1)" using p(4) o(1) by (simp add: next_depth_def max_u32_def)
  moreover have "distinct [sp_scopeId startup, i, sp_scopeId first, sp_scopeId second]"
    using demo_ids_distinct[OF r(2)] inv by simp
  ultimately show ?thesis using p o e t by simp
qed

text \<open>
  The demonstration succeeds. With a clock that can be read, entropy that answers and room for five more
  identifiers within a millisecond, a configuration that loads leads to exit code 0 with the whole work done, and what the
  log and its closing then do does not change the code.
\<close>

lemma demo_succeeds:
  assumes "loadConfig lk = Inr c" "steady 5 w"
  shows "do_code (demo_run en close canFlush terminal lk w) = 0
    \<and> (\<exists>startup i first second. do_work (demo_run en close canFlush terminal lk w) = Some (startup, i, first, second))"
  using demo_runs[OF assms] by (metis option.exhaust prod_cases4)

text \<open>
  C40: the log is not part of the work. Two environments that both load with the same service name give
  the same exit code and the same work, whatever the formats, levels and tokens, the sinks and the clocks of the log are.
\<close>

theorem demo_log_independent:
  assumes "loadConfig lk = Inr c" "loadConfig lk' = Inr c'" "rc_name (cf_resource c) = rc_name (cf_resource c')"
  shows "do_code (demo_run en close canFlush terminal lk w) = do_code (demo_run en' close' canFlush' terminal' lk' w)
    \<and> do_work (demo_run en close canFlush terminal lk w) = do_work (demo_run en' close' canFlush' terminal' lk' w)
    \<and> do_code (demo_run en close canFlush terminal lk w) \<in> {0, 1}"
proof -
  note ok = loaded_config
  have "snd (demo_body en canFlush terminal c w) = snd (demo_body en' canFlush' terminal' c' w)"
  proof (cases "v7w_newId w")
    case (Pair r w1)
    show ?thesis
    proof (cases r)
      case (Inr i)
      obtain rt rt' where rt: "logging c i canFlush terminal = Inr rt" "logging c' i canFlush' terminal' = Inr rt'"
        using ok[OF assms(1)] ok[OF assms(2)] by blast
      have "fst (demo en c \<lparr>dw_ids = w1, dw_log = rt, dw_records = 0\<rparr>) = fst (demo en' c' \<lparr>dw_ids = w1, dw_log = rt', dw_records = 0\<rparr>)"
        using demo_alike[OF assms(3), of en en'] by (simp add: alike_def same_ids_def)
      then show ?thesis using Pair Inr rt by (simp add: demo_body_def case_prod_beta)
    qed (simp add: demo_body_def Pair)
  qed
  then obtain r rt rt' where b: "demo_body en canFlush terminal c w = (rt, r)" "demo_body en' canFlush' terminal' c' w = (rt', r)"
    by (metis prod.collapse)
  have out: "do_code (demo_run e cl f t l w) = (case r of Inl _ \<Rightarrow> 1 | Inr _ \<Rightarrow> 0)
      \<and> do_work (demo_run e cl f t l w) = (case r of Inl _ \<Rightarrow> None | Inr x \<Rightarrow> Some x)"
    if "loadConfig l = Inr d" "demo_body e f t d w = (q, r)" for e cl f t l d q
    using that by (cases q; cases r) (simp_all add: demo_run_def Let_def split: prod.split)
  from out[OF assms(1) b(1)] out[OF assms(2) b(2)] show ?thesis by (cases r) simp_all
qed

text \<open>A refused configuration precedes everything: code 2, one line on the diagnostics, no log and no work.\<close>

lemma demo_refused:
  assumes "loadConfig lk = Inl e"
  shows "demo_run en close canFlush terminal lk w = \<lparr>do_code = 2, do_diagnostics = [refusal_line e], do_log = None, do_work = None\<rparr>"
  using assms by (simp add: demo_run_def)

section \<open>Witnesses\<close>

definition sample_demo_env :: demo_env where
  "sample_demo_env = \<lparr>de_pino = (\<lambda>lv j m. m), de_stamp = (\<lambda>i. Date 0), de_elapsed = (\<lambda>i. dbl_of_int 0)\<rparr>"

definition sample_v7 :: v7_world where
  "sample_v7 = \<lparr>vw_clock = (\<lambda>i. Date 0), vw_entropy = (\<lambda>i. Inr (replicate 10 0)), vw_calls = 0, vw_gen = v7_new\<rparr>"

lemma sample_v7_steady: "steady 5 sample_v7"
  by (simp add: steady_def sample_v7_def v7_inv_def v7_new_def)

definition sample_close :: "int \<Rightarrow> runtime \<Rightarrow> unit result \<times> runtime" where
  "sample_close ms rt = (Inr (), rt)"

lemma demo_work_witness:
  "\<exists>startup i first second. do_work (demo_run sample_demo_env sample_close True False (sample_env (lit ''t'')) sample_v7)
       = Some (startup, i, first, second) \<and> sp_attempt second = 2 \<and> i \<noteq> sp_scopeId second"
proof -
  have "lit ''t'' \<noteq> []" by (simp add: lit_def)
  then obtain c where c: "loadConfig (sample_env (lit ''t'')) = Inr c" using sample_env_reads by blast
  obtain startup i first second where
    d: "do_work (demo_run sample_demo_env sample_close True False (sample_env (lit ''t'')) sample_v7) = Some (startup, i, first, second)"
    using demo_runs[OF c sample_v7_steady] by (metis option.exhaust prod_cases4)
  have "v7_inv (vw_gen sample_v7)" using sample_v7_steady by (simp add: steady_def)
  from demo_work[OF d this] d show ?thesis by auto
qed

lemma demo_succeeds_witness:
  "do_code (demo_run sample_demo_env sample_close True False (sample_env (lit ''t'')) sample_v7) = 0"
proof -
  have "lit ''t'' \<noteq> []" by (simp add: lit_def)
  then obtain c where c: "loadConfig (sample_env (lit ''t'')) = Inr c" using sample_env_reads by blast
  from demo_succeeds[OF c sample_v7_steady] show ?thesis by blast
qed

theorem demo_log_independent_witness:
  "do_work (demo_run sample_demo_env sample_close True False (sample_env (lit ''t'')) sample_v7)
     = do_work (demo_run sample_demo_env sample_close False True (sample_env (lit ''u'')) sample_v7)"
proof -
  have ne: "lit ''t'' \<noteq> []" "lit ''u'' \<noteq> []" by (simp_all add: lit_def)
  obtain c where c: "loadConfig (sample_env (lit ''t'')) = Inr c" using sample_env_reads[OF ne(1)] by blast
  have "case loadConfig (sample_env (lit ''t'')) of Inl e \<Rightarrow> loadConfig (sample_env (lit ''u'')) = Inl e
    | Inr c \<Rightarrow> loadConfig (sample_env (lit ''u'')) = Inr (c\<lparr>cf_token := Secret (lit ''u'')\<rparr>)"
    by (rule config_token_hidden[where s = "lit ''t''"]) (use ne in \<open>simp_all add: sample_env_def\<close>)
  with c have d: "loadConfig (sample_env (lit ''u'')) = Inr (c\<lparr>cf_token := Secret (lit ''u'')\<rparr>)" by simp
  have "rc_name (cf_resource c) = rc_name (cf_resource (c\<lparr>cf_token := Secret (lit ''u'')\<rparr>))" by simp
  from demo_log_independent[OF c d this] show ?thesis by blast
qed

end
