(* ===== verification/Entry.thy ===== *)
theory Entry
  imports Demo EventsRoot HttpRoot
begin

text \<open>
  The scripts that call the roots with the captured environment: \<open>src/foundations.ts\<close>, \<open>src/events-example.ts\<close> and
  \<open>src/http-example.ts\<close>, with their exit codes and what they say on the diagnostics.
\<close>

definition source_unavailable :: str where
  "source_unavailable = lit ''configuration source unavailable'' @ [10]"

definition foundations_main :: "demo_env \<Rightarrow> (int \<Rightarrow> runtime \<Rightarrow> unit result \<times> runtime) \<Rightarrow> bool \<Rightarrow> bool
    \<Rightarrow> (str \<times> str option) list \<Rightarrow> v7_world \<Rightarrow> demo_outcome" where
  "foundations_main en close canFlush terminal env w = (case os env of
     Inl _ \<Rightarrow> \<lparr>do_code = 2, do_diagnostics = [source_unavailable], do_log = None, do_work = None\<rparr>
   | Inr lk \<Rightarrow> demo_run en close canFlush terminal lk w)"

definition events_main :: "'w services \<Rightarrow> bool \<Rightarrow> (str \<times> str option) list \<Rightarrow> 'w ev_world
    \<Rightarrow> (nat \<times> str list) \<times> 'w ev_world" where
  "events_main sv canFlush env s = (case os env of
     Inl _ \<Rightarrow> ((2, []), s)
   | Inr lk \<Rightarrow> (case run_events sv canFlush lk s of
       (Inr code, s') \<Rightarrow> ((code, []), s')
     | (Inl e, s') \<Rightarrow> ((2, [lit ''event configuration refused'' @ [10]]), s')))"

text \<open>The server runs until a signal; each signal then waits for the one promise of \<open>close\<close>.\<close>

datatype http_process = Exits nat "str list" | Serves http_root

definition http_main :: "start_env \<Rightarrow> (str \<times> str option) list \<Rightarrow> v7_world \<Rightarrow> http_process \<times> act_step list" where
  "http_main en env w = (case os env of
     Inl _ \<Rightarrow> (Exits 2 [source_unavailable], [])
   | Inr lk \<Rightarrow> (case startHTTP en lk w of
       (Inr root, acts) \<Rightarrow> (Serves root, acts)
     | (Inl e, acts) \<Rightarrow> (Exits 2 [lit ''configuration or HTTP startup refused'' @ [10]], acts)))"

definition http_signal :: "bool \<Rightarrow> http_process" where
  "http_signal resolved = (if resolved then Exits 0 [] else Exits 1 [lit ''HTTP shutdown failed'' @ [10]])"

section \<open>Exit codes\<close>

lemma demo_codes: "do_code (demo_run en close canFlush terminal lk w) \<in> {0, 1, 2}
    \<and> (do_code (demo_run en close canFlush terminal lk w) = 2 \<longleftrightarrow> \<not> is_ok (loadConfig lk))"
  by (auto simp: demo_run_def Let_def split: sum.split prod.split option.split)

lemma events_codes:
  assumes "run_events sv canFlush lk (start_world clk ent w) = (r, s')"
  shows "case r of Inl e \<Rightarrow> ew_steps s' = [] | Inr n \<Rightarrow> n \<in> {0, 1, 2} \<and> (n = 2 \<longleftrightarrow> ew_steps s' = [])"
  using assms
proof (cases rule: run_cases)
  case (ran c s1 q s2 xs)
  then show ?thesis by (cases q) (auto simp: body_ok_def events_close_def)
qed simp_all

text \<open>
  Exit code 2 means that nothing was done: the demonstration has no log and no work then, the event process has
  opened nothing; every other exit code is 0 or 1.
\<close>

lemma refusals_do_nothing:
  "let d = foundations_main en close canFlush terminal env v in
     do_code d \<in> {0, 1, 2} \<and> (do_code d = 2 \<longrightarrow> do_log d = None \<and> do_work d = None)"
  "let ((n, lines), s') = events_main sv canFlush env (start_world clk ent w) in n \<in> {0, 1, 2} \<and> (n = 2 \<longleftrightarrow> ew_steps s' = [])"
proof -
  show "let d = foundations_main en close canFlush terminal env v in
     do_code d \<in> {0, 1, 2} \<and> (do_code d = 2 \<longrightarrow> do_log d = None \<and> do_work d = None)"
    using demo_codes[of en close canFlush terminal _ v]
    by (cases "os env") (auto simp: foundations_main_def Let_def demo_run_def split: sum.splits prod.splits option.splits)
  show "let ((n, lines), s') = events_main sv canFlush env (start_world clk ent w) in n \<in> {0, 1, 2} \<and> (n = 2 \<longleftrightarrow> ew_steps s' = [])"
  proof (cases "os env")
    case (Inl e)
    then show ?thesis by (simp add: events_main_def start_world_def)
  next
    case (Inr lk)
    obtain r s' where r: "run_events sv canFlush lk (start_world clk ent w) = (r, s')" by fastforce
    from events_codes[OF r] Inr r show ?thesis by (cases r) (auto simp: events_main_def)
  qed
qed

end
