(* ===== verification/Spec2Isabelle.thy ===== *)
theory Spec2Isabelle
  imports Pagination Principal Pipeline EventsTables HttpSession Entry
begin

text \<open>
  A verification library for the modular NestJS code base: the TypeScript under \<open>src/src\<close>. The shared modules
  (\<open>shared/\<close>) are libraries of values and adapters; the identity module (\<open>modules/identity\<close>) is a domain on top of them; the
  roots (\<open>root/\<close>) put them together into three processes, which the scripts \<open>foundations.ts\<close>, \<open>http-example.ts\<close> and
  \<open>events-example.ts\<close> start. Every theory follows one part of the code, in the order the code has it, and opens with a text
  that names its source; this header says how they fit.

  Conventions. A string is a list of UTF-16 units (\<open>str\<close>; \<open>lit\<close> injects a literal). A JavaScript number is a \<open>number\<close>
  (\<open>Whole\<close> for the integers, with their range written out where it matters) or, where the arithmetic of doubles counts, a
  \<open>dbl\<close>. \<open>Result<T, Failure>\<close> is \<open>failure + 'a\<close>; what is thrown is a value of \<open>exn\<close>. A value that only its module's
  constructor can make is \<open>Made x\<close>, anything a caller may have forged is \<open>Forged\<close>. Maps kept in insertion order are
  association lists. A clock, a source of entropy, a driver or a peer is the environment: its answers are arguments, or
  events of a machine that may come in any order. Code between two awaits is one atomic step; what may happen in between
  is an event, so that a theorem over all lists of events speaks of all interleavings.

  \<^bold>\<open>Values and rules.\<close> \<open>Errors\<close> (\<open>shared/errors\<close>), \<open>Clock\<close> (\<open>shared/clock\<close>, \<open>shared/secret\<close>), \<open>Ids\<close> (\<open>shared/id\<close>),
  \<open>Validation\<close>, \<open>Env\<close> (\<open>shared/env\<close>), \<open>Provenance\<close> and \<open>Factory\<close> (\<open>shared/provenance\<close>), \<open>Principal\<close>
  (\<open>modules/identity/domain\<close>), \<open>Config\<close> (\<open>root/config.ts\<close>). \<open>Codec\<close> and \<open>Json\<close> are the parts of the platform the code prints
  and parses with (UTF-8, base64url, \<open>JSON.stringify\<close> and \<open>JSON.parse\<close> with doubles); \<open>Pagination\<close> is
  \<open>shared/pagination\<close> on them. Shown: identifiers of a process increase and never repeat, within a millisecond and across
  clocks that jump back; the scopes a factory opens are distinct, whatever the operations; a cursor decodes to its
  position whenever it is short enough, and the encoder makes some that are not.

  \<^bold>\<open>Logging and telemetry.\<close> \<open>Delivery\<close> (the bounded queue), \<open>Projection\<close> and \<open>Logger\<close> (\<open>shared/logger\<close>), \<open>Telemetry\<close>
  (\<open>shared/telemetry/otel/runtime.ts\<close>), \<open>Observer\<close> (\<open>shared/http/otel/observer.ts\<close>), \<open>Actions\<close> (\<open>root/logging.ts\<close> and the bridge
  for the framework). Shown: every accepted line is written, failed or pending, and secrets reach no line; the flush of
  the exporters answers once, with success only when nothing failed, and within the remaining budget; span, sample,
  record and log level of one completion agree, and nothing private of a failure is exported.

  \<^bold>\<open>HTTP and sockets.\<close> \<open>Http\<close> (\<open>shared/http/policy.ts\<close>, \<open>problem.ts\<close>, \<open>lifecycle.ts\<close>), \<open>Health\<close> (the readiness gate),
  \<open>HttpServer\<close> (\<open>shared/http/nest/server.ts\<close>, the whole path of a request as a machine), \<open>HttpClient\<close> (\<open>shared/httpclient\<close>),
  \<open>Socket\<close>, \<open>Texts\<close> and \<open>WsServer\<close> (\<open>shared/socket\<close>). Shown, under every interleaving: a request is observed once, by
  the first event that ends its response, with what was sent and selected by then; handlers, sessions and attempts stay within
  their bounds; an attempt is answered by the first event that decides it, a success with the bytes received; a session is spoken
  to one message at a time; a drain that answers true left nothing open.

  \<^bold>\<open>Events.\<close> \<open>Envelope\<close> (\<open>shared/events/index.ts\<close>), \<open>Database\<close> (\<open>shared/postgres\<close>), \<open>Outbox\<close> and \<open>Mailbox\<close>
  (\<open>shared/events/postgres/store.ts\<close> with its tables), \<open>Broker\<close> (\<open>shared/events/jetstream\<close>), \<open>Pipeline\<close> (the two composed).
  A transaction is a machine of server answers, a timer and aborts; it refines the atomic execution of its callback,
  up to the one failure that says the outcome is not known. On that contract the outbox gives an event to one
  holder at a time and at most five times, only a durable receipt marks it as sent, and the stored effects of consumers are
  those of the processed events, each once. The stream took the event of every row a dispatch into it marks
  as sent, and the mailbox holds the event of every message at the moment the stream is told to forget it. A decoded envelope is
  valid, and decodes from its own bytes again when its numbers are safe integers.

  \<^bold>\<open>Processes.\<close> \<open>Settings\<close> (the settings of the roots), \<open>Demo\<close> (\<open>root/demo.ts\<close>), \<open>EventsRoot\<close> (\<open>root/events.ts\<close> over any
  outside), \<open>EventsTables\<close> (the same over the tables and transactions above), \<open>HttpRoot\<close> and \<open>HttpSession\<close>
  (\<open>root/http.ts\<close>), \<open>Entry\<close> (the scripts). The roots are actions that an exception cuts short. Shown: settings are refused
  or valid in every range; a start of the HTTP process runs with exactly the parts its settings name, or fails in the
  way the first thing it meets calls for, with exactly what it then still holds (one of them a leak); a stop gives up every
  part once, in order, within one budget; a session only answers pings, each under a scope of its own, and answers every
  one while identifiers last; an event process closes exactly what it opened, exits with 0 only when the event it
  recorded was handled once, over either transport, and does exit with 0 over PostgreSQL from empty tables when the database and
  the clocks behave; the demonstration's result does not depend on its log.

  \<^bold>\<open>Library.\<close> \<open>Prelude\<close> holds what the theories share: strings and numbers, association lists, bounded folds, and the locale
  \<open>step_invariant\<close> (an invariant kept by every step holds after every list of events), which is interpreted on the
  gate, the delivery, transactions, sockets, the HTTP server, the outbound client and the flush. The locale of identifier
  sources (fresh and valid identifiers) with the factory on top of it is interpreted on the version 7 generator and
  on the finite sequence, and the locale \<open>transactions\<close> (an answer is the callback's and its effect is stored, or
  nothing is stored, or the answer says that it is not known) on the transaction machine; the lemmas of outbox and mailbox rest on it.
  \<open>Actions\<close> adds the two relations the roots are proved with: \<open>alike\<close> (two runs that cannot be told apart) and \<open>yields\<close> (a
  run that returns), and \<open>steady\<close>, the worlds in which identifiers do not run out.

  \<^bold>\<open>Parameters and hypotheses.\<close> Not under \<open>src/\<close> and therefore arguments: the answers of the PostgreSQL server and of its
  driver (which of them a state allows is the guard of the event), its cast of text to \<open>jsonb\<close>, the NATS connection, the
  lenient UTF-8 and base64 decoders, pino, the \<open>ws\<close> library, Express and the streams of a request, Node's HTTP client,
  the URL parser, the OpenTelemetry SDK, SHA-256. One modelling assumption is built into the transaction machine: a server
  error that answers COMMIT means the transaction was rolled back, while a broken connection leaves it open. Three more are
  hypotheses or are stated where they are used: closing the connection of the broker succeeds (\<open>events_close\<close>); the plain
  problem document that the HTTP server sends when sending failed is sent (\<open>handle_catch\<close>); and the documents of the
  stream print to what they were parsed from (\<open>stream_sound\<close>), which is proved for documents with safe integers.

  \<^bold>\<open>Bounds.\<close> Loops that the code bounds keep their bounds: 32 rounds of the event process, five attempts of an event, 64
  sessions, handlers and attempts, 65536 bytes of an event or a message. Recursion is structural or has a measure; no
  definition uses fuel. A wall clock shows instants of JavaScript, at most \<open>8640000000000000\<close> milliseconds from 1970; that
  the event process delivers is only claimed from 1970 to 9999, the range an envelope accepts. \<open>steady\<close> allows 2048 identifiers, what a version 7 generator has left in a millisecond in the worst case.

  \<^bold>\<open>Not modelled.\<close> The index files, which re-export and document; the greeting of the framework template (\<open>main.ts\<close>,
  \<open>root/app.*\<close>), which has no state; the interior of the framework, of the drivers and of the SDK; the text of the line that
  reports the listening address; queries other than those of the store. Memory, garbage and the scheduling of timers
  beyond their order do not appear. In the event process on the tables no other process works on the tables meanwhile.
\<close>

end
